(* ===== verification/Dx_Prelude.thy ===== *)
theory Dx_Prelude
  imports "HOL-Library.Word"
begin

text \<open>
  Shared vocabulary of the development: the machine integers and error numbers of the driver,
  the kernel's wrap-around clock comparisons, and the generic interfaces (transition systems,
  bounded polling loops) that the component theories interpret on their own definitions.
\<close>

unbundle bit_operations_syntax

section \<open>Machine integers and error numbers\<close>

type_synonym u8 = "8 word"
type_synonym u16 = "16 word"
type_synonym u32 = "32 word"
type_synonym u64 = "64 word"

text \<open>
  The C functions return \<open>int\<close>: zero or a positive value on success, the negated error
  number on failure.  The numbers are the ones of the Linux user-space ABI.
\<close>

abbreviation (input) EIO :: int where "EIO \<equiv> 5"
abbreviation (input) EAGAIN :: int where "EAGAIN \<equiv> 11"
abbreviation (input) ENOMEM :: int where "ENOMEM \<equiv> 12"
abbreviation (input) EFAULT :: int where "EFAULT \<equiv> 14"
abbreviation (input) EBUSY :: int where "EBUSY \<equiv> 16"
abbreviation (input) EEXIST :: int where "EEXIST \<equiv> 17"
abbreviation (input) ENODEV :: int where "ENODEV \<equiv> 19"
abbreviation (input) EINVAL :: int where "EINVAL \<equiv> 22"
abbreviation (input) ENOENT :: int where "ENOENT \<equiv> 2"
abbreviation (input) ENODATA :: int where "ENODATA \<equiv> 61"
abbreviation (input) ECOMM :: int where "ECOMM \<equiv> 70"
abbreviation (input) ETIMEDOUT :: int where "ETIMEDOUT \<equiv> 110"
abbreviation (input) ECANCELED :: int where "ECANCELED \<equiv> 125"
abbreviation (input) ERESTARTSYS :: int where "ERESTARTSYS \<equiv> 512"

text \<open>Collections that the component theories fill and that \<open>simp add:\<close> carries.\<close>

named_theorems io_simps \<open>field accessors and memory reads over memory writes\<close>
named_theorems fsm_simps \<open>effect of the state-machine operations on the fields they write\<close>

section \<open>The kernel clock\<close>

text \<open>
  \<open>time_after\<close> and its relatives of \<open>linux/jiffies.h\<close> on a 64-bit \<open>unsigned long\<close>: the
  difference is read as a signed number, so a comparison survives one wrap-around.
\<close>

definition time_after :: "u64 \<Rightarrow> u64 \<Rightarrow> bool" where
  "time_after a b \<longleftrightarrow> sint (b - a) < 0"

definition time_before :: "u64 \<Rightarrow> u64 \<Rightarrow> bool" where
  "time_before a b \<longleftrightarrow> time_after b a"

definition time_after_eq :: "u64 \<Rightarrow> u64 \<Rightarrow> bool" where
  "time_after_eq a b \<longleftrightarrow> 0 \<le> sint (a - b)"

text \<open>Milliseconds to ticks of a kernel built with \<open>hz\<close> ticks per second, rounded up.\<close>

definition msecs_to_jiffies :: "nat \<Rightarrow> u32 \<Rightarrow> u64" where
  "msecs_to_jiffies hz m = of_nat ((unat m * hz + 999) div 1000)"

lemma sint_word_of_int64:
  "- (2 ^ 63) \<le> k \<Longrightarrow> k < 2 ^ 63 \<Longrightarrow> sint (word_of_int k :: u64) = k"
  by (simp add: sint_sbintrunc' signed_take_bit_int_eq_self)

text \<open>
  Two instants less than \<open>2 ^ 62\<close> ticks after a common start compare by the time elapsed since
  that start, whatever the start is: the comparison does not see the wrap-around.
\<close>

lemma sint_diff64:
  assumes "uint (a - s) < 2 ^ 62" "uint (b - s) < 2 ^ 62"
  shows "sint (a - b :: u64) = uint (a - s) - uint (b - s)"
proof -
  define x y where "x = uint (a - s)" and "y = uint (b - s)"
  have b: "0 \<le> x" "x < 4611686018427387904" "0 \<le> y" "y < 4611686018427387904"
    using assms by (simp_all add: x_def y_def)
  have "a - b = word_of_int (x - y)" by (simp add: x_def y_def)
  moreover have "- (2 ^ 63) \<le> x - y" "x - y < 2 ^ 63" using b by simp_all
  ultimately have "sint (a - b) = x - y" using sint_word_of_int64 by metis
  then show ?thesis by (simp add: x_def y_def)
qed

lemma time_after_eq_elapsed:
  assumes "uint (a - s) < 2 ^ 62" "uint (b - s) < 2 ^ 62"
  shows "time_after_eq a b \<longleftrightarrow> uint (b - s) \<le> uint (a - s)"
  by (simp add: time_after_eq_def sint_diff64 [OF assms])

lemma time_after_elapsed:
  assumes "uint (a - s) < 2 ^ 62" "uint (b - s) < 2 ^ 62"
  shows "time_after a b \<longleftrightarrow> uint (b - s) < uint (a - s)"
  by (simp add: time_after_def sint_diff64 [OF assms(2,1)])

lemma time_after_irrefl [simp]: "\<not> time_after a a"
  by (simp add: time_after_def)

lemma time_after_eq_refl [simp]: "time_after_eq a a"
  by (simp add: time_after_eq_def)

section \<open>Transition systems and their invariants\<close>

text \<open>
  The interface between a component's step relation and a safety property: an invariant that
  holds at the start and that every step keeps.  The consequence for runs is proved once.
\<close>

locale trans_inv =
  fixes step :: "'s \<Rightarrow> 's \<Rightarrow> bool"
    and inv :: "'s \<Rightarrow> bool"
  assumes step_inv: "step s t \<Longrightarrow> inv s \<Longrightarrow> inv t"
begin

lemma run_inv: "step\<^sup>*\<^sup>* s t \<Longrightarrow> inv s \<Longrightarrow> inv t"
  by (induction rule: rtranclp_induct) (auto intro: step_inv)

end

section \<open>Bounded polling loops\<close>

text \<open>
  Every busy-wait of the driver has the same shape: let the device act (\<open>step\<close>), look at the
  registers (\<open>verdict\<close>), leave the loop if they decide, count down otherwise, and end with
  \<open>fin\<close> when the count is used up.  What such a loop returns is determined by the first
  observation that decides.
\<close>

locale poll_loop =
  fixes loop :: "nat \<Rightarrow> 's \<Rightarrow> 'r \<times> 's"
    and step :: "'s \<Rightarrow> 's"
    and verdict :: "'s \<Rightarrow> 'r option"
    and fin :: "'s \<Rightarrow> 'r \<times> 's"
  assumes loop_0: "loop 0 s = fin s"
    and loop_Suc: "loop (Suc n) s =
      (case verdict (step s) of Some r \<Rightarrow> (r, step s) | None \<Rightarrow> loop n (step s))"
begin

lemma loop_timeout:
  "\<forall>k \<in> {1..n}. verdict ((step ^^ k) s) = None \<Longrightarrow> loop n s = fin ((step ^^ n) s)"
proof (induction n arbitrary: s)
  case 0
  then show ?case by (simp add: loop_0)
next
  case (Suc n)
  have all: "verdict ((step ^^ Suc k) s) = None" if "k \<le> n" for k
    using Suc.prems that by (simp del: funpow.simps)
  then have "verdict (step s) = None" using all [of 0] by simp
  moreover have "\<forall>k \<in> {1..n}. verdict ((step ^^ k) (step s)) = None"
    using all by (simp add: funpow_swap1)
  ultimately show ?case using Suc.IH by (simp add: loop_Suc funpow_swap1)
qed

lemma loop_hit:
  assumes "1 \<le> k" "k \<le> n" "\<forall>j \<in> {1..<k}. verdict ((step ^^ j) s) = None"
    and "verdict ((step ^^ k) s) = Some r"
  shows "loop n s = (r, (step ^^ k) s)"
  using assms
proof (induction n arbitrary: s k)
  case 0
  then show ?case by simp
next
  case (Suc n)
  show ?case
  proof (cases "k = 1")
    case True
    with Suc.prems show ?thesis by (simp add: loop_Suc)
  next
    case False
    with Suc.prems(1) obtain i where k: "k = Suc i" "1 \<le> i" by (cases k) auto
    have "1 \<in> {1..<k}" using k by simp
    then have "verdict ((step ^^ 1) s) = None" using Suc.prems(3) by blast
    then have none: "verdict (step s) = None" by simp
    have "\<forall>j \<in> {1..<i}. verdict ((step ^^ j) (step s)) = None"
    proof
      fix j assume "j \<in> {1..<i}"
      then have "Suc j \<in> {1..<k}" using k by simp
      then have "verdict ((step ^^ Suc j) s) = None" using Suc.prems(3) by blast
      then show "verdict ((step ^^ j) (step s)) = None" by (simp add: funpow_swap1)
    qed
    moreover have "verdict ((step ^^ i) (step s)) = Some r"
      using Suc.prems(4) k by (simp add: funpow_swap1)
    ultimately have "loop n (step s) = (r, (step ^^ i) (step s))"
      using Suc.IH [of i "step s"] Suc.prems(2) k by simp
    then show ?thesis using none k by (simp add: loop_Suc funpow_swap1)
  qed
qed

lemma loop_cases:
  obtains (hit) k r where "1 \<le> k" "k \<le> n" "\<forall>j \<in> {1..<k}. verdict ((step ^^ j) s) = None"
      "verdict ((step ^^ k) s) = Some r" "loop n s = (r, (step ^^ k) s)"
  | (timeout) "\<forall>k \<in> {1..n}. verdict ((step ^^ k) s) = None" "loop n s = fin ((step ^^ n) s)"
proof (cases "\<forall>k \<in> {1..n}. verdict ((step ^^ k) s) = None")
  case True
  then show thesis using timeout loop_timeout by blast
next
  case False
  define P where "P k \<longleftrightarrow> k \<in> {1..n} \<and> verdict ((step ^^ k) s) \<noteq> None" for k
  from False have "\<exists>k. P k" by (auto simp: P_def)
  then obtain k where k: "P k" and least: "\<forall>j < k. \<not> P j"
    using exists_least_iff [of P] by blast
  from k obtain r where r: "verdict ((step ^^ k) s) = Some r" by (auto simp: P_def)
  have bnd: "1 \<le> k" "k \<le> n" using k by (simp_all add: P_def)
  have "\<forall>j \<in> {1..<k}. verdict ((step ^^ j) s) = None"
    using least bnd(2) by (simp add: P_def)
  then show thesis using hit [of k r] loop_hit [of k n s r] r bnd by blast
qed

end

section \<open>Loops with a deadline\<close>

text \<open>
  A loop that sleeps until a condition decides or the clock passes its deadline.  \<open>verdict\<close> is what
  one round of the body decides; the loop promises to decide in a round that starts and ends after
  the deadline.  Such a loop returns whenever the clock makes progress, and what it returns is the verdict of the
  first round that decides.
\<close>

locale deadline_loop =
  fixes loop :: "'s \<Rightarrow> 'r option"
    and step :: "'s \<Rightarrow> 's"
    and verdict :: "'s \<Rightarrow> 'r option"
    and clock :: "'s \<Rightarrow> u64"
    and deadline :: u64
  assumes loop_unfold: "loop s = (case verdict s of Some r \<Rightarrow> Some r | None \<Rightarrow> loop (step s))"
    and expired: "time_after_eq (clock s) deadline \<Longrightarrow> time_after_eq (clock (step s)) deadline \<Longrightarrow>
      verdict s \<noteq> None"
begin

lemma loop_decides:
  "\<forall>j < k. verdict ((step ^^ j) s) = None \<Longrightarrow> verdict ((step ^^ k) s) = Some r \<Longrightarrow> loop s = Some r"
proof (induction k arbitrary: s)
  case 0
  then show ?case by (subst loop_unfold) simp
next
  case (Suc k)
  have "verdict s = None" using Suc.prems(1) by (metis funpow_0 zero_less_Suc)
  moreover have "\<forall>j < k. verdict ((step ^^ j) (step s)) = None"
    using Suc.prems(1) by (metis Suc_mono funpow_Suc_right o_apply)
  moreover have "verdict ((step ^^ k) (step s)) = Some r"
    using Suc.prems(2) by (simp add: funpow_swap1)
  ultimately show ?case using Suc.IH by (subst loop_unfold) simp
qed

lemma before_distance:
  assumes "\<not> time_after_eq (clock s) deadline"
  shows "uint (deadline - clock s) \<le> 2 ^ 63"
proof (rule ccontr)
  define x where "x = uint (deadline - clock s)"
  assume "\<not> uint (deadline - clock s) \<le> 2 ^ 63"
  moreover have "uint (deadline - clock s) < 2 ^ LENGTH(64)" by (rule unsigned_less)
  ultimately have b: "9223372036854775808 < x" "x < 18446744073709551616" by (simp_all add: x_def)
  have "word_of_int (18446744073709551616 - x) = (word_of_int (- x) :: u64)"
    by (simp add: word_of_int_minus)
  also have "\<dots> = clock s - deadline" by (simp add: x_def)
  finally have "sint (clock s - deadline) = 18446744073709551616 - x"
    using b sint_word_of_int64 [of "18446744073709551616 - x"] by simp
  then show False using assms b by (simp add: time_after_eq_def)
qed

lemma clock_step:
  assumes "\<not> time_after_eq (clock s) deadline"
    and "uint (clock t - clock s) < 2 ^ 32" "1 \<le> uint (clock t - clock s)"
  shows "(time_after_eq (clock t) deadline \<and> uint (clock t - deadline) < 2 ^ 32) \<or>
    (\<not> time_after_eq (clock t) deadline \<and> uint (deadline - clock t) < uint (deadline - clock s))"
proof -
  define x y where "x = uint (deadline - clock s)" and "y = uint (clock t - clock s)"
  have b: "x \<le> 9223372036854775808" "1 \<le> y" "y < 4294967296" "0 \<le> x"
    using assms before_distance by (simp_all add: x_def y_def)
  have e: "clock t - deadline = word_of_int (y - x)" by (simp add: x_def y_def)
  have s: "sint (clock t - deadline) = y - x"
    unfolding e using b by (intro sint_word_of_int64) simp_all
  show ?thesis
  proof (cases "y < x")
    case True
    then have "(x - y) mod 18446744073709551616 = x - y" using b by (intro mod_pos_pos_trivial) simp_all
    moreover have "deadline - clock t = word_of_int (x - y)" by (simp add: x_def y_def)
    ultimately have "uint (deadline - clock t) = x - y" by (simp only: uint_word_of_int) simp
    then show ?thesis using b s True by (simp add: x_def time_after_eq_def)
  next
    case False
    then have "(y - x) mod 18446744073709551616 = y - x" using b by (intro mod_pos_pos_trivial) simp_all
    then have "uint (clock t - deadline) = y - x" unfolding e by (simp only: uint_word_of_int) simp
    then show ?thesis using s False b by (simp add: time_after_eq_def)
  qed
qed

lemma expired_stays:
  assumes "uint (c - deadline) < 2 ^ 32" "uint (c' - c) < 2 ^ 32"
  shows "time_after_eq c' deadline"
proof -
  define x y where "x = uint (c - deadline)" and "y = uint (c' - c)"
  have b: "0 \<le> x" "x < 4294967296" "0 \<le> y" "y < 4294967296" using assms by (simp_all add: x_def y_def)
  moreover have "c' - deadline = word_of_int (x + y)" by (simp add: x_def y_def)
  ultimately have "sint (c' - deadline) = x + y" using sint_word_of_int64 [of "x + y"] by simp
  then show ?thesis using b by (simp add: time_after_eq_def)
qed

definition decides :: "'s \<Rightarrow> bool" where
  "decides s \<longleftrightarrow> (\<exists>k r. (\<forall>j < k. verdict ((step ^^ j) s) = None) \<and> verdict ((step ^^ k) s) = Some r)"

lemma decides_now: "verdict s \<noteq> None \<Longrightarrow> decides s"
  unfolding decides_def by (intro exI [of _ 0]) auto

lemma decides_later: "decides (step s) \<Longrightarrow> decides s"
proof (cases "verdict s")
  case None
  assume "decides (step s)"
  then obtain k r where "\<forall>j < k. verdict ((step ^^ j) (step s)) = None"
    "verdict ((step ^^ k) (step s)) = Some r" unfolding decides_def by blast
  then have "\<forall>j < Suc k. verdict ((step ^^ j) s) = None" "verdict ((step ^^ Suc k) s) = Some r"
    using None by (auto simp: less_Suc_eq_0_disj funpow_swap1)
  then show ?thesis unfolding decides_def by blast
qed (simp add: decides_now)

lemma decides_before:
  assumes clk: "\<And>s. 1 \<le> uint (clock (step s) - clock s) \<and> uint (clock (step s) - clock s) < 2 ^ 32"
  shows "\<not> time_after_eq (clock s) deadline \<Longrightarrow> decides s"
proof (induction "unat (deadline - clock s)" arbitrary: s rule: less_induct)
  case less
  consider (pass) "time_after_eq (clock (step s)) deadline" "uint (clock (step s) - deadline) < 2 ^ 32"
    | (wait) "\<not> time_after_eq (clock (step s)) deadline"
      "uint (deadline - clock (step s)) < uint (deadline - clock s)"
    using clock_step [OF less.prems] clk [of s] by blast
  then show ?case
  proof cases
    case pass
    then have "time_after_eq (clock (step (step s))) deadline"
      using expired_stays clk [of "step s"] by blast
    then show ?thesis using pass expired decides_now decides_later by blast
  next
    case wait
    then have "unat (deadline - clock (step s)) < unat (deadline - clock s)"
      by (simp only: word_less_nat_alt [symmetric] word_less_def)
    then show ?thesis using less.hyps wait decides_later by blast
  qed
qed

text \<open>The loop returns from every state, whatever the deadline is.\<close>

lemma terminates:
  assumes "\<And>s. 1 \<le> uint (clock (step s) - clock s) \<and> uint (clock (step s) - clock s) < 2 ^ 32"
  shows "\<exists>k r. verdict ((step ^^ k) s) = Some r \<and> loop s = Some r"
proof -
  have "decides s"
    using decides_before [OF assms, of s] decides_before [OF assms, of "step s"] expired decides_now decides_later
    by blast
  then show ?thesis unfolding decides_def using loop_decides by blast
qed

end

section \<open>Loops that sleep\<close>

text \<open>
  A loop that changes the state only by sleeping: if it returns, the state it returns is one the
  scheduler has produced from the first.  Whatever every scheduling point keeps, it keeps.
\<close>

locale sleeping_loop =
  fixes loop :: "'s \<Rightarrow> ('r \<times> 's) option"
    and step :: "'s \<Rightarrow> 's"
  assumes ends: "loop s = Some p \<Longrightarrow> \<exists>k. snd p = (step ^^ k) s"
begin

lemma keeps:
  assumes "\<And>s. P s \<Longrightarrow> P (step s)" "P s" "loop s = Some p"
  shows "P (snd p)"
proof -
  obtain k where "snd p = (step ^^ k) s" using ends assms(3) by blast
  moreover have "P ((step ^^ k) s)" using assms(1,2) by (induction k) simp_all
  ultimately show ?thesis by simp
qed

end

text \<open>The ways a round of such a loop ends.\<close>

lemma iterate_now: "t = s \<Longrightarrow> \<exists>k. t = (f ^^ k) s"
  by (rule exI [of _ 0]) simp

lemma iterate_later: "\<exists>k. t = (f ^^ k) (f s) \<Longrightarrow> \<exists>k. t = (f ^^ k) s"
  by (metis funpow_Suc_right o_apply)

lemma iterate_once: "\<exists>k. f s = ((f :: 'a \<Rightarrow> 'a) ^^ k) s"
  by (rule iterate_later) (rule iterate_now, rule refl)

end
