(* ===== verification/Dx_Mmio.thy ===== *)
theory Dx_Mmio
  imports Dx_Prelude
begin

text \<open>
  The machine under the driver: the byte-addressed message RAM behind the PCIe BAR, the
  32-bit MMIO copy helpers of \<^verbatim>\<open>include/dx_mmio_compat.h\<close> as lists of bus accesses, user memory with
  faults, and the environment (firmware, clock, other threads) that acts at every scheduling
  point of the modelled thread.
\<close>

section \<open>Message RAM\<close>

text \<open>
  An \<open>__iomem\<close> pointer into \<open>npu_region[0]\<close> is an offset from the start of the region, which
  is page aligned, so the offset decides alignment.  \<open>NULL\<close> is \<open>None\<close>.
\<close>

type_synonym mmio = "nat \<Rightarrow> u8"
type_synonym iomem = "nat option"

definition le32 :: "u8 \<Rightarrow> u8 \<Rightarrow> u8 \<Rightarrow> u8 \<Rightarrow> u32" where
  "le32 b0 b1 b2 b3 =
     ucast b0 OR push_bit 8 (ucast b1) OR push_bit 16 (ucast b2) OR push_bit 24 (ucast b3)"

definition byte32 :: "nat \<Rightarrow> u32 \<Rightarrow> u8" where
  "byte32 i v = ucast (drop_bit (8 * i) v)"

definition readb :: "mmio \<Rightarrow> nat \<Rightarrow> u8" where
  "readb m a = m a"

definition readl :: "mmio \<Rightarrow> nat \<Rightarrow> u32" where
  "readl m a = le32 (m a) (m (a + 1)) (m (a + 2)) (m (a + 3))"

definition readw :: "mmio \<Rightarrow> nat \<Rightarrow> u16" where
  "readw m a = ucast (m a) OR push_bit 8 (ucast (m (a + 1)))"

definition writeb :: "u8 \<Rightarrow> nat \<Rightarrow> mmio \<Rightarrow> mmio" where
  "writeb v a m = m(a := v)"

definition writel :: "u32 \<Rightarrow> nat \<Rightarrow> mmio \<Rightarrow> mmio" where
  "writel v a m =
     m(a := byte32 0 v, a + 1 := byte32 1 v, a + 2 := byte32 2 v, a + 3 := byte32 3 v)"

lemma le32_bytes [simp]: "le32 (byte32 0 v) (byte32 (Suc 0) v) (byte32 2 v) (byte32 3 v) = v"
proof (rule bit_word_eqI)
  fix n :: nat
  assume n: "n < LENGTH(32)"
  then consider "n < 8" | "8 \<le> n" "n < 16" | "16 \<le> n" "n < 24" | "24 \<le> n" "n < 32" by force
  then show "bit (le32 (byte32 0 v) (byte32 (Suc 0) v) (byte32 2 v) (byte32 3 v)) n \<longleftrightarrow> bit v n"
    by cases (auto simp: le32_def byte32_def bit_simps)
qed

lemma byte32_le32 [simp]:
  "byte32 0 (le32 b0 b1 b2 b3) = b0" "byte32 (Suc 0) (le32 b0 b1 b2 b3) = b1"
  "byte32 2 (le32 b0 b1 b2 b3) = b2" "byte32 3 (le32 b0 b1 b2 b3) = b3"
  unfolding le32_def byte32_def
  by (rule bit_word_eqI; auto simp: bit_simps dest: bit_imp_le_length)+

lemma readl_writel_same [simp, io_simps]: "readl (writel v a m) a = v"
  by (simp add: readl_def writel_def)

lemma readl_writel_other [io_simps]:
  "a + 4 \<le> b \<or> b + 4 \<le> a \<Longrightarrow> readl (writel v a m) b = readl m b"
  by (auto simp: readl_def writel_def)

lemma writel_other [io_simps]: "b < a \<or> a + 4 \<le> b \<Longrightarrow> writel v a m b = m b"
  by (auto simp: writel_def)

lemma readl_cong: "(\<And>i. i < 4 \<Longrightarrow> m (a + i) = m' (a + i)) \<Longrightarrow> readl m a = readl m' a"
  unfolding readl_def by (metis One_nat_def add.right_neutral less_numeral_extra(1) numeral_One
      numeral_less_iff one_less_numeral_iff semiring_norm(76) semiring_norm(77)
      semiring_norm(78) semiring_norm(81) zero_less_numeral)

section \<open>The 32-bit copy helpers\<close>

text \<open>
  A helper is modelled by the bus accesses it makes, in order; the memory it leaves is the
  effect of those accesses.  The first loop runs while at least four bytes are left and the
  device address is word aligned, the second one finishes byte by byte.
\<close>

datatype mmio_op = WriteL nat u32 | WriteB nat u8

fun apply_op :: "mmio \<Rightarrow> mmio_op \<Rightarrow> mmio" where
  "apply_op m (WriteL a v) = writel v a m"
| "apply_op m (WriteB a v) = writeb v a m"

definition apply_ops :: "mmio \<Rightarrow> mmio_op list \<Rightarrow> mmio" where
  "apply_ops = foldl apply_op"

fun toio8_ops :: "nat \<Rightarrow> u8 list \<Rightarrow> mmio_op list" where
  "toio8_ops d [] = []"
| "toio8_ops d (b # bs) = WriteB d b # toio8_ops (d + 1) bs"

fun toio32_ops :: "nat \<Rightarrow> u8 list \<Rightarrow> mmio_op list" where
  "toio32_ops d (b0 # b1 # b2 # b3 # bs) =
     (if d mod 4 = 0 then WriteL d (le32 b0 b1 b2 b3) # toio32_ops (d + 4) bs
      else toio8_ops d (b0 # b1 # b2 # b3 # bs))"
| "toio32_ops d bs = toio8_ops d bs"

definition dx_memcpy_toio32 :: "nat \<Rightarrow> u8 list \<Rightarrow> mmio \<Rightarrow> mmio" where
  "dx_memcpy_toio32 dest src m = apply_ops m (toio32_ops dest src)"

fun fromio8 :: "mmio \<Rightarrow> nat \<Rightarrow> nat \<Rightarrow> u8 list" where
  "fromio8 m s 0 = []"
| "fromio8 m s (Suc n) = readb m s # fromio8 m (s + 1) n"

fun dx_memcpy_fromio32 :: "mmio \<Rightarrow> nat \<Rightarrow> nat \<Rightarrow> u8 list" where
  "dx_memcpy_fromio32 m src n =
     (if 4 \<le> n \<and> src mod 4 = 0
      then (let v = readl m src in
              [byte32 0 v, byte32 1 v, byte32 2 v, byte32 3 v]
              @ dx_memcpy_fromio32 m (src + 4) (n - 4))
      else fromio8 m src n)"

declare dx_memcpy_fromio32.simps [simp del]

text \<open>\<open>val32 |= val32 << 8; val32 |= val32 << 16\<close>, then words and bytes of that value.\<close>

definition memset_val32 :: "u8 \<Rightarrow> u32" where
  "memset_val32 v =
     (let v0 = ucast v; v1 = v0 OR push_bit 8 v0 in v1 OR push_bit 16 v1)"

fun memset32_ops :: "nat \<Rightarrow> u8 \<Rightarrow> nat \<Rightarrow> mmio_op list" where
  "memset32_ops d v (Suc (Suc (Suc (Suc n)))) =
     (if d mod 4 = 0 then WriteL d (memset_val32 v) # memset32_ops (d + 4) v n
      else toio8_ops d (replicate (Suc (Suc (Suc (Suc n)))) v))"
| "memset32_ops d v n = toio8_ops d (replicate n v)"

definition dx_memset_io32 :: "nat \<Rightarrow> u8 \<Rightarrow> nat \<Rightarrow> mmio \<Rightarrow> mmio" where
  "dx_memset_io32 dest v n m = apply_ops m (memset32_ops dest v n)"

text \<open>The reference: the bytes of a buffer laid over the memory.\<close>

definition mcopy :: "nat \<Rightarrow> u8 list \<Rightarrow> mmio \<Rightarrow> mmio" where
  "mcopy d bs m = (\<lambda>a. if d \<le> a \<and> a < d + length bs then bs ! (a - d) else m a)"

lemma mcopy_Nil [simp]: "mcopy d [] m = m"
  by (rule ext) (auto simp: mcopy_def)

lemma mcopy_append: "mcopy (d + length xs) ys (mcopy d xs m) = mcopy d (xs @ ys) m"
  by (rule ext) (auto simp: mcopy_def nth_append)

lemma writeb_mcopy: "writeb v a m = mcopy a [v] m"
  by (rule ext) (auto simp: mcopy_def writeb_def)

lemma nth4: "i < 4 \<Longrightarrow> [a, b, c, d] ! i = (if i = 0 then a else if i = 1 then b else if i = 2 then c else d)"
  by (auto simp: less_Suc_eq numeral_eq_Suc)

lemma writel_mcopy: "writel v a m = mcopy a [byte32 0 v, byte32 1 v, byte32 2 v, byte32 3 v] m"
proof (rule ext)
  fix x
  show "writel v a m x = mcopy a [byte32 0 v, byte32 1 v, byte32 2 v, byte32 3 v] m x"
    by (cases "a \<le> x \<and> x < a + 4") (auto simp: mcopy_def writel_def nth4)
qed

lemma apply_ops_simps [simp]:
  "apply_ops m [] = m" "apply_ops m (x # xs) = apply_ops (apply_op m x) xs"
  by (simp_all add: apply_ops_def)

lemma toio8_mcopy: "apply_ops m (toio8_ops d bs) = mcopy d bs m"
proof (induction bs arbitrary: d m)
  case (Cons b bs)
  then show ?case using mcopy_append [of d "[b]" bs m] by (simp add: writeb_mcopy)
qed simp

lemma toio32_mcopy: "apply_ops m (toio32_ops d bs) = mcopy d bs m"
proof (induction d bs arbitrary: m rule: toio32_ops.induct)
  case (1 d b0 b1 b2 b3 bs)
  show ?case
  proof (cases "d mod 4 = 0")
    case True
    have "mcopy (d + 4) bs (mcopy d [b0, b1, b2, b3] m) = mcopy d (b0 # b1 # b2 # b3 # bs) m"
      using mcopy_append [of d "[b0, b1, b2, b3]" bs m] by (simp add: numeral_eq_Suc)
    with True 1 show ?thesis by (simp add: writel_mcopy)
  next
    case False
    then show ?thesis using toio8_mcopy [of m d "b0 # b1 # b2 # b3 # bs"]
      by (simp del: toio8_ops.simps)
  qed
qed (simp_all add: toio8_mcopy del: toio8_ops.simps)

lemma dx_memcpy_toio32_eq: "dx_memcpy_toio32 d bs m = mcopy d bs m"
  by (simp add: dx_memcpy_toio32_def toio32_mcopy)

lemma fromio8_eq: "fromio8 m s n = map m [s..<s + n]"
  by (induction n arbitrary: s) (auto simp: readb_def upt_conv_Cons simp del: upt_Suc)

lemma upt4: "[s..<s + 4] = [s, s + 1, s + 2, s + 3]"
  by (simp add: numeral_eq_Suc)

lemma dx_memcpy_fromio32_eq: "dx_memcpy_fromio32 m s n = map m [s..<s + n]"
proof (induction m s n rule: dx_memcpy_fromio32.induct)
  case (1 m s n)
  show ?case
  proof (cases "4 \<le> n \<and> s mod 4 = 0")
    case True
    have "[s..<s + n] = [s, s + 1, s + 2, s + 3] @ [s + 4..<s + n]"
      using True upt_add_eq_append [of s "s + 4" "n - 4"] by (simp add: upt4 del: upt_add_eq_append)
    moreover have "dx_memcpy_fromio32 m (s + 4) (n - 4) = map m [s + 4..<s + n]"
      using 1 True by simp
    ultimately show ?thesis
      using True by (subst dx_memcpy_fromio32.simps) (simp add: readl_def Let_def)
  next
    case False
    then show ?thesis by (subst dx_memcpy_fromio32.simps) (auto simp: fromio8_eq)
  qed
qed


lemma memset_val32_bytes: "memset_val32 v = le32 v v v v"
proof (rule bit_word_eqI)
  fix n :: nat
  assume n: "n < LENGTH(32)"
  then consider "n < 8" | "8 \<le> n" "n < 16" | "16 \<le> n" "n < 24" | "24 \<le> n" "n < 32" by force
  then show "bit (memset_val32 v) n \<longleftrightarrow> bit (le32 v v v v) n"
    by cases (auto simp: memset_val32_def le32_def Let_def bit_simps dest: bit_imp_le_length)
qed

lemma memset32_ops_toio32: "memset32_ops d v n = toio32_ops d (replicate n v)"
  by (induction d v n rule: memset32_ops.induct) (simp_all add: memset_val32_bytes)

lemma dx_memset_io32_eq: "dx_memset_io32 d v n m = mcopy d (replicate n v) m"
  by (simp add: dx_memset_io32_def memset32_ops_toio32 toio32_mcopy)

lemma mcopy_other [io_simps]: "a < d \<or> d + length bs \<le> a \<Longrightarrow> mcopy d bs m a = m a"
  by (auto simp: mcopy_def)

lemma mcopy_in: "i < length bs \<Longrightarrow> mcopy d bs m (d + i) = bs ! i"
  by (simp add: mcopy_def)

lemma readl_mcopy_other [io_simps]:
  "a + 4 \<le> d \<or> d + length bs \<le> a \<Longrightarrow> readl (mcopy d bs m) a = readl m a"
  by (rule readl_cong) (auto simp: mcopy_def)

lemma map_mcopy_same: "map (mcopy d bs m) [d..<d + length bs] = bs"
  by (rule nth_equalityI) (simp_all add: mcopy_in)

text \<open>Which accesses the helper makes, and how many.\<close>

fun op_aligned :: "mmio_op \<Rightarrow> bool" where
  "op_aligned (WriteL a v) = (a mod 4 = 0)"
| "op_aligned (WriteB a v) = True"

fun is_word_op :: "mmio_op \<Rightarrow> bool" where
  "is_word_op (WriteL a v) = True"
| "is_word_op (WriteB a v) = False"

lemma toio8_ops_props:
  "list_all op_aligned (toio8_ops d bs)" "filter is_word_op (toio8_ops d bs) = []"
  "length (toio8_ops d bs) = length bs"
  by (induction bs arbitrary: d) simp_all

lemma toio32_ops_aligned: "list_all op_aligned (toio32_ops d bs)"
  by (induction d bs rule: toio32_ops.induct)
     (simp_all add: toio8_ops_props del: toio8_ops.simps)

lemma toio32_ops_count:
  assumes "d mod 4 = 0"
  shows "length (filter is_word_op (toio32_ops d bs)) = length bs div 4 \<and>
    length (toio32_ops d bs) = length bs div 4 + length bs mod 4"
  using assms
proof (induction d bs rule: toio32_ops.induct)
  case (1 d b0 b1 b2 b3 bs)
  then have "length (filter is_word_op (toio32_ops (d + 4) bs)) = length bs div 4"
    "length (toio32_ops (d + 4) bs) = length bs div 4 + length bs mod 4" by simp_all
  with 1 show ?case by simp
qed simp_all

lemma toio32_ops_unaligned: "d mod 4 \<noteq> 0 \<Longrightarrow> toio32_ops d bs = toio8_ops d bs"
  by (induction d bs rule: toio32_ops.induct) (simp_all del: toio8_ops.simps)

text \<open>
  (C37) The three 32-bit MMIO helpers are byte-exact: writing a buffer lays exactly its bytes over the
  device memory, filling writes the value everywhere, and reading the range back yields the
  buffer, for every address, aligned or not, and every length.
\<close>

theorem mmio_copy_exact:
  "dx_memcpy_toio32 d bs m = mcopy d bs m \<and>
   dx_memset_io32 d v n m = mcopy d (replicate n v) m \<and>
   dx_memcpy_fromio32 (dx_memcpy_toio32 d bs m) d (length bs) = bs"
  by (simp add: dx_memcpy_toio32_eq dx_memset_io32_eq dx_memcpy_fromio32_eq map_mcopy_same)

text \<open>
  The write helper never issues a misaligned word access.  From an aligned address it uses word
  accesses for all but the last \<open>length mod 4\<close> bytes; from an unaligned one it uses byte accesses
  throughout.  The fill helper makes the same accesses as copying a constant buffer.
\<close>

theorem mmio_access_shape:
  "list_all op_aligned (toio32_ops d bs) \<and>
   length (filter is_word_op (toio32_ops d bs)) = (if d mod 4 = 0 then length bs div 4 else 0) \<and>
   length (toio32_ops d bs) =
     (if d mod 4 = 0 then length bs div 4 + length bs mod 4 else length bs) \<and>
   memset32_ops d v n = toio32_ops d (replicate n v)"
  by (simp add: toio32_ops_aligned toio32_ops_count toio32_ops_unaligned toio8_ops_props
      memset32_ops_toio32)

section \<open>The machine state seen by one thread\<close>

text \<open>
  \<^item> \<open>bar\<close>: the bytes of \<open>npu_region[0]\<close>, shared with the firmware;
  \<^item> \<open>jiffies\<close>: the kernel clock; \<open>tick\<close>: how many scheduling points the thread has passed;
  \<^item> \<open>sigpend\<close>: a signal is pending for the thread;
  \<^item> \<open>umem\<close>: user memory, \<open>None\<close> where an access faults;
  \<^item> \<open>alloc_ok\<close>: whether the next \<open>kmalloc\<close> succeeds.
  The records of the components extend this one.
\<close>

record io =
  bar :: mmio
  jiffies :: u64
  tick :: nat
  sigpend :: bool
  umem :: "u64 \<Rightarrow> u8 option"
  alloc_ok :: bool

text \<open>
  The environment is everything the thread does not do itself: firmware writes, the clock,
  interrupts and other threads.  It acts at each scheduling point (a delay, a sleep, a read of a
  register that is being polled), the \<open>k\<close>-th time by \<open>E k\<close>.
\<close>

type_synonym 'a env = "nat \<Rightarrow> 'a io_scheme \<Rightarrow> 'a io_scheme"

definition yield :: "'a env \<Rightarrow> 'a io_scheme \<Rightarrow> 'a io_scheme" where
  "yield E s = (E (tick s) s)\<lparr>tick := Suc (tick s)\<rparr>"

lemma tick_yield [simp]: "tick (yield E s) = Suc (tick s)"
  by (simp add: yield_def)

lemma tick_yields: "tick ((yield E ^^ n) s) = tick s + n"
  by (induction n) simp_all

text \<open>An environment in which the clock moves on at every scheduling point, never by a huge step.\<close>

definition clock_ok :: "'a env \<Rightarrow> bool" where
  "clock_ok E \<longleftrightarrow> (\<forall>k s. 1 \<le> uint (jiffies (E k s) - jiffies s) \<and>
     uint (jiffies (E k s) - jiffies s) < 2 ^ 32)"

lemma clock_ok_yield:
  assumes "clock_ok E"
  shows "1 \<le> uint (jiffies (yield E s) - jiffies s)"
    "uint (jiffies (yield E s) - jiffies s) < 2 ^ 32"
  using assms by (simp_all add: clock_ok_def yield_def)

text \<open>
  \<open>wait_event_interruptible\<close>: sleep until the condition holds or a signal arrives.  It may sleep
  forever; \<open>None\<close> is a wait that never returns.
\<close>

partial_function (option) wait_event ::
  "'a env \<Rightarrow> ('a io_scheme \<Rightarrow> bool) \<Rightarrow> 'a io_scheme \<Rightarrow> (int \<times> 'a io_scheme) option" where
  "wait_event E c s =
     (if c s then Some (0, s)
      else if sigpend s then Some (- ERESTARTSYS, s)
      else wait_event E c (yield E s))"

lemma wait_event_cond [simp]: "c s \<Longrightarrow> wait_event E c s = Some (0, s)"
  by (subst wait_event.simps) simp

lemma wait_event_signal [simp]:
  "\<not> c s \<Longrightarrow> sigpend s \<Longrightarrow> wait_event E c s = Some (- ERESTARTSYS, s)"
  by (subst wait_event.simps) simp

lemma wait_event_later:
  "\<not> c s \<Longrightarrow> \<not> sigpend s \<Longrightarrow> wait_event E c s = wait_event E c (yield E s)"
  by (subst wait_event.simps) simp

lemma wait_event_Some:
  assumes "wait_event E c s = Some (r, t)"
  shows "(r = 0 \<and> c t) \<or> (r = - ERESTARTSYS \<and> \<not> c t \<and> sigpend t)"
proof -
  have "case (r, t) of (r, t) \<Rightarrow> (r = 0 \<and> c t) \<or> (r = - ERESTARTSYS \<and> \<not> c t \<and> sigpend t)"
    by (rule wait_event.raw_induct [where P = "\<lambda>E c s p. case p of (r, t) \<Rightarrow>
          (r = 0 \<and> c t) \<or> (r = - ERESTARTSYS \<and> \<not> c t \<and> sigpend t)", OF _ assms])
       (auto split: if_splits)
  then show ?thesis by simp
qed

interpretation wait_sleep: sleeping_loop "wait_event E c" "yield E"
  for E c
proof
  show "\<exists>k. snd p = (yield E ^^ k) s" if "wait_event E c s = Some p" for s p
    by (rule wait_event.raw_induct [where P = "\<lambda>E c s p. \<exists>k. snd p = (yield E ^^ k) s", OF _ that])
       (auto split: if_splits intro: iterate_now iterate_later)
qed

section \<open>User memory\<close>

text \<open>
  \<open>copy_from_user\<close> yields the bytes or, on a fault, nothing (the callers drop a partial copy).
  \<open>copy_to_user\<close> writes up to the first byte that faults.
\<close>

definition copy_from_user :: "u64 \<Rightarrow> nat \<Rightarrow> 'a io_scheme \<Rightarrow> u8 list option" where
  "copy_from_user p n s =
     (let vs = map (\<lambda>i. umem s (p + of_nat i)) [0..<n]
      in if None \<in> set vs then None else Some (map the vs))"

primrec copy_to_user :: "u64 \<Rightarrow> u8 list \<Rightarrow> 'a io_scheme \<Rightarrow> bool \<times> 'a io_scheme" where
  "copy_to_user p [] s = (True, s)"
| "copy_to_user p (b # bs) s =
     (case umem s p of
        None \<Rightarrow> (False, s)
      | Some _ \<Rightarrow> copy_to_user (p + 1) bs (s\<lparr>umem := (umem s)(p \<mapsto> b)\<rparr>))"

lemma copy_from_user_length: "copy_from_user p n s = Some bs \<Longrightarrow> length bs = n"
  by (auto simp: copy_from_user_def Let_def split: if_splits)

lemma copy_to_user_frame [simp]:
  "bar (snd (copy_to_user p bs s)) = bar s" "tick (snd (copy_to_user p bs s)) = tick s"
  "jiffies (snd (copy_to_user p bs s)) = jiffies s"
  "sigpend (snd (copy_to_user p bs s)) = sigpend s"
  "more (snd (copy_to_user p bs s)) = more s"
  by (induction bs arbitrary: p s) (auto split: option.splits)

end
