(* ===== verification/Dx_Fifo.thy ===== *)
theory Dx_Fifo
  imports Dx_Prelude
begin

text \<open>
  The contract of the driver's bounded queues.  Two providers exist: the ring of device events,
  which refuses an element when it is full, and the response pool, which gives up its oldest
  element instead.  The consequences for whole sequences of operations are proved here, once for
  each policy.
\<close>

section \<open>Interface\<close>

primrec drain :: "('s \<Rightarrow> 'e option \<times> 's) \<Rightarrow> nat \<Rightarrow> 's \<Rightarrow> 'e list \<times> 's" where
  "drain deq 0 s = ([], s)"
| "drain deq (Suc n) s =
     (case deq s of
        (None, t) \<Rightarrow> ([], t)
      | (Some e, t) \<Rightarrow> (let r = drain deq n t in (e # fst r, snd r)))"

locale bounded_fifo =
  fixes enq :: "'e \<Rightarrow> 's \<Rightarrow> 's"
    and deq :: "'s \<Rightarrow> 'e option \<times> 's"
    and pending :: "'s \<Rightarrow> 'e list"
    and inv :: "'s \<Rightarrow> bool"
    and cap :: nat
  assumes deq_empty: "inv s \<Longrightarrow> pending s = [] \<Longrightarrow> deq s = (None, s)"
    and deq_cons: "inv s \<Longrightarrow> pending s = e # es \<Longrightarrow>
      fst (deq s) = Some e \<and> inv (snd (deq s)) \<and> pending (snd (deq s)) = es"
    and enq_inv: "inv s \<Longrightarrow> inv (enq e s)"
    and pending_cap: "inv s \<Longrightarrow> length (pending s) \<le> cap"
    and cap_pos: "0 < cap"
begin

lemma deq_none_iff: "inv s \<Longrightarrow> fst (deq s) = None \<longleftrightarrow> pending s = []"
  by (cases "pending s") (auto simp: deq_empty dest: deq_cons)

lemma deq_inv: "inv s \<Longrightarrow> inv (snd (deq s))"
  by (cases "pending s") (auto simp: deq_empty dest: deq_cons)

lemma drain_take:
  "inv s \<Longrightarrow> fst (drain deq n s) = take n (pending s) \<and>
     pending (snd (drain deq n s)) = drop n (pending s) \<and> inv (snd (drain deq n s))"
proof (induction n arbitrary: s)
  case (Suc n)
  show ?case
  proof (cases "pending s")
    case Nil
    then show ?thesis using Suc.prems by (simp add: deq_empty)
  next
    case (Cons e es)
    obtain t where t: "deq s = (Some e, t)" "inv t" "pending t = es"
      using deq_cons [OF Suc.prems Cons] by (metis prod.collapse)
    show ?thesis using Suc.IH [OF t(2)] t Cons by (simp add: Let_def)
  qed
qed simp

lemma fold_enq_inv: "inv s \<Longrightarrow> inv (fold enq es s)"
  by (induction es arbitrary: s) (simp_all add: enq_inv)

end

locale drop_newest_fifo = bounded_fifo +
  assumes enq_pending: "inv s \<Longrightarrow>
    pending (enq e s) = (if length (pending s) < cap then pending s @ [e] else pending s)"
begin

lemma fold_enq_pending: "inv s \<Longrightarrow> pending (fold enq es s) = take cap (pending s @ es)"
proof (induction es arbitrary: s)
  case Nil
  then show ?case using pending_cap by simp
next
  case (Cons e es)
  then show ?case using pending_cap [of s] by (auto simp: enq_inv enq_pending take_Cons')
qed

lemma produce_consume: "inv s \<Longrightarrow> fst (drain deq n (fold enq es s)) = take n (take cap (pending s @ es))"
  using drain_take fold_enq_inv fold_enq_pending by metis

end

locale drop_oldest_fifo = bounded_fifo +
  assumes enq_pending: "inv s \<Longrightarrow>
    pending (enq e s) = (if length (pending s) < cap then pending s else tl (pending s)) @ [e]"
begin

lemma fold_enq_pending:
  "inv s \<Longrightarrow> pending (fold enq es s) =
     drop (length (pending s) + length es - cap) (pending s @ es)"
proof (induction es arbitrary: s)
  case Nil
  then show ?case using pending_cap by simp
next
  case (Cons e es)
  have IH: "pending (fold enq es (enq e s)) =
      drop (length (pending (enq e s)) + length es - cap) (pending (enq e s) @ es)"
    using Cons by (simp add: enq_inv)
  show ?case
  proof (cases "length (pending s) < cap")
    case True
    then show ?thesis using IH Cons.prems by (simp add: enq_pending)
  next
    case False
    then have "length (pending s) = cap" using pending_cap [OF Cons.prems] by simp
    then obtain x xs where "pending s = x # xs" "Suc (length xs) = cap"
      using cap_pos by (cases "pending s") auto
    then show ?thesis using IH Cons.prems by (auto simp: enq_pending)
  qed
qed

lemma produce_consume:
  "inv s \<Longrightarrow> fst (drain deq n (fold enq es s)) =
     take n (drop (length (pending s) + length es - cap) (pending s @ es))"
  using drain_take fold_enq_inv fold_enq_pending by metis

end

section \<open>Ring arithmetic\<close>

lemma mod_add_lt_inj:
  assumes "i < n" "j < n" "(a + i) mod n = (a + j) mod (n :: nat)"
  shows "i = j"
proof -
  have "i mod n = j mod n" using assms(3) by (simp add: nat_mod_eq_iff)
  then show ?thesis using assms by simp
qed

end
