(* ===== verification/Dx_Rings.thy ===== *)
theory Dx_Rings
  imports Dx_Fifo
begin

text \<open>
  The two in-kernel rings of \<^verbatim>\<open>pci_deepx/dx_message.c\<close>: the circular buffer of device events and the
  response pool, whose slots are threaded on a list and reused in turn.  Both are instances of
  the queue contract of theory \<open>Dx_Fifo\<close>.
\<close>

section \<open>Slots in ring order\<close>

abbreviation (input) DX_EVENT_QUEUE_SIZE :: nat where "DX_EVENT_QUEUE_SIZE \<equiv> 32"
abbreviation (input) RES_POOL_SIZE :: nat where "RES_POOL_SIZE \<equiv> 32"

definition ring_ix :: "nat \<Rightarrow> nat \<Rightarrow> nat list" where
  "ring_ix s n = map (\<lambda>i. (s + i) mod 32) [0..<n]"

lemma ring_ix_0 [simp]: "ring_ix s 0 = []"
  by (simp add: ring_ix_def)

lemma length_ring_ix [simp]: "length (ring_ix s n) = n"
  by (simp add: ring_ix_def)

lemma ring_ix_mod: "ring_ix (s mod 32) n = ring_ix s n"
  by (simp add: ring_ix_def mod_add_left_eq)

lemma ring_ix_snoc: "ring_ix s (Suc n) = ring_ix s n @ [(s + n) mod 32]"
  by (simp add: ring_ix_def)

lemma ring_ix_Cons: "ring_ix s (Suc n) = s mod 32 # ring_ix (Suc s) n"
  by (simp add: ring_ix_def upt_conv_Cons map_Suc_upt [symmetric] comp_def del: upt_Suc map_Suc_upt)

lemma ring_ix_cong: "s mod 32 = t mod 32 \<Longrightarrow> ring_ix s n = ring_ix t n"
  by (metis ring_ix_mod)

lemma ring_ix_range: "i \<in> set (ring_ix s n) \<Longrightarrow> i < 32"
  by (auto simp: ring_ix_def)

lemma ring_ix_next_fresh:
  assumes "n < 32"
  shows "(s + n) mod 32 \<notin> set (ring_ix s n)"
proof
  assume "(s + n) mod 32 \<in> set (ring_ix s n)"
  then obtain i where "i < n" "(s + n) mod 32 = (s + i) mod 32" by (auto simp: ring_ix_def)
  then show False using mod_add_lt_inj [of n 32 i s] assms by simp
qed

section \<open>The event ring\<close>

text \<open>A device event is the byte image of \<open>dx_pcie_dev_event_t\<close>.\<close>

type_synonym bytes = "u8 list"

record event_queue =
  entries :: "bytes list"
  head :: nat
  tail :: nat
  count :: nat

text \<open>The guarded insertion that all producers of events share, and the removal.\<close>

definition evq_push :: "bytes \<Rightarrow> event_queue \<Rightarrow> event_queue" where
  "evq_push e q =
     (if count q < DX_EVENT_QUEUE_SIZE
      then q\<lparr>entries := (entries q)[tail q := e],
             tail := (tail q + 1) mod DX_EVENT_QUEUE_SIZE, count := count q + 1\<rparr>
      else q)"

definition evq_pop :: "event_queue \<Rightarrow> bytes option \<times> event_queue" where
  "evq_pop q =
     (if 0 < count q
      then (Some (entries q ! head q),
            q\<lparr>head := (head q + 1) mod DX_EVENT_QUEUE_SIZE, count := count q - 1\<rparr>)
      else (None, q))"

definition evq_clear :: "event_queue \<Rightarrow> event_queue" where
  "evq_clear q = q\<lparr>head := 0, tail := 0, count := 0\<rparr>"

definition evq_ok :: "event_queue \<Rightarrow> bool" where
  "evq_ok q \<longleftrightarrow> length (entries q) = 32 \<and> head q < 32 \<and> count q \<le> 32 \<and>
     tail q = (head q + count q) mod 32"

definition evq_pending :: "event_queue \<Rightarrow> bytes list" where
  "evq_pending q = map (\<lambda>i. entries q ! i) (ring_ix (head q) (count q))"

lemma evq_push_ok: "evq_ok q \<Longrightarrow> evq_ok (evq_push e q)"
  by (auto simp: evq_ok_def evq_push_def mod_simps)

lemma evq_push_pending:
  assumes "evq_ok q"
  shows "evq_pending (evq_push e q) =
    (if length (evq_pending q) < 32 then evq_pending q @ [e] else evq_pending q)"
proof (cases "count q < 32")
  case True
  have t: "tail q = (head q + count q) mod 32" "length (entries q) = 32"
    using assms by (simp_all add: evq_ok_def)
  have fresh: "tail q \<notin> set (ring_ix (head q) (count q))"
    using ring_ix_next_fresh [OF True] t by simp
  have "map (\<lambda>i. (entries q)[tail q := e] ! i) (ring_ix (head q) (count q)) =
      map (\<lambda>i. entries q ! i) (ring_ix (head q) (count q))"
    using fresh by (intro map_cong) (auto intro!: nth_list_update_neq)
  moreover have "tail q < length (entries q)" using t by simp
  ultimately show ?thesis
    using True t by (simp add: evq_pending_def evq_push_def ring_ix_snoc)
next
  case False
  then show ?thesis by (simp add: evq_push_def evq_pending_def)
qed

lemma evq_pop_cons:
  assumes "evq_ok q" "evq_pending q = e # es"
  shows "fst (evq_pop q) = Some e \<and> evq_ok (snd (evq_pop q)) \<and> evq_pending (snd (evq_pop q)) = es"
proof -
  obtain n where n: "count q = Suc n"
    using assms(2) by (cases "count q") (auto simp: evq_pending_def)
  have h: "head q < 32" "tail q = (head q + count q) mod 32" "Suc n \<le> 32"
    using assms(1) n by (simp_all add: evq_ok_def)
  have "evq_pending q = entries q ! head q # map (\<lambda>i. entries q ! i) (ring_ix (Suc (head q)) n)"
    using n h by (simp add: evq_pending_def ring_ix_Cons)
  moreover have "evq_ok (snd (evq_pop q))"
    using assms(1) n by (auto simp: evq_ok_def evq_pop_def mod_simps)
  ultimately show ?thesis using assms(2) n
    by (simp add: evq_pop_def evq_pending_def ring_ix_mod [of "Suc (head q)", symmetric])
qed

interpretation events: drop_newest_fifo evq_push evq_pop evq_pending evq_ok 32
proof unfold_locales
  show "evq_pop q = (None, q)" if "evq_ok q" "evq_pending q = []" for q
    using that by (simp add: evq_pop_def evq_pending_def ring_ix_def)
qed (simp_all add: evq_pop_cons evq_push_ok evq_push_pending,
     simp add: evq_pending_def evq_ok_def)

lemma evq_clear_ok: "length (entries q) = 32 \<Longrightarrow> evq_ok (evq_clear q) \<and> evq_pending (evq_clear q) = []"
  by (simp add: evq_ok_def evq_clear_def evq_pending_def)

section \<open>The response pool\<close>

text \<open>
  \<open>r_list\<close> holds the slots threaded on \<open>responses[ch].list\<close> in list order; a slot is linked
  (\<open>!list_empty(&entry->list)\<close>) when it occurs there.
\<close>

record resp_chan =
  r_pool :: "nat \<Rightarrow> bytes"
  r_list :: "nat list"
  r_header :: nat

definition resp_push :: "bytes \<Rightarrow> resp_chan \<Rightarrow> resp_chan" where
  "resp_push b c =
     (let h = r_header c mod RES_POOL_SIZE;
          l = (if h \<in> set (r_list c) then remove1 h (r_list c) else r_list c)
      in \<lparr>r_pool = (r_pool c)(h := b), r_list = l @ [h], r_header = h + 1\<rparr>)"

definition resp_pop :: "resp_chan \<Rightarrow> bytes option \<times> resp_chan" where
  "resp_pop c =
     (case r_list c of
        [] \<Rightarrow> (None, c)
      | i # l \<Rightarrow> (Some (r_pool c i), c\<lparr>r_list := l\<rparr>))"

definition resp_clear :: "resp_chan \<Rightarrow> resp_chan" where
  "resp_clear c = c\<lparr>r_list := [], r_header := 0\<rparr>"

definition resp_ok :: "resp_chan \<Rightarrow> bool" where
  "resp_ok c \<longleftrightarrow> length (r_list c) \<le> 32 \<and>
     r_list c = ring_ix (r_header c + 32 - length (r_list c)) (length (r_list c))"

definition resp_pending :: "resp_chan \<Rightarrow> bytes list" where
  "resp_pending c = map (r_pool c) (r_list c)"

lemma map_fun_upd_fresh: "h \<notin> set l \<Longrightarrow> map (f(h := x)) l = map f l"
  by (rule map_cong) auto

lemma resp_push_room:
  assumes "resp_ok c" "length (r_list c) < 32"
  shows "r_list (resp_push b c) = r_list c @ [r_header c mod 32] \<and> r_header c mod 32 \<notin> set (r_list c)"
proof -
  let ?n = "length (r_list c)"
  let ?s = "r_header c + 32 - ?n"
  have e: "r_list c = ring_ix ?s ?n" using assms(1) by (simp add: resp_ok_def)
  have "?s + ?n = r_header c + 32" using assms(2) by simp
  then have "r_header c mod 32 = (?s + ?n) mod 32" by (metis mod_add_self2)
  then have "r_header c mod 32 \<notin> set (ring_ix ?s ?n)"
    using ring_ix_next_fresh [OF assms(2), of ?s] by argo
  then have "r_header c mod 32 \<notin> set (r_list c)" using e by argo
  then show ?thesis by (simp add: resp_push_def Let_def)
qed

lemma resp_push_full:
  assumes "resp_ok c" "length (r_list c) = 32"
  shows "r_list (resp_push b c) = tl (r_list c) @ [r_header c mod 32] \<and>
    r_header c mod 32 \<notin> set (tl (r_list c)) \<and> r_list c = r_header c mod 32 # tl (r_list c)"
proof -
  have e: "r_list c = ring_ix (r_header c) (Suc 31)"
    using assms unfolding resp_ok_def by simp
  then have c: "r_list c = r_header c mod 32 # ring_ix (Suc (r_header c)) 31"
    by (simp only: ring_ix_Cons)
  have "(Suc (r_header c) + 31) mod 32 \<notin> set (ring_ix (Suc (r_header c)) 31)"
    by (rule ring_ix_next_fresh) simp
  then have "r_header c mod 32 \<notin> set (ring_ix (Suc (r_header c)) 31)" by simp
  with c show ?thesis by (simp add: resp_push_def Let_def)
qed

lemma resp_push_ok:
  assumes "resp_ok c"
  shows "resp_ok (resp_push b c)"
proof -
  let ?n = "length (r_list c)"
  have le: "?n \<le> 32" using assms by (simp add: resp_ok_def)
  have hd: "r_header (resp_push b c) = r_header c mod 32 + 1" by (simp add: resp_push_def Let_def)
  show ?thesis
  proof (cases "?n < 32")
    case True
    let ?s = "r_header c + 32 - ?n"
    have e: "r_list c = ring_ix ?s ?n" using assms by (simp add: resp_ok_def)
    have "?s + ?n = r_header c + 32" using True by simp
    then have "r_header c mod 32 = (?s + ?n) mod 32" by (metis mod_add_self2)
    then have l: "r_list (resp_push b c) = ring_ix ?s (Suc ?n)"
      using resp_push_room [OF assms True, of b] e by (simp add: ring_ix_snoc)
    have "ring_ix ?s (Suc ?n) = ring_ix (r_header c mod 32 + 1 + 32 - Suc ?n) (Suc ?n)"
    proof (rule ring_ix_cong)
      have "?s = r_header c + (32 - ?n)" "r_header c mod 32 + 1 + 32 - Suc ?n = r_header c mod 32 + (32 - ?n)"
        using True by simp_all
      then show "?s mod 32 = (r_header c mod 32 + 1 + 32 - Suc ?n) mod 32"
        by (simp add: mod_add_left_eq)
    qed
    then show ?thesis using l hd True by (simp add: resp_ok_def)
  next
    case False
    then have n: "?n = 32" using le by simp
    have f: "r_list (resp_push b c) = tl (r_list c) @ [r_header c mod 32]"
      using resp_push_full [OF assms n] by blast
    have "r_list c = ring_ix (r_header c) (Suc 31)" using assms n unfolding resp_ok_def by simp
    then have "tl (r_list c) = ring_ix (Suc (r_header c)) 31" by (simp only: ring_ix_Cons list.sel)
    moreover have "(Suc (r_header c) + 31) mod 32 = r_header c mod 32" by simp
    ultimately have "r_list (resp_push b c) = ring_ix (Suc (r_header c)) (Suc 31)"
      using f by (metis ring_ix_snoc)
    moreover have "ring_ix (Suc (r_header c)) 32 = ring_ix (r_header c mod 32 + 1) 32"
      by (rule ring_ix_cong) (simp add: mod_simps)
    ultimately show ?thesis using hd by (simp add: resp_ok_def)
  qed
qed

lemma resp_push_pending:
  assumes "resp_ok c"
  shows "resp_pending (resp_push b c) =
    (if length (resp_pending c) < 32 then resp_pending c else tl (resp_pending c)) @ [b]"
proof -
  have pool: "r_pool (resp_push b c) = (r_pool c)(r_header c mod 32 := b)"
    by (simp add: resp_push_def Let_def)
  have le: "length (r_list c) \<le> 32" using assms by (simp add: resp_ok_def)
  show ?thesis
  proof (cases "length (r_list c) < 32")
    case True
    with resp_push_room [OF assms True, of b] pool show ?thesis
      by (simp add: resp_pending_def map_fun_upd_fresh)
  next
    case False
    with le have "length (r_list c) = 32" by simp
    with resp_push_full [OF assms this, of b] pool False show ?thesis
      by (simp add: resp_pending_def map_fun_upd_fresh map_tl [symmetric])
  qed
qed

lemma resp_pop_cons:
  assumes "resp_ok c" "resp_pending c = b # bs"
  shows "fst (resp_pop c) = Some b \<and> resp_ok (snd (resp_pop c)) \<and> resp_pending (snd (resp_pop c)) = bs"
proof -
  obtain i l where l: "r_list c = i # l" "b = r_pool c i" "bs = map (r_pool c) l"
    using assms(2) by (auto simp: resp_pending_def)
  let ?n = "length l"
  have ok: "Suc ?n \<le> 32" "i # l = ring_ix (r_header c + 32 - Suc ?n) (Suc ?n)"
    using assms(1) l unfolding resp_ok_def by simp_all
  then have "l = ring_ix (Suc (r_header c + 32 - Suc ?n)) ?n" by (metis list.inject ring_ix_Cons)
  moreover have "Suc (r_header c + 32 - Suc ?n) = r_header c + 32 - ?n" using ok(1) by simp
  ultimately have "l = ring_ix (r_header c + 32 - ?n) ?n" by argo
  then show ?thesis using l ok(1) by (simp add: resp_pop_def resp_ok_def resp_pending_def)
qed

interpretation resps: drop_oldest_fifo resp_push resp_pop resp_pending resp_ok 32
proof unfold_locales
  show "resp_pop c = (None, c)" if "resp_ok c" "resp_pending c = []" for c
    using that by (simp add: resp_pop_def resp_pending_def)
  show "length (resp_pending c) \<le> 32" if "resp_ok c" for c
    using that by (simp add: resp_pending_def resp_ok_def)
qed (simp_all add: resp_pop_cons resp_push_ok resp_push_pending)

lemma resp_clear_ok: "resp_ok (resp_clear c) \<and> resp_pending (resp_clear c) = []"
  by (simp add: resp_ok_def resp_clear_def resp_pending_def)

end
