(* ===== verification/Dx_Pcie.thy ===== *)
theory Dx_Pcie
  imports Dx_Mmio Dx_Rings
begin

text \<open>
  The message layer of the PCIe module (\<^verbatim>\<open>pci_deepx/dx_message.c\<close>, the interrupt waits of
  \<^verbatim>\<open>pci_deepx/dx_cdev_events.c\<close> and the device list accessors of \<^verbatim>\<open>pci_deepx/dx_util.c\<close>), for the one device
  slot that belongs to the modelled device: where each structure lies in message RAM, the
  response pool, the event ring, the doorbells and the callbacks into the runtime module.
\<close>

section \<open>State\<close>

text \<open>\<open>ep_ram_info\<close>: offsets into \<open>npu_region[0]\<close>.\<close>

record message_ram_table =
  base_offs :: nat
  req0_offs :: nat
  req1_offs :: nat
  req2_offs :: nat
  req3_offs :: nat
  resp0_offs :: nat
  resp1_offs :: nat
  resp2_offs :: nat
  log_offs :: nat
  debug_offs :: nat
  event_offs :: nat
  irq_offs :: nat
  dl_offs :: nat

text \<open>
  The interrupt cells: \<open>irq[0].user_irqs[i]\<close> when the device has a single vector,
  \<open>irq[i].user_irq\<close> otherwise.
\<close>

datatype irq_cell = UserIrqs nat | UserIrq nat

record pcie = io +
  idx :: nat
  dw_present :: bool
  dx_ver :: nat
  nr_irqs :: nat
  dma_irqs :: nat
  event_irq_idx :: nat
  events_irq :: "irq_cell \<Rightarrow> u8"
  init_completed :: bool
  vm_env :: bool
  notify :: mmio
  ep_ram_info :: message_ram_table
  msg_response :: "nat \<Rightarrow> nat"
  msg_events :: nat
  msg_irq_status :: nat
  responses :: "nat \<Rightarrow> resp_chan"
  event_queue :: event_queue
  response_callback :: bool
  event_callback :: bool
  link_event_callback :: bool

abbreviation (input) MAX_DEV_NUM :: nat where "MAX_DEV_NUM \<equiv> 64"
abbreviation (input) DX_PCIE_RESP_NUM :: nat where "DX_PCIE_RESP_NUM \<equiv> 3"
abbreviation (input) DX_NORMAL_QUEUE0 :: nat where "DX_NORMAL_QUEUE0 \<equiv> 0"
abbreviation (input) DX_NORMAL_QUEUE1 :: nat where "DX_NORMAL_QUEUE1 \<equiv> 1"
abbreviation (input) DX_NORMAL_QUEUE2 :: nat where "DX_NORMAL_QUEUE2 \<equiv> 2"
abbreviation (input) DX_HIGH_QUEUE :: nat where "DX_HIGH_QUEUE \<equiv> 3"

section \<open>Device lookup and lazy initialisation\<close>

text \<open>The lookup fails for an index out of range and for a device that is not on the list.\<close>

definition dx_dev_list_get :: "'a pcie_scheme \<Rightarrow> bool" where
  "dx_dev_list_get s \<longleftrightarrow> idx s < MAX_DEV_NUM \<and> dw_present s"

definition dx_pcie_test_and_clear_init_completed :: "'a pcie_scheme \<Rightarrow> bool \<times> 'a pcie_scheme" where
  "dx_pcie_test_and_clear_init_completed s =
     (if \<not> dx_dev_list_get s then (False, s)
      else (init_completed s, s\<lparr>init_completed := False\<rparr>))"

definition dx_pcie_set_init_completed :: "'a pcie_scheme \<Rightarrow> 'a pcie_scheme" where
  "dx_pcie_set_init_completed s =
     (if \<not> dx_dev_list_get s then s else s\<lparr>init_completed := True\<rparr>)"

section \<open>Areas of message RAM\<close>

definition dx_pcie_get_message_area :: "'a pcie_scheme \<Rightarrow> iomem" where
  "dx_pcie_get_message_area s =
     (if \<not> dx_dev_list_get s then None else Some (base_offs (ep_ram_info s)))"

definition dx_pcie_get_log_area :: "'a pcie_scheme \<Rightarrow> iomem" where
  "dx_pcie_get_log_area s =
     (if \<not> dx_dev_list_get s then None else Some (log_offs (ep_ram_info s)))"

definition dx_pcie_get_dl_area :: "'a pcie_scheme \<Rightarrow> iomem" where
  "dx_pcie_get_dl_area s =
     (if \<not> dx_dev_list_get s then None else Some (dl_offs (ep_ram_info s)))"

definition dx_pcie_get_request_queue :: "nat \<Rightarrow> 'a pcie_scheme \<Rightarrow> iomem" where
  "dx_pcie_get_request_queue priority s =
     (if \<not> dx_dev_list_get s then None
      else if dx_ver s = 2 then Some (req0_offs (ep_ram_info s))
      else if priority = DX_NORMAL_QUEUE0 then Some (req0_offs (ep_ram_info s))
      else if priority = DX_NORMAL_QUEUE1 then Some (req1_offs (ep_ram_info s))
      else if priority = DX_NORMAL_QUEUE2 then Some (req2_offs (ep_ram_info s))
      else if priority = DX_HIGH_QUEUE then Some (req3_offs (ep_ram_info s))
      else None)"

definition dx_pcie_set_message_ram_offs :: "'a pcie_scheme \<Rightarrow> int \<times> 'a pcie_scheme" where
  "dx_pcie_set_message_ram_offs s =
     (if dx_ver s = 3
      then (0, s\<lparr>ep_ram_info := (ep_ram_info s)\<lparr>
          base_offs := 0x7000,
          req0_offs := 0x7000 + 0x1000, req1_offs := 0x7000 + 0x1A00, req2_offs := 0x7000 + 0x2400,
          resp0_offs := 0x7000 + 0x3800, resp1_offs := 0x7000 + 0x3A00, resp2_offs := 0x7000 + 0x3C00,
          log_offs := 0x7000 + 0x4000, debug_offs := 0x7000 + 0x8000, event_offs := 0x7000 + 0x8000,
          irq_offs := 0x7000 + 0x8200, dl_offs := 0x7000 + 0x8FC0\<rparr>\<rparr>)
      else (- 1, s))"

section \<open>Responses\<close>

abbreviation (input) DX_RESP_UNLOCK :: u32 where "DX_RESP_UNLOCK \<equiv> 0"
abbreviation (input) DX_RESP_LOCK :: u32 where "DX_RESP_LOCK \<equiv> 1"
abbreviation (input) SIZEOF_RESPONSE :: nat where "SIZEOF_RESPONSE \<equiv> 64"
abbreviation (input) RESPONSE_PROC_ID :: nat where "RESPONSE_PROC_ID \<equiv> 20"

definition dx_resp_lock_addr :: "nat \<Rightarrow> nat" where
  "dx_resp_lock_addr response = response + 0x100"

definition get32 :: "nat \<Rightarrow> bytes \<Rightarrow> u32" where
  "get32 off bs = le32 (bs ! off) (bs ! (off + 1)) (bs ! (off + 2)) (bs ! (off + 3))"

definition dx_pcie_clear_response_queue :: "'a pcie_scheme \<Rightarrow> int \<times> 'a pcie_scheme" where
  "dx_pcie_clear_response_queue s =
     (if \<not> dx_dev_list_get s then (- ENODEV, s)
      else (0, s\<lparr>responses :=
        (\<lambda>i. if i < DX_PCIE_RESP_NUM then resp_clear (responses s i) else responses s i)\<rparr>))"

definition dx_pcie_is_response_queue_empty :: "nat \<Rightarrow> 'a pcie_scheme \<Rightarrow> bool" where
  "dx_pcie_is_response_queue_empty dma_ch s =
     (if \<not> dx_dev_list_get s then True else r_list (responses s dma_ch) = [])"

text \<open>
  The interrupt handler's work for one response.  \<open>cb\<close> is the function the runtime module has
  registered; it is called while the channel's lock is held.
\<close>

definition dx_pcie_enqueue_response ::
  "(nat \<Rightarrow> u32 \<Rightarrow> 'a pcie_scheme \<Rightarrow> 'a pcie_scheme) \<Rightarrow> nat \<Rightarrow> 'a pcie_scheme \<Rightarrow> 'a pcie_scheme" where
  "dx_pcie_enqueue_response cb dma_ch s =
     (if \<not> dx_dev_list_get s then s
      else
        let a = msg_response s dma_ch;
            s1 = s\<lparr>bar := writel DX_RESP_LOCK (dx_resp_lock_addr a) (bar s)\<rparr>;
            b = dx_memcpy_fromio32 (bar s1) a SIZEOF_RESPONSE;
            proc_id = get32 RESPONSE_PROC_ID b;
            s2 = s1\<lparr>responses := (responses s1)(dma_ch := resp_push b (responses s1 dma_ch))\<rparr>;
            s3 = s2\<lparr>bar := writel DX_RESP_UNLOCK (dx_resp_lock_addr a) (bar s2)\<rparr>
        in if response_callback s3 then cb dma_ch proc_id s3 else s3)"

definition dx_pcie_dequeue_response ::
  "nat \<Rightarrow> 'a pcie_scheme \<Rightarrow> int \<times> bytes option \<times> 'a pcie_scheme" where
  "dx_pcie_dequeue_response dma_ch s =
     (if \<not> dx_dev_list_get s then (- ENODEV, None, s)
      else case resp_pop (responses s dma_ch) of
        (Some b, c) \<Rightarrow> (0, Some b, s\<lparr>responses := (responses s)(dma_ch := c)\<rparr>)
      | (None, c) \<Rightarrow> (- 1, None, s))"

section \<open>Interrupt cells\<close>

definition irq_cell_of :: "nat \<Rightarrow> 'a pcie_scheme \<Rightarrow> irq_cell" where
  "irq_cell_of irq_id s = (if nr_irqs s = 1 then UserIrqs irq_id else UserIrq (dma_irqs s + irq_id))"

definition dx_pcie_interrupt ::
  "'a pcie_ext env \<Rightarrow> nat \<Rightarrow> 'a pcie_scheme \<Rightarrow> (u8 \<times> 'a pcie_scheme) option" where
  "dx_pcie_interrupt E irq_id s =
     (if \<not> dx_dev_list_get s then Some (0, s)
      else let c = irq_cell_of irq_id s in
        case wait_event E (\<lambda>s. events_irq s c \<noteq> 0) s of
          None \<Rightarrow> None
        | Some (r, t) \<Rightarrow>
            if events_irq t c \<noteq> 0 then Some (events_irq t c, t\<lparr>events_irq := (events_irq t)(c := 0)\<rparr>)
            else Some (0, t))"

definition dx_pcie_interrupt_clear :: "nat \<Rightarrow> 'a pcie_scheme \<Rightarrow> 'a pcie_scheme" where
  "dx_pcie_interrupt_clear irq_id s =
     (if \<not> dx_dev_list_get s then s
      else s\<lparr>events_irq := (events_irq s)(irq_cell_of irq_id s := 0)\<rparr>)"

definition dx_pcie_interrupt_event ::
  "'a pcie_ext env \<Rightarrow> 'a pcie_scheme \<Rightarrow> 'a pcie_scheme option" where
  "dx_pcie_interrupt_event E s =
     (if \<not> dx_dev_list_get s then Some s
      else let c = irq_cell_of (event_irq_idx s) s in
        case wait_event E (\<lambda>s. events_irq s c \<noteq> 0) s of
          None \<Rightarrow> None
        | Some (r, t) \<Rightarrow>
            Some (if events_irq t c \<noteq> 0 then t\<lparr>events_irq := (events_irq t)(c := 0)\<rparr> else t))"

text \<open>With a single vector this wakes the event cell, whatever \<open>irq_id\<close> is.\<close>

definition dx_pcie_interrupt_wakeup :: "nat \<Rightarrow> 'a pcie_scheme \<Rightarrow> int \<times> 'a pcie_scheme" where
  "dx_pcie_interrupt_wakeup irq_id s =
     (if \<not> dx_dev_list_get s then (- ENODEV, s)
      else let c = (if nr_irqs s = 1 then UserIrqs (event_irq_idx s) else UserIrq (dma_irqs s + irq_id))
        in (0, if events_irq s c = 0 then s\<lparr>events_irq := (events_irq s)(c := 2)\<rparr> else s))"

definition dx_pcie_interrupt_event_wakeup :: "'a pcie_scheme \<Rightarrow> int \<times> 'a pcie_scheme" where
  "dx_pcie_interrupt_event_wakeup s =
     (if \<not> dx_dev_list_get s then (- ENODEV, s)
      else let c = irq_cell_of (event_irq_idx s) s
        in (0, if events_irq s c = 0 then s\<lparr>events_irq := (events_irq s)(c := 2)\<rparr> else s))"

section \<open>Events\<close>

text \<open>
  Byte offsets in \<open>dx_pcie_dev_event_t\<close>: the union starts at 8 because it holds a 64-bit field.
\<close>

abbreviation (input) SIZEOF_EVENT :: nat where "SIZEOF_EVENT \<equiv> 432"
abbreviation (input) EV_TYPE :: nat where "EV_TYPE \<equiv> 0"
abbreviation (input) EV_ERR_CODE :: nat where "EV_ERR_CODE \<equiv> 8"
abbreviation (input) EV_DMA_ERR :: nat where "EV_DMA_ERR \<equiv> 92"
abbreviation (input) EV_DMA_RD_CH_STS :: nat where "EV_DMA_RD_CH_STS \<equiv> 304"
abbreviation (input) EV_DMA_WR_CH_STS :: nat where "EV_DMA_WR_CH_STS \<equiv> 320"
abbreviation (input) DX_EVENT_TYPE_ERROR :: u32 where "DX_EVENT_TYPE_ERROR \<equiv> 1"
abbreviation (input) DX_EVENT_TYPE_RECOVERY :: u32 where "DX_EVENT_TYPE_RECOVERY \<equiv> 3"

definition put32 :: "nat \<Rightarrow> u32 \<Rightarrow> bytes \<Rightarrow> bytes" where
  "put32 off v bs =
     take off bs @ [byte32 0 v, byte32 1 v, byte32 2 v, byte32 3 v] @ drop (off + 4) bs"

primrec put32s :: "nat \<Rightarrow> u32 list \<Rightarrow> bytes \<Rightarrow> bytes" where
  "put32s off [] bs = bs"
| "put32s off (v # vs) bs = put32s (off + 4) vs (put32 off v bs)"

definition zero_event :: bytes where
  "zero_event = replicate SIZEOF_EVENT 0"

definition error_event :: "u32 \<Rightarrow> bytes" where
  "error_event err_code = put32 EV_ERR_CODE err_code (put32 EV_TYPE DX_EVENT_TYPE_ERROR zero_event)"

definition recovery_event :: "u32 \<Rightarrow> u32 \<Rightarrow> u32 \<Rightarrow> u32 \<Rightarrow> u32 \<Rightarrow> bytes" where
  "recovery_event subcode reason recovery_count recovery_fail_count dev_state =
     put32s 8 [subcode, reason, recovery_count, recovery_fail_count, dev_state]
       (put32 EV_TYPE DX_EVENT_TYPE_RECOVERY zero_event)"

definition abort_event :: "u32 \<Rightarrow> u32 \<Rightarrow> u32 list \<Rightarrow> u32 list \<Rightarrow> bytes" where
  "abort_event err_code dma_err_status wr_ch_sts rd_ch_sts =
     put32s EV_DMA_RD_CH_STS (take 4 rd_ch_sts) (put32s EV_DMA_WR_CH_STS (take 4 wr_ch_sts)
       (put32 EV_DMA_ERR dma_err_status (error_event err_code)))"

text \<open>
  The registered event callback only wakes the readers of the device node; waking has no effect on
  the state.
\<close>

definition dx_pcie_enqueue_event_response :: "u32 \<Rightarrow> 'a pcie_scheme \<Rightarrow> 'a pcie_scheme" where
  "dx_pcie_enqueue_event_response err_code s =
     (if \<not> dx_dev_list_get s then s
      else
        let s1 =
          (if count (event_queue s) < DX_EVENT_QUEUE_SIZE
           then if err_code \<noteq> 0
             then s\<lparr>event_queue := evq_push (error_event err_code) (event_queue s)\<rparr>
             else s\<lparr>event_queue :=
                      evq_push (dx_memcpy_fromio32 (bar s) (msg_events s) SIZEOF_EVENT) (event_queue s),
                    bar := dx_memset_io32 (msg_events s) 0 SIZEOF_EVENT (bar s)\<rparr>
           else s)
        in if err_code \<noteq> 0 then snd (dx_pcie_interrupt_event_wakeup s1) else s1)"

definition dx_pcie_enqueue_recovery_event ::
  "u32 \<Rightarrow> u32 \<Rightarrow> u32 \<Rightarrow> u32 \<Rightarrow> u32 \<Rightarrow> 'a pcie_scheme \<Rightarrow> 'a pcie_scheme" where
  "dx_pcie_enqueue_recovery_event subcode reason rc rfc dst s =
     (if \<not> dx_dev_list_get s then s
      else
        let s1 = s\<lparr>event_queue := evq_push (recovery_event subcode reason rc rfc dst) (event_queue s)\<rparr>
        in snd (dx_pcie_interrupt_event_wakeup s1))"

definition dx_pcie_enqueue_abort_event ::
  "u32 \<Rightarrow> u32 \<Rightarrow> u32 list \<Rightarrow> u32 list \<Rightarrow> 'a pcie_scheme \<Rightarrow> 'a pcie_scheme" where
  "dx_pcie_enqueue_abort_event err_code dma_err wr rd s =
     (if \<not> dx_dev_list_get s then s
      else
        let s1 = s\<lparr>event_queue := evq_push (abort_event err_code dma_err wr rd) (event_queue s)\<rparr>
        in snd (dx_pcie_interrupt_event_wakeup s1))"

text \<open>The reader takes an event if there is one, waits for the event interrupt once otherwise.\<close>

definition dx_pcie_dequeue_event_response ::
  "'a pcie_ext env \<Rightarrow> 'a pcie_scheme \<Rightarrow> (bytes \<times> 'a pcie_scheme) option" where
  "dx_pcie_dequeue_event_response E s =
     (if \<not> dx_dev_list_get s then Some (zero_event, s)
      else case evq_pop (event_queue s) of
        (Some e, q) \<Rightarrow> Some (e, s\<lparr>event_queue := q\<rparr>)
      | (None, q) \<Rightarrow>
          (case dx_pcie_interrupt_event E s of
             None \<Rightarrow> None
           | Some t \<Rightarrow>
               (case evq_pop (event_queue t) of
                  (Some e, q) \<Rightarrow> Some (e, t\<lparr>event_queue := q\<rparr>)
                | (None, q) \<Rightarrow> Some (zero_event, t))))"

definition dx_pcie_is_event_pending :: "'a pcie_scheme \<Rightarrow> bool" where
  "dx_pcie_is_event_pending s =
     (if \<not> dx_dev_list_get s then False else 0 < count (event_queue s))"

definition dx_pcie_clear_event_response :: "'a pcie_scheme \<Rightarrow> 'a pcie_scheme" where
  "dx_pcie_clear_event_response s =
     (if \<not> dx_dev_list_get s then s else s\<lparr>event_queue := evq_clear (event_queue s)\<rparr>)"

section \<open>Doorbells\<close>

abbreviation (input) EP_IRQ_MSG_OFFSET :: nat where "EP_IRQ_MSG_OFFSET \<equiv> 0x20"
abbreviation (input) EP_IRQ_MSG_EN_OFFSET :: nat where "EP_IRQ_MSG_EN_OFFSET \<equiv> 0x60"

primrec notify_enable_loop :: "'a pcie_ext env \<Rightarrow> nat \<Rightarrow> 'a pcie_scheme \<Rightarrow> u32 \<times> 'a pcie_scheme" where
  "notify_enable_loop E 0 s = (0, s)"
| "notify_enable_loop E (Suc n) s =
     (let s1 = yield E s; v = readl (notify s1) EP_IRQ_MSG_EN_OFFSET in
      if v \<noteq> 0 then (v, s1) else notify_enable_loop E n s1)"

definition dx_pcie_is_notify_enable :: "'a pcie_ext env \<Rightarrow> 'a pcie_scheme \<Rightarrow> u32 \<times> 'a pcie_scheme" where
  "dx_pcie_is_notify_enable E s = notify_enable_loop E 1000 s"

definition dx_pcie_notify_msg_to_device :: "'a pcie_ext env \<Rightarrow> 'a pcie_scheme \<Rightarrow> 'a pcie_scheme" where
  "dx_pcie_notify_msg_to_device E s =
     (if \<not> dx_dev_list_get s then s
      else case dx_pcie_is_notify_enable E s of
        (en, s1) \<Rightarrow>
          if en \<noteq> 0 \<and> dx_ver s1 = 3 then s1\<lparr>notify := writel 1 EP_IRQ_MSG_OFFSET (notify s1)\<rparr>
          else s1)"

text \<open>The doorbell of a queue, one for the lock request and one for the release.\<close>

definition queue_doorbell :: "nat \<Rightarrow> bool \<Rightarrow> nat option" where
  "queue_doorbell queue lock =
     (if queue = DX_NORMAL_QUEUE0 then Some (if lock then 0x1C else 0x24)
      else if queue = DX_NORMAL_QUEUE1 then Some (if lock then 0x28 else 0x2C)
      else if queue = DX_NORMAL_QUEUE2 then Some (if lock then 0x30 else 0x34)
      else if queue = DX_HIGH_QUEUE then Some (if lock then 0x38 else 0x3C)
      else None)"

definition dx_pcie_notify_req_to_device ::
  "nat \<Rightarrow> bool \<Rightarrow> 'a pcie_scheme \<Rightarrow> int \<times> 'a pcie_scheme" where
  "dx_pcie_notify_req_to_device queue lock s =
     (if \<not> dx_dev_list_get s then (- ENODEV, s)
      else if dx_ver s = 3
      then case queue_doorbell queue lock of
          Some d \<Rightarrow> (0, s\<lparr>notify := writel 1 d (notify s)\<rparr>)
        | None \<Rightarrow> (- EINVAL, s)
      else (- 1, s))"

section \<open>Callbacks and initialisation\<close>

definition dx_pcie_register_response_callback :: "'a pcie_scheme \<Rightarrow> 'a pcie_scheme" where
  "dx_pcie_register_response_callback s = s\<lparr>response_callback := True\<rparr>"

definition dx_pcie_unregister_response_callback :: "'a pcie_scheme \<Rightarrow> 'a pcie_scheme" where
  "dx_pcie_unregister_response_callback s = s\<lparr>response_callback := False\<rparr>"

definition dx_pcie_register_event_callback :: "'a pcie_scheme \<Rightarrow> 'a pcie_scheme" where
  "dx_pcie_register_event_callback s = s\<lparr>event_callback := True\<rparr>"

definition dx_pcie_unregister_event_callback :: "'a pcie_scheme \<Rightarrow> 'a pcie_scheme" where
  "dx_pcie_unregister_event_callback s = s\<lparr>event_callback := False\<rparr>"

definition dx_pcie_register_link_event_callback :: "'a pcie_scheme \<Rightarrow> 'a pcie_scheme" where
  "dx_pcie_register_link_event_callback s =
     (if MAX_DEV_NUM \<le> idx s then s else s\<lparr>link_event_callback := True\<rparr>)"

definition dx_pcie_unregister_link_event_callback :: "'a pcie_scheme \<Rightarrow> 'a pcie_scheme" where
  "dx_pcie_unregister_link_event_callback s =
     (if MAX_DEV_NUM \<le> idx s then s else s\<lparr>link_event_callback := False\<rparr>)"

text \<open>The link event \<open>ev\<close> is true for up, false for down; \<open>cb\<close> is the registered handler.\<close>

definition dx_pcie_notify_link_event ::
  "(bool \<Rightarrow> 'a pcie_scheme \<Rightarrow> 'a pcie_scheme) \<Rightarrow> bool \<Rightarrow> 'a pcie_scheme \<Rightarrow> 'a pcie_scheme" where
  "dx_pcie_notify_link_event cb ev s =
     (if MAX_DEV_NUM \<le> idx s then s else if link_event_callback s then cb ev s else s)"

text \<open>\<open>USER_NUM_MAX\<close> is 4: the pool has one channel more than the three the device uses.\<close>

definition dx_pcie_message_init :: "'a pcie_scheme \<Rightarrow> int \<times> 'a pcie_scheme" where
  "dx_pcie_message_init s =
     (if MAX_DEV_NUM \<le> idx s then (- EINVAL, s)
      else if \<not> dx_dev_list_get s then (- ENODEV, s)
      else if \<not> alloc_ok s then (- ENOMEM, s)
      else
        let s1 = s\<lparr>responses := (\<lambda>i. if i < 4 then resp_clear (responses s i) else responses s i)\<rparr>;
            (ret, s2) = dx_pcie_set_message_ram_offs s1;
            t = ep_ram_info s2;
            s3 = s2\<lparr>msg_response := (msg_response s2)(0 := resp0_offs t, 1 := resp1_offs t, 2 := resp2_offs t),
                    msg_events := event_offs t, msg_irq_status := irq_offs t,
                    event_queue := \<lparr>entries = replicate DX_EVENT_QUEUE_SIZE zero_event,
                                    head = 0, tail = 0, count = 0\<rparr>\<rparr>;
            m1 = writel DX_RESP_UNLOCK (dx_resp_lock_addr (msg_response s3 0)) (bar s3);
            m2 = writel DX_RESP_UNLOCK (dx_resp_lock_addr (msg_response s3 1)) m1;
            m3 = writel DX_RESP_UNLOCK (dx_resp_lock_addr (msg_response s3 2)) m2;
            m4 = (if nr_irqs s3 = 1 then dx_memset_io32 (msg_irq_status s3) 0 0x100 m3 else m3)
        in (ret, s3\<lparr>bar := m4\<rparr>))"

section \<open>Lemmas\<close>

lemma length_put32 [simp]: "off + 4 \<le> length bs \<Longrightarrow> length (put32 off v bs) = length bs"
  by (simp add: put32_def)

lemma nth_put32:
  assumes "off + 4 \<le> length bs" "i < length bs"
  shows "put32 off v bs ! i = (if off \<le> i \<and> i < off + 4 then byte32 (i - off) v else bs ! i)"
proof -
  consider "i < off" | "off \<le> i" "i < off + 4" | "off + 4 \<le> i" by linarith
  then show ?thesis
  proof cases
    case 2
    then have "i - off = 0 \<or> i - off = 1 \<or> i - off = 2 \<or> i - off = 3" by linarith
    then show ?thesis using assms 2 by (auto simp: put32_def nth_append)
  qed (use assms in \<open>auto simp: put32_def nth_append nth_Cons'\<close>)
qed

lemma get32_put32_same [simp]: "off + 4 \<le> length bs \<Longrightarrow> get32 off (put32 off v bs) = v"
  by (simp add: get32_def nth_put32)

lemma get32_put32_other:
  assumes "off + 4 \<le> length bs" "off' + 4 \<le> length bs" "off' + 4 \<le> off \<or> off + 4 \<le> off'"
  shows "get32 off' (put32 off v bs) = get32 off' bs"
  using assms by (auto simp: get32_def nth_put32)

lemma length_put32s [simp]: "off + 4 * length vs \<le> length bs \<Longrightarrow> length (put32s off vs bs) = length bs"
  by (induction vs arbitrary: off bs) simp_all

lemma get32_put32s_other:
  "off + 4 * length vs \<le> length bs \<Longrightarrow> off' + 4 \<le> length bs \<Longrightarrow>
    off' + 4 \<le> off \<or> off + 4 * length vs \<le> off' \<Longrightarrow> get32 off' (put32s off vs bs) = get32 off' bs"
  by (induction vs arbitrary: off bs) (auto simp: get32_put32_other)

lemma get32_put32s_same:
  "i < length vs \<Longrightarrow> off + 4 * length vs \<le> length bs \<Longrightarrow> get32 (off + 4 * i) (put32s off vs bs) = vs ! i"
proof (induction vs arbitrary: off bs i)
  case (Cons v vs)
  show ?case
  proof (cases i)
    case 0
    then show ?thesis using Cons.prems by (simp add: get32_put32s_other)
  next
    case (Suc j)
    then show ?thesis
      using Cons.IH [of j "off + 4" "put32 off v bs"] Cons.prems by (simp add: algebra_simps)
  qed
qed simp

lemma length_zero_event [simp]: "length zero_event = 432"
  by (simp add: zero_event_def)

lemma wakeup_fields [simp]:
  "event_queue (snd (dx_pcie_interrupt_event_wakeup s)) = event_queue s"
  "dx_dev_list_get (snd (dx_pcie_interrupt_event_wakeup s)) = dx_dev_list_get s"
  "bar (snd (dx_pcie_interrupt_event_wakeup s)) = bar s"
  "responses (snd (dx_pcie_interrupt_event_wakeup s)) = responses s"
  "event_irq_idx (snd (dx_pcie_interrupt_event_wakeup s)) = event_irq_idx s"
  "irq_cell_of i (snd (dx_pcie_interrupt_event_wakeup s)) = irq_cell_of i s"
  by (simp_all add: dx_pcie_interrupt_event_wakeup_def dx_dev_list_get_def irq_cell_of_def Let_def)

lemma wakeup_sets:
  "dx_dev_list_get s \<Longrightarrow>
    events_irq (snd (dx_pcie_interrupt_event_wakeup s)) (irq_cell_of (event_irq_idx s) s) \<noteq> 0"
  by (simp add: dx_pcie_interrupt_event_wakeup_def Let_def)

lemma list_get_event_queue [simp]: "dx_dev_list_get (s\<lparr>event_queue := q\<rparr>) = dx_dev_list_get s"
  by (simp add: dx_dev_list_get_def)

lemma recovery_event_queue:
  "dx_dev_list_get s \<Longrightarrow>
    event_queue (dx_pcie_enqueue_recovery_event sc r rc rf d s) =
      evq_push (recovery_event sc r rc rf d) (event_queue s) \<and>
    dx_dev_list_get (dx_pcie_enqueue_recovery_event sc r rc rf d s)"
  by (simp add: dx_pcie_enqueue_recovery_event_def Let_def)

lemma interrupt_event_ready:
  assumes "dx_dev_list_get s" "events_irq s (irq_cell_of (event_irq_idx s) s) \<noteq> 0"
  shows "\<exists>t. dx_pcie_interrupt_event E s = Some t \<and> event_queue t = event_queue s"
  using assms by (simp add: dx_pcie_interrupt_event_def Let_def)

lemma dequeue_event_pending:
  assumes "dx_dev_list_get s" "evq_ok (event_queue s)" "evq_pending (event_queue s) = e # es"
  shows "\<exists>t. dx_pcie_dequeue_event_response E s = Some (e, t) \<and> evq_ok (event_queue t) \<and>
    evq_pending (event_queue t) = es"
  using events.deq_cons [OF assms(2,3)] assms(1)
  by (cases "evq_pop (event_queue s)") (auto simp: dx_pcie_dequeue_event_response_def)

text \<open>The doorbell wait is a polling loop.\<close>

interpretation notify_poll: poll_loop "\<lambda>n. notify_enable_loop E n" "yield E"
    "\<lambda>s. if readl (notify s) EP_IRQ_MSG_EN_OFFSET \<noteq> 0
         then Some (readl (notify s) EP_IRQ_MSG_EN_OFFSET) else None" "\<lambda>s. (0, s)"
  for E :: "'a pcie_ext env"
  by unfold_locales (simp_all add: Let_def)

section \<open>Properties\<close>


definition example_pcie :: pcie where
  "example_pcie = \<lparr>bar = (\<lambda>_. 0), jiffies = 0, tick = 0, sigpend = False, umem = (\<lambda>_. None),
     alloc_ok = True, idx = 0, dw_present = True, dx_ver = 3, nr_irqs = 1, dma_irqs = 0,
     event_irq_idx = 3, events_irq = (\<lambda>_. 0), init_completed = True, vm_env = False,
     notify = (\<lambda>_. 0), ep_ram_info = \<lparr>base_offs = 0, req0_offs = 0, req1_offs = 0, req2_offs = 0,
       req3_offs = 0, resp0_offs = 0, resp1_offs = 0, resp2_offs = 0, log_offs = 0, debug_offs = 0,
       event_offs = 0, irq_offs = 0, dl_offs = 0\<rparr>,
     msg_response = (\<lambda>_. 0), msg_events = 0, msg_irq_status = 0,
     responses = (\<lambda>_. \<lparr>r_pool = (\<lambda>_. []), r_list = [], r_header = 0\<rparr>),
     event_queue = \<lparr>entries = replicate 32 zero_event, head = 0, tail = 0, count = 0\<rparr>,
     response_callback = False, event_callback = False, link_event_callback = False\<rparr>"

lemma example_pcie_ok:
  "dx_dev_list_get example_pcie" "evq_ok (event_queue example_pcie)"
  "evq_pending (event_queue example_pcie) = []"
  by (simp_all add: example_pcie_def dx_dev_list_get_def evq_ok_def evq_pending_def)


text \<open>
  No wake-up is lost: once a recovery event has been produced, a reader that asks next gets the
  oldest pending event without sleeping, and a reader that was already asleep on the event
  interrupt returns, whatever the environment does.
\<close>

theorem recovery_event_wakes_reader:
  assumes "dx_dev_list_get s" "evq_ok (event_queue s)"
  shows "(\<exists>t. dx_pcie_dequeue_event_response E (dx_pcie_enqueue_recovery_event sc r rc rf d s) =
      Some (hd (evq_pending (event_queue s) @ [recovery_event sc r rc rf d]), t)) \<and>
    (\<exists>t. dx_pcie_interrupt_event E (dx_pcie_enqueue_recovery_event sc r rc rf d s) = Some t)"
proof
  let ?s = "dx_pcie_enqueue_recovery_event sc r rc rf d s"
  let ?e = "recovery_event sc r rc rf d"
  have q: "event_queue ?s = evq_push ?e (event_queue s)" "dx_dev_list_get ?s"
    using recovery_event_queue [OF assms(1)] by blast+
  then have ok: "evq_ok (event_queue ?s)" using events.enq_inv [OF assms(2)] by simp
  have "evq_pending (event_queue ?s) \<noteq> []"
    using events.enq_pending [OF assms(2), of ?e] q by (auto split: if_splits)
  moreover have "hd (evq_pending (event_queue ?s)) = hd (evq_pending (event_queue s) @ [?e])"
    using events.enq_pending [OF assms(2), of ?e] q by (auto simp: hd_append)
  ultimately show "\<exists>t. dx_pcie_dequeue_event_response E ?s =
      Some (hd (evq_pending (event_queue s) @ [?e]), t)"
    using dequeue_event_pending [OF q(2) ok] by (metis list.collapse)
  have "events_irq ?s (irq_cell_of (event_irq_idx ?s) ?s) \<noteq> 0"
    using assms(1) wakeup_sets [of "s\<lparr>event_queue := evq_push ?e (event_queue s)\<rparr>"]
    by (simp add: dx_pcie_enqueue_recovery_event_def Let_def)
  then show "\<exists>t. dx_pcie_interrupt_event E ?s = Some t"
    using interrupt_event_ready [OF q(2)] by blast
qed

theorem recovery_event_wakes_reader_witness:
  "(\<exists>t. dx_pcie_dequeue_event_response (\<lambda>k s. s)
      (dx_pcie_enqueue_recovery_event 1 1 0 0 1 example_pcie) = Some (recovery_event 1 1 0 0 1, t)) \<and>
   (\<exists>t. dx_pcie_interrupt_event (\<lambda>k s. s)
      (dx_pcie_enqueue_recovery_event 1 1 0 0 1 example_pcie) = Some t)"
  using recovery_event_wakes_reader [OF example_pcie_ok(1,2), of "\<lambda>k s. s" 1 1 0 0 1]
  by (simp add: example_pcie_ok(3))

text \<open>
  The event image decodes to what was put in: type, phase, reason, both counters and the device
  state of a recovery event, and nothing else in it is set; error code and DMA status of an abort
  event with all four write and read channel words.
\<close>

theorem event_images_decode:
  "length (recovery_event sc r rc rf d) = 432 \<and> get32 0 (recovery_event sc r rc rf d) = 3 \<and>
   map (\<lambda>i. get32 (8 + 4 * i) (recovery_event sc r rc rf d)) [0..<6] = [sc, r, rc, rf, d, 0] \<and>
   get32 0 (abort_event code err [w0, w1, w2, w3] [r0, r1, r2, r3]) = 1 \<and>
   get32 8 (abort_event code err [w0, w1, w2, w3] [r0, r1, r2, r3]) = code \<and>
   get32 92 (abort_event code err [w0, w1, w2, w3] [r0, r1, r2, r3]) = err \<and>
   map (\<lambda>i. get32 (304 + 4 * i) (abort_event code err [w0, w1, w2, w3] [r0, r1, r2, r3])) [0..<8] =
     [r0, r1, r2, r3, w0, w1, w2, w3]"
proof -
  have z: "get32 28 zero_event = 0" by (simp add: get32_def zero_event_def le32_def)
  show ?thesis
    by (simp add: recovery_event_def abort_event_def error_event_def get32_put32_other upt_rec z)
qed

text \<open>
  The structures of message RAM, each as start and length in bytes: the mailbox, the three request
  queues, the response buffers with their lock words, the log ring, the event buffer, the
  interrupt status words and the download block.
\<close>

definition ram_regions :: "message_ram_table \<Rightarrow> (nat \<times> nat) list" where
  "ram_regions t =
     [(base_offs t, 4016), (req0_offs t, 2096), (req1_offs t, 2096), (req2_offs t, 2096),
      (resp0_offs t, 64), (dx_resp_lock_addr (resp0_offs t), 4),
      (resp1_offs t, 64), (dx_resp_lock_addr (resp1_offs t), 4),
      (resp2_offs t, 64), (dx_resp_lock_addr (resp2_offs t), 4),
      (log_offs t, 16384), (event_offs t, 432), (irq_offs t, 256), (dl_offs t, 64)]"

fun ascending :: "(nat \<times> nat) list \<Rightarrow> bool" where
  "ascending ((a, n) # (b, m) # rs) \<longleftrightarrow> a + n \<le> b \<and> ascending ((b, m) # rs)"
| "ascending rs \<longleftrightarrow> True"

text \<open>
  On a version 3 device no two structures of message RAM overlap, all of them lie in the first
  64 KiB of the region and start on a word boundary, and the pointers handed to the runtime
  module are those of the table.
\<close>

theorem message_ram_layout:
  assumes "dx_ver s = 3" "dx_dev_list_get s"
  shows "case dx_pcie_set_message_ram_offs s of (r, t) \<Rightarrow>
    r = 0 \<and> ascending (ram_regions (ep_ram_info t)) \<and>
    list_all (\<lambda>(a, n). a + n \<le> 0x10000 \<and> a mod 4 = 0) (ram_regions (ep_ram_info t)) \<and>
    dx_pcie_get_message_area t = Some 0x7000 \<and> dx_pcie_get_log_area t = Some 0xB000 \<and>
    dx_pcie_get_dl_area t = Some 0xFFC0 \<and>
    map (\<lambda>q. dx_pcie_get_request_queue q t) [0, 1, 2] = [Some 0x8000, Some 0x8A00, Some 0x9400]"
  using assms
  by (simp add: dx_pcie_set_message_ram_offs_def ram_regions_def dx_resp_lock_addr_def
      dx_pcie_get_message_area_def dx_pcie_get_log_area_def dx_pcie_get_dl_area_def
      dx_pcie_get_request_queue_def dx_dev_list_get_def)

theorem message_ram_layout_witness:
  "case dx_pcie_set_message_ram_offs example_pcie of (r, t) \<Rightarrow>
    r = 0 \<and> ascending (ram_regions (ep_ram_info t)) \<and>
    list_all (\<lambda>(a, n). a + n \<le> 0x10000 \<and> a mod 4 = 0) (ram_regions (ep_ram_info t)) \<and>
    dx_pcie_get_message_area t = Some 0x7000 \<and> dx_pcie_get_log_area t = Some 0xB000 \<and>
    dx_pcie_get_dl_area t = Some 0xFFC0 \<and>
    map (\<lambda>q. dx_pcie_get_request_queue q t) [0, 1, 2] = [Some 0x8000, Some 0x8A00, Some 0x9400]"
  by (rule message_ram_layout [OF _ example_pcie_ok(1)]) (simp add: example_pcie_def)

text \<open>
  The offset of the high-priority queue is never set: initialisation keeps whatever the table held,
  so with the table of a freshly loaded module the high-priority queue pointer is the start of
  the region, outside the message area.
\<close>

theorem high_queue_offset_unset:
  "req3_offs (ep_ram_info (snd (dx_pcie_message_init s))) = req3_offs (ep_ram_info s) \<and>
   dx_pcie_get_request_queue 3 (snd (dx_pcie_message_init example_pcie)) = Some 0"
proof
  show "req3_offs (ep_ram_info (snd (dx_pcie_message_init s))) = req3_offs (ep_ram_info s)"
    by (simp add: dx_pcie_message_init_def dx_pcie_set_message_ram_offs_def Let_def)
  show "dx_pcie_get_request_queue 3 (snd (dx_pcie_message_init example_pcie)) = Some 0"
    by (simp add: dx_pcie_message_init_def dx_pcie_set_message_ram_offs_def Let_def
        dx_pcie_get_request_queue_def dx_dev_list_get_def example_pcie_def)
qed

lemma notify_enable_outcome:
  "(\<exists>k \<in> {1..1000}. readl (notify ((yield E ^^ k) s)) 96 \<noteq> 0 \<and>
      dx_pcie_is_notify_enable E s = (readl (notify ((yield E ^^ k) s)) 96, (yield E ^^ k) s)) \<or>
   ((\<forall>k \<in> {1..1000}. readl (notify ((yield E ^^ k) s)) 96 = 0) \<and>
      dx_pcie_is_notify_enable E s = (0, (yield E ^^ 1000) s))"
proof (cases rule: notify_poll.loop_cases [where n = 1000 and E = E and s = s])
  case (hit k r)
  then show ?thesis
    by (intro disjI1 bexI [of _ k]) (auto simp: dx_pcie_is_notify_enable_def split: if_splits)
next
  case timeout
  then show ?thesis
    by (intro disjI2) (auto simp: dx_pcie_is_notify_enable_def split: if_splits)
qed


text \<open>
  The mailbox doorbell is rung exactly when the device enables it within a thousand polls; the
  wait always ends, and without an answer, or for a device that is gone, no doorbell word is
  written.
\<close>

theorem mailbox_doorbell:
  "case dx_pcie_is_notify_enable E s of (v, t) \<Rightarrow>
     (v \<noteq> 0 \<longleftrightarrow> (\<exists>k \<in> {1..1000}. readl (notify ((yield E ^^ k) s)) 96 \<noteq> 0)) \<and>
     tick t \<le> tick s + 1000 \<and>
     notify (dx_pcie_notify_msg_to_device E s) =
       (if dx_dev_list_get s \<and> v \<noteq> 0 \<and> dx_ver t = 3 then writel 1 32 (notify t)
        else if dx_dev_list_get s then notify t else notify s)"
  using notify_enable_outcome [of E s]
proof (elim disjE bexE conjE)
  fix k assume "k \<in> {1..1000}" "readl (notify ((yield E ^^ k) s)) 96 \<noteq> 0"
    "dx_pcie_is_notify_enable E s = (readl (notify ((yield E ^^ k) s)) 96, (yield E ^^ k) s)"
  then show ?thesis by (auto simp: dx_pcie_notify_msg_to_device_def tick_yields)
next
  assume "\<forall>k \<in> {1..1000}. readl (notify ((yield E ^^ k) s)) 96 = 0"
    "dx_pcie_is_notify_enable E s = (0, (yield E ^^ 1000) s)"
  then show ?thesis by (auto simp: dx_pcie_notify_msg_to_device_def tick_yields)
qed

text \<open>
  The doorbell words of the four queues are pairwise different, for lock and unlock, and different
  from the mailbox doorbell and its enable word, so ringing one never looks like another.
\<close>

theorem doorbells_distinct:
  "distinct (0x20 # 0x60 # map (\<lambda>(q, l). the (queue_doorbell q l)) (List.product [0, 1, 2, 3] [True, False])) \<and>
   list_all (\<lambda>(q, l). queue_doorbell q l \<noteq> None) (List.product [0, 1, 2, 3] [True, False]) \<and>
   dx_pcie_notify_req_to_device (n + 4) l s =
     (if \<not> dx_dev_list_get s then - ENODEV else if dx_ver s = 3 then - EINVAL else - 1, s)"
  by (simp add: queue_doorbell_def dx_pcie_notify_req_to_device_def)

text \<open>
  On a device with a single interrupt vector, waking the reader of one channel's interrupt does
  nothing for it unless the channel is the event interrupt: the wake-up goes to the event cell
  while the reader waits on the cell of its channel, so a reader that nobody else wakes keeps
  sleeping.
\<close>

theorem single_vector_wakeup_misses:
  assumes "dx_dev_list_get s" "nr_irqs s = 1" "irq_id \<noteq> event_irq_idx s"
  shows "events_irq (snd (dx_pcie_interrupt_wakeup irq_id s)) (irq_cell_of irq_id s) =
    events_irq s (irq_cell_of irq_id s)"
  using assms by (simp add: dx_pcie_interrupt_wakeup_def irq_cell_of_def Let_def)

theorem single_vector_wakeup_misses_witness:
  "events_irq (snd (dx_pcie_interrupt_wakeup 0 example_pcie)) (UserIrqs 0) = 0"
  using single_vector_wakeup_misses [OF example_pcie_ok(1), of 0]
  by (simp add: irq_cell_of_def example_pcie_def)

section \<open>Response arrivals\<close>

lemma list_get_frame [simp]:
  "dx_dev_list_get (s\<lparr>bar := m\<rparr>) = dx_dev_list_get s"
  "dx_dev_list_get (s\<lparr>responses := r\<rparr>) = dx_dev_list_get s"
  by (simp_all add: dx_dev_list_get_def)

lemma message_init_ok:
  assumes "dx_dev_list_get s" "alloc_ok s"
  shows "fst (dx_pcie_message_init s) = (if dx_ver s = 3 then 0 else - 1) \<and>
    evq_ok (event_queue (snd (dx_pcie_message_init s))) \<and>
    evq_pending (event_queue (snd (dx_pcie_message_init s))) = [] \<and>
    (\<forall>ch < 3. resp_ok (responses (snd (dx_pcie_message_init s)) ch) \<and>
       resp_pending (responses (snd (dx_pcie_message_init s)) ch) = [])"
  using assms
  by (simp add: dx_pcie_message_init_def dx_pcie_set_message_ram_offs_def Let_def evq_ok_def
      evq_pending_def resp_clear_ok dx_dev_list_get_def)

text \<open>What the handler of one arrival leaves: the 64 bytes of the buffer at the end of the pool.\<close>

lemma enqueue_response_pool:
  assumes "dx_dev_list_get s" "\<And>p t. responses (cb ch p t) = responses t"
  shows "responses (dx_pcie_enqueue_response cb ch s) =
    (responses s)(ch := resp_push (map (bar s) [msg_response s ch ..< msg_response s ch + 64])
      (responses s ch))"
proof -
  let ?a = "msg_response s ch"
  have e: "map (writel 1 (dx_resp_lock_addr ?a) (bar s)) [?a ..< ?a + 64] = map (bar s) [?a ..< ?a + 64]"
    by (rule map_cong) (simp_all add: dx_resp_lock_addr_def writel_other)
  show ?thesis using assms
    by (simp add: dx_pcie_enqueue_response_def Let_def dx_memcpy_fromio32_eq e)
qed

end
