(* ===== verification/Dx_LinkHealth.thy ===== *)
theory Dx_LinkHealth
  imports Dx_Pcie
begin

text \<open>
  Link supervision of \<^verbatim>\<open>pci_deepx/dx_link_health.c\<close>: the health sample, its debouncing worker, the
  quiesce on link loss, the rate-limited recovery worker and the reinitialisation.  The event
  callback into the runtime module and the eDMA register restore (\<^verbatim>\<open>dw_edma_v0_core_edma_restore\<close>)
  are arguments of the definitions that call them.
\<close>

section \<open>State\<close>

datatype dx_link_state = LINK_UNKNOWN | LINK_UP | LINK_DOWN | LINK_RECOVERING | LINK_DEGRADED
datatype dx_dev_state = DEV_UNINIT | DEV_LIVE | DEV_RECOVERING | DEV_AER_RESET | DEV_REMOVING

record chan =
  hw_err :: bool
  aborted :: bool
  busy :: bool

text \<open>
  \<open>cfg_vendor\<close>, \<open>cfg_lnksta\<close> and \<open>cfg_command\<close> are what the next read of that configuration
  word yields, \<open>None\<close> if the read fails.  \<open>health_work\<close> and \<open>recovery_work\<close> say that the work item
  is queued.
\<close>

record linkh = pcie +
  link_state :: dx_link_state
  edma_state :: dx_dev_state
  edma_epoch :: u32
  link_health_enabled :: bool
  background_recovery_paused :: bool
  health_fail_count :: nat
  edma_last_recovery :: u64
  recovery_count_in_window :: nat
  recovery_window_start :: u64
  rate_limit_cooldown_until :: u64
  health_work :: bool
  recovery_work :: bool
  chans :: "chan list"
  cfg_vendor :: "u16 option"
  cfg_lnksta :: "u16 option"
  cfg_command :: "u16 option"

abbreviation (input) DX_HEALTH_FAIL_THRESHOLD :: nat where "DX_HEALTH_FAIL_THRESHOLD \<equiv> 3"
abbreviation (input) DX_RECOVERY_MAX_IN_WINDOW :: nat where "DX_RECOVERY_MAX_IN_WINDOW \<equiv> 10"
abbreviation (input) DX_RECOVERY_WINDOW_SECS :: nat where "DX_RECOVERY_WINDOW_SECS \<equiv> 60"
abbreviation (input) DX_RECOVERY_COOLDOWN_SECS :: nat where "DX_RECOVERY_COOLDOWN_SECS \<equiv> 10"
abbreviation (input) DX_LINK_VALIDATION_TIMEOUT_MS :: u32 where "DX_LINK_VALIDATION_TIMEOUT_MS \<equiv> 300"

section \<open>Health sample and validation\<close>

definition dx_pcie_check_link_health :: "'a linkh_scheme \<Rightarrow> dx_link_state" where
  "dx_pcie_check_link_health s =
     (case cfg_vendor s of
        None \<Rightarrow> LINK_DOWN
      | Some vendor \<Rightarrow>
          if vendor = 0xFFFF then LINK_DOWN
          else case cfg_lnksta s of
            None \<Rightarrow> LINK_DOWN
          | Some linkstat \<Rightarrow>
              let speed = linkstat AND 0x000F; width = drop_bit 4 (linkstat AND 0x03F0) in
              if speed = 0 \<or> width = 0 then LINK_DOWN else LINK_UP)"

text \<open>\<open>do { sample; msleep(20); } while (time_before(jiffies, timeout))\<close>.\<close>

partial_function (option) validate_loop ::
  "'a linkh_ext pcie_ext env \<Rightarrow> u64 \<Rightarrow> 'a linkh_scheme \<Rightarrow> (int \<times> 'a linkh_scheme) option" where
  "validate_loop E timeout s =
     (if dx_pcie_check_link_health s = LINK_UP then Some (0, s)
      else if dx_pcie_check_link_health s = LINK_DEGRADED then Some (1, s)
      else let s1 = yield E s in
        if time_before (jiffies s1) timeout then validate_loop E timeout s1
        else Some (- ETIMEDOUT, s1))"

definition dx_pcie_validate_link ::
  "'a linkh_ext pcie_ext env \<Rightarrow> nat \<Rightarrow> 'a linkh_scheme \<Rightarrow> (int \<times> 'a linkh_scheme) option" where
  "dx_pcie_validate_link E hz s =
     validate_loop E (jiffies s + msecs_to_jiffies hz DX_LINK_VALIDATION_TIMEOUT_MS) s"

section \<open>Quiesce and reinitialisation\<close>

type_synonym 'a link_cb = "bool \<Rightarrow> 'a linkh_scheme \<Rightarrow> 'a linkh_scheme"

text \<open>No register is written: the link is down.  The runtime module is told last.\<close>

definition dx_dma_quiesce_for_link_down :: "'a link_cb \<Rightarrow> 'a linkh_scheme \<Rightarrow> 'a linkh_scheme" where
  "dx_dma_quiesce_for_link_down cb s =
     (let s1 = s\<lparr>edma_state := DEV_AER_RESET, link_state := LINK_DOWN, edma_epoch := edma_epoch s + 1\<rparr>;
          s2 = s1\<lparr>chans := map (\<lambda>c. c\<lparr>hw_err := True\<rparr>) (chans s1)\<rparr>
      in dx_pcie_notify_link_event cb False s2)"

definition dx_dma_recovery_rate_ok :: "nat \<Rightarrow> 'a linkh_scheme \<Rightarrow> bool \<times> 'a linkh_scheme" where
  "dx_dma_recovery_rate_ok hz s =
     (let now = jiffies s;
          window = of_nat (DX_RECOVERY_WINDOW_SECS * hz);
          s1 = (if time_after now (recovery_window_start s + window)
                then s\<lparr>recovery_window_start := now, recovery_count_in_window := 0\<rparr> else s)
      in (\<not> DX_RECOVERY_MAX_IN_WINDOW \<le> recovery_count_in_window s1, s1))"

definition dx_dma_recovery_rate_record_attempt :: "'a linkh_scheme \<Rightarrow> 'a linkh_scheme" where
  "dx_dma_recovery_rate_record_attempt s =
     s\<lparr>edma_last_recovery := jiffies s, recovery_count_in_window := recovery_count_in_window s + 1\<rparr>"

definition dx_dma_full_reinit ::
  "'a linkh_ext pcie_ext env \<Rightarrow> nat \<Rightarrow> ('a linkh_scheme \<Rightarrow> int \<times> 'a linkh_scheme) \<Rightarrow> 'a link_cb \<Rightarrow>
     'a linkh_scheme \<Rightarrow> (int \<times> 'a linkh_scheme) option" where
  "dx_dma_full_reinit E hz edma_restore cb s =
     (case edma_restore (s\<lparr>link_state := LINK_RECOVERING\<rparr>) of
        (r, s1) \<Rightarrow>
          if r \<noteq> 0 then Some (r, s1\<lparr>link_state := LINK_DOWN\<rparr>)
          else case dx_pcie_validate_link E hz (dx_pcie_set_init_completed s1) of
            None \<Rightarrow> None
          | Some (v, s2) \<Rightarrow>
              if v < 0 then Some (- ETIMEDOUT, s2\<lparr>link_state := LINK_DOWN\<rparr>)
              else
                let s3 = s2\<lparr>link_state := (if v = 1 then LINK_DEGRADED else LINK_UP)\<rparr>;
                    s4 = s3\<lparr>chans := map (\<lambda>c. \<lparr>hw_err = False, aborted = False, busy = False\<rparr>) (chans s3)\<rparr>;
                    s5 = s4\<lparr>edma_state := DEV_LIVE\<rparr>
                in Some (0, dx_pcie_notify_link_event cb True s5))"

definition dx_dma_background_recovery_blocked :: "'a linkh_scheme \<Rightarrow> bool" where
  "dx_dma_background_recovery_blocked s \<longleftrightarrow>
     edma_state s = DEV_REMOVING \<or> \<not> link_health_enabled s \<or> background_recovery_paused s"

definition dx_pcie_ep_config_was_reset :: "'a linkh_scheme \<Rightarrow> bool" where
  "dx_pcie_ep_config_was_reset s =
     (case cfg_vendor s of
        None \<Rightarrow> False
      | Some vendor \<Rightarrow>
          if vendor = 0xFFFF then False
          else case cfg_command s of
            None \<Rightarrow> False
          | Some cmd \<Rightarrow> cmd AND 0x0002 = 0)"

section \<open>Workers\<close>

definition dx_dma_recovery_work_fn ::
  "'a linkh_ext pcie_ext env \<Rightarrow> nat \<Rightarrow> ('a linkh_scheme \<Rightarrow> int \<times> 'a linkh_scheme) \<Rightarrow> 'a link_cb \<Rightarrow>
     'a linkh_scheme \<Rightarrow> 'a linkh_scheme option" where
  "dx_dma_recovery_work_fn E hz edma_restore cb s =
     (if dx_dma_background_recovery_blocked s then Some s
      else if dx_pcie_check_link_health s = LINK_DOWN then Some s
      else case dx_dma_recovery_rate_ok hz s of
        (ok, s1) \<Rightarrow>
          if \<not> ok
          then Some (s1\<lparr>rate_limit_cooldown_until :=
                 jiffies s1 + of_nat (DX_RECOVERY_COOLDOWN_SECS * hz)\<rparr>)
          else if dx_dma_background_recovery_blocked s1 then Some s1
          else
            let s2 = dx_dma_recovery_rate_record_attempt s1 in
            if dx_dma_background_recovery_blocked s2 then Some s2
            else map_option snd (dx_dma_full_reinit E hz edma_restore cb s2))"

definition health_sample :: "'a link_cb \<Rightarrow> 'a linkh_scheme \<Rightarrow> 'a linkh_scheme" where
  "health_sample cb s =
     (let prev_link = link_state s; ls = dx_pcie_check_link_health s in
      if ls = LINK_DOWN then
        let s1 = s\<lparr>health_fail_count := health_fail_count s + 1\<rparr> in
        if DX_HEALTH_FAIL_THRESHOLD \<le> health_fail_count s1 \<and> prev_link \<noteq> LINK_DOWN
        then dx_dma_quiesce_for_link_down cb s1 else s1
      else if ls = LINK_UP \<or> ls = LINK_DEGRADED then
        let s1 = s\<lparr>health_fail_count := 0\<rparr> in
        if prev_link = LINK_DOWN then
          if time_before (jiffies s1) (rate_limit_cooldown_until s1) then s1
          else if recovery_work s1 then s1
          else s1\<lparr>recovery_work := True\<rparr>
        else if ls = LINK_DEGRADED \<and> prev_link \<noteq> LINK_DEGRADED then s1\<lparr>link_state := LINK_DEGRADED\<rparr>
        else if dx_pcie_ep_config_was_reset s1 \<and>
          \<not> time_before (jiffies s1) (rate_limit_cooldown_until s1) \<and> \<not> recovery_work s1
        then (dx_dma_quiesce_for_link_down cb s1)\<lparr>recovery_work := True\<rparr>
        else s1
      else s)"

definition dx_link_health_work_fn :: "'a link_cb \<Rightarrow> 'a linkh_scheme \<Rightarrow> 'a linkh_scheme" where
  "dx_link_health_work_fn cb s =
     (if dx_dma_background_recovery_blocked s then s
      else let s1 = health_sample cb s in
        if \<not> dx_dma_background_recovery_blocked s1 then s1\<lparr>health_work := True\<rparr> else s1)"

section \<open>Lifecycle\<close>

definition dx_link_health_init :: "bool \<Rightarrow> 'a linkh_scheme \<Rightarrow> 'a linkh_scheme" where
  "dx_link_health_init default_enabled s =
     s\<lparr>link_state := LINK_UNKNOWN, link_health_enabled := default_enabled,
       background_recovery_paused := False, health_fail_count := 0, edma_last_recovery := 0,
       recovery_count_in_window := 0, recovery_window_start := jiffies s,
       rate_limit_cooldown_until := 0, health_work := False, recovery_work := False\<rparr>"

definition dx_link_health_start :: "'a linkh_scheme \<Rightarrow> 'a linkh_scheme" where
  "dx_link_health_start s =
     (let s1 = s\<lparr>link_state := LINK_UP, background_recovery_paused := False\<rparr> in
      if \<not> link_health_enabled s1 then s1 else s1\<lparr>health_work := True\<rparr>)"

definition dx_link_health_stop :: "'a linkh_scheme \<Rightarrow> 'a linkh_scheme" where
  "dx_link_health_stop s =
     s\<lparr>background_recovery_paused := True, health_work := False, recovery_work := False\<rparr>"

definition dx_link_health_set_enabled :: "bool \<Rightarrow> 'a linkh_scheme \<Rightarrow> 'a linkh_scheme" where
  "dx_link_health_set_enabled enable s =
     (if enable then
        let s1 = s\<lparr>link_health_enabled := True, health_fail_count := 0\<rparr> in
        if edma_state s1 \<noteq> DEV_REMOVING \<and> \<not> background_recovery_paused s1
        then s1\<lparr>health_work := True\<rparr> else s1
      else s\<lparr>link_health_enabled := False, health_work := False, recovery_work := False\<rparr>)"

section \<open>Lemmas\<close>

lemma not_time_before: "\<not> time_before a b \<longleftrightarrow> time_after_eq a b"
  by (auto simp: time_before_def time_after_def time_after_eq_def)

lemma check_link_up_or_down: "dx_pcie_check_link_health s \<in> {LINK_UP, LINK_DOWN}"
  by (simp add: dx_pcie_check_link_health_def Let_def split: option.splits)

lemma check_link_cong:
  "cfg_vendor s = cfg_vendor t \<Longrightarrow> cfg_lnksta s = cfg_lnksta t \<Longrightarrow>
    dx_pcie_check_link_health s = dx_pcie_check_link_health t"
  by (simp add: dx_pcie_check_link_health_def split: option.split)

lemma check_link_update [simp]:
  "dx_pcie_check_link_health (s\<lparr>health_fail_count := n\<rparr>) = dx_pcie_check_link_health s"
  "dx_pcie_check_link_health (s\<lparr>health_work := b\<rparr>) = dx_pcie_check_link_health s"
  "dx_pcie_check_link_health (s\<lparr>recovery_work := b\<rparr>) = dx_pcie_check_link_health s"
  "dx_pcie_check_link_health (s\<lparr>link_state := l\<rparr>) = dx_pcie_check_link_health s"
  "dx_pcie_check_link_health (dx_pcie_set_init_completed s) = dx_pcie_check_link_health s"
  by (rule check_link_cong; simp add: dx_pcie_set_init_completed_def)+

lemma blocked_update [simp]:
  "dx_dma_background_recovery_blocked (s\<lparr>health_fail_count := n\<rparr>) = dx_dma_background_recovery_blocked s"
  "dx_dma_background_recovery_blocked (s\<lparr>health_work := b\<rparr>) = dx_dma_background_recovery_blocked s"
  "dx_dma_background_recovery_blocked (s\<lparr>recovery_work := b\<rparr>) = dx_dma_background_recovery_blocked s"
  "dx_dma_background_recovery_blocked (dx_dma_recovery_rate_record_attempt s) =
     dx_dma_background_recovery_blocked s"
  by (simp_all add: dx_dma_background_recovery_blocked_def dx_dma_recovery_rate_record_attempt_def)

definition validate_verdict ::
  "'a linkh_ext pcie_ext env \<Rightarrow> u64 \<Rightarrow> 'a linkh_scheme \<Rightarrow> (int \<times> 'a linkh_scheme) option" where
  "validate_verdict E timeout s =
     (if dx_pcie_check_link_health s = LINK_UP then Some (0, s)
      else if dx_pcie_check_link_health s = LINK_DEGRADED then Some (1, s)
      else if time_before (jiffies (yield E s)) timeout then None
      else Some (- ETIMEDOUT, yield E s))"

interpretation validate_wait: deadline_loop "validate_loop E timeout" "yield E"
    "validate_verdict E timeout" jiffies timeout
  for E :: "'a linkh_ext pcie_ext env" and timeout
proof unfold_locales
  show "validate_loop E timeout s =
      (case validate_verdict E timeout s of Some r \<Rightarrow> Some r | None \<Rightarrow> validate_loop E timeout (yield E s))" for s
    by (subst validate_loop.simps) (simp add: validate_verdict_def Let_def)
  show "time_after_eq (jiffies (yield E s)) timeout \<Longrightarrow> validate_verdict E timeout s \<noteq> None" for s
    by (simp add: validate_verdict_def not_time_before [symmetric])
qed

lemma validate_up_now: "dx_pcie_check_link_health s = LINK_UP \<Longrightarrow> dx_pcie_validate_link E hz s = Some (0, s)"
  unfolding dx_pcie_validate_link_def by (subst validate_loop.simps) simp

lemma rate_ok_count:
  "fst (dx_dma_recovery_rate_ok hz s) \<longleftrightarrow> recovery_count_in_window (snd (dx_dma_recovery_rate_ok hz s)) < 10"
  "recovery_count_in_window (snd (dx_dma_recovery_rate_ok hz s)) \<le> recovery_count_in_window s"
  by (auto simp: dx_dma_recovery_rate_ok_def Let_def)

lemma health_tick_down:
  assumes "\<not> dx_dma_background_recovery_blocked s" "dx_pcie_check_link_health s = LINK_DOWN"
    and "link_state s \<noteq> LINK_DOWN" "health_fail_count s < 2"
  shows "dx_link_health_work_fn cb s =
    s\<lparr>health_fail_count := health_fail_count s + 1, health_work := True\<rparr>"
  using assms by (simp add: dx_link_health_work_fn_def health_sample_def Let_def)

lemma funpow_2_apply: "(f ^^ 2) x = f (f x)"
  by (simp add: numeral_2_eq_2)

section \<open>Properties\<close>

text \<open>
  Link validation always returns when the clock runs: success is reported only for a link that
  samples as up in the state returned, and a failure only after the 300 ms have passed.
\<close>

theorem link_validation_returns:
  assumes "clock_ok E"
  shows "\<exists>r t. dx_pcie_validate_link E hz s = Some (r, t) \<and>
    (if r = 0 then dx_pcie_check_link_health t = LINK_UP
     else r = - ETIMEDOUT \<and> time_after_eq (jiffies t) (jiffies s + msecs_to_jiffies hz 300))"
proof -
  let ?d = "jiffies s + msecs_to_jiffies hz 300"
  obtain k r t where "validate_verdict E ?d ((yield E ^^ k) s) = Some (r, t)"
    "validate_loop E ?d s = Some (r, t)"
    using validate_wait.terminates [of E ?d s] clock_ok_yield [OF assms] by (metis surj_pair)
  then show ?thesis using check_link_up_or_down [of "(yield E ^^ k) s"]
    by (auto simp: dx_pcie_validate_link_def validate_verdict_def not_time_before split: if_splits)
qed

definition example_link :: linkh where
  "example_link = pcie.extend example_pcie
     \<lparr>link_state = LINK_DOWN, edma_state = DEV_AER_RESET, edma_epoch = 1, link_health_enabled = True,
      background_recovery_paused = False, health_fail_count = 0, edma_last_recovery = 0,
      recovery_count_in_window = 0, recovery_window_start = 0, rate_limit_cooldown_until = 0,
      health_work = True, recovery_work = False,
      chans = replicate 8 \<lparr>hw_err = True, aborted = True, busy = True\<rparr>,
      cfg_vendor = Some 0x1ff4, cfg_lnksta = Some 0x43, cfg_command = Some 6\<rparr>"

definition link_clock :: "unit linkh_ext pcie_ext env" where
  "link_clock k s = s\<lparr>jiffies := jiffies s + 1\<rparr>"

lemma link_clock_ok: "clock_ok link_clock"
  by (simp add: clock_ok_def link_clock_def)

theorem link_validation_returns_witness:
  "\<exists>r t. dx_pcie_validate_link link_clock 250 (example_link\<lparr>cfg_vendor := None\<rparr>) = Some (r, t) \<and>
    (if r = 0 then dx_pcie_check_link_health t = LINK_UP
     else r = - ETIMEDOUT \<and>
       time_after_eq (jiffies t) (jiffies (example_link\<lparr>cfg_vendor := None\<rparr>) + msecs_to_jiffies 250 300))"
  by (rule link_validation_returns [OF link_clock_ok])

text \<open>
  Link loss is debounced: starting from a healthy link, two failing samples change nothing but the
  failure count; the third one quiesces the device (submission blocked, epoch advanced, every
  channel marked failed) and tells the runtime module once.  A good sample in between resets
  the count.
\<close>

theorem link_down_debounced:
  assumes "\<not> dx_dma_background_recovery_blocked s" "dx_pcie_check_link_health s = LINK_DOWN"
    and "link_state s \<noteq> LINK_DOWN" "health_fail_count s = 0"
  shows "dx_link_health_work_fn cb s = s\<lparr>health_fail_count := 1, health_work := True\<rparr> \<and>
    (dx_link_health_work_fn cb ^^ 2) s = s\<lparr>health_fail_count := 2, health_work := True\<rparr> \<and>
    (dx_link_health_work_fn cb ^^ 3) s =
      (let t = dx_pcie_notify_link_event cb False
           (s\<lparr>health_work := True, health_fail_count := 3, edma_state := DEV_AER_RESET,
              link_state := LINK_DOWN, edma_epoch := edma_epoch s + 1,
              chans := map (\<lambda>c. c\<lparr>hw_err := True\<rparr>) (chans s)\<rparr>)
       in if dx_dma_background_recovery_blocked t then t else t\<lparr>health_work := True\<rparr>)"
proof -
  let ?f = "dx_link_health_work_fn cb"
  have 1: "?f s = s\<lparr>health_fail_count := 1, health_work := True\<rparr>"
    using assms by (simp add: health_tick_down)
  then have 2: "(?f ^^ 2) s = s\<lparr>health_fail_count := 2, health_work := True\<rparr>"
    using assms by (simp add: funpow_2_apply health_tick_down)
  have "(?f ^^ 3) s = ?f ((?f ^^ 2) s)" by (simp add: numeral_eq_Suc)
  also have "\<dots> = (let t = dx_pcie_notify_link_event cb False
           (s\<lparr>health_work := True, health_fail_count := 3, edma_state := DEV_AER_RESET,
              link_state := LINK_DOWN, edma_epoch := edma_epoch s + 1,
              chans := map (\<lambda>c. c\<lparr>hw_err := True\<rparr>) (chans s)\<rparr>)
       in if dx_dma_background_recovery_blocked t then t else t\<lparr>health_work := True\<rparr>)"
    unfolding 2 using assms
    by (simp add: dx_link_health_work_fn_def health_sample_def dx_dma_quiesce_for_link_down_def Let_def)
  finally show ?thesis using 1 2 by blast
qed

theorem link_down_debounced_witness:
  "(dx_link_health_work_fn (\<lambda>_ t. t) ^^ 2) (example_link\<lparr>cfg_vendor := None, link_state := LINK_UP\<rparr>) =
     example_link\<lparr>cfg_vendor := None, link_state := LINK_UP, health_fail_count := 2, health_work := True\<rparr>"
  using link_down_debounced
    [of "example_link\<lparr>cfg_vendor := None, link_state := LINK_UP\<rparr>" "\<lambda>_ t. t"]
  by (simp add: example_link_def dx_dma_background_recovery_blocked_def dx_pcie_check_link_health_def
      pcie.defs linkh.defs)

section \<open>Recovery attempts\<close>

text \<open>
  A run of the supervisor: either worker fires, or the rest of the system changes anything but the
  attempt counter.
\<close>

definition keeps_attempts :: "('a linkh_scheme \<Rightarrow> 'a linkh_scheme) \<Rightarrow> bool" where
  "keeps_attempts f \<longleftrightarrow> (\<forall>s. recovery_count_in_window (f s) = recovery_count_in_window s)"

inductive link_step ::
  "'a linkh_ext pcie_ext env \<Rightarrow> nat \<Rightarrow> ('a linkh_scheme \<Rightarrow> int \<times> 'a linkh_scheme) \<Rightarrow> 'a link_cb \<Rightarrow>
     'a linkh_scheme \<Rightarrow> 'a linkh_scheme \<Rightarrow> bool"
  for E hz edma_restore cb where
  link_health: "link_step E hz edma_restore cb s (dx_link_health_work_fn cb s)"
| link_recovery: "dx_dma_recovery_work_fn E hz edma_restore cb s = Some t \<Longrightarrow>
    link_step E hz edma_restore cb s t"
| link_other: "recovery_count_in_window t = recovery_count_in_window s \<Longrightarrow>
    link_step E hz edma_restore cb s t"

lemma attempts_init_completed [simp]:
  "recovery_count_in_window (dx_pcie_set_init_completed s) = recovery_count_in_window s"
  by (simp add: dx_pcie_set_init_completed_def)

lemma attempts_notify:
  "keeps_attempts (cb ev) \<Longrightarrow>
    recovery_count_in_window (dx_pcie_notify_link_event cb ev s) = recovery_count_in_window s"
  by (simp add: keeps_attempts_def dx_pcie_notify_link_event_def)

lemma attempts_yield:
  "(\<And>k. keeps_attempts (E k)) \<Longrightarrow> recovery_count_in_window (yield E s) = recovery_count_in_window s"
  by (simp add: keeps_attempts_def yield_def)

lemma attempts_validate:
  assumes E: "\<And>k. keeps_attempts (E k)" and v: "validate_loop E d s = Some (r, t)"
  shows "recovery_count_in_window t = recovery_count_in_window s"
proof -
  have "recovery_count_in_window (snd (r, t)) = recovery_count_in_window s"
    by (rule validate_loop.raw_induct [where P = "\<lambda>E d s p. (\<forall>k. keeps_attempts (E k)) \<longrightarrow>
          recovery_count_in_window (snd p) = recovery_count_in_window s", OF _ v, THEN mp])
       (use E in \<open>auto simp: Let_def attempts_yield split: if_splits\<close>)
  then show ?thesis by simp
qed

lemma attempts_health:
  assumes "\<And>ev. keeps_attempts (cb ev)"
  shows "recovery_count_in_window (dx_link_health_work_fn cb s) = recovery_count_in_window s"
  using assms
  by (simp add: dx_link_health_work_fn_def health_sample_def dx_dma_quiesce_for_link_down_def Let_def
      attempts_notify)

lemma attempts_reinit:
  assumes "\<And>k. keeps_attempts (E k)" "\<And>ev. keeps_attempts (cb ev)" "keeps_attempts (snd \<circ> edma_restore)"
    and r: "dx_dma_full_reinit E hz edma_restore cb s = Some (r, t)"
  shows "recovery_count_in_window t = recovery_count_in_window s"
proof -
  obtain r1 s1 where e: "edma_restore (s\<lparr>link_state := LINK_RECOVERING\<rparr>) = (r1, s1)" by fastforce
  have s1: "recovery_count_in_window s1 = recovery_count_in_window s"
    using assms(3) e unfolding keeps_attempts_def
    by (metis (no_types, lifting) comp_apply linkh.select_convs(8) linkh.surjective linkh.update_convs(1) snd_conv)
  show ?thesis
  proof (cases "r1 = 0")
    case True
    then obtain v s2 where v: "dx_pcie_validate_link E hz (dx_pcie_set_init_completed s1) = Some (v, s2)"
      using r e by (auto simp: dx_dma_full_reinit_def split: option.splits)
    then have "recovery_count_in_window s2 = recovery_count_in_window s"
      using attempts_validate [OF assms(1)] s1 unfolding dx_pcie_validate_link_def by fastforce
    then show ?thesis using r e v True
      by (auto simp: dx_dma_full_reinit_def Let_def attempts_notify [OF assms(2)] split: if_splits)
  next
    case False
    then show ?thesis using r e s1 by (auto simp: dx_dma_full_reinit_def)
  qed
qed

lemma attempts_recovery_work:
  assumes "\<And>k. keeps_attempts (E k)" "\<And>ev. keeps_attempts (cb ev)" "keeps_attempts (snd \<circ> edma_restore)"
    and "dx_dma_recovery_work_fn E hz edma_restore cb s = Some t"
    and "recovery_count_in_window s \<le> 10"
  shows "recovery_count_in_window t \<le> 10"
proof -
  obtain ok s1 where q: "dx_dma_recovery_rate_ok hz s = (ok, s1)" by fastforce
  have s1: "ok \<longleftrightarrow> recovery_count_in_window s1 < 10" "recovery_count_in_window s1 \<le> 10"
    using rate_ok_count [of hz s] q assms(5) by simp_all
  have "recovery_count_in_window t \<le> 10"
    if "dx_dma_full_reinit E hz edma_restore cb (dx_dma_recovery_rate_record_attempt s1) = Some (r, t)" ok for r
    using attempts_reinit [OF assms(1-3) that(1)] s1 that(2)
    by (simp add: dx_dma_recovery_rate_record_attempt_def)
  then show ?thesis using assms(4,5) s1 q
    by (auto simp: dx_dma_recovery_work_fn_def Let_def dx_dma_recovery_rate_record_attempt_def
        split: if_splits)
qed

interpretation link_run: trans_inv
    "\<lambda>s t. (\<forall>k. keeps_attempts (E k)) \<and> (\<forall>ev. keeps_attempts (cb ev)) \<and>
       keeps_attempts (snd \<circ> edma_restore) \<and> link_step E hz edma_restore cb s t"
    "\<lambda>s. recovery_count_in_window s \<le> 10"
  for E hz edma_restore cb
  by unfold_locales (auto elim!: link_step.cases simp: attempts_health intro: attempts_recovery_work)



text \<open>
  A link that comes back is recovered: when a lost link samples as up again, outside a cool-down and
  within the rate limit, the next health tick queues the recovery worker and the worker, if the
  register restore succeeds, ends with the link up, the engine live, every channel clean, the
  lazy re-initialisation requested, and the runtime module told.
\<close>

theorem link_restored_recovers:
  assumes "link_state s = LINK_DOWN" "\<not> dx_dma_background_recovery_blocked s"
    and "dx_pcie_check_link_health s = LINK_UP"
    and "\<not> time_before (jiffies s) (rate_limit_cooldown_until s)" "\<not> recovery_work s"
    and "recovery_count_in_window s < 10" "dx_dev_list_get s"
    and restore: "\<forall>u. fst (edma_restore u) = 0 \<and> length (chans (snd (edma_restore u))) = length (chans u) \<and>
      dx_pcie_check_link_health (snd (edma_restore u)) = dx_pcie_check_link_health u \<and>
      dx_dev_list_get (snd (edma_restore u)) = dx_dev_list_get u"
  shows "recovery_work (dx_link_health_work_fn cb s) \<and>
    (\<exists>w. dx_dma_recovery_work_fn E hz edma_restore cb (dx_link_health_work_fn cb s) =
        Some (dx_pcie_notify_link_event cb True w) \<and>
      link_state w = LINK_UP \<and> edma_state w = DEV_LIVE \<and> init_completed w \<and>
      chans w = replicate (length (chans s)) \<lparr>hw_err = False, aborted = False, busy = False\<rparr>)"
proof -
  let ?s = "s\<lparr>health_fail_count := 0, recovery_work := True, health_work := True\<rparr>"
  have s: "dx_link_health_work_fn cb s = ?s"
    using assms by (simp add: dx_link_health_work_fn_def health_sample_def Let_def)
  obtain s1 where q: "dx_dma_recovery_rate_ok hz ?s = (True, s1)"
    using assms by (simp add: dx_dma_recovery_rate_ok_def Let_def)
  have s1: "cfg_vendor s1 = cfg_vendor s" "cfg_lnksta s1 = cfg_lnksta s" "chans s1 = chans s"
    "dx_dev_list_get s1 = dx_dev_list_get s"
    "dx_dma_background_recovery_blocked s1 = dx_dma_background_recovery_blocked s"
    using q by (auto simp: dx_dma_recovery_rate_ok_def dx_dev_list_get_def
        dx_dma_background_recovery_blocked_def Let_def split: if_splits)
  let ?r = "(dx_dma_recovery_rate_record_attempt s1)\<lparr>link_state := LINK_RECOVERING\<rparr>"
  have r: "dx_pcie_check_link_health ?r = LINK_UP" "dx_dev_list_get ?r" "length (chans ?r) = length (chans s)"
    using s1 assms(3,7) check_link_cong [of ?r s]
    by (simp_all add: dx_dma_recovery_rate_record_attempt_def dx_dev_list_get_def)
  obtain s2 where s2: "edma_restore ?r = (0, s2)" "dx_pcie_check_link_health s2 = LINK_UP"
    "dx_dev_list_get s2" "length (chans s2) = length (chans s)"
    using restore r by (metis prod.collapse)
  let ?u = "dx_pcie_set_init_completed s2"
  have v: "dx_pcie_validate_link E hz ?u = Some (0, ?u)" using s2(2) by (simp add: validate_up_now)
  have u: "length (chans ?u) = length (chans s)" "init_completed ?u"
    using s2 by (simp_all add: dx_pcie_set_init_completed_def)
  show ?thesis unfolding s
    using assms s1 q v u s2
    by (simp add: dx_dma_recovery_work_fn_def dx_dma_full_reinit_def Let_def map_replicate_const)
       (rule exI, rule conjI [OF refl], simp)
qed

theorem link_restored_recovers_witness:
  "\<exists>w. dx_dma_recovery_work_fn link_clock 250 (\<lambda>u. (0, u)) (\<lambda>_ t. t)
      (dx_link_health_work_fn (\<lambda>_ t. t) example_link) = Some (dx_pcie_notify_link_event (\<lambda>_ t. t) True w) \<and>
    link_state w = LINK_UP \<and> edma_state w = DEV_LIVE \<and> init_completed w \<and>
    chans w = replicate 8 \<lparr>hw_err = False, aborted = False, busy = False\<rparr>"
  using link_restored_recovers [of example_link "\<lambda>u. (0, u)" "\<lambda>_ t. t" link_clock 250]
  by (simp add: example_link_def example_pcie_def dx_dma_background_recovery_blocked_def
      dx_pcie_check_link_health_def dx_dev_list_get_def pcie.defs linkh.defs not_time_before)

text \<open>
  The health sample only ever answers up or down: the degraded state that its description, the
  validation and the worker provide for is never reported.
\<close>

theorem link_never_degraded: "dx_pcie_check_link_health s \<noteq> LINK_DEGRADED"
  using check_link_up_or_down [of s] by auto

end
