(* ===== verification/Dx_Sched.thy ===== *)
theory Dx_Sched
  imports Dx_Prelude
begin

text \<open>
  The scheduler option list (\<^verbatim>\<open>rt/dxrt_sched.c\<close>): which hardware request queue serves which NPU
  binding, with a reference count per binding.  The interface of a reference-counted registry is
  a locale; the list operations are an interpretation of it.
\<close>

section \<open>State and operations\<close>

abbreviation (input) DX_NORMAL_QUEUE_MAX :: nat where "DX_NORMAL_QUEUE_MAX \<equiv> 3"
abbreviation (input) N_BOUND_INF_MAX :: u32 where "N_BOUND_INF_MAX \<equiv> 7"

record dx_sched =
  bound :: u32
  queue :: nat
  ref_cnt :: u32

text \<open>
  The scan of \<open>add_queue_from_sched_op\<close>: stop at the entry of the same binding and count it up,
  otherwise raise the candidate queue whenever an entry already uses it.
\<close>

fun add_scan :: "u32 \<Rightarrow> nat \<Rightarrow> dx_sched list \<Rightarrow> bool \<times> nat \<times> dx_sched list" where
  "add_scan b avail [] = (False, avail, [])"
| "add_scan b avail (e # es) =
     (if bound e = b then (True, avail, e\<lparr>ref_cnt := ref_cnt e + 1\<rparr> # es)
      else
        let avail' = (if queue e = avail then avail + 1 else avail);
            (found, a, es') = add_scan b avail' es
        in (found, a, e # es'))"

definition add_queue_from_sched_op :: "bool \<Rightarrow> u32 \<Rightarrow> dx_sched list \<Rightarrow> int \<times> dx_sched list" where
  "add_queue_from_sched_op alloc b l =
     (if \<not> alloc then (- ENOMEM, l)
      else
        case add_scan b 0 l of
          (True, _, l') \<Rightarrow> (- EEXIST, l')
        | (False, avail, l') \<Rightarrow>
            if DX_NORMAL_QUEUE_MAX \<le> avail then (- EBUSY, l')
            else (0, l' @ [\<lparr>bound = b, queue = avail, ref_cnt = 1\<rparr>]))"

text \<open>The second component is the value stored through the out parameter, if any.\<close>

fun get_queue_from_sched_op :: "u32 \<Rightarrow> dx_sched list \<Rightarrow> int \<times> nat option" where
  "get_queue_from_sched_op b [] = (- ENOENT, None)"
| "get_queue_from_sched_op b (e # es) =
     (if b = bound e
      then (if queue e = DX_NORMAL_QUEUE_MAX then - ENOENT else 0, Some (queue e))
      else get_queue_from_sched_op b es)"

fun delete_matching_queue :: "u32 \<Rightarrow> dx_sched list \<Rightarrow> int \<times> dx_sched list" where
  "delete_matching_queue b [] = (- ENOENT, [])"
| "delete_matching_queue b (e # es) =
     (if bound e = b
      then (if ref_cnt e - 1 = 0 then (0, es)
            else (- EBUSY, e\<lparr>ref_cnt := ref_cnt e - 1\<rparr> # es))
      else let (r, es') = delete_matching_queue b es in (r, e # es'))"

definition clear_queue_list :: "dx_sched list \<Rightarrow> dx_sched list" where
  "clear_queue_list l = []"

section \<open>Reference-counted registries\<close>

text \<open>
  What a client of the list relies on: the number of references of a key, how an accepted
  registration and a release change it, and that nothing else changes.
\<close>

locale ref_registry =
  fixes inv :: "'s \<Rightarrow> bool"
    and limit :: nat
    and refs :: "'s \<Rightarrow> 'k \<Rightarrow> nat"
    and acquire :: "'k \<Rightarrow> 's \<Rightarrow> bool \<times> 's"
    and release :: "'k \<Rightarrow> 's \<Rightarrow> 's"
  assumes acquire_inv: "inv s \<Longrightarrow> refs s k + 1 < limit \<Longrightarrow> inv (snd (acquire k s))"
    and release_inv: "inv s \<Longrightarrow> inv (release k s)"
    and acquire_refs: "inv s \<Longrightarrow> refs s k + 1 < limit \<Longrightarrow> fst (acquire k s) \<Longrightarrow>
      refs (snd (acquire k s)) j = (if j = k then refs s k + 1 else refs s j)"
    and acquire_refused: "\<not> fst (acquire k s) \<Longrightarrow> snd (acquire k s) = s"
    and release_refs: "inv s \<Longrightarrow> refs (release k s) j = (if j = k then refs s k - 1 else refs s j)"
begin

lemma release_acquire:
  assumes "inv s" "refs s k + 1 < limit" "fst (acquire k s)"
  shows "refs (release k (snd (acquire k s))) j = refs s j"
  using assms by (simp add: release_refs acquire_refs acquire_inv)

lemma release_many:
  assumes "inv s"
  shows "refs ((release k ^^ n) s) k = refs s k - n \<and> inv ((release k ^^ n) s)"
proof (induction n)
  case 0
  then show ?case using assms by simp
next
  case (Suc n)
  then have "inv ((release k ^^ n) s)" by simp
  then show ?case using Suc by (simp add: release_refs release_inv)
qed

lemma acquire_many:
  assumes "inv s" "refs s k + n < limit"
    and "\<And>t. inv t \<Longrightarrow> refs s k \<le> refs t k \<Longrightarrow> fst (acquire k t)"
  shows "refs (((\<lambda>t. snd (acquire k t)) ^^ n) s) k = refs s k + n \<and>
    inv (((\<lambda>t. snd (acquire k t)) ^^ n) s)"
  using assms(2)
proof (induction n)
  case 0
  then show ?case using assms(1) by simp
next
  case (Suc n)
  let ?t = "((\<lambda>t. snd (acquire k t)) ^^ n) s"
  have t: "refs ?t k = refs s k + n" "inv ?t" using Suc by simp_all
  then have "fst (acquire k ?t)" using assms(3) by simp
  then show ?case using t Suc.prems by (simp add: acquire_refs acquire_inv)
qed

end

section \<open>The invariant\<close>

text \<open>Bindings are unique, every entry names a normal queue and is referenced.\<close>

definition sched_ok :: "dx_sched list \<Rightarrow> bool" where
  "sched_ok l \<longleftrightarrow> distinct (map bound l) \<and>
     list_all (\<lambda>e. queue e < DX_NORMAL_QUEUE_MAX \<and> ref_cnt e \<noteq> 0) l"

fun sched_refs :: "dx_sched list \<Rightarrow> u32 \<Rightarrow> nat" where
  "sched_refs [] b = 0"
| "sched_refs (e # es) b = (if bound e = b then unat (ref_cnt e) else sched_refs es b)"

lemma sched_refs_append:
  "sched_refs (l @ l') b = (if b \<in> bound ` set l then sched_refs l b else sched_refs l' b)"
  by (induction l) auto

lemma sched_refs_0: "b \<notin> bound ` set l \<Longrightarrow> sched_refs l b = 0"
  by (induction l) auto

lemma sched_refs_pos: "sched_ok l \<Longrightarrow> 0 < sched_refs l b \<longleftrightarrow> b \<in> bound ` set l"
  by (induction l) (auto simp: sched_ok_def unat_gt_0)

lemma add_scan_bounds: "map bound (snd (snd (add_scan b a l))) = map bound l"
  by (induction l arbitrary: a) (auto simp: Let_def case_prod_beta)

lemma add_scan_queues: "map queue (snd (snd (add_scan b a l))) = map queue l"
  by (induction l arbitrary: a) (auto simp: Let_def case_prod_beta)

lemma add_scan_found: "fst (add_scan b a l) \<longleftrightarrow> b \<in> bound ` set l"
  by (induction l arbitrary: a) (auto simp: Let_def case_prod_beta)

lemma add_scan_not_found: "\<not> fst (add_scan b a l) \<Longrightarrow> snd (snd (add_scan b a l)) = l"
  by (induction l arbitrary: a) (auto simp: Let_def case_prod_beta split: if_splits)

lemma add_scan_refs:
  "distinct (map bound l) \<Longrightarrow> sched_refs l b + 1 < 2 ^ 32 \<Longrightarrow> fst (add_scan b a l) \<Longrightarrow>
   sched_refs (snd (snd (add_scan b a l))) j =
     (if j = b then sched_refs l b + 1 else sched_refs l j)"
  by (induction l arbitrary: a)
     (auto simp: Let_def case_prod_beta unat_word_ariths split: if_splits)

lemma unat_succ_nonzero: "unat (w :: u32) + 1 < 2 ^ 32 \<Longrightarrow> w + 1 \<noteq> 0"
  by (simp add: word_unat_eq_iff unat_word_ariths)

lemma unat_is_1: "unat (w :: u32) = 1 \<longleftrightarrow> w = 1"
  by (simp add: word_unat_eq_iff)

lemma add_scan_ref_cnt:
  "sched_refs l b + 1 < 2 ^ 32 \<Longrightarrow> list_all (\<lambda>e. ref_cnt e \<noteq> 0) l \<Longrightarrow>
   list_all (\<lambda>e. ref_cnt e \<noteq> 0) (snd (snd (add_scan b a l)))"
  by (induction l arbitrary: a)
     (auto simp: Let_def case_prod_beta unat_succ_nonzero split: if_splits)

text \<open>Every queue below the candidate is in use: the scan never skips a free lower queue.\<close>

lemma add_scan_avail:
  "\<not> fst (add_scan b a l) \<Longrightarrow>
   a \<le> fst (snd (add_scan b a l)) \<and> {a..<fst (snd (add_scan b a l))} \<subseteq> queue ` set l"
proof (induction l arbitrary: a)
  case Nil
  then show ?case by simp
next
  case (Cons e es)
  let ?a = "if queue e = a then a + 1 else a"
  have s: "\<not> fst (add_scan b ?a es)" "fst (snd (add_scan b a (e # es))) = fst (snd (add_scan b ?a es))"
    using Cons.prems by (auto simp: Let_def case_prod_beta split: if_splits)
  let ?a' = "fst (snd (add_scan b ?a es))"
  have IH: "?a \<le> ?a'" "{?a..<?a'} \<subseteq> queue ` set es" using Cons.IH [OF s(1)] by simp_all
  have "{a..<?a'} \<subseteq> insert (queue e) (queue ` set es)"
  proof
    fix x assume x: "x \<in> {a..<?a'}"
    show "x \<in> insert (queue e) (queue ` set es)"
    proof (cases "x = a \<and> queue e = a")
      case False
      then have "x \<in> {?a..<?a'}" using x by auto
      then show ?thesis using IH(2) by blast
    qed simp
  qed
  then show ?case using IH(1) s(2) by (auto split: if_splits)
qed

lemma delete_bounds:
  "map bound (snd (delete_matching_queue b l)) =
   (if fst (delete_matching_queue b l) = 0 then remove1 b (map bound l) else map bound l)"
  by (induction l) (simp_all add: Let_def case_prod_beta)

lemma delete_queues:
  "set (map queue (snd (delete_matching_queue b l))) \<subseteq> set (map queue l)"
  by (induction l) (auto simp: Let_def case_prod_beta)

lemma delete_ref_cnt:
  "list_all (\<lambda>e. ref_cnt e \<noteq> 0) l \<Longrightarrow>
   list_all (\<lambda>e. ref_cnt e \<noteq> 0) (snd (delete_matching_queue b l))"
  by (induction l) (simp_all add: Let_def case_prod_beta)

lemma delete_refs:
  "distinct (map bound l) \<Longrightarrow> list_all (\<lambda>e. ref_cnt e \<noteq> 0) l \<Longrightarrow>
   sched_refs (snd (delete_matching_queue b l)) j =
     (if j = b then sched_refs l b - 1 else sched_refs l j)"
proof (induction l)
  case (Cons e es)
  have one: "unat (ref_cnt e - 1) = unat (ref_cnt e) - 1" using Cons.prems by (simp add: unat_minus_one)
  have "ref_cnt e = 1 \<Longrightarrow> bound e = b \<Longrightarrow> sched_refs es b = 0"
    using Cons.prems by (auto simp: intro!: sched_refs_0)
  with Cons one show ?case by (auto simp: Let_def case_prod_beta)
qed simp

lemma delete_result:
  "fst (delete_matching_queue b l) =
   (if b \<notin> bound ` set l then - ENOENT else if sched_refs l b = 1 then 0 else - EBUSY)"
  by (induction l) (auto simp: Let_def case_prod_beta unat_is_1 [simplified])


lemma add_cases:
  obtains (exists) "b \<in> bound ` set l"
      "add_queue_from_sched_op True b l = (- EEXIST, snd (snd (add_scan b 0 l)))"
  | (full) "b \<notin> bound ` set l" "{0..<3} \<subseteq> queue ` set l"
      "add_queue_from_sched_op True b l = (- EBUSY, l)"
  | (new) q where "b \<notin> bound ` set l" "q < 3" "{0..<q} \<subseteq> queue ` set l"
      "add_queue_from_sched_op True b l = (0, l @ [\<lparr>bound = b, queue = q, ref_cnt = 1\<rparr>])"
proof (cases "b \<in> bound ` set l")
  case True
  then have "fst (add_scan b 0 l)" by (simp add: add_scan_found)
  then show thesis using exists [OF True]
    by (simp add: add_queue_from_sched_op_def case_prod_beta split: bool.split)
next
  case False
  then have nf: "\<not> fst (add_scan b 0 l)" by (simp add: add_scan_found)
  note av = add_scan_avail [OF nf]
  let ?q = "fst (snd (add_scan b 0 l))"
  have def: "add_queue_from_sched_op True b l = (if 3 \<le> ?q then (- EBUSY, l)
      else (0, l @ [\<lparr>bound = b, queue = ?q, ref_cnt = 1\<rparr>]))"
    using nf add_scan_not_found [OF nf]
    by (simp add: add_queue_from_sched_op_def case_prod_beta split: bool.split)
  show thesis
  proof (cases "3 \<le> ?q")
    case True
    then have "{0..<3} \<subseteq> queue ` set l"
      using av by (meson atLeastLessThan_iff order.strict_trans2 subset_iff)
    then show thesis using full [OF False] def True by simp
  next
    case F: False
    then show thesis using new [OF False _ _] av def by simp
  qed
qed

lemma add_no_mem: "add_queue_from_sched_op False b l = (- ENOMEM, l)"
  by (simp add: add_queue_from_sched_op_def)

lemma list_all_queue_iff: "list_all (\<lambda>e. queue e < n) l \<longleftrightarrow> (\<forall>x \<in> set (map queue l). x < n)"
  by (simp add: list_all_iff)

lemma sched_ok_alt:
  "sched_ok l \<longleftrightarrow> distinct (map bound l) \<and> (\<forall>x \<in> set (map queue l). x < 3) \<and>
     list_all (\<lambda>e. ref_cnt e \<noteq> 0) l"
  by (auto simp: sched_ok_def list_all_iff)

lemma sched_ok_Nil [simp]: "sched_ok []"
  by (simp add: sched_ok_def)

lemma sched_ok_add:
  assumes "sched_ok l" "sched_refs l b + 1 < 2 ^ 32"
  shows "sched_ok (snd (add_queue_from_sched_op alloc b l))"
proof (cases alloc)
  case False
  then show ?thesis using assms by (simp add: add_no_mem)
next
  case True
  show ?thesis
  proof (cases rule: add_cases [where b = b and l = l])
    case exists
    have "list_all (\<lambda>e. ref_cnt e \<noteq> 0) (snd (snd (add_scan b 0 l)))"
      using assms by (intro add_scan_ref_cnt) (simp_all add: sched_ok_alt)
    then show ?thesis
      using assms True exists unfolding sched_ok_alt
      by (simp only: snd_conv add_scan_bounds add_scan_queues) blast
  next
    case full
    then show ?thesis using assms True by simp
  next
    case (new q)
    then show ?thesis using assms True by (auto simp: sched_ok_alt)
  qed
qed

lemma sched_ok_delete: "sched_ok l \<Longrightarrow> sched_ok (snd (delete_matching_queue b l))"
  using delete_queues [of b l] delete_ref_cnt [of l b]
  by (auto simp: sched_ok_alt delete_bounds)

text \<open>The list is a reference-counted registry; the counter is 32 bits wide.\<close>

interpretation sched: ref_registry sched_ok "2 ^ 32" sched_refs
    "\<lambda>b l. (fst (add_queue_from_sched_op True b l) \<in> {0, - EEXIST},
      snd (add_queue_from_sched_op True b l))"
    "\<lambda>b l. snd (delete_matching_queue b l)"
proof (unfold_locales, goal_cases)
  case (1 l b)
  then show ?case by (simp add: sched_ok_add)
next
  case (2 l b)
  then show ?case by (simp add: sched_ok_delete)
next
  case (3 l b j)
  show ?case
  proof (cases rule: add_cases [where b = b and l = l])
    case exists
    then show ?thesis using 3 add_scan_refs [of l b 0 j] by (simp add: sched_ok_def add_scan_found)
  next
    case full
    then show ?thesis using 3 by simp
  next
    case (new q)
    then show ?thesis by (auto simp: sched_refs_append sched_refs_0)
  qed
next
  case (4 b l)
  then show ?case by (cases rule: add_cases [where b = b and l = l]) simp_all
next
  case (5 l b j)
  then show ?case by (simp add: delete_refs sched_ok_alt)
qed

section \<open>Runs\<close>

text \<open>
  One step is one call under \<open>sched_lock\<close>.  A registration is modelled up to the width of the
  counter: \<open>2 ^ 32 - 1\<close> simultaneous references of one binding.
\<close>

inductive sched_step :: "dx_sched list \<Rightarrow> dx_sched list \<Rightarrow> bool" where
  add: "sched_refs l b + 1 < 2 ^ 32 \<Longrightarrow> sched_step l (snd (add_queue_from_sched_op alloc b l))"
| delete: "sched_step l (snd (delete_matching_queue b l))"
| clear: "sched_step l (clear_queue_list l)"

interpretation sched_run: trans_inv sched_step sched_ok
proof
  fix l l'
  assume "sched_step l l'" "sched_ok l"
  then show "sched_ok l'"
    by cases (simp_all add: sched_ok_add sched_ok_delete clear_queue_list_def)
qed

section \<open>Properties\<close>



text \<open>
  A registration that succeeds appends one entry with a single reference; the queue it is
  given is a normal queue and every lower queue is in use, so no free lower queue is skipped.
  It reports \<open>EBUSY\<close> only when all three queues are in use.
\<close>

theorem add_assigns_lowest:
  "case add_queue_from_sched_op True b l of (r, l') \<Rightarrow>
     if b \<in> bound ` set l then r = - EEXIST \<and> map bound l' = map bound l
     else (r = - EBUSY \<and> l' = l \<and> {0, 1, 2} \<subseteq> queue ` set l) \<or>
       (\<exists>q < 3. r = 0 \<and> l' = l @ [\<lparr>bound = b, queue = q, ref_cnt = 1\<rparr>] \<and>
          {0..<q} \<subseteq> queue ` set l)"
proof (cases rule: add_cases [where b = b and l = l])
  case exists
  then show ?thesis by (simp add: add_scan_bounds)
next
  case full
  moreover have "{0, 1, 2} = {0..<(3 :: nat)}" by auto
  ultimately show ?thesis by simp
next
  case (new q)
  then show ?thesis by auto
qed

text \<open>
  Releasing a fresh registration restores the list exactly, and a release reports
  \<open>ENOENT\<close>, \<open>EBUSY\<close> or success by the number of references alone.
\<close>

theorem release_undoes_add:
  assumes "b \<notin> bound ` set l" "add_queue_from_sched_op True b l = (0, l')"
  shows "delete_matching_queue b l' = (0, l)"
proof -
  have del: "delete_matching_queue b (l @ [\<lparr>bound = b, queue = q, ref_cnt = 1\<rparr>]) = (0, l)" for q
    using assms(1) by (induction l) auto
  from assms show ?thesis by (cases rule: add_cases [where b = b and l = l]) (auto simp: del)
qed

theorem release_undoes_add_witness:
  "delete_matching_queue 5 (snd (add_queue_from_sched_op True 5
     [\<lparr>bound = 2, queue = 0, ref_cnt = 4\<rparr>])) = (0, [\<lparr>bound = 2, queue = 0, ref_cnt = 4\<rparr>])"
  using release_undoes_add [of 5 "[\<lparr>bound = 2, queue = 0, ref_cnt = 4\<rparr>]"]
  by (simp add: add_queue_from_sched_op_def)

text \<open>
  A matched pair of registration and release leaves the number of references of every
  binding as it was, from any list the driver can hold.
\<close>

theorem balanced_references:
  assumes "sched_ok l" "sched_refs l b + 1 < 2 ^ 32"
    and "fst (add_queue_from_sched_op True b l) \<in> {0, - EEXIST}"
  shows "sched_refs (snd (delete_matching_queue b (snd (add_queue_from_sched_op True b l)))) j =
    sched_refs l j"
  using sched.release_acquire [of l b j] assms by simp

theorem balanced_references_witness:
  "sched_refs (snd (delete_matching_queue 2 (snd (add_queue_from_sched_op True 2
     [\<lparr>bound = 2, queue = 0, ref_cnt = 4\<rparr>])))) 2 = 4"
  using balanced_references [of "[\<lparr>bound = 2, queue = 0, ref_cnt = 4\<rparr>]" 2 2]
  by (simp add: add_queue_from_sched_op_def sched_ok_def)

text \<open>
  Two bindings can end up on the same hardware queue: the candidate queue is raised in list
  order, but new entries go to the end of the list, so once a release has freed a lower queue
  the list is no longer ordered and the scan misses queues that are in use.
\<close>

theorem sched_queue_shared:
  "\<exists>l e e'. sched_step\<^sup>*\<^sup>* [] l \<and> e \<in> set l \<and> e' \<in> set l \<and> bound e \<noteq> bound e' \<and>
     queue e = queue e'"
proof -
  define A where "A b l = snd (add_queue_from_sched_op True b l)" for b l
  define l1 where "l1 = A 2 (A 1 (A 0 []))"
  define l2 where "l2 = snd (delete_matching_queue 0 l1)"
  define l3 where "l3 = A 4 (A 3 l2)"
  have e1: "l1 = [\<lparr>bound = 0, queue = 0, ref_cnt = 1\<rparr>, \<lparr>bound = 1, queue = 1, ref_cnt = 1\<rparr>,
      \<lparr>bound = 2, queue = 2, ref_cnt = 1\<rparr>]"
    by (simp add: l1_def A_def add_queue_from_sched_op_def)
  have e2: "l2 = [\<lparr>bound = 1, queue = 1, ref_cnt = 1\<rparr>, \<lparr>bound = 2, queue = 2, ref_cnt = 1\<rparr>]"
    by (simp add: l2_def e1)
  have e3: "l3 = [\<lparr>bound = 1, queue = 1, ref_cnt = 1\<rparr>, \<lparr>bound = 2, queue = 2, ref_cnt = 1\<rparr>,
      \<lparr>bound = 3, queue = 0, ref_cnt = 1\<rparr>, \<lparr>bound = 4, queue = 1, ref_cnt = 1\<rparr>]"
    by (simp add: l3_def e2 A_def add_queue_from_sched_op_def)
  have step: "sched_step\<^sup>*\<^sup>* [] (A b l)" if "sched_step\<^sup>*\<^sup>* [] l" "sched_refs l b = 0" for b l
    using that sched_step.add [of l b True] by (auto simp: A_def intro: rtranclp.rtrancl_into_rtrancl)
  have "sched_step\<^sup>*\<^sup>* [] l1"
    unfolding l1_def by (intro step) (simp_all add: A_def add_queue_from_sched_op_def)
  then have "sched_step\<^sup>*\<^sup>* [] l2"
    unfolding l2_def by (rule rtranclp.rtrancl_into_rtrancl) (rule sched_step.delete)
  then have "sched_step\<^sup>*\<^sup>* [] l3"
    unfolding l3_def by (intro step) (simp_all add: e2 A_def add_queue_from_sched_op_def)
  moreover have "\<lparr>bound = 1, queue = 1, ref_cnt = 1\<rparr> \<in> set l3"
    "\<lparr>bound = 4, queue = 1, ref_cnt = 1\<rparr> \<in> set l3" by (simp_all add: e3)
  ultimately show ?thesis by (intro exI [of _ l3]) fastforce
qed

end
