(* ===== verification/Dx_Queue.thy ===== *)
theory Dx_Queue
  imports Dx_Mmio
begin

text \<open>
  The request queue in message RAM (\<^verbatim>\<open>rt/dxrt_drv_queue.c\<close>): a ring of fixed-size elements in
  shared memory, the host side of the lock and interrupt handshakes with the firmware, and the
  refinement of the enqueue operation to appending at a list.
\<close>

section \<open>Layout of \<open>dxrt_queue_t\<close>\<close>

abbreviation (input) Q_BUFFER :: nat where "Q_BUFFER \<equiv> 2048"
abbreviation (input) Q_LOCK :: nat where "Q_LOCK \<equiv> 2048"
abbreviation (input) Q_FRONT :: nat where "Q_FRONT \<equiv> 2052"
abbreviation (input) Q_REAR :: nat where "Q_REAR \<equiv> 2056"
abbreviation (input) Q_COUNT :: nat where "Q_COUNT \<equiv> 2060"
abbreviation (input) Q_MAX_COUNT :: nat where "Q_MAX_COUNT \<equiv> 2064"
abbreviation (input) Q_ELEM_SIZE :: nat where "Q_ELEM_SIZE \<equiv> 2068"
abbreviation (input) Q_ENABLE :: nat where "Q_ENABLE \<equiv> 2072"
abbreviation (input) Q_IRQ_DONE :: nat where "Q_IRQ_DONE \<equiv> 2076"
abbreviation (input) Q_FLAG :: nat where "Q_FLAG \<equiv> 2084"
abbreviation (input) Q_ACCES_COUNT :: nat where "Q_ACCES_COUNT \<equiv> 2088"
abbreviation (input) Q_SIZEOF :: nat where "Q_SIZEOF \<equiv> 2096"

abbreviation (input) DX_QUEUE_UNLOCK :: u32 where "DX_QUEUE_UNLOCK \<equiv> 0"
abbreviation (input) DX_QUEUE_HOST_LOCK :: u32 where "DX_QUEUE_HOST_LOCK \<equiv> 33"
abbreviation (input) DX_FLAG_LOCK :: u32 where "DX_FLAG_LOCK \<equiv> 1"

section \<open>Operations\<close>

definition dxrt_init_queue :: "nat \<Rightarrow> u32 \<Rightarrow> u32 \<Rightarrow> mmio \<Rightarrow> mmio" where
  "dxrt_init_queue q max_count elem_size m =
     (let m1 = dx_memset_io32 q 0 Q_SIZEOF m;
          m2 = writel max_count (q + Q_MAX_COUNT) m1;
          m3 = writel elem_size (q + Q_ELEM_SIZE) m2
      in writel 1 (q + Q_ENABLE) m3)"

definition dxrt_enable_queue :: "nat \<Rightarrow> mmio \<Rightarrow> mmio" where
  "dxrt_enable_queue q m = writel 1 (q + Q_ENABLE) m"

definition dxrt_disable_queue :: "nat \<Rightarrow> mmio \<Rightarrow> mmio" where
  "dxrt_disable_queue q m = writel 0 (q + Q_ENABLE) m"

definition dxrt_is_queue_empty :: "nat \<Rightarrow> mmio \<Rightarrow> bool" where
  "dxrt_is_queue_empty q m \<longleftrightarrow> readl m (q + Q_COUNT) = 0"

definition dxrt_is_queue_full :: "nat \<Rightarrow> mmio \<Rightarrow> bool" where
  "dxrt_is_queue_full q m \<longleftrightarrow> readl m (q + Q_COUNT) = readl m (q + Q_MAX_COUNT)"

definition dxrt_lock_queue :: "nat \<Rightarrow> mmio \<Rightarrow> int \<times> mmio" where
  "dxrt_lock_queue q m = (1, writel DX_QUEUE_HOST_LOCK (q + Q_LOCK) m)"

definition dxrt_unlock_queue :: "nat \<Rightarrow> mmio \<Rightarrow> mmio" where
  "dxrt_unlock_queue q m = writel DX_QUEUE_UNLOCK (q + Q_LOCK) m"

definition dxrt_enqueue_irq_notify :: "nat \<Rightarrow> mmio \<Rightarrow> mmio" where
  "dxrt_enqueue_irq_notify q m = writel 1 (q + Q_IRQ_DONE) m"

text \<open>
  \<open>dxrt_lock_check\<close>: the counter runs from \<open>DXRT_ENQUEUE_TIMEOUT\<close> down to zero inclusive, so the
  flag is read at most \<open>1000001\<close> times.
\<close>

abbreviation (input) DXRT_ENQUEUE_TIMEOUT :: nat where "DXRT_ENQUEUE_TIMEOUT \<equiv> 1000000"

primrec lock_check_loop :: "'a env \<Rightarrow> nat \<Rightarrow> nat \<Rightarrow> 'a io_scheme \<Rightarrow> int \<times> 'a io_scheme" where
  "lock_check_loop E q 0 s = (0, s)"
| "lock_check_loop E q (Suc n) s =
     (let s' = yield E s in
      if readl (bar s') (q + Q_FLAG) = DX_FLAG_LOCK then (1, s') else lock_check_loop E q n s')"

definition dxrt_lock_check :: "'a env \<Rightarrow> nat \<Rightarrow> 'a io_scheme \<Rightarrow> int \<times> 'a io_scheme" where
  "dxrt_lock_check E q s = lock_check_loop E q (Suc DXRT_ENQUEUE_TIMEOUT) s"

text \<open>
  \<open>dxrt_enqueue_irq_done\<close>: the test \<open>timeout-- < 0\<close> lets the body run for the values
  \<open>1000000\<close> down to \<open>0\<close>.
\<close>

primrec irq_done_loop :: "'a env \<Rightarrow> nat \<Rightarrow> nat \<Rightarrow> 'a io_scheme \<Rightarrow> int \<times> 'a io_scheme" where
  "irq_done_loop E q 0 s = (- 1, s)"
| "irq_done_loop E q (Suc n) s =
     (let s' = yield E s in
      if readl (bar s') (q + Q_IRQ_DONE) = 1 then irq_done_loop E q n s' else (0, s'))"

definition dxrt_enqueue_irq_done :: "'a env \<Rightarrow> nat \<Rightarrow> 'a io_scheme \<Rightarrow> int \<times> 'a io_scheme" where
  "dxrt_enqueue_irq_done E q s = irq_done_loop E q (Suc 1000000) s"

text \<open>
  \<open>dxrt_enqueue\<close>: the element is copied from kernel memory starting at \<open>elem\<close>, as many bytes
  as the queue header says.  The remainder by \<open>max_count\<close> traps when the header holds zero
  there (\<open>None\<close>).  The firmware leaves the queue alone between the lock acknowledgement and the
  unlock, so the reads of the header see the thread's own writes.
\<close>

definition dxrt_enqueue :: "nat \<Rightarrow> (nat \<Rightarrow> u8) \<Rightarrow> mmio \<Rightarrow> (int \<times> mmio) option" where
  "dxrt_enqueue q elem m =
     (if readl m (q + Q_ENABLE) = 0 then Some (- EINVAL, m)
      else
        let elem_size = readl m (q + Q_ELEM_SIZE);
            rear = readl m (q + Q_REAR);
            m1 = dx_memcpy_toio32 (q + unat (rear * elem_size))
                   (map elem [0..<unat elem_size]) m;
            max_count = readl m1 (q + Q_MAX_COUNT)
        in if max_count = 0 then None
           else
             let m2 = writel ((rear + 1) mod max_count) (q + Q_REAR) m1;
                 m3 = writel (readl m2 (q + Q_ACCES_COUNT) + 1) (q + Q_ACCES_COUNT) m2;
                 m4 = writel (readl m3 (q + Q_COUNT) + 1) (q + Q_COUNT) m3
             in Some (0, dxrt_enqueue_irq_notify q m4))"

section \<open>The handshake loops\<close>

interpretation lock_poll: poll_loop "lock_check_loop E q" "yield E"
    "\<lambda>s. if readl (bar s) (q + Q_FLAG) = DX_FLAG_LOCK then Some 1 else None" "\<lambda>s. (0, s)"
  for E :: "'a env" and q
  by unfold_locales (simp_all add: Let_def)

interpretation irq_poll: poll_loop "irq_done_loop E q" "yield E"
    "\<lambda>s. if readl (bar s) (q + Q_IRQ_DONE) = 1 then None else Some 0" "\<lambda>s. (- 1, s)"
  for E :: "'a env" and q
  by unfold_locales (simp_all add: Let_def)

section \<open>The ring as a list\<close>

definition q_max :: "nat \<Rightarrow> mmio \<Rightarrow> nat" where "q_max q m = unat (readl m (q + Q_MAX_COUNT))"
definition q_esz :: "nat \<Rightarrow> mmio \<Rightarrow> nat" where "q_esz q m = unat (readl m (q + Q_ELEM_SIZE))"
definition q_front :: "nat \<Rightarrow> mmio \<Rightarrow> nat" where "q_front q m = unat (readl m (q + Q_FRONT))"
definition q_rear :: "nat \<Rightarrow> mmio \<Rightarrow> nat" where "q_rear q m = unat (readl m (q + Q_REAR))"
definition q_count :: "nat \<Rightarrow> mmio \<Rightarrow> nat" where "q_count q m = unat (readl m (q + Q_COUNT))"

lemmas q_defs = q_max_def q_esz_def q_front_def q_rear_def q_count_def

text \<open>The header invariant that the host and the firmware keep.\<close>

definition queue_ok :: "nat \<Rightarrow> mmio \<Rightarrow> bool" where
  "queue_ok q m \<longleftrightarrow>
     0 < q_max q m \<and> q_max q m * q_esz q m \<le> Q_BUFFER \<and> 0 < q_esz q m \<and>
     q_front q m < q_max q m \<and> q_count q m \<le> q_max q m \<and>
     q_rear q m = (q_front q m + q_count q m) mod q_max q m"

definition q_slot :: "nat \<Rightarrow> mmio \<Rightarrow> nat \<Rightarrow> u8 list" where
  "q_slot q m i = map m [q + i * q_esz q m..<q + i * q_esz q m + q_esz q m]"

definition q_list :: "nat \<Rightarrow> mmio \<Rightarrow> u8 list list" where
  "q_list q m = map (\<lambda>i. q_slot q m ((q_front q m + i) mod q_max q m)) [0..<q_count q m]"


lemma queue_okD:
  assumes "queue_ok q m"
  shows "0 < q_max q m" "q_max q m * q_esz q m \<le> 2048" "0 < q_esz q m" "q_front q m < q_max q m"
    "q_count q m \<le> q_max q m" "q_rear q m = (q_front q m + q_count q m) mod q_max q m"
    "q_rear q m < q_max q m" "q_max q m \<le> 2048" "q_esz q m \<le> 2048"
    "q_rear q m * q_esz q m + q_esz q m \<le> 2048"
proof -
  show basic: "0 < q_max q m" "q_max q m * q_esz q m \<le> 2048" "0 < q_esz q m"
    "q_front q m < q_max q m" "q_count q m \<le> q_max q m"
    "q_rear q m = (q_front q m + q_count q m) mod q_max q m"
    using assms by (simp_all add: queue_ok_def)
  then show rear: "q_rear q m < q_max q m" by simp
  have "q_max q m \<le> q_max q m * q_esz q m" using basic(3) by simp
  then show "q_max q m \<le> 2048" using basic(2) by linarith
  have "q_esz q m \<le> q_max q m * q_esz q m" using basic(1) by simp
  then show "q_esz q m \<le> 2048" using basic(2) by linarith
  have "(q_rear q m + 1) * q_esz q m \<le> q_max q m * q_esz q m"
    using rear by (intro mult_le_mono1) simp
  then show "q_rear q m * q_esz q m + q_esz q m \<le> 2048" using basic(2) by simp
qed

lemma full_iff_count: "dxrt_is_queue_full q m \<longleftrightarrow> q_count q m = q_max q m"
  by (simp add: dxrt_is_queue_full_def q_defs word_unat_eq_iff)

lemma unat_mod_small: "unat a = x \<Longrightarrow> unat b = y \<Longrightarrow> unat ((a :: u32) mod b) = x mod y"
  by (simp add: unat_mod)

lemma unat_succ_small: "unat (a :: u32) < 2 ^ 31 \<Longrightarrow> unat (a + 1) = unat a + 1"
  by (simp add: unat_word_ariths)

text \<open>The memory an accepted enqueue leaves, as one expression.\<close>

definition enq_mem :: "nat \<Rightarrow> (nat \<Rightarrow> u8) \<Rightarrow> mmio \<Rightarrow> mmio" where
  "enq_mem q elem m =
     writel 1 (q + Q_IRQ_DONE)
      (writel (readl m (q + Q_COUNT) + 1) (q + Q_COUNT)
       (writel (readl m (q + Q_ACCES_COUNT) + 1) (q + Q_ACCES_COUNT)
        (writel ((readl m (q + Q_REAR) + 1) mod readl m (q + Q_MAX_COUNT)) (q + Q_REAR)
         (mcopy (q + q_rear q m * q_esz q m) (map elem [0..<q_esz q m]) m))))"

lemma dxrt_enqueue_ok:
  assumes "queue_ok q m" "readl m (q + Q_ENABLE) \<noteq> 0"
  shows "dxrt_enqueue q elem m = Some (0, enq_mem q elem m)"
proof -
  note ok = queue_okD [OF assms(1)]
  have "q_rear q m * q_esz q m < 2 ^ 32" using ok(10) by simp
  then have mul: "unat (readl m (q + Q_REAR) * readl m (q + Q_ELEM_SIZE)) = q_rear q m * q_esz q m"
    by (simp add: unat_word_ariths q_defs)
  have "readl m (q + Q_MAX_COUNT) \<noteq> 0" using ok(1) by (auto simp: q_max_def)
  then show ?thesis
    using assms(2) ok(10) mul
    by (simp add: dxrt_enqueue_def Let_def dx_memcpy_toio32_eq enq_mem_def io_simps
        dxrt_enqueue_irq_notify_def q_esz_def)
qed

lemma enq_mem_fields:
  assumes "queue_ok q m"
  shows "readl (enq_mem q elem m) (q + Q_MAX_COUNT) = readl m (q + Q_MAX_COUNT)"
    "readl (enq_mem q elem m) (q + Q_ELEM_SIZE) = readl m (q + Q_ELEM_SIZE)"
    "readl (enq_mem q elem m) (q + Q_FRONT) = readl m (q + Q_FRONT)"
    "readl (enq_mem q elem m) (q + Q_ENABLE) = readl m (q + Q_ENABLE)"
    "readl (enq_mem q elem m) (q + Q_LOCK) = readl m (q + Q_LOCK)"
    "readl (enq_mem q elem m) (q + Q_IRQ_DONE) = 1"
    "readl (enq_mem q elem m) (q + Q_COUNT) = readl m (q + Q_COUNT) + 1"
    "readl (enq_mem q elem m) (q + Q_ACCES_COUNT) = readl m (q + Q_ACCES_COUNT) + 1"
    "readl (enq_mem q elem m) (q + Q_REAR) =
       (readl m (q + Q_REAR) + 1) mod readl m (q + Q_MAX_COUNT)"
  using queue_okD(10) [OF assms] by (simp_all add: enq_mem_def io_simps)

lemma enq_mem_frame:
  assumes "queue_ok q m" "a < q \<or> q + Q_SIZEOF \<le> a"
  shows "enq_mem q elem m a = m a"
  using queue_okD(10) [OF assms(1)] assms(2) by (auto simp: enq_mem_def io_simps)

lemma enq_mem_slot:
  assumes "queue_ok q m" "i < q_max q m"
  shows "q_slot q (enq_mem q elem m) i =
    (if i = q_rear q m then map elem [0..<q_esz q m] else q_slot q m i)"
proof -
  note ok = queue_okD [OF assms(1)]
  let ?e = "q_esz q m" and ?r = "q_rear q m"
  have esz: "q_esz q (enq_mem q elem m) = ?e" by (simp add: q_esz_def enq_mem_fields [OF assms(1)])
  have "(i + 1) * ?e \<le> q_max q m * ?e" using assms(2) by (intro mult_le_mono1) simp
  then have hi: "i * ?e + ?e \<le> 2048" using ok(2) by simp
  have val: "enq_mem q elem m (q + i * ?e + j) =
      mcopy (q + ?r * ?e) (map elem [0..<?e]) m (q + i * ?e + j)" if "j < ?e" for j
    using that hi by (simp add: enq_mem_def io_simps)
  show ?thesis
  proof (cases "i = ?r")
    case True
    have "enq_mem q elem m (q + ?r * ?e + j) = elem j" if "j < ?e" for j
      using val [OF that] that by (simp add: True mcopy_in)
    with True show ?thesis
      by (intro nth_equalityI) (simp_all add: q_slot_def esz del: upt_Suc)
  next
    case False
    have sep: "i * ?e + ?e \<le> ?r * ?e \<or> ?r * ?e + ?e \<le> i * ?e"
    proof (cases "i < ?r")
      case True
      then have "(i + 1) * ?e \<le> ?r * ?e" by (intro mult_le_mono1) simp
      then show ?thesis by simp
    next
      case F: False
      with False have "(?r + 1) * ?e \<le> i * ?e" by (intro mult_le_mono1) simp
      then show ?thesis by simp
    qed
    have "mcopy (q + ?r * ?e) (map elem [0..<?e]) m (q + i * ?e + j) = m (q + i * ?e + j)"
      if "j < ?e" for j
      using that sep by (intro mcopy_other) auto
    with False show ?thesis
      by (intro nth_equalityI) (simp_all add: q_slot_def esz val del: upt_Suc)
  qed
qed

lemma mod_shift_neq:
  assumes "i < c" "c < (n :: nat)" "f < n"
  shows "(f + i) mod n \<noteq> (f + c) mod n"
proof
  assume "(f + i) mod n = (f + c) mod n"
  then have "n dvd (f + c) - (f + i)" using assms by (intro mod_eq_dvd_iff_nat [THEN iffD1]) auto
  then have "n dvd c - i" by simp
  then show False using assms by (auto dest: dvd_imp_le)
qed

lemma enq_mem_q:
  assumes "queue_ok q m" "q_count q m < q_max q m"
  shows "q_max q (enq_mem q elem m) = q_max q m" "q_esz q (enq_mem q elem m) = q_esz q m"
    "q_front q (enq_mem q elem m) = q_front q m" "q_count q (enq_mem q elem m) = q_count q m + 1"
    "q_rear q (enq_mem q elem m) = (q_rear q m + 1) mod q_max q m"
proof -
  note ok = queue_okD [OF assms(1)]
  show "q_max q (enq_mem q elem m) = q_max q m" "q_esz q (enq_mem q elem m) = q_esz q m"
    "q_front q (enq_mem q elem m) = q_front q m"
    by (simp_all add: q_defs enq_mem_fields [OF assms(1)])
  have "unat (readl m (q + Q_COUNT)) < 2 ^ 31" using assms(2) ok(8) by (simp add: q_count_def)
  then show "q_count q (enq_mem q elem m) = q_count q m + 1"
    by (simp add: q_count_def enq_mem_fields [OF assms(1)] unat_succ_small)
  have "unat (readl m (q + Q_REAR)) < 2 ^ 31" using ok(7,8) by (simp add: q_rear_def)
  then show "q_rear q (enq_mem q elem m) = (q_rear q m + 1) mod q_max q m"
    by (simp add: q_defs enq_mem_fields [OF assms(1)] unat_mod unat_succ_small)
qed

lemma enq_mem_ok:
  assumes "queue_ok q m" "q_count q m < q_max q m"
  shows "queue_ok q (enq_mem q elem m)"
  using queue_okD [OF assms(1)] assms(2)
  by (simp add: queue_ok_def enq_mem_q [OF assms] mod_Suc_eq)

lemma enq_mem_list:
  assumes "queue_ok q m" "q_count q m < q_max q m"
  shows "q_list q (enq_mem q elem m) = q_list q m @ [map elem [0..<q_esz q m]]"
proof -
  note ok = queue_okD [OF assms(1)]
  let ?n = "q_max q m" and ?f = "q_front q m" and ?c = "q_count q m"
  have "q_slot q (enq_mem q elem m) ((?f + i) mod ?n) = q_slot q m ((?f + i) mod ?n)"
    if "i < ?c" for i
    using mod_shift_neq [OF that assms(2) ok(4)] ok(1,6) by (simp add: enq_mem_slot [OF assms(1)])
  moreover have "q_slot q (enq_mem q elem m) ((?f + ?c) mod ?n) = map elem [0..<q_esz q m]"
    using ok(1,6) by (simp add: enq_mem_slot [OF assms(1)])
  ultimately show ?thesis by (simp add: q_list_def enq_mem_q [OF assms])
qed


text \<open>The words of the header that are not part of the ring do not matter to it.\<close>

lemma readl_zero: "(\<And>i. i < 4 \<Longrightarrow> m (a + i) = 0) \<Longrightarrow> readl m a = 0"
  using readl_cong [of m a "\<lambda>_. 0"] by (simp add: readl_def le32_def)

lemma q_list_header_write:
  assumes "off \<in> {Q_LOCK, Q_ENABLE, Q_IRQ_DONE, Q_FLAG, Q_ACCES_COUNT}" "queue_ok q m"
  shows "queue_ok q (writel v (q + off) m)" "q_list q (writel v (q + off) m) = q_list q m"
proof -
  note ok = queue_okD [OF assms(2)]
  let ?m = "writel v (q + off) m"
  have f: "q_max q ?m = q_max q m" "q_esz q ?m = q_esz q m" "q_front q ?m = q_front q m"
    "q_rear q ?m = q_rear q m" "q_count q ?m = q_count q m"
    using assms(1) by (auto simp: q_defs io_simps)
  then show "queue_ok q ?m" using assms(2) by (simp add: queue_ok_def)
  have "q_slot q ?m i = q_slot q m i" if "i < q_max q m" for i
  proof -
    have "(i + 1) * q_esz q m \<le> q_max q m * q_esz q m" using that by (intro mult_le_mono1) simp
    then have "i * q_esz q m + q_esz q m \<le> 2048" using ok(2) by simp
    then show ?thesis using assms(1) by (auto simp: q_slot_def f io_simps)
  qed
  then show "q_list q ?m = q_list q m" using ok(1) by (simp add: q_list_def f)
qed

lemma init_queue_fields:
  "readl (dxrt_init_queue q mx es m) (q + Q_MAX_COUNT) = mx"
  "readl (dxrt_init_queue q mx es m) (q + Q_ELEM_SIZE) = es"
  "readl (dxrt_init_queue q mx es m) (q + Q_ENABLE) = 1"
  "readl (dxrt_init_queue q mx es m) (q + Q_FRONT) = 0"
  "readl (dxrt_init_queue q mx es m) (q + Q_REAR) = 0"
  "readl (dxrt_init_queue q mx es m) (q + Q_COUNT) = 0"
  "readl (dxrt_init_queue q mx es m) (q + Q_IRQ_DONE) = 0"
proof -
  have z: "readl (mcopy q (replicate 2096 0) m) (q + off) = 0" if "off + 4 \<le> 2096" for off
    using that by (intro readl_zero) (simp add: mcopy_def)
  show "readl (dxrt_init_queue q mx es m) (q + Q_MAX_COUNT) = mx"
    "readl (dxrt_init_queue q mx es m) (q + Q_ELEM_SIZE) = es"
    "readl (dxrt_init_queue q mx es m) (q + Q_ENABLE) = 1"
    "readl (dxrt_init_queue q mx es m) (q + Q_FRONT) = 0"
    "readl (dxrt_init_queue q mx es m) (q + Q_REAR) = 0"
    "readl (dxrt_init_queue q mx es m) (q + Q_COUNT) = 0"
    "readl (dxrt_init_queue q mx es m) (q + Q_IRQ_DONE) = 0"
    by (simp_all add: dxrt_init_queue_def Let_def dx_memset_io32_eq io_simps z)
qed

section \<open>Properties\<close>

text \<open>
  Initialising a queue whose slots fit the buffer yields an enabled, empty, well-formed
  ring and writes nothing outside the queue structure.
\<close>

theorem init_queue_empty:
  assumes "0 < mx" "0 < es" "unat mx * unat es \<le> 2048"
  shows "queue_ok q (dxrt_init_queue q mx es m) \<and> q_list q (dxrt_init_queue q mx es m) = [] \<and>
    dxrt_is_queue_empty q (dxrt_init_queue q mx es m) \<and>
    readl (dxrt_init_queue q mx es m) (q + 2072) = 1 \<and>
    (\<forall>a. a < q \<or> q + 2096 \<le> a \<longrightarrow> dxrt_init_queue q mx es m a = m a)"
proof -
  have "0 < unat mx" "0 < unat es" using assms(1,2) by (simp_all add: unat_gt_0)
  then have "queue_ok q (dxrt_init_queue q mx es m)" "q_list q (dxrt_init_queue q mx es m) = []"
    using assms(3) by (simp_all add: queue_ok_def q_list_def q_defs init_queue_fields)
  moreover have "dxrt_init_queue q mx es m a = m a" if "a < q \<or> q + 2096 \<le> a" for a
    using that by (auto simp: dxrt_init_queue_def Let_def dx_memset_io32_eq io_simps)
  ultimately show ?thesis by (simp add: dxrt_is_queue_empty_def init_queue_fields)
qed

theorem init_queue_empty_witness:
  "queue_ok 4096 (dxrt_init_queue 4096 10 120 (\<lambda>_. 7)) \<and>
   q_list 4096 (dxrt_init_queue 4096 10 120 (\<lambda>_. 7)) = []"
  using init_queue_empty [of 10 120 4096 "\<lambda>_. 7"] by simp

text \<open>
  (C5) Enqueueing on an enabled queue that is not full appends exactly the bytes of the element
  to the abstract list of pending requests, keeps the ring well formed, raises the interrupt
  handshake word, counts the access, and leaves every byte outside the queue structure alone.
\<close>

theorem enqueue_appends:
  assumes "queue_ok q m" "\<not> dxrt_is_queue_full q m" "readl m (q + 2072) \<noteq> 0"
  shows "\<exists>m'. dxrt_enqueue q elem m = Some (0, m') \<and> queue_ok q m' \<and>
    q_list q m' = q_list q m @ [map elem [0..<q_esz q m]] \<and>
    readl m' (q + 2076) = 1 \<and> readl m' (q + 2088) = readl m (q + 2088) + 1 \<and>
    (\<forall>a. a < q \<or> q + 2096 \<le> a \<longrightarrow> m' a = m a)"
proof -
  have c: "q_count q m < q_max q m"
    using assms(2) queue_okD(5) [OF assms(1)] by (simp add: full_iff_count)
  show ?thesis
    using dxrt_enqueue_ok [OF assms(1,3)] enq_mem_ok [OF assms(1) c] enq_mem_list [OF assms(1) c]
      enq_mem_fields [OF assms(1)] enq_mem_frame [OF assms(1)] by auto
qed

theorem enqueue_appends_witness:
  "\<exists>m'. dxrt_enqueue 0 (\<lambda>i. of_nat i) (dxrt_init_queue 0 10 120 (\<lambda>_. 0)) = Some (0, m') \<and>
    q_list 0 m' = [map (\<lambda>i. of_nat i) [0..<120]]"
proof -
  let ?m = "dxrt_init_queue 0 10 120 (\<lambda>_. 0)"
  have f: "readl ?m 2064 = 10" "readl ?m 2068 = 120" "readl ?m 2072 = 1" "readl ?m 2052 = 0"
    "readl ?m 2056 = 0" "readl ?m 2060 = 0"
    using init_queue_fields [of 0 10 120 "\<lambda>_. 0"] by simp_all
  then have "queue_ok 0 ?m" "q_list 0 ?m = []" "q_esz 0 ?m = 120" "\<not> dxrt_is_queue_full 0 ?m"
    by (simp_all add: queue_ok_def q_list_def q_defs dxrt_is_queue_full_def)
  then show ?thesis using enqueue_appends [of 0 ?m "\<lambda>i. of_nat i"] f by auto
qed

text \<open>
  A queue the firmware has disabled refuses every element and stays as it was.
\<close>

theorem enqueue_disabled:
  "dxrt_enqueue q elem (dxrt_disable_queue q m) = Some (- EINVAL, dxrt_disable_queue q m)"
  by (simp add: dxrt_enqueue_def dxrt_disable_queue_def)

text \<open>
  The lock acknowledgement loop always ends, after at most 1000001 reads of the flag, and
  reports success exactly when one of these reads sees the firmware's lock flag.
\<close>

theorem lock_check_outcome:
  "fst (dxrt_lock_check E q s) =
     (if \<exists>k \<in> {1..1000001}. readl (bar ((yield E ^^ k) s)) (q + 2084) = 1 then 1 else 0) \<and>
   tick (snd (dxrt_lock_check E q s)) \<le> tick s + 1000001"
proof (cases rule: lock_poll.loop_cases [where n = "Suc DXRT_ENQUEUE_TIMEOUT" and E = E and q = q and s = s])
  case (hit k r)
  then have "k \<in> {1..1000001}" "readl (bar ((yield E ^^ k) s)) (q + 2084) = 1" "r = 1"
    by (auto split: if_splits)
  with hit show ?thesis unfolding dxrt_lock_check_def
    by (auto simp: tick_yields simp del: lock_check_loop.simps)
next
  case timeout
  then have "\<not> (\<exists>k \<in> {1..1000001}. readl (bar ((yield E ^^ k) s)) (q + 2084) = 1)"
    by (auto split: if_splits)
  with timeout show ?thesis unfolding dxrt_lock_check_def
    by (simp add: tick_yields del: lock_check_loop.simps)
qed

text \<open>
  The interrupt handshake succeeds exactly when the firmware clears the word within 1000001
  reads.
\<close>

theorem irq_done_outcome:
  "fst (dxrt_enqueue_irq_done E q s) =
     (if \<exists>k \<in> {1..1000001}. readl (bar ((yield E ^^ k) s)) (q + 2076) \<noteq> 1 then 0 else - 1)"
proof (cases rule: irq_poll.loop_cases [where n = "Suc 1000000" and E = E and q = q and s = s])
  case (hit k r)
  then have "k \<in> {1..1000001}" "readl (bar ((yield E ^^ k) s)) (q + 2076) \<noteq> 1" "r = 0"
    by (auto split: if_splits)
  with hit show ?thesis unfolding dxrt_enqueue_irq_done_def
    by (auto simp del: irq_done_loop.simps)
next
  case timeout
  then have "\<not> (\<exists>k \<in> {1..1000001}. readl (bar ((yield E ^^ k) s)) (q + 2076) \<noteq> 1)"
    by (auto split: if_splits)
  with timeout show ?thesis unfolding dxrt_enqueue_irq_done_def
    by (simp del: irq_done_loop.simps)
qed

end
