(* ===== verification/Dx_Dlmsg.thy ===== *)
theory Dx_Dlmsg
  imports Dx_Mmio
begin

text \<open>
  The download message block of \<^verbatim>\<open>rt/dxrt_drv_dl.c\<close>: the flash handshake of the boot loader, the
  boot step, and the readiness block that a booted firmware publishes.  A reader of the block
  takes one snapshot of message RAM per check.
\<close>

section \<open>Fields of the block\<close>

abbreviation (input) DL_STS :: nat where "DL_STS \<equiv> 12"
abbreviation (input) DL_BT_STEP :: nat where "DL_BT_STEP \<equiv> 15"
abbreviation (input) DL_READY_MAGIC :: nat where "DL_READY_MAGIC \<equiv> 32"
abbreviation (input) DL_READY_VERSION :: nat where "DL_READY_VERSION \<equiv> 36"
abbreviation (input) DL_READY_FLAGS :: nat where "DL_READY_FLAGS \<equiv> 40"
abbreviation (input) DX_DLMSG_SIZE :: nat where "DX_DLMSG_SIZE \<equiv> 64"

abbreviation (input) PCIE_COMM_FAIL_VAL :: u8 where "PCIE_COMM_FAIL_VAL \<equiv> 255"
abbreviation (input) DW_READY :: u8 where "DW_READY \<equiv> 1"
abbreviation (input) DW_DONE :: u8 where "DW_DONE \<equiv> 2"
abbreviation (input) DX_RTOS :: u8 where "DX_RTOS \<equiv> 3"
abbreviation (input) DX_DLMSG_READY_MAGIC_V :: u32 where "DX_DLMSG_READY_MAGIC_V \<equiv> 1380270404"
abbreviation (input) DX_DLMSG_READY_VERSION_V :: u16 where "DX_DLMSG_READY_VERSION_V \<equiv> 1"
abbreviation (input) DX_DLMSG_READY_REQUIRED :: u32 where "DX_DLMSG_READY_REQUIRED \<equiv> 8"

section \<open>Flash handshake\<close>

text \<open>
  \<open>do { if (timeout-- < 0 || readb(sts) == 0xFF) fail; udelay(1); } while (readb(sts) != target)\<close>.
  With a counter that starts at \<open>timeout\<close> the guard is passed at most \<open>timeout + 1\<close> times; each
  round reads the status twice, once on each side of the delay.
\<close>

primrec flash_loop :: "'a env \<Rightarrow> nat \<Rightarrow> u8 \<Rightarrow> nat \<Rightarrow> 'a io_scheme \<Rightarrow> bool \<times> 'a io_scheme" where
  "flash_loop E dl target 0 s = (False, s)"
| "flash_loop E dl target (Suc n) s =
     (let s1 = yield E s in
      if readb (bar s1) (dl + DL_STS) = PCIE_COMM_FAIL_VAL then (False, s1)
      else let s2 = yield E s1 in
        if readb (bar s2) (dl + DL_STS) = target then (True, s2)
        else flash_loop E dl target n s2)"

definition dx_get_flash_ready :: "'a env \<Rightarrow> nat \<Rightarrow> int \<Rightarrow> 'a io_scheme \<Rightarrow> bool \<times> 'a io_scheme" where
  "dx_get_flash_ready E dl timeout s = flash_loop E dl DW_READY (nat (timeout + 1)) s"

definition dx_get_flash_done :: "'a env \<Rightarrow> nat \<Rightarrow> 'a io_scheme \<Rightarrow> bool \<times> 'a io_scheme" where
  "dx_get_flash_done E dl s = flash_loop E dl DW_DONE (nat (1000 + 1)) s"

section \<open>Boot step and readiness\<close>

text \<open>An \<open>int8_t\<close> result is the signed reading of the byte.\<close>

definition dx_get_boot_step :: "nat \<Rightarrow> mmio \<Rightarrow> int" where
  "dx_get_boot_step dl m =
     (let step = readb m (dl + DL_BT_STEP) in if step \<le> DX_RTOS then uint step else - 1)"

definition dx_get_dl_status :: "nat \<Rightarrow> mmio \<Rightarrow> int" where
  "dx_get_dl_status dl m = sint (readb m (dl + DL_STS))"

definition dx_dlmsg_ready_valid :: "iomem \<Rightarrow> mmio \<Rightarrow> bool" where
  "dx_dlmsg_ready_valid msg m =
     (case msg of
        None \<Rightarrow> False
      | Some dl \<Rightarrow>
          let magic = readl m (dl + DL_READY_MAGIC) in
          if magic = 0xFFFFFFFF \<or> magic \<noteq> DX_DLMSG_READY_MAGIC_V then False
          else let version = readw m (dl + DL_READY_VERSION) in
            if version = 0 \<or> DX_DLMSG_READY_VERSION_V < version then False else True)"

definition dx_dlmsg_ready_flags :: "iomem \<Rightarrow> mmio \<Rightarrow> u32" where
  "dx_dlmsg_ready_flags msg m =
     (if \<not> dx_dlmsg_ready_valid msg m then 0
      else case msg of None \<Rightarrow> 0 | Some dl \<Rightarrow> readl m (dl + DL_READY_FLAGS))"

definition dx_dlmsg_mailbox_ready :: "iomem \<Rightarrow> mmio \<Rightarrow> bool" where
  "dx_dlmsg_mailbox_ready msg m =
     (case msg of
        None \<Rightarrow> False
      | Some dl \<Rightarrow>
          if readb m (dl + DL_BT_STEP) \<noteq> DX_RTOS then False
          else if \<not> dx_dlmsg_ready_valid msg m then False
          else readl m (dl + DL_READY_FLAGS) AND DX_DLMSG_READY_REQUIRED = DX_DLMSG_READY_REQUIRED)"

text \<open>
  The wait polls every 20 ms.  \<open>msleep_interruptible\<close> is one scheduling point; a signal that cuts
  the sleep short is \<open>sigpend\<close> in the state after it.
\<close>

partial_function (option) ready_loop ::
  "'a env \<Rightarrow> iomem \<Rightarrow> u64 \<Rightarrow> 'a io_scheme \<Rightarrow> (bool \<times> 'a io_scheme) option" where
  "ready_loop E msg deadline s =
     (if dx_dlmsg_mailbox_ready msg (bar s) then Some (True, s)
      else if time_after_eq (jiffies s) deadline then Some (False, s)
      else let s1 = yield E s in
        if sigpend s1 then Some (False, s1) else ready_loop E msg deadline s1)"

definition dx_dlmsg_wait_mailbox_ready ::
  "'a env \<Rightarrow> nat \<Rightarrow> iomem \<Rightarrow> u32 \<Rightarrow> 'a io_scheme \<Rightarrow> (bool \<times> 'a io_scheme) option" where
  "dx_dlmsg_wait_mailbox_ready E hz msg timeout_ms s =
     (if msg = None then Some (False, s)
      else ready_loop E msg (jiffies s + msecs_to_jiffies hz timeout_ms) s)"

section \<open>Lemmas\<close>

lemma flash_loop_outcome:
  "fst (flash_loop E dl t n s) \<longleftrightarrow>
     (\<exists>k \<in> {1..n}. readb (bar ((yield E ^^ (2 * k)) s)) (dl + DL_STS) = t \<and>
        (\<forall>j \<in> {1..k}. readb (bar ((yield E ^^ (2 * j - 1)) s)) (dl + DL_STS) \<noteq> PCIE_COMM_FAIL_VAL))"
proof (induction n arbitrary: s)
  case (Suc n)
  let ?st = "\<lambda>i. readb (bar ((yield E ^^ i) s)) (dl + DL_STS)"
  let ?P = "\<lambda>k. ?st (2 * k) = t \<and> (\<forall>j \<in> {1..k}. ?st (2 * j - 1) \<noteq> PCIE_COMM_FAIL_VAL)"
  have shift: "(yield E ^^ i) (yield E (yield E s)) = (yield E ^^ (i + 2)) s" for i
    by (simp add: funpow_swap1)
  have odd: "2 * j - 1 + 2 = 2 * Suc j - 1" if "1 \<le> j" for j :: nat using that by simp
  have tail: "fst (flash_loop E dl t n (yield E (yield E s))) \<longleftrightarrow>
      (\<exists>k \<in> {1..n}. ?st (2 * Suc k) = t \<and>
        (\<forall>j \<in> {1..k}. ?st (2 * Suc j - 1) \<noteq> PCIE_COMM_FAIL_VAL))"
    unfolding Suc.IH shift by (intro bex_cong ball_cong conj_cong refl) (simp_all add: odd)
  have ex: "(\<exists>k \<in> {1..Suc n}. ?P k) \<longleftrightarrow> ?P 1 \<or> (\<exists>k \<in> {1..n}. ?P (Suc k))"
  proof -
    have "{1..Suc n} = insert 1 (Suc ` {1..n})" by (auto simp: image_iff)
    then show ?thesis by (simp only: bex_simps)
  qed
  have sucs: "(\<forall>j \<in> {1..Suc k}. ?st (2 * j - 1) \<noteq> PCIE_COMM_FAIL_VAL) \<longleftrightarrow>
      ?st 1 \<noteq> PCIE_COMM_FAIL_VAL \<and> (\<forall>j \<in> {1..k}. ?st (2 * Suc j - 1) \<noteq> PCIE_COMM_FAIL_VAL)" for k
  proof -
    have "{1..Suc k} = insert 1 (Suc ` {1..k})" by (auto simp: image_iff)
    then show ?thesis by (simp only: ball_simps) simp
  qed
  have one: "?P 1 \<longleftrightarrow> ?st 2 = t \<and> ?st 1 \<noteq> PCIE_COMM_FAIL_VAL" by auto
  have "?st 1 = readb (bar (yield E s)) (dl + DL_STS)"
    "?st 2 = readb (bar (yield E (yield E s))) (dl + DL_STS)" by (simp_all add: numeral_2_eq_2)
  then show ?case unfolding ex one sucs using tail by (auto simp: Let_def)
qed simp

lemma flash_loop_ticks: "tick (snd (flash_loop E dl t n s)) \<le> tick s + 2 * n"
proof (induction n arbitrary: s)
  case (Suc n)
  show ?case using Suc.IH [of "yield E (yield E s)"] by (simp add: Let_def)
qed simp

text \<open>The readiness wait is a loop with a deadline.\<close>

definition ready_verdict ::
  "'a env \<Rightarrow> iomem \<Rightarrow> u64 \<Rightarrow> 'a io_scheme \<Rightarrow> (bool \<times> 'a io_scheme) option" where
  "ready_verdict E msg deadline s =
     (if dx_dlmsg_mailbox_ready msg (bar s) then Some (True, s)
      else if time_after_eq (jiffies s) deadline then Some (False, s)
      else if sigpend (yield E s) then Some (False, yield E s) else None)"

interpretation ready_wait: deadline_loop "ready_loop E msg deadline" "yield E"
    "ready_verdict E msg deadline" jiffies deadline
  for E :: "'a env" and msg deadline
proof unfold_locales
  show "ready_loop E msg deadline s =
      (case ready_verdict E msg deadline s of Some r \<Rightarrow> Some r
       | None \<Rightarrow> ready_loop E msg deadline (yield E s))" for s
    by (subst ready_loop.simps) (simp add: ready_verdict_def Let_def)
  show "time_after_eq (jiffies s) deadline \<Longrightarrow> ready_verdict E msg deadline s \<noteq> None" for s
    by (cases "dx_dlmsg_mailbox_ready msg (bar s)") (simp_all add: ready_verdict_def)
qed

lemma ready_verdict_sound:
  "ready_verdict E msg deadline s = Some (b, t) \<Longrightarrow>
    (if b then dx_dlmsg_mailbox_ready msg (bar t) else time_after_eq (jiffies t) deadline \<or> sigpend t)"
  by (auto simp: ready_verdict_def split: if_splits)

lemma ready_valid_dead:
  assumes "\<And>i. i < 64 \<Longrightarrow> m (dl + i) = 255"
  shows "\<not> dx_dlmsg_ready_valid (Some dl) m"
proof -
  have "m (dl + 32) = 255" "m (dl + 32 + 1) = 255" "m (dl + 32 + 2) = 255" "m (dl + 32 + 3) = 255"
    using assms [of 32] assms [of 33] assms [of 34] assms [of 35] by (simp_all add: add.commute)
  then have "readl m (dl + 32) = 0xFFFFFFFF" by (simp only: readl_def le32_def) simp
  then show ?thesis by (simp add: dx_dlmsg_ready_valid_def)
qed

section \<open>Properties\<close>

text \<open>
  The readiness wait always returns when the clock runs, for every tick rate and
  every timeout.  If it returns true the mailbox is ready in the state it
  returns; if it returns false there is no block, a signal arrived, or the timeout has passed.
\<close>

theorem dlmsg_wait_returns:
  assumes "clock_ok E"
  shows "\<exists>b t. dx_dlmsg_wait_mailbox_ready E hz msg ms s = Some (b, t) \<and>
    (if b then dx_dlmsg_mailbox_ready msg (bar t)
     else msg = None \<or> sigpend t \<or> time_after_eq (jiffies t) (jiffies s + msecs_to_jiffies hz ms))"
proof (cases msg)
  case None
  then show ?thesis by (intro exI [of _ False]) (simp add: dx_dlmsg_wait_mailbox_ready_def)
next
  case (Some dl)
  let ?d = "jiffies s + msecs_to_jiffies hz ms"
  obtain k b t where "ready_verdict E msg ?d ((yield E ^^ k) s) = Some (b, t)"
    "ready_loop E msg ?d s = Some (b, t)"
    using ready_wait.terminates [of E msg ?d s] clock_ok_yield [OF assms] by (metis surj_pair)
  then show ?thesis using Some ready_verdict_sound by (force simp: dx_dlmsg_wait_mailbox_ready_def)
qed

interpretation ready_sleep: sleeping_loop "ready_loop E msg d" "yield E"
  for E msg d
proof
  show "\<exists>k. snd p = (yield E ^^ k) s" if "ready_loop E msg d s = Some p" for s p
    by (rule ready_loop.raw_induct [where P = "\<lambda>E msg d s p. \<exists>k. snd p = (yield E ^^ k) s", OF _ that])
       (auto simp: Let_def split: if_splits intro: iterate_now iterate_later iterate_once)
qed

definition example_env :: "unit env" where
  "example_env k s = s\<lparr>jiffies := jiffies s + 1\<rparr>"

definition example_io :: io where
  "example_io = \<lparr>bar = (\<lambda>_. 0), jiffies = 0xFFFFFFFFFFFFFFF0, tick = 0, sigpend = False,
     umem = (\<lambda>_. None), alloc_ok = True\<rparr>"

lemma clock_ok_example: "clock_ok example_env"
  by (simp add: clock_ok_def example_env_def)

theorem dlmsg_wait_returns_witness:
  "clock_ok example_env \<and>
   (\<exists>b t. dx_dlmsg_wait_mailbox_ready example_env 250 (Some 65472) 5000 example_io = Some (b, t) \<and>
    (if b then dx_dlmsg_mailbox_ready (Some 65472) (bar t)
     else Some (65472 :: nat) = None \<or> sigpend t \<or>
       time_after_eq (jiffies t) (jiffies example_io + msecs_to_jiffies 250 5000)))"
  using dlmsg_wait_returns [OF clock_ok_example, of 250 "Some 65472" 5000 example_io]
    clock_ok_example by simp

text \<open>
  The flash handshake answers yes exactly when, within its bounded number of rounds, the status
  byte reaches the awaited value after a delay and was not the all-ones value of a dead link at
  the start of any round up to that one; it makes at most two reads per round.
\<close>

theorem flash_ready_outcome:
  "(fst (dx_get_flash_ready E dl timeout s) \<longleftrightarrow>
     (\<exists>k \<in> {1..nat (timeout + 1)}. readb (bar ((yield E ^^ (2 * k)) s)) (dl + 12) = 1 \<and>
        \<not> (\<exists>j \<in> {1..k}. readb (bar ((yield E ^^ (2 * j - 1)) s)) (dl + 12) = 255))) \<and>
   tick (snd (dx_get_flash_ready E dl timeout s)) \<le> tick s + 2 * nat (timeout + 1)"
  using flash_loop_outcome [of E dl 1] flash_loop_ticks [of E dl 1]
  by (simp add: dx_get_flash_ready_def)

text \<open>
  A dead link, whose reads return all ones, is never taken for a ready device: the readiness
  block is invalid, the flags read as zero, the mailbox is not ready and the boot step is an
  error.
\<close>

theorem dead_link_not_ready:
  assumes "\<forall>i < 64. m (dl + i) = 255"
  shows "\<not> dx_dlmsg_ready_valid (Some dl) m \<and> dx_dlmsg_ready_flags (Some dl) m = 0 \<and>
    \<not> dx_dlmsg_mailbox_ready (Some dl) m \<and> dx_get_boot_step dl m = - 1"
  using assms ready_valid_dead [of m dl]
  by (simp add: dx_dlmsg_ready_flags_def dx_dlmsg_mailbox_ready_def dx_get_boot_step_def readb_def
      Let_def)

theorem dead_link_not_ready_witness:
  "\<not> dx_dlmsg_ready_valid (Some 65472) (\<lambda>_. 255) \<and>
   dx_dlmsg_ready_flags (Some 65472) (\<lambda>_. 255) = 0 \<and>
   \<not> dx_dlmsg_mailbox_ready (Some 65472) (\<lambda>_. 255) \<and> dx_get_boot_step 65472 (\<lambda>_. 255) = - 1"
  by (rule dead_link_not_ready) simp

end
