(* ===== verification/Dx_Device.thy ===== *)
theory Dx_Device
  imports Dx_LinkHealth Dx_Sched Dx_Queue Dx_Dlmsg
begin

text \<open>
  The runtime module's device object and the mailbox primitives of \<^verbatim>\<open>rt/dxrt_drv_message.c\<close> that every
  command handler uses: the state gate, the binding of message RAM pointers, the bounce-buffer
  copies between user memory and the device, the acknowledgement poll and the firmware
  readiness gate.
\<close>

section \<open>The device object\<close>

datatype dxrt_dev_state =
  STATE_READY | STATE_RECOVERING | STATE_TRANSPORT_OK | STATE_FW_HANG | STATE_WAITING_USER | STATE_PERM_FAIL

fun state_code :: "dxrt_dev_state \<Rightarrow> u32" where
  "state_code STATE_READY = 0"
| "state_code STATE_RECOVERING = 1"
| "state_code STATE_TRANSPORT_OK = 2"
| "state_code STATE_FW_HANG = 3"
| "state_code STATE_WAITING_USER = 4"
| "state_code STATE_PERM_FAIL = 5"

abbreviation (input) DX_ACC :: nat where "DX_ACC \<equiv> 0"
abbreviation (input) DX_STD :: nat where "DX_STD \<equiv> 1"
abbreviation (input) MAX_PCIE_CH_NUM :: nat where "MAX_PCIE_CH_NUM \<equiv> 3"

text \<open>
  \<open>struct dxdev\<close> over the link and message state.  \<open>ready_work\<close> says that the readiness worker is
  queued, \<open>ping_seq_gen\<close> is the probe's sequence generator, \<open>terminating\<close> belongs to the open file
  of the calling thread.  A response credit count is \<open>response_pending\<close>.
\<close>

record dxdev = linkh +
  dtype :: nat
  variant :: u32
  mem_addr :: u64
  mem_size :: u64
  num_dma_ch :: u32
  msg :: iomem
  log :: iomem
  dl :: iomem
  request_queue :: iomem
  request_queue1 :: iomem
  request_queue2 :: iomem
  request_high_queue :: iomem
  dlmsg_contract_seen :: bool
  sched :: "dx_sched list"
  response_pending :: "nat \<Rightarrow> int"
  dev_error :: u32
  dev_notify :: u32
  recovering :: bool
  recovery_epoch :: u32
  dev_state :: dxrt_dev_state
  recovery_count :: u32
  recovery_fail_count :: u32
  last_recovery_reason :: u32
  last_recovery_jiffies :: u64
  ready_work :: bool
  perm_fail_window_start :: u64
  perm_fail_count_in_window :: u32
  ping_seq_gen :: u32
  terminating :: bool
  owner_tgid :: int
  private_data :: bool
  response :: bytes
  request_handler :: bool
  requests :: "bytes list"
  live_entries :: nat

text \<open>A user's message; \<open>m_data\<close> is the user pointer, 0 for \<open>NULL\<close>.\<close>

record dxrt_message =
  m_cmd :: int
  m_sub_cmd :: int
  m_data :: u64
  m_size :: u32

text \<open>
  What the handlers take as given: the environment, the tick rate, the module parameters, and the
  functions of the DMA part of the PCIe module, each with its result and its effect on the state.
  The version macros come from the build, the bus address and the link status word from the PCI
  core; \<open>w_stack\<close> is what an uninitialised object on the kernel stack happens to hold.  \<open>w_std\<close> is the
  standalone NPU driver, which serves a command instead when the device type says so.
\<close>

record world =
  w_env :: "nat \<Rightarrow> dxdev \<Rightarrow> dxdev"
  w_hz :: nat
  w_perm_fail_window_ms :: u32
  w_perm_fail_max_retries :: u32
  w_dlmsg_ready_timeout_ms :: u32
  w_ping_timeout_ms :: u32
  w_skip_addr_check :: bool
  w_sgdma_write :: "u64 \<Rightarrow> u64 \<Rightarrow> u32 \<Rightarrow> int \<Rightarrow> dxdev \<Rightarrow> int \<times> dxdev"
  w_sgdma_read :: "u64 \<Rightarrow> u64 \<Rightarrow> u32 \<Rightarrow> int \<Rightarrow> dxdev \<Rightarrow> int \<times> dxdev"
  w_sgdma_write_kernel :: "bytes \<Rightarrow> u64 \<Rightarrow> u32 \<Rightarrow> int \<Rightarrow> dxdev \<Rightarrow> int \<times> dxdev"
  w_sgdma_init :: "dxdev \<Rightarrow> int \<times> dxdev"
  w_sgdma_deinit :: "dxdev \<Rightarrow> dxdev"
  w_reset_dma_channels :: "dxdev \<Rightarrow> int \<times> dxdev"
  w_set_hw_msi :: "u32 \<Rightarrow> u32 \<Rightarrow> u32 \<Rightarrow> u32 \<Rightarrow> dxdev \<Rightarrow> dxdev"
  w_download_size :: u32
  w_download_region :: u64
  w_booting_region :: "nat \<Rightarrow> u64"
  w_rt_version :: u32
  w_rt_suffix :: bytes
  w_drv_version :: u32
  w_pci_dev_id :: u16
  w_lnksta :: "u16 option"
  w_stack :: "nat \<Rightarrow> u8"
  w_std :: "dxrt_message \<Rightarrow> dxdev \<Rightarrow> (int \<times> dxdev) option"

section \<open>State gate\<close>

definition dxrt_addr_end :: "u64 \<Rightarrow> u64 \<Rightarrow> u64" where
  "dxrt_addr_end start len =
     (if len = 0 then start
      else if - 1 - (len - 1) < start then - 1
      else start + len - 1)"

fun state_errno :: "dxrt_dev_state \<Rightarrow> int" where
  "state_errno STATE_READY = 0"
| "state_errno STATE_RECOVERING = - ENODATA"
| "state_errno STATE_TRANSPORT_OK = - ENODATA"
| "state_errno _ = - EIO"

definition dxrt_dev_state_errno :: "dxdev \<Rightarrow> int" where
  "dxrt_dev_state_errno s = (if dtype s = DX_STD then 0 else state_errno (dev_state s))"

abbreviation (input) DXRT_CMD_IDENTIFY_DEVICE :: int where "DXRT_CMD_IDENTIFY_DEVICE \<equiv> 0"
abbreviation (input) DXRT_CMD_GET_STATUS :: int where "DXRT_CMD_GET_STATUS \<equiv> 1"
abbreviation (input) DXRT_CMD_RESET :: int where "DXRT_CMD_RESET \<equiv> 2"
abbreviation (input) DXRT_CMD_UPDATE_CONFIG :: int where "DXRT_CMD_UPDATE_CONFIG \<equiv> 3"
abbreviation (input) DXRT_CMD_UPDATE_FIRMWARE :: int where "DXRT_CMD_UPDATE_FIRMWARE \<equiv> 4"
abbreviation (input) DXRT_CMD_GET_LOG :: int where "DXRT_CMD_GET_LOG \<equiv> 5"
abbreviation (input) DXRT_CMD_DUMP :: int where "DXRT_CMD_DUMP \<equiv> 6"
abbreviation (input) DXRT_CMD_WRITE_MEM :: int where "DXRT_CMD_WRITE_MEM \<equiv> 7"
abbreviation (input) DXRT_CMD_READ_MEM :: int where "DXRT_CMD_READ_MEM \<equiv> 8"
abbreviation (input) DXRT_CMD_CPU_CACHE_FLUSH :: int where "DXRT_CMD_CPU_CACHE_FLUSH \<equiv> 9"
abbreviation (input) DXRT_CMD_SOC_CUSTOM :: int where "DXRT_CMD_SOC_CUSTOM \<equiv> 10"
abbreviation (input) DXRT_CMD_WRITE_INPUT_DMA_CH0 :: int where "DXRT_CMD_WRITE_INPUT_DMA_CH0 \<equiv> 11"
abbreviation (input) DXRT_CMD_WRITE_INPUT_DMA_CH1 :: int where "DXRT_CMD_WRITE_INPUT_DMA_CH1 \<equiv> 12"
abbreviation (input) DXRT_CMD_WRITE_INPUT_DMA_CH2 :: int where "DXRT_CMD_WRITE_INPUT_DMA_CH2 \<equiv> 13"
abbreviation (input) DXRT_CMD_READ_OUTPUT_DMA_CH0 :: int where "DXRT_CMD_READ_OUTPUT_DMA_CH0 \<equiv> 14"
abbreviation (input) DXRT_CMD_READ_OUTPUT_DMA_CH1 :: int where "DXRT_CMD_READ_OUTPUT_DMA_CH1 \<equiv> 15"
abbreviation (input) DXRT_CMD_READ_OUTPUT_DMA_CH2 :: int where "DXRT_CMD_READ_OUTPUT_DMA_CH2 \<equiv> 16"
abbreviation (input) DXRT_CMD_TERMINATE_EVENT :: int where "DXRT_CMD_TERMINATE_EVENT \<equiv> 17"
abbreviation (input) DXRT_CMD_EVENT :: int where "DXRT_CMD_EVENT \<equiv> 18"
abbreviation (input) DXRT_CMD_DRV_INFO :: int where "DXRT_CMD_DRV_INFO \<equiv> 19"
abbreviation (input) DXRT_CMD_SCHEDULE :: int where "DXRT_CMD_SCHEDULE \<equiv> 20"
abbreviation (input) DXRT_CMD_UPLOAD_FIRMWARE :: int where "DXRT_CMD_UPLOAD_FIRMWARE \<equiv> 21"
abbreviation (input) DXRT_CMD_NPU_RUN_REQ :: int where "DXRT_CMD_NPU_RUN_REQ \<equiv> 22"
abbreviation (input) DXRT_CMD_NPU_RUN_RESP :: int where "DXRT_CMD_NPU_RUN_RESP \<equiv> 23"
abbreviation (input) DXRT_CMD_UPDATE_CONFIG_JSON :: int where "DXRT_CMD_UPDATE_CONFIG_JSON \<equiv> 24"
abbreviation (input) DXRT_CMD_RECOVERY :: int where "DXRT_CMD_RECOVERY \<equiv> 25"
abbreviation (input) DXRT_CMD_CUSTOM :: int where "DXRT_CMD_CUSTOM \<equiv> 26"
abbreviation (input) DXRT_CMD_START :: int where "DXRT_CMD_START \<equiv> 27"
abbreviation (input) DXRT_CMD_TERMINATE :: int where "DXRT_CMD_TERMINATE \<equiv> 28"
abbreviation (input) DXRT_CMD_PCIE :: int where "DXRT_CMD_PCIE \<equiv> 29"
abbreviation (input) DXRT_CMD_NPU_RUN_RESP_V2 :: int where "DXRT_CMD_NPU_RUN_RESP_V2 \<equiv> 30"
abbreviation (input) DXRT_CMD_EVENT_V2 :: int where "DXRT_CMD_EVENT_V2 \<equiv> 31"
abbreviation (input) DXRT_CMD_MAX :: int where "DXRT_CMD_MAX \<equiv> 32"

definition dxrt_cmd_allowed_while_not_ready :: "int \<Rightarrow> dxrt_dev_state \<Rightarrow> bool" where
  "dxrt_cmd_allowed_while_not_ready cmd state =
     (if cmd \<in> {DXRT_CMD_EVENT, DXRT_CMD_EVENT_V2, DXRT_CMD_DRV_INFO, DXRT_CMD_TERMINATE,
                DXRT_CMD_TERMINATE_EVENT} then True
      else if cmd = DXRT_CMD_RECOVERY then state \<noteq> STATE_RECOVERING \<and> state \<noteq> STATE_TRANSPORT_OK
      else False)"

section \<open>Binding and callbacks\<close>

definition dxrt_bind_pcie_resources :: "bool \<Rightarrow> dxdev \<Rightarrow> dxdev" where
  "dxrt_bind_pcie_resources clear_queues s =
     (let s1 = s\<lparr>msg := dx_pcie_get_message_area s, log := dx_pcie_get_log_area s,
                dl := dx_pcie_get_dl_area s,
                request_queue := dx_pcie_get_request_queue DX_NORMAL_QUEUE0 s,
                request_queue1 := dx_pcie_get_request_queue DX_NORMAL_QUEUE1 s,
                request_queue2 := dx_pcie_get_request_queue DX_NORMAL_QUEUE2 s,
                request_high_queue := dx_pcie_get_request_queue DX_HIGH_QUEUE s\<rparr>
      in if clear_queues then snd (dx_pcie_clear_response_queue s1) else s1)"

definition dxrt_clear_all_pending :: "dxdev \<Rightarrow> dxdev" where
  "dxrt_clear_all_pending s =
     s\<lparr>response_pending := (\<lambda>i. if i \<le> MAX_PCIE_CH_NUM then 0 else response_pending s i)\<rparr>"

definition dxrt_response_notify :: "nat \<Rightarrow> u32 \<Rightarrow> dxdev \<Rightarrow> dxdev" where
  "dxrt_response_notify dma_ch proc_id s =
     (if DX_PCIE_RESP_NUM \<le> dma_ch then s
      else s\<lparr>response_pending := (response_pending s)(dma_ch := response_pending s dma_ch + 1)\<rparr>)"

definition dxrt_device_init_early :: "dxdev \<Rightarrow> dxdev" where
  "dxrt_device_init_early s =
     (let s1 = dxrt_clear_all_pending s in
      if dtype s1 = DX_STD then s1
      else dx_pcie_register_link_event_callback (dx_pcie_register_event_callback
             (dx_pcie_register_response_callback (dxrt_bind_pcie_resources False s1))))"

section \<open>Bounce-buffer copies\<close>

abbreviation (input) INTERNAL_BUFF_MAX :: nat where "INTERNAL_BUFF_MAX \<equiv> 1024"

function to_user_io_loop :: "u64 \<Rightarrow> nat \<Rightarrow> nat \<Rightarrow> 'a io_scheme \<Rightarrow> int \<times> 'a io_scheme" where
  "to_user_io_loop dest src n s =
     (if n = 0 then (0, s)
      else let k = min n INTERNAL_BUFF_MAX in
        case copy_to_user dest (dx_memcpy_fromio32 (bar s) src k) s of
          (ok, t) \<Rightarrow> if ok then to_user_io_loop (dest + of_nat k) (src + k) (n - k) t else (- EFAULT, t))"
  by pat_completeness auto

termination by (relation "measure (\<lambda>(d, a, n, s). n)") auto

definition dxrt_copy_to_user_io :: "u64 \<Rightarrow> nat \<Rightarrow> nat \<Rightarrow> 'a io_scheme \<Rightarrow> int \<times> 'a io_scheme" where
  "dxrt_copy_to_user_io dest src n s =
     (if \<not> alloc_ok s then (- ENOMEM, s) else to_user_io_loop dest src n s)"

function from_user_io_loop :: "nat \<Rightarrow> u64 \<Rightarrow> nat \<Rightarrow> 'a io_scheme \<Rightarrow> int \<times> 'a io_scheme" where
  "from_user_io_loop dest src n s =
     (if n = 0 then (0, s)
      else let k = min n INTERNAL_BUFF_MAX in
        case copy_from_user src k s of
          None \<Rightarrow> (- EFAULT, s)
        | Some bs \<Rightarrow> from_user_io_loop (dest + k) (src + of_nat k) (n - k)
            (s\<lparr>bar := dx_memcpy_toio32 dest bs (bar s)\<rparr>))"
  by pat_completeness auto

termination by (relation "measure (\<lambda>(d, a, n, s). n)") auto

definition dxrt_copy_from_user_io :: "nat \<Rightarrow> u64 \<Rightarrow> nat \<Rightarrow> 'a io_scheme \<Rightarrow> int \<times> 'a io_scheme" where
  "dxrt_copy_from_user_io dest src n s =
     (if \<not> alloc_ok s then (- ENOMEM, s) else from_user_io_loop dest src n s)"

declare to_user_io_loop.simps [simp del] from_user_io_loop.simps [simp del]

section \<open>Mailbox\<close>

abbreviation (input) MSG_CMD :: nat where "MSG_CMD \<equiv> 0"
abbreviation (input) MSG_SUB_CMD :: nat where "MSG_SUB_CMD \<equiv> 4"
abbreviation (input) MSG_ACK :: nat where "MSG_ACK \<equiv> 8"
abbreviation (input) MSG_SIZE :: nat where "MSG_SIZE \<equiv> 12"
abbreviation (input) MSG_DATA :: nat where "MSG_DATA \<equiv> 16"
abbreviation (input) SIZEOF_MSG :: u32 where "SIZEOF_MSG \<equiv> 4016"
abbreviation (input) ERR_FW_TIMEOUT :: u32 where "ERR_FW_TIMEOUT \<equiv> 300"

text \<open>
  One look at the acknowledgement word; \<open>None\<close> if it decides nothing.  After a thousand looks that
  decide nothing the next one is the last.
\<close>

definition ack_seen :: "nat \<Rightarrow> dxdev \<Rightarrow> int option" where
  "ack_seen m s =
     (let ack = readl (bar s) (m + MSG_ACK) in
      if ack = 0xFFFFFFFF then Some (- ENODEV) else if ack = 1 then Some 0 else None)"

primrec ack_loop :: "(nat \<Rightarrow> dxdev \<Rightarrow> dxdev) \<Rightarrow> nat \<Rightarrow> nat \<Rightarrow> dxdev \<Rightarrow> int \<times> dxdev" where
  "ack_loop E m 0 s =
     (let s1 = yield E s in
      case ack_seen m s1 of
        Some r \<Rightarrow> (r, s1)
      | None \<Rightarrow> (- ETIMEDOUT, dx_pcie_enqueue_event_response ERR_FW_TIMEOUT s1))"
| "ack_loop E m (Suc n) s =
     (let s1 = yield E s in
      case ack_seen m s1 of
        Some r \<Rightarrow> (r, s1)
      | None \<Rightarrow> if sigpend s1 then (- ERESTARTSYS, s1) else ack_loop E m n s1)"

definition dxrt_polling_ack :: "world \<Rightarrow> nat \<Rightarrow> dxdev \<Rightarrow> int \<times> dxdev" where
  "dxrt_polling_ack W m s = ack_loop (w_env W) m 1000 s"

definition dxrt_msg_to_dev :: "nat \<Rightarrow> dxrt_message \<Rightarrow> mmio \<Rightarrow> mmio" where
  "dxrt_msg_to_dev m u b =
     writel 0 (m + MSG_ACK) (writel (m_size u) (m + MSG_SIZE)
       (writel (word_of_int (m_sub_cmd u)) (m + MSG_SUB_CMD)
         (writel (word_of_int (m_cmd u)) (m + MSG_CMD) b)))"

definition dxrt_fw_mbox_blocked :: "dxdev \<Rightarrow> bool \<times> dxdev" where
  "dxrt_fw_mbox_blocked s =
     (if dl s = None then (False, s)
      else if \<not> dlmsg_contract_seen s \<and> \<not> dx_dlmsg_ready_valid (dl s) (bar s) then (False, s)
      else (\<not> dx_dlmsg_mailbox_ready (dl s) (bar s), s\<lparr>dlmsg_contract_seen := True\<rparr>))"

text \<open>Taking a mutex may sleep, so it is a scheduling point.\<close>

definition mutex_lock :: "world \<Rightarrow> dxdev \<Rightarrow> dxdev" where
  "mutex_lock W s = yield (w_env W) s"

text \<open>The firmware is asked for the interrupt target only in a virtual machine.\<close>

definition dxrt_query_msi_imwr :: "world \<Rightarrow> dxdev \<Rightarrow> dxdev" where
  "dxrt_query_msi_imwr W s =
     (case msg s of
        None \<Rightarrow> s
      | Some m \<Rightarrow>
          if \<not> (dx_dev_list_get s \<and> vm_env s) then s
          else
            let u = \<lparr>m_cmd = DXRT_CMD_PCIE, m_sub_cmd = 6, m_data = 0, m_size = 0\<rparr>;
                s1 = dx_pcie_notify_msg_to_device (w_env W) (s\<lparr>bar := dxrt_msg_to_dev m u (bar s)\<rparr>);
                (r, s2) = dxrt_polling_ack W m s1
            in if r \<noteq> 0 then s2
              else let d = (\<lambda>i. readl (bar s2) (m + MSG_DATA + 4 * i)) in
                if d 4 = 0 then s2 else w_set_hw_msi W (d 0) (d 1) (d 2) (d 3) s2)"

definition dxrt_device_init :: "world \<Rightarrow> dxdev \<Rightarrow> dxdev" where
  "dxrt_device_init W s =
     (if dtype s = DX_STD then s
      else
        let s1 = dxrt_bind_pcie_resources True s;
            s2 = dxrt_bind_pcie_resources False s1;
            s3 = snd (dx_pcie_clear_response_queue s2)
        in dxrt_query_msi_imwr W s3)"

section \<open>Lemmas on the copies\<close>

lemma copy_to_user_append:
  "copy_to_user p (xs @ ys) s =
     (if fst (copy_to_user p xs s) then copy_to_user (p + of_nat (length xs)) ys (snd (copy_to_user p xs s))
      else copy_to_user p xs s)"
  by (induction xs arbitrary: p s) (auto simp: ac_simps split: option.splits)

lemma copy_from_user_0 [simp]: "copy_from_user p 0 s = Some []"
  by (simp add: copy_from_user_def)

lemma copy_from_user_split:
  "copy_from_user p (i + j) s =
     (case copy_from_user p i s of
        None \<Rightarrow> None
      | Some xs \<Rightarrow> map_option (\<lambda>ys. xs @ ys) (copy_from_user (p + of_nat i) j s))"
proof -
  have u: "[0..<i + j] = [0..<i] @ map (\<lambda>k. i + k) [0..<j]"
    using upt_add_eq_append [of 0 i j] map_add_upt [of i j] by (simp add: add.commute)
  show ?thesis
    unfolding copy_from_user_def Let_def u by (auto simp: comp_def add.assoc)
qed

lemma copy_from_user_bar [simp]: "copy_from_user p n (s\<lparr>bar := m\<rparr>) = copy_from_user p n s"
  by (simp add: copy_from_user_def)

lemma to_user_io_loop_eq:
  "to_user_io_loop dest src n s =
     (let r = copy_to_user dest (map (bar s) [src..<src + n]) s
      in (if fst r then 0 else - EFAULT, snd r))"
proof (induction dest src n s rule: to_user_io_loop.induct)
  case (1 dest src n s)
  show ?case
  proof (cases "n = 0")
    case True
    then show ?thesis by (subst to_user_io_loop.simps) simp
  next
    case False
    let ?k = "min n 1024"
    let ?r = "copy_to_user dest (map (bar s) [src..<src + ?k]) s"
    have split: "map (bar s) [src..<src + n] =
        map (bar s) [src..<src + ?k] @ map (bar s) [src + ?k..<src + ?k + (n - ?k)]"
      using upt_add_eq_append [of src "src + ?k" "n - ?k"] by simp
    have IH: "to_user_io_loop (dest + of_nat ?k) (src + ?k) (n - ?k) (snd ?r) =
        (let r = copy_to_user (dest + of_nat ?k) (map (bar s) [src + ?k..<src + ?k + (n - ?k)]) (snd ?r)
         in (if fst r then 0 else - EFAULT, snd r))" if "fst ?r"
      using 1 [OF False refl, of True "snd ?r"] that
      by (simp add: dx_memcpy_fromio32_eq prod_eq_iff)
    have "to_user_io_loop dest src n s =
        (if fst ?r then to_user_io_loop (dest + of_nat ?k) (src + ?k) (n - ?k) (snd ?r) else (- EFAULT, snd ?r))"
      using False by (subst to_user_io_loop.simps) (simp add: Let_def dx_memcpy_fromio32_eq case_prod_beta)
    then show ?thesis
      unfolding split copy_to_user_append using IH by (simp add: Let_def)
  qed
qed

lemma from_user_io_loop_ok:
  "copy_from_user src n s = Some bs \<Longrightarrow>
    from_user_io_loop dest src n s = (0, s\<lparr>bar := mcopy dest bs (bar s)\<rparr>)"
proof (induction dest src n s arbitrary: bs rule: from_user_io_loop.induct)
  case (1 dest src n s)
  show ?case
  proof (cases "n = 0")
    case True
    then show ?thesis using 1(2) by (subst from_user_io_loop.simps) (simp add: copy_from_user_def)
  next
    case False
    let ?k = "min n 1024"
    have "?k + (n - ?k) = n" by simp
    then obtain xs ys where xy: "copy_from_user src ?k s = Some xs"
      "copy_from_user (src + of_nat ?k) (n - ?k) s = Some ys" "bs = xs @ ys"
      using 1(2) copy_from_user_split [of src ?k "n - ?k" s]
      by (cases "copy_from_user src ?k s"; cases "copy_from_user (src + of_nat ?k) (n - ?k) s") auto
    have len: "length xs = ?k" using xy(1) by (rule copy_from_user_length)
    have "from_user_io_loop (dest + ?k) (src + of_nat ?k) (n - ?k) (s\<lparr>bar := mcopy dest xs (bar s)\<rparr>) =
        (0, s\<lparr>bar := mcopy (dest + ?k) ys (mcopy dest xs (bar s))\<rparr>)"
      using 1(1) [OF False refl xy(1), of ys] xy(2) by (simp add: dx_memcpy_toio32_eq)
    moreover have "mcopy (dest + ?k) ys (mcopy dest xs (bar s)) = mcopy dest bs (bar s)"
      using mcopy_append [of dest xs ys "bar s"] len xy(3) by simp
    ultimately show ?thesis
      using False xy(1) by (subst from_user_io_loop.simps) (simp add: Let_def dx_memcpy_toio32_eq)
  qed
qed

lemma from_user_io_loop_fault:
  "copy_from_user src n s = None \<Longrightarrow>
    \<exists>pre. from_user_io_loop dest src n s = (- EFAULT, s\<lparr>bar := mcopy dest pre (bar s)\<rparr>) \<and>
      copy_from_user src (length pre) s = Some pre \<and> length pre < n \<and> length pre mod 1024 = 0"
proof (induction dest src n s rule: from_user_io_loop.induct)
  case (1 dest src n s)
  have n: "n \<noteq> 0" using 1(2) by (cases "n = 0") simp_all
  let ?k = "min n 1024"
  show ?case
  proof (cases "copy_from_user src ?k s")
    case None
    then show ?thesis using n
      by (intro exI [of _ "[]"], subst from_user_io_loop.simps) (simp add: Let_def copy_from_user_def)
  next
    case (Some xs)
    have len: "length xs = ?k" using Some by (rule copy_from_user_length)
    have "?k + (n - ?k) = n" by simp
    then have rest: "copy_from_user (src + of_nat ?k) (n - ?k) s = None"
      using 1(2) Some copy_from_user_split [of src ?k "n - ?k" s] by simp
    then have "n - ?k \<noteq> 0" by (metis copy_from_user_0 option.distinct(1))
    then have k: "?k = 1024" by simp
    let ?s = "s\<lparr>bar := mcopy dest xs (bar s)\<rparr>"
    obtain pre where pre: "from_user_io_loop (dest + ?k) (src + of_nat ?k) (n - ?k) ?s =
        (- EFAULT, ?s\<lparr>bar := mcopy (dest + ?k) pre (bar ?s)\<rparr>)"
      "copy_from_user (src + of_nat ?k) (length pre) s = Some pre" "length pre < n - ?k"
      "length pre mod 1024 = 0"
      using 1(1) [OF n refl Some] rest by (auto simp: dx_memcpy_toio32_eq)
    have "from_user_io_loop dest src n s = (- EFAULT, s\<lparr>bar := mcopy dest (xs @ pre) (bar s)\<rparr>)"
      using n Some pre(1) mcopy_append [of dest xs pre "bar s"] len
      by (subst from_user_io_loop.simps) (simp add: Let_def dx_memcpy_toio32_eq)
    moreover have "copy_from_user src (length (xs @ pre)) s = Some (xs @ pre)"
      using Some pre(2) len copy_from_user_split [of src ?k "length pre" s] by simp
    ultimately show ?thesis using pre(3,4) len k by (intro exI [of _ "xs @ pre"]) simp
  qed
qed

lemma copy_to_user_umem:
  assumes "fst (copy_to_user p bs s)" "length bs \<le> 2 ^ 64"
  shows "(\<forall>i < length bs. umem (snd (copy_to_user p bs s)) (p + of_nat i) = Some (bs ! i)) \<and>
    (\<forall>a. (\<forall>i < length bs. a \<noteq> p + of_nat i) \<longrightarrow> umem (snd (copy_to_user p bs s)) a = umem s a)"
  using assms
proof (induction bs arbitrary: p s)
  case (Cons b bs)
  obtain x where x: "umem s p = Some x" using Cons.prems(1) by (auto split: option.splits)
  let ?s = "s\<lparr>umem := (umem s)(p \<mapsto> b)\<rparr>"
  let ?t = "snd (copy_to_user (p + 1) bs ?s)"
  have ok: "fst (copy_to_user (p + 1) bs ?s)" "length bs \<le> 2 ^ 64" using Cons.prems x by auto
  note IH = Cons.IH [OF ok]
  have "p \<noteq> p + 1 + of_nat i" if "i < length bs" for i
  proof
    assume "p = p + 1 + of_nat i"
    then have "of_nat (Suc i) = (0 :: u64)" by (simp add: add.assoc)
    then have d: "2 ^ LENGTH(64) dvd Suc i" by (simp only: word_of_nat_eq_0_iff)
    have "2 ^ LENGTH(64) \<le> Suc i" by (rule dvd_imp_le [OF d]) simp
    then show False using that Cons.prems(2) by simp
  qed
  then have p: "umem ?t p = Some b" using IH by auto
  have "umem ?t (p + of_nat i) = Some ((b # bs) ! i)" if "i < Suc (length bs)" for i
    using that IH p by (cases i) (simp_all add: add.assoc [symmetric])
  moreover have "umem ?t a = umem s a" if a: "\<forall>i < Suc (length bs). a \<noteq> p + of_nat i" for a
  proof -
    have "a \<noteq> p + 1 + of_nat i" if "i < length bs" for i
      using a [rule_format, of "Suc i"] that by (simp add: add.assoc)
    moreover have "a \<noteq> p" using a [rule_format, of 0] by simp
    ultimately show ?thesis using IH by simp
  qed
  ultimately show ?case using x by simp
qed simp

lemma copy_user_roundtrip:
  "fst (copy_to_user p bs s) \<Longrightarrow> length bs \<le> 2 ^ 64 \<Longrightarrow>
    copy_from_user p (length bs) (snd (copy_to_user p bs s)) = Some bs"
  using copy_to_user_umem [of p bs s] by (auto simp: copy_from_user_def Let_def intro: nth_equalityI)

section \<open>Lemmas on the mailbox\<close>

definition ack_verdict :: "nat \<Rightarrow> dxdev \<Rightarrow> int option" where
  "ack_verdict m s =
     (case ack_seen m s of Some r \<Rightarrow> Some r | None \<Rightarrow> if sigpend s then Some (- ERESTARTSYS) else None)"

interpretation ack_poll: poll_loop "\<lambda>n. ack_loop E m n" "yield E" "ack_verdict m" "\<lambda>s. ack_loop E m 0 s"
  for E m
  by unfold_locales (simp_all add: ack_verdict_def Let_def split: option.split)

lemma tick_enqueue_event [simp]: "tick (dx_pcie_enqueue_event_response c s) = tick s"
  by (simp add: dx_pcie_enqueue_event_response_def dx_pcie_interrupt_event_wakeup_def Let_def)

lemma enqueue_event_queue:
  "dx_dev_list_get s \<Longrightarrow> c \<noteq> 0 \<Longrightarrow>
    event_queue (dx_pcie_enqueue_event_response c s) = evq_push (error_event c) (event_queue s)"
  by (simp add: dx_pcie_enqueue_event_response_def Let_def evq_push_def)

text \<open>What one outcome of the acknowledgement poll says about the state it leaves.\<close>

definition ack_outcome :: "nat \<Rightarrow> int \<Rightarrow> dxdev \<Rightarrow> bool" where
  "ack_outcome m r t \<longleftrightarrow>
     (r = 0 \<and> readl (bar t) (m + 8) = 1) \<or>
     (r = - ENODEV \<and> readl (bar t) (m + 8) = 0xFFFFFFFF) \<or>
     (r = - ERESTARTSYS \<and> sigpend t) \<or> r = - ETIMEDOUT"

lemma ack_verdict_outcome: "ack_verdict m s = Some r \<Longrightarrow> ack_outcome m r s"
  by (auto simp: ack_verdict_def ack_seen_def ack_outcome_def Let_def split: if_splits)

lemma ack_final_outcome: "ack_outcome m (fst (ack_loop E m 0 s)) (snd (ack_loop E m 0 s))"
  by (simp add: ack_seen_def ack_outcome_def Let_def)

section \<open>Properties\<close>

text \<open>
  Chunking is invisible: copying a range of device memory to the user through the 1 KiB bounce
  buffer does exactly what one copy of the whole range would do, fault included.  In the other
  direction a readable range arrives byte for byte, and a range that faults leaves only whole
  chunks that were readable, nothing past them.
\<close>

theorem bounce_copy_exact:
  assumes "alloc_ok s"
  shows "dxrt_copy_to_user_io p a n s =
      (let r = copy_to_user p (map (bar s) [a..<a + n]) s in (if fst r then 0 else - EFAULT, snd r)) \<and>
    (case copy_from_user p n s of
       Some bs \<Rightarrow> dxrt_copy_from_user_io a p n s = (0, s\<lparr>bar := mcopy a bs (bar s)\<rparr>)
     | None \<Rightarrow> \<exists>pre. dxrt_copy_from_user_io a p n s = (- EFAULT, s\<lparr>bar := mcopy a pre (bar s)\<rparr>) \<and>
         copy_from_user p (length pre) s = Some pre \<and> length pre < n \<and> length pre mod 1024 = 0)"
  using assms from_user_io_loop_ok [of p n s _ a] from_user_io_loop_fault [of p n s a]
  by (auto simp: dxrt_copy_to_user_io_def dxrt_copy_from_user_io_def to_user_io_loop_eq Let_def
      split: option.split)

theorem bounce_copy_exact_witness:
  "dxrt_copy_from_user_io 28688 4096 3 (example_pcie\<lparr>umem := (\<lambda>_. Some 7)\<rparr>) =
     (0, example_pcie\<lparr>umem := (\<lambda>_. Some 7), bar := mcopy 28688 [7, 7, 7] (\<lambda>_. 0)\<rparr>)"
  using bounce_copy_exact [of "example_pcie\<lparr>umem := (\<lambda>_. Some 7)\<rparr>" 4096 28688 3]
  by (simp add: example_pcie_def copy_from_user_def upt_rec)

text \<open>
  The acknowledgement poll ends after at most 1001 looks at the device.  Success means the device
  acknowledged, \<open>ENODEV\<close> that the mailbox read as all ones, \<open>ERESTARTSYS\<close> that a signal is pending;
  otherwise it timed out.
\<close>

theorem polling_ack_ends:
  "case dxrt_polling_ack W m s of (r, t) \<Rightarrow> ack_outcome m r t \<and> tick t \<le> tick s + 1001"
proof (cases rule: ack_poll.loop_cases [where n = 1000 and E = "w_env W" and m = m and s = s])
  case (hit k r)
  then show ?thesis by (simp add: dxrt_polling_ack_def ack_verdict_outcome tick_yields)
next
  case timeout
  let ?t = "(yield (w_env W) ^^ 1000) s"
  have "tick (snd (ack_loop (w_env W) m 0 ?t)) = tick s + 1001"
    by (simp add: Let_def tick_yields split: option.split)
  then show ?thesis
    using timeout(2) ack_final_outcome [of m "w_env W" ?t] by (simp add: dxrt_polling_ack_def case_prod_beta)
qed

text \<open>
  A firmware that stays silent is reported: if none of 1001 looks sees an answer and no signal
  arrives, the poll returns \<open>ETIMEDOUT\<close> and has queued a firmware-timeout event, unless the event
  ring is full.
\<close>

theorem silent_firmware_reported:
  assumes "\<forall>k \<in> {1..1001}. ack_seen m ((yield (w_env W) ^^ k) s) = None"
    and "\<forall>k \<in> {1..1000}. \<not> sigpend ((yield (w_env W) ^^ k) s)"
    and "dx_dev_list_get ((yield (w_env W) ^^ 1001) s)" "evq_ok (event_queue ((yield (w_env W) ^^ 1001) s))"
  shows "fst (dxrt_polling_ack W m s) = - ETIMEDOUT \<and>
    evq_pending (event_queue (snd (dxrt_polling_ack W m s))) =
      take 32 (evq_pending (event_queue ((yield (w_env W) ^^ 1001) s)) @ [error_event 300])"
proof -
  let ?t = "(yield (w_env W) ^^ 1001) s"
  have "\<forall>k \<in> {1..1000}. ack_verdict m ((yield (w_env W) ^^ k) s) = None"
    using assms(1,2) by (simp add: ack_verdict_def)
  then have "dxrt_polling_ack W m s = ack_loop (w_env W) m 0 ((yield (w_env W) ^^ 1000) s)"
    unfolding dxrt_polling_ack_def by (rule ack_poll.loop_timeout)
  also have "\<dots> = (- ETIMEDOUT, dx_pcie_enqueue_event_response 300 ?t)"
  proof -
    have y: "yield (w_env W) ((yield (w_env W) ^^ 1000) s) = ?t"
      using funpow_Suc_right [of 1000 "yield (w_env W)"] by (simp add: numeral_eq_Suc)
    have "ack_seen m ?t = None" using assms(1) by (meson atLeastAtMost_iff le_refl one_le_numeral)
    then show ?thesis by (simp add: y)
  qed
  finally have r: "dxrt_polling_ack W m s = (- ETIMEDOUT, dx_pcie_enqueue_event_response 300 ?t)" .
  have q: "event_queue (dx_pcie_enqueue_event_response 300 ?t) = evq_push (error_event 300) (event_queue ?t)"
    by (rule enqueue_event_queue [OF assms(3)]) simp
  have "evq_pending (evq_push (error_event 300) (event_queue ?t)) =
      take 32 (evq_pending (event_queue ?t) @ [error_event 300])"
    using events.fold_enq_pending [OF assms(4), of "[error_event 300]"] by simp
  then show ?thesis using r q by simp
qed


definition example_dev :: dxdev where
  "example_dev = linkh.extend (example_link\<lparr>link_state := LINK_UP, edma_state := DEV_LIVE\<rparr>)
     \<lparr>dtype = 0, variant = 200, mem_addr = 0x1000000, mem_size = 0xFF000000, num_dma_ch = 3,
      msg = Some 0x7000, log = Some 0xB000, dl = Some 0xFFC0, request_queue = Some 0x8000,
      request_queue1 = Some 0x8A00, request_queue2 = Some 0x9400, request_high_queue = Some 0,
      dlmsg_contract_seen = False, sched = [], response_pending = (\<lambda>_. 0), dev_error = 0,
      dev_notify = 0, recovering = False, recovery_epoch = 0, dev_state = STATE_READY,
      recovery_count = 0, recovery_fail_count = 0, last_recovery_reason = 0,
      last_recovery_jiffies = 0, ready_work = False, perm_fail_window_start = 0,
      perm_fail_count_in_window = 0, ping_seq_gen = 0, terminating = False,
      owner_tgid = 100, private_data = True, response = replicate 40 0, request_handler = False,
      requests = [], live_entries = 0\<rparr>"

definition example_world :: world where
  "example_world = \<lparr>w_env = (\<lambda>k s. s), w_hz = 250, w_perm_fail_window_ms = 60000,
     w_perm_fail_max_retries = 5, w_dlmsg_ready_timeout_ms = 5000, w_ping_timeout_ms = 500,
     w_skip_addr_check = False, w_sgdma_write = (\<lambda>p a n ch s. (uint n, s)),
     w_sgdma_read = (\<lambda>p a n ch s. (uint n, s)), w_sgdma_write_kernel = (\<lambda>bs a n ch s. (uint n, s)),
     w_sgdma_init = (\<lambda>s. (0, s)), w_sgdma_deinit = (\<lambda>s. s),
     w_reset_dma_channels = (\<lambda>s. (0, s)), w_set_hw_msi = (\<lambda>a b c d s. s),
     w_download_size = 0x100000, w_download_region = 0, w_booting_region = (\<lambda>_. 0),
     w_rt_version = 1800, w_rt_suffix = [34, 34], w_drv_version = 1800, w_pci_dev_id = 0x100,
     w_lnksta = Some 0x43, w_stack = (\<lambda>_. 0xAA), w_std = (\<lambda>u s. Some (0, s))\<rparr>"

lemmas example_defs = example_dev_def example_link_def example_pcie_def pcie.defs linkh.defs

lemma yield_idle: "(yield (\<lambda>k s. s) ^^ n) s = s\<lparr>tick := tick s + n\<rparr>"
  by (induction n) (simp_all add: yield_def)

lemma evq_pending_tick [simp]: "event_queue (s\<lparr>tick := n\<rparr>) = event_queue s"
  "dx_dev_list_get (s\<lparr>tick := n\<rparr>) = dx_dev_list_get s"
  by (simp_all add: dx_dev_list_get_def)

lemma example_dev_ok [simp]:
  "dx_dev_list_get example_dev" "evq_ok (event_queue example_dev)"
  "evq_pending (event_queue example_dev) = []"
  by (simp_all add: example_defs dx_dev_list_get_def evq_ok_def evq_pending_def)

theorem silent_firmware_reported_witness:
  "fst (dxrt_polling_ack example_world 0x7000 example_dev) = - ETIMEDOUT \<and>
   evq_pending (event_queue (snd (dxrt_polling_ack example_world 0x7000 example_dev))) = [error_event 300]"
proof -
  have z: "readl (\<lambda>_. 0) a = 0" for a by (simp add: readl_def le32_def)
  have "bar example_dev = (\<lambda>_. 0)" "\<not> sigpend example_dev" by (simp_all add: example_defs)
  then show ?thesis
    using silent_firmware_reported [of 28672 example_world example_dev]
    by (simp add: example_world_def yield_idle ack_seen_def z)
qed

text \<open>One delivery: the device fills the channel's buffer, its interrupt runs.\<close>

definition arrive :: "nat \<Rightarrow> bytes \<Rightarrow> dxdev \<Rightarrow> dxdev" where
  "arrive ch bs s =
     dx_pcie_enqueue_response dxrt_response_notify ch (s\<lparr>bar := mcopy (msg_response s ch) bs (bar s)\<rparr>)"

lemma arrive_effect:
  assumes "dx_dev_list_get s" "response_callback s" "ch < 3" "length bs = 64"
  shows "responses (arrive ch bs s) = (responses s)(ch := resp_push bs (responses s ch)) \<and>
    response_pending (arrive ch bs s) ch = response_pending s ch + 1 \<and>
    dx_dev_list_get (arrive ch bs s) \<and> response_callback (arrive ch bs s)"
proof -
  let ?s = "s\<lparr>bar := mcopy (msg_response s ch) bs (bar s)\<rparr>"
  have "map (bar ?s) [msg_response ?s ch ..< msg_response ?s ch + 64] = bs"
    using map_mcopy_same [of "msg_response s ch" bs] assms(4) by simp
  then have "responses (arrive ch bs s) = (responses s)(ch := resp_push bs (responses s ch))"
    using enqueue_response_pool [of ?s dxrt_response_notify ch] assms(1)
    by (simp add: arrive_def dxrt_response_notify_def del: list.map)
  then show ?thesis using assms
    by (simp add: arrive_def dx_pcie_enqueue_response_def dxrt_response_notify_def Let_def dx_dev_list_get_def)
qed



text \<open>
  The end address of a transfer, as reported in diagnostics, is exact or saturates at the largest
  address, never wraps.
\<close>

theorem addr_end_saturates:
  "uint (dxrt_addr_end a n) =
     (if n = 0 then uint a else min (uint a + uint n - 1) (2 ^ 64 - 1))"
proof (cases "n = 0")
  case False
  have n: "uint (n - 1) = uint n - 1" using False by uint_arith
  define k where "k = uint n"
  have k: "1 \<le> k" "k < 18446744073709551616"
    using n unsigned_less [of n] by (uint_arith, simp_all add: k_def)
  have "uint (- n) = (- k) mod 18446744073709551616" by (simp add: uint_word_ariths k_def)
  also have "\<dots> = 18446744073709551616 - k" using k by (simp add: zmod_zminus1_eq_if)
  finally have m: "uint (- 1 - (n - 1)) = 2 ^ 64 - uint n" by (simp add: k_def)
  show ?thesis
  proof (cases "- 1 - (n - 1) < a")
    case True
    then have "2 ^ 64 - uint n < uint a" using m by (simp add: word_less_def)
    then show ?thesis using False True
      by (simp add: dxrt_addr_end_def unsigned_minus_1_eq_mask mask_eq_exp_minus_1)
  next
    case ok: False
    then have "uint a \<le> 2 ^ 64 - uint n" using m by (simp add: word_less_def)
    then have "uint a + k - 1 < 18446744073709551616" by (simp add: k_def)
    moreover have "0 \<le> uint a + (k - 1)" using k by (intro add_nonneg_nonneg) simp_all
    ultimately have j: "uint a + k - 1 < 18446744073709551616" "0 \<le> uint a + k - 1" by simp_all
    have "a + n - 1 = word_of_int (uint a + k - 1)" by (simp add: k_def)
    then have "uint (a + n - 1) = (uint a + k - 1) mod 18446744073709551616"
      by (simp only: uint_word_of_int) simp
    also have "\<dots> = uint a + k - 1" using j by (intro mod_pos_pos_trivial)
    finally show ?thesis using False ok j by (simp add: dxrt_addr_end_def k_def)
  qed
qed (simp add: dxrt_addr_end_def)

end
