(* ===== verification/Dx_Recovery.thy ===== *)
theory Dx_Recovery
  imports Dx_Device
begin

text \<open>
  The recovery state machine of \<^verbatim>\<open>rt/dxrt_drv_recovery.c\<close>: reactions to link events, the synthetic
  recovery after a firmware reboot, the readiness worker with its mailbox edge detection and
  liveness probe, and the window that turns repeated failures into a permanent one.
\<close>

section \<open>Events and the failure window\<close>

abbreviation (input) RECOVERY_STARTED :: u32 where "RECOVERY_STARTED \<equiv> 1"
abbreviation (input) RECOVERY_DONE :: u32 where "RECOVERY_DONE \<equiv> 2"
abbreviation (input) RECOVERY_FW_HANG :: u32 where "RECOVERY_FW_HANG \<equiv> 3"
abbreviation (input) RECOVERY_PERM_FAIL :: u32 where "RECOVERY_PERM_FAIL \<equiv> 4"
abbreviation (input) REASON_NONE :: u32 where "REASON_NONE \<equiv> 0"
abbreviation (input) REASON_LINK_FLAP :: u32 where "REASON_LINK_FLAP \<equiv> 1"
abbreviation (input) REASON_FW_TIMEOUT :: u32 where "REASON_FW_TIMEOUT \<equiv> 2"
abbreviation (input) REASON_CPU_RESET :: u32 where "REASON_CPU_RESET \<equiv> 3"
abbreviation (input) REASON_FW_UPDATE :: u32 where "REASON_FW_UPDATE \<equiv> 4"
abbreviation (input) REASON_FW_UPDATE_NODLMSG :: u32 where "REASON_FW_UPDATE_NODLMSG \<equiv> 5"
abbreviation (input) DXRT_FW_REBOOT_ACK_WINDOW_MS :: u32 where "DXRT_FW_REBOOT_ACK_WINDOW_MS \<equiv> 2000"

definition emit_recovery_event :: "u32 \<Rightarrow> u32 \<Rightarrow> dxdev \<Rightarrow> dxdev" where
  "emit_recovery_event subcode reason s =
     (if reason = REASON_FW_UPDATE \<and> (subcode = RECOVERY_STARTED \<or> subcode = RECOVERY_DONE) then s
      else dx_pcie_enqueue_recovery_event subcode reason (recovery_count s) (recovery_fail_count s)
             (state_code (dev_state s)) s)"

definition perm_fail_check :: "world \<Rightarrow> dxdev \<Rightarrow> bool \<times> dxdev" where
  "perm_fail_check W s =
     (let now = jiffies s;
          window = msecs_to_jiffies (w_hz W) (w_perm_fail_window_ms W);
          s1 = (if time_after now (perm_fail_window_start s + window)
                then s\<lparr>perm_fail_window_start := now, perm_fail_count_in_window := 0\<rparr> else s);
          s2 = s1\<lparr>perm_fail_count_in_window := perm_fail_count_in_window s1 + 1\<rparr>
      in if w_perm_fail_max_retries W \<le> perm_fail_count_in_window s2
         then (True, emit_recovery_event RECOVERY_PERM_FAIL (last_recovery_reason s2)
                       (s2\<lparr>dev_state := STATE_PERM_FAIL\<rparr>))
         else (False, s2))"

section \<open>Waiting with a deadline\<close>

text \<open>
  \<open>for (;;) { test; if (time_after_eq(jiffies, deadline)) break; msleep(..); }\<close>, the loop of every
  phase below; \<open>fin\<close> is the result of the break.
\<close>

partial_function (option) until_deadline ::
  "(nat \<Rightarrow> dxdev \<Rightarrow> dxdev) \<Rightarrow> (dxdev \<Rightarrow> int option) \<Rightarrow> int \<Rightarrow> u64 \<Rightarrow> dxdev \<Rightarrow> (int \<times> dxdev) option" where
  "until_deadline E test fin deadline s =
     (case test s of
        Some r \<Rightarrow> Some (r, s)
      | None \<Rightarrow>
          if time_after_eq (jiffies s) deadline then Some (fin, s)
          else until_deadline E test fin deadline (yield E s))"

text \<open>\<open>while (time_before(jiffies, deadline)) { test; usleep_range(..); }\<close>.\<close>

partial_function (option) while_before ::
  "(nat \<Rightarrow> dxdev \<Rightarrow> dxdev) \<Rightarrow> (dxdev \<Rightarrow> int option) \<Rightarrow> int \<Rightarrow> u64 \<Rightarrow> dxdev \<Rightarrow> (int \<times> dxdev) option" where
  "while_before E test fin deadline s =
     (if \<not> time_before (jiffies s) deadline then Some (fin, s)
      else case test s of
        Some r \<Rightarrow> Some (r, s)
      | None \<Rightarrow> while_before E test fin deadline (yield E s))"

text \<open>Someone else has started another recovery, or moved the device on.\<close>

definition superseded :: "u32 \<Rightarrow> dxdev \<Rightarrow> bool" where
  "superseded start_epoch s \<longleftrightarrow> recovery_epoch s \<noteq> start_epoch \<or> dev_state s \<noteq> STATE_TRANSPORT_OK"

definition test_drop :: "u32 \<Rightarrow> dxdev \<Rightarrow> int option" where
  "test_drop start_epoch s =
     (if superseded start_epoch s then Some (- EAGAIN)
      else if \<not> dx_dlmsg_mailbox_ready (dl s) (bar s) then Some 1 else None)"

definition test_republish :: "u32 \<Rightarrow> dxdev \<Rightarrow> int option" where
  "test_republish start_epoch s =
     (if superseded start_epoch s then Some (- EAGAIN)
      else if dx_dlmsg_mailbox_ready (dl s) (bar s) then Some 0 else None)"

definition test_settle :: "u32 \<Rightarrow> dxdev \<Rightarrow> int option" where
  "test_settle start_epoch s = (if superseded start_epoch s then Some (- EAGAIN) else None)"

definition dxrt_wait_fw_reboot_mailbox_cycle :: "world \<Rightarrow> u32 \<Rightarrow> dxdev \<Rightarrow> (int \<times> dxdev) option" where
  "dxrt_wait_fw_reboot_mailbox_cycle W start_epoch s =
     (if dl s = None then Some (0, s)
      else
        let total = jiffies s + msecs_to_jiffies (w_hz W) (w_dlmsg_ready_timeout_ms W);
            ack0 = jiffies s + msecs_to_jiffies (w_hz W) DXRT_FW_REBOOT_ACK_WINDOW_MS;
            ack = (if time_after ack0 total then total else ack0)
        in case until_deadline (w_env W) (test_drop start_epoch) 0 ack s of
             None \<Rightarrow> None
           | Some (r, s1) \<Rightarrow>
               if r = - EAGAIN then Some (- EAGAIN, s1)
               else if r = 0 then Some (- ETIMEDOUT, s1)
               else until_deadline (w_env W) (test_republish start_epoch) (- ETIMEDOUT) total s1)"

definition dxrt_wait_fw_reboot_legacy_settle :: "world \<Rightarrow> u32 \<Rightarrow> dxdev \<Rightarrow> (int \<times> dxdev) option" where
  "dxrt_wait_fw_reboot_legacy_settle W start_epoch s =
     until_deadline (w_env W) (test_settle start_epoch) 0
       (jiffies s + msecs_to_jiffies (w_hz W) (w_dlmsg_ready_timeout_ms W)) s"

section \<open>Liveness probe\<close>

abbreviation (input) PING_MAGIC :: u32 where "PING_MAGIC \<equiv> 0x50494E47"
abbreviation (input) PONG_MAGIC :: u32 where "PONG_MAGIC \<equiv> 0x504F4E47"

definition ping_request :: "u32 \<Rightarrow> bytes" where
  "ping_request seq = put32s 0 [PING_MAGIC, seq, 0, 0] (replicate 16 0)"

definition test_pong :: "nat \<Rightarrow> u32 \<Rightarrow> dxdev \<Rightarrow> int option" where
  "test_pong m start_epoch s =
     (if superseded start_epoch s then Some (- EAGAIN) else ack_seen m s)"

text \<open>Taking the message lock may sleep: it is a scheduling point, after which the epoch is checked again.\<close>

definition fw_ping_probe :: "world \<Rightarrow> u32 \<Rightarrow> u32 \<Rightarrow> dxdev \<Rightarrow> (int \<times> dxdev) option" where
  "fw_ping_probe W timeout_ms start_epoch s =
     (case msg s of
        None \<Rightarrow> Some (- ENODEV, s)
      | Some m \<Rightarrow>
          if superseded start_epoch s then Some (- EAGAIN, s)
          else
            let seq = ping_seq_gen s + 1;
                s1 = yield (w_env W) (s\<lparr>ping_seq_gen := seq\<rparr>)
            in if superseded start_epoch s1 then Some (- EAGAIN, s1)
              else
                let u = \<lparr>m_cmd = DXRT_CMD_PCIE, m_sub_cmd = 4, m_data = 0, m_size = 16\<rparr>;
                    s2 = s1\<lparr>bar := dxrt_msg_to_dev m u
                              (dx_memcpy_toio32 (m + MSG_DATA) (ping_request seq) (bar s1))\<rparr>;
                    s3 = dx_pcie_notify_msg_to_device (w_env W) s2;
                    deadline = jiffies s3 + msecs_to_jiffies (w_hz W) timeout_ms
                in case while_before (w_env W) (test_pong m start_epoch) (- ETIMEDOUT) deadline s3 of
                     None \<Rightarrow> None
                   | Some (r, s4) \<Rightarrow>
                       if r \<noteq> 0 then Some (r, s4)
                       else
                         let sz = readl (bar s4) (m + MSG_SIZE);
                             resp = dx_memcpy_fromio32 (bar s4) (m + MSG_DATA) 32
                         in if sz < 32 \<or> SIZEOF_MSG \<le> sz then Some (- EIO, s4)
                           else if get32 0 resp \<noteq> PONG_MAGIC \<or> get32 4 resp \<noteq> seq then Some (- EIO, s4)
                           else Some (0, s4))"

section \<open>Starting a recovery\<close>

definition dxrt_link_event_notify :: "bool \<Rightarrow> dxdev \<Rightarrow> dxdev" where
  "dxrt_link_event_notify up s =
     (if dtype s = DX_STD then s
      else if dev_state s = STATE_PERM_FAIL then s
      else if \<not> up then
        let s1 = s\<lparr>dev_state := STATE_RECOVERING, last_recovery_reason := REASON_LINK_FLAP,
                  recovering := True, recovery_epoch := recovery_epoch s + 1, ready_work := False,
                  sched := clear_queue_list (sched s)\<rparr>;
            s2 = snd (dx_pcie_clear_response_queue s1);
            s3 = dx_pcie_clear_event_response s2;
            s4 = dxrt_clear_all_pending s3
        in emit_recovery_event RECOVERY_STARTED REASON_LINK_FLAP s4
      else
        let s1 = dx_pcie_set_init_completed (dxrt_bind_pcie_resources False s)
        in s1\<lparr>dev_state := STATE_TRANSPORT_OK, ready_work := True\<rparr>)"

definition dxrt_kick_fw_reboot_recovery :: "u32 \<Rightarrow> dxdev \<Rightarrow> dxdev" where
  "dxrt_kick_fw_reboot_recovery reason s =
     (if dtype s = DX_STD then s
      else if dev_state s = STATE_PERM_FAIL then s
      else
        let s1 = s\<lparr>dev_state := STATE_RECOVERING, last_recovery_reason := reason,
                  recovering := True, recovery_epoch := recovery_epoch s + 1, ready_work := False,
                  sched := clear_queue_list (sched s)\<rparr>;
            s2 = snd (dx_pcie_clear_response_queue s1);
            s3 = dx_pcie_clear_event_response s2;
            s4 = dxrt_clear_all_pending s3;
            s5 = emit_recovery_event RECOVERY_STARTED reason s4;
            s6 = dx_pcie_set_init_completed s5
        in s6\<lparr>dev_state := STATE_TRANSPORT_OK, ready_work := True\<rparr>)"

definition dxrt_kick_cpu_reset_recovery :: "dxdev \<Rightarrow> dxdev" where
  "dxrt_kick_cpu_reset_recovery s = dxrt_kick_fw_reboot_recovery REASON_CPU_RESET s"

definition dxrt_kick_fw_update_recovery :: "dxdev \<Rightarrow> dxdev" where
  "dxrt_kick_fw_update_recovery s = dxrt_kick_fw_reboot_recovery REASON_FW_UPDATE s"

definition dxrt_kick_fw_update_recovery_nodlmsg :: "dxdev \<Rightarrow> dxdev" where
  "dxrt_kick_fw_update_recovery_nodlmsg s =
     dxrt_kick_fw_reboot_recovery REASON_FW_UPDATE_NODLMSG (s\<lparr>dlmsg_contract_seen := False\<rparr>)"

section \<open>The readiness worker\<close>

definition ready_done :: "dxdev \<Rightarrow> dxdev" where
  "ready_done s =
     (let s1 = s\<lparr>recovery_count := recovery_count s + 1, last_recovery_jiffies := jiffies s,
                recovering := False, dev_state := STATE_READY\<rparr>
      in emit_recovery_event RECOVERY_DONE (last_recovery_reason s1) s1)"

definition ready_hang :: "world \<Rightarrow> dxdev \<Rightarrow> dxdev" where
  "ready_hang W s =
     (let s1 = dxrt_clear_all_pending (s\<lparr>dev_state := STATE_FW_HANG, recovering := False\<rparr>);
          s2 = emit_recovery_event RECOVERY_FW_HANG (last_recovery_reason s1) s1
      in snd (perm_fail_check W s2))"

text \<open>The active step and the verdict.\<close>

definition ready_probe :: "world \<Rightarrow> u32 \<Rightarrow> bool \<Rightarrow> dxdev \<Rightarrow> dxdev option" where
  "ready_probe W start_epoch skip_ping s =
     (if skip_ping then Some (if superseded start_epoch s then s else ready_done s)
      else case fw_ping_probe W (w_ping_timeout_ms W) start_epoch s of
        None \<Rightarrow> None
      | Some (r, s1) \<Rightarrow>
          if superseded start_epoch s1 then Some s1
          else if r \<noteq> 0 then Some (ready_hang W (s1\<lparr>recovery_fail_count := recovery_fail_count s1 + 1\<rparr>))
          else Some (ready_done s1))"

text \<open>The passive step depends on why the recovery was started.\<close>

definition dxrt_recovery_ready_work_fn :: "world \<Rightarrow> dxdev \<Rightarrow> dxdev option" where
  "dxrt_recovery_ready_work_fn W s =
     (if dev_state s = STATE_PERM_FAIL then Some s
      else let start_epoch = recovery_epoch s in
        if superseded start_epoch s then Some s
        else if dl s = None then ready_probe W start_epoch False s
        else if last_recovery_reason s = REASON_FW_UPDATE_NODLMSG then
          (case dxrt_wait_fw_reboot_legacy_settle W start_epoch s of
             None \<Rightarrow> None
           | Some (r, s1) \<Rightarrow> if r = - EAGAIN then Some s1 else ready_probe W start_epoch True s1)
        else if last_recovery_reason s = REASON_CPU_RESET \<or> last_recovery_reason s = REASON_FW_UPDATE then
          (case dxrt_wait_fw_reboot_mailbox_cycle W start_epoch s of
             None \<Rightarrow> None
           | Some (r, s1) \<Rightarrow>
               if r = - EAGAIN then Some s1
               else if r \<noteq> 0 then Some (ready_hang W s1)
               else ready_probe W start_epoch False s1)
        else
          (case dx_dlmsg_wait_mailbox_ready (w_env W) (w_hz W) (dl s) (w_dlmsg_ready_timeout_ms W) s of
             None \<Rightarrow> None
           | Some (ready, s1) \<Rightarrow>
               if superseded start_epoch s1 then Some s1
               else if \<not> ready then Some (ready_hang W s1)
               else ready_probe W start_epoch False s1))"

definition dxrt_recovery_state_init :: "dxdev \<Rightarrow> dxdev" where
  "dxrt_recovery_state_init s =
     s\<lparr>dev_state := STATE_READY, recovery_count := 0, recovery_fail_count := 0,
       last_recovery_reason := REASON_NONE, last_recovery_jiffies := 0,
       perm_fail_window_start := jiffies s, perm_fail_count_in_window := 0, ready_work := False\<rparr>"

definition dxrt_recovery_state_deinit :: "dxdev \<Rightarrow> dxdev" where
  "dxrt_recovery_state_deinit s = s\<lparr>ready_work := False\<rparr>"

section \<open>Frames\<close>

text \<open>Fields of the device object that the message layer's operations leave alone.\<close>

lemma emit_frame [simp, fsm_simps]:
  "dev_state (emit_recovery_event c r s) = dev_state s"
  "recovering (emit_recovery_event c r s) = recovering s"
  "recovery_epoch (emit_recovery_event c r s) = recovery_epoch s"
  "recovery_count (emit_recovery_event c r s) = recovery_count s"
  "recovery_fail_count (emit_recovery_event c r s) = recovery_fail_count s"
  "last_recovery_reason (emit_recovery_event c r s) = last_recovery_reason s"
  "perm_fail_window_start (emit_recovery_event c r s) = perm_fail_window_start s"
  "perm_fail_count_in_window (emit_recovery_event c r s) = perm_fail_count_in_window s"
  "jiffies (emit_recovery_event c r s) = jiffies s"
  "responses (emit_recovery_event c r s) = responses s"
  "sched (emit_recovery_event c r s) = sched s"
  "dtype (emit_recovery_event c r s) = dtype s"
  "ready_work (emit_recovery_event c r s) = ready_work s"
  "response_pending (emit_recovery_event c r s) = response_pending s"
  "recovery_count_in_window (emit_recovery_event c r s) = recovery_count_in_window s"
  by (simp_all add: emit_recovery_event_def dx_pcie_enqueue_recovery_event_def
      dx_pcie_interrupt_event_wakeup_def Let_def)

lemma clear_pending_frame [simp, fsm_simps]:
  "dev_state (dxrt_clear_all_pending s) = dev_state s"
  "recovering (dxrt_clear_all_pending s) = recovering s"
  "recovery_epoch (dxrt_clear_all_pending s) = recovery_epoch s"
  "recovery_count (dxrt_clear_all_pending s) = recovery_count s"
  "recovery_fail_count (dxrt_clear_all_pending s) = recovery_fail_count s"
  "last_recovery_reason (dxrt_clear_all_pending s) = last_recovery_reason s"
  "perm_fail_window_start (dxrt_clear_all_pending s) = perm_fail_window_start s"
  "perm_fail_count_in_window (dxrt_clear_all_pending s) = perm_fail_count_in_window s"
  "jiffies (dxrt_clear_all_pending s) = jiffies s"
  "responses (dxrt_clear_all_pending s) = responses s"
  "event_queue (dxrt_clear_all_pending s) = event_queue s"
  "sched (dxrt_clear_all_pending s) = sched s"
  "dtype (dxrt_clear_all_pending s) = dtype s"
  "dx_dev_list_get (dxrt_clear_all_pending s) = dx_dev_list_get s"
  "recovery_count_in_window (dxrt_clear_all_pending s) = recovery_count_in_window s"
  by (simp_all add: dxrt_clear_all_pending_def dx_dev_list_get_def)

lemma clear_queues_frame [simp, fsm_simps]:
  "dev_state (snd (dx_pcie_clear_response_queue s)) = dev_state s"
  "recovering (snd (dx_pcie_clear_response_queue s)) = recovering s"
  "recovery_epoch (snd (dx_pcie_clear_response_queue s)) = recovery_epoch s"
  "sched (snd (dx_pcie_clear_response_queue s)) = sched s"
  "event_queue (snd (dx_pcie_clear_response_queue s)) = event_queue s"
  "dx_dev_list_get (snd (dx_pcie_clear_response_queue s)) = dx_dev_list_get s"
  "dev_state (dx_pcie_clear_event_response s) = dev_state s"
  "recovering (dx_pcie_clear_event_response s) = recovering s"
  "recovery_epoch (dx_pcie_clear_event_response s) = recovery_epoch s"
  "sched (dx_pcie_clear_event_response s) = sched s"
  "responses (dx_pcie_clear_event_response s) = responses s"
  "dx_dev_list_get (dx_pcie_clear_event_response s) = dx_dev_list_get s"
  "recovery_count_in_window (snd (dx_pcie_clear_response_queue s)) = recovery_count_in_window s"
  "recovery_count_in_window (dx_pcie_clear_event_response s) = recovery_count_in_window s"
  for s :: dxdev
  by (simp_all add: dx_pcie_clear_response_queue_def dx_pcie_clear_event_response_def)

lemma init_completed_frame [simp, fsm_simps]:
  "dev_state (dx_pcie_set_init_completed s) = dev_state s"
  "recovering (dx_pcie_set_init_completed s) = recovering s"
  "recovery_epoch (dx_pcie_set_init_completed s) = recovery_epoch s"
  "sched (dx_pcie_set_init_completed s) = sched s"
  "responses (dx_pcie_set_init_completed s) = responses s"
  "event_queue (dx_pcie_set_init_completed s) = event_queue s"
  for s :: dxdev
  by (simp_all add: dx_pcie_set_init_completed_def)

lemma bind_frame [simp, fsm_simps]:
  "dev_state (dxrt_bind_pcie_resources False s) = dev_state s"
  "recovering (dxrt_bind_pcie_resources False s) = recovering s"
  "recovery_epoch (dxrt_bind_pcie_resources False s) = recovery_epoch s"
  "sched (dxrt_bind_pcie_resources False s) = sched s"
  "responses (dxrt_bind_pcie_resources False s) = responses s"
  "event_queue (dxrt_bind_pcie_resources False s) = event_queue s"
  "recovery_count_in_window (dxrt_bind_pcie_resources False s) = recovery_count_in_window s"
  by (simp_all add: dxrt_bind_pcie_resources_def)

section \<open>The waits return\<close>

definition until_verdict :: "(dxdev \<Rightarrow> int option) \<Rightarrow> int \<Rightarrow> u64 \<Rightarrow> dxdev \<Rightarrow> (int \<times> dxdev) option" where
  "until_verdict test fin deadline s =
     (case test s of
        Some r \<Rightarrow> Some (r, s)
      | None \<Rightarrow> if time_after_eq (jiffies s) deadline then Some (fin, s) else None)"

definition before_verdict :: "(dxdev \<Rightarrow> int option) \<Rightarrow> int \<Rightarrow> u64 \<Rightarrow> dxdev \<Rightarrow> (int \<times> dxdev) option" where
  "before_verdict test fin deadline s =
     (if time_after_eq (jiffies s) deadline then Some (fin, s)
      else case test s of Some r \<Rightarrow> Some (r, s) | None \<Rightarrow> None)"

interpretation until_wait: deadline_loop "until_deadline E test fin deadline" "yield E"
    "until_verdict test fin deadline" jiffies deadline
  for E :: "nat \<Rightarrow> dxdev \<Rightarrow> dxdev" and test fin deadline
proof unfold_locales
  show "until_deadline E test fin deadline s =
      (case until_verdict test fin deadline s of Some r \<Rightarrow> Some r
       | None \<Rightarrow> until_deadline E test fin deadline (yield E s))" for s
    by (subst until_deadline.simps) (simp add: until_verdict_def split: option.split)
  show "time_after_eq (jiffies s) deadline \<Longrightarrow> until_verdict test fin deadline s \<noteq> None" for s
    by (simp add: until_verdict_def split: option.split)
qed

interpretation before_wait: deadline_loop "while_before E test fin deadline" "yield E"
    "before_verdict test fin deadline" jiffies deadline
  for E :: "nat \<Rightarrow> dxdev \<Rightarrow> dxdev" and test fin deadline
proof unfold_locales
  show "while_before E test fin deadline s =
      (case before_verdict test fin deadline s of Some r \<Rightarrow> Some r
       | None \<Rightarrow> while_before E test fin deadline (yield E s))" for s
    by (subst while_before.simps) (simp add: before_verdict_def not_time_before split: option.split)
  show "time_after_eq (jiffies s) deadline \<Longrightarrow> before_verdict test fin deadline s \<noteq> None" for s
    by (simp add: before_verdict_def)
qed

interpretation until_sleep: sleeping_loop "until_deadline E test fin d" "yield E"
  for E test fin d
proof
  show "\<exists>k. snd p = (yield E ^^ k) s" if "until_deadline E test fin d s = Some p" for s p
    by (rule until_deadline.raw_induct [where P = "\<lambda>E test fin d s p. \<exists>k. snd p = (yield E ^^ k) s", OF _ that])
       (auto split: option.splits if_splits intro: iterate_now iterate_later)
qed

interpretation before_sleep: sleeping_loop "while_before E test fin d" "yield E"
  for E test fin d
proof
  show "\<exists>k. snd p = (yield E ^^ k) s" if "while_before E test fin d s = Some p" for s p
    by (rule while_before.raw_induct [where P = "\<lambda>E test fin d s p. \<exists>k. snd p = (yield E ^^ k) s", OF _ that])
       (auto split: option.splits if_splits intro: iterate_now iterate_later)
qed

lemma until_deadline_returns:
  assumes "clock_ok E"
  obtains r t where "until_deadline E test fin d s = Some (r, t)"
  using until_wait.terminates [of E test fin d s] clock_ok_yield [OF assms] by (metis surj_pair)

lemma while_before_returns:
  assumes "clock_ok E"
  obtains r t where "while_before E test fin d s = Some (r, t)"
  using before_wait.terminates [of E test fin d s] clock_ok_yield [OF assms] by (metis surj_pair)

text \<open>What a wait returns was the verdict of the state it returns.\<close>

lemma until_deadline_verdict:
  assumes "until_deadline E test fin d s = Some (r, t)"
  shows "test t = Some r \<or> (test t = None \<and> r = fin \<and> time_after_eq (jiffies t) d)"
proof -
  have "test (snd (r, t)) = Some (fst (r, t)) \<or>
      (test (snd (r, t)) = None \<and> fst (r, t) = fin \<and> time_after_eq (jiffies (snd (r, t))) d)"
    by (rule until_deadline.raw_induct [where P = "\<lambda>E test fin d s p. test (snd p) = Some (fst p) \<or>
          (test (snd p) = None \<and> fst p = fin \<and> time_after_eq (jiffies (snd p)) d)", OF _ assms])
       (auto split: option.splits if_splits)
  then show ?thesis by simp
qed

lemma while_before_verdict:
  assumes "while_before E test fin d s = Some (r, t)"
  shows "test t = Some r \<or> (r = fin \<and> time_after_eq (jiffies t) d)"
proof -
  have "test (snd (r, t)) = Some (fst (r, t)) \<or> (fst (r, t) = fin \<and> time_after_eq (jiffies (snd (r, t))) d)"
    by (rule while_before.raw_induct [where P = "\<lambda>E test fin d s p. test (snd p) = Some (fst p) \<or>
          (fst p = fin \<and> time_after_eq (jiffies (snd p)) d)", OF _ assms])
       (auto simp: not_time_before split: option.splits if_splits)
  then show ?thesis by simp
qed

lemma ping_returns:
  assumes "clock_ok (w_env W)"
  obtains r t where "fw_ping_probe W ms ep s = Some (r, t)"
proof -
  have w: "while_before (w_env W) test fin d u \<noteq> None" for test fin d u
    using while_before_returns [OF assms] by (metis option.distinct(1))
  have "fw_ping_probe W ms ep s \<noteq> None"
    by (simp add: fw_ping_probe_def Let_def w split: option.split)
  then show thesis using that by (metis option.exhaust surj_pair)
qed

lemma ready_probe_returns:
  assumes "clock_ok (w_env W)"
  shows "\<exists>t. ready_probe W ep skip s = Some t"
proof -
  obtain r t where "fw_ping_probe W (w_ping_timeout_ms W) ep s = Some (r, t)"
    using ping_returns [OF assms] .
  then show ?thesis by (simp add: ready_probe_def)
qed

lemma cycle_returns:
  assumes "clock_ok (w_env W)"
  obtains r t where "dxrt_wait_fw_reboot_mailbox_cycle W ep s = Some (r, t)"
proof -
  have u: "until_deadline (w_env W) test fin d u \<noteq> None" for test fin d u
    using until_deadline_returns [OF assms] by (metis option.distinct(1))
  then have u': "\<exists>r t. until_deadline (w_env W) test fin d u = Some (r, t)" for test fin d u
    by (metis option.exhaust surj_pair)
  have "dxrt_wait_fw_reboot_mailbox_cycle W ep s \<noteq> None"
    by (simp add: dxrt_wait_fw_reboot_mailbox_cycle_def Let_def u u' split: option.split)
  then show thesis using that by (metis option.exhaust surj_pair)
qed

lemma worker_returns:
  assumes "clock_ok (w_env W)"
  shows "\<exists>t. dxrt_recovery_ready_work_fn W s = Some t"
proof -
  obtain r1 t1 where s: "dxrt_wait_fw_reboot_legacy_settle W (recovery_epoch s) s = Some (r1, t1)"
    unfolding dxrt_wait_fw_reboot_legacy_settle_def using until_deadline_returns [OF assms] .
  obtain r2 t2 where c: "dxrt_wait_fw_reboot_mailbox_cycle W (recovery_epoch s) s = Some (r2, t2)"
    using cycle_returns [OF assms] .
  obtain b t3 where w: "dx_dlmsg_wait_mailbox_ready (w_env W) (w_hz W) (dl s) (w_dlmsg_ready_timeout_ms W) s =
      Some (b, t3)"
    using ready_wait.terminates [of "w_env W" "dl s" _ s] clock_ok_yield [OF assms]
    unfolding dx_dlmsg_wait_mailbox_ready_def by (metis surj_pair)
  have p: "\<exists>t. ready_probe W ep skip u = Some t" for ep skip u
    using ready_probe_returns [OF assms] by blast
  show ?thesis by (simp add: dxrt_recovery_ready_work_fn_def Let_def s c w p)
qed

section \<open>Properties\<close>

text \<open>
  (C4) The readiness worker always finishes when the clock runs, from every state, for every setting of
  the module parameters and every behaviour of the firmware and the other threads.
\<close>

theorem recovery_worker_terminates:
  assumes "clock_ok (w_env W)"
  shows "\<exists>t. dxrt_recovery_ready_work_fn W s = Some t"
  using worker_returns [OF assms] .

definition dev_clock :: "nat \<Rightarrow> dxdev \<Rightarrow> dxdev" where
  "dev_clock k s = s\<lparr>jiffies := jiffies s + 1\<rparr>"

lemma dev_clock_ok: "clock_ok dev_clock"
  by (simp add: clock_ok_def dev_clock_def)

theorem recovery_worker_terminates_witness:
  "\<exists>t. dxrt_recovery_ready_work_fn (example_world\<lparr>w_env := dev_clock\<rparr>)
     (example_dev\<lparr>dev_state := STATE_TRANSPORT_OK\<rparr>) = Some t"
  by (rule recovery_worker_terminates) (simp add: dev_clock_ok)

definition worker_outcome :: "world \<Rightarrow> u32 \<Rightarrow> dxdev \<Rightarrow> bool" where
  "worker_outcome W ep t \<longleftrightarrow> superseded ep t \<or>
     (\<exists>u. recovery_epoch u = ep \<and> dev_state u = STATE_TRANSPORT_OK \<and> (t = ready_done u \<or> t = ready_hang W u))"

lemma outcome_superseded: "superseded ep t \<Longrightarrow> worker_outcome W ep t"
  by (simp add: worker_outcome_def)

lemma outcome_hang: "\<not> superseded ep u \<Longrightarrow> worker_outcome W ep (ready_hang W u)"
  by (auto simp: worker_outcome_def superseded_def)

lemma outcome_done: "\<not> superseded ep u \<Longrightarrow> worker_outcome W ep (ready_done u)"
  by (auto simp: worker_outcome_def superseded_def)

lemmas outcome_intros = outcome_superseded outcome_hang outcome_done

lemma ready_probe_outcome:
  assumes "ready_probe W ep skip s = Some t"
  shows "worker_outcome W ep t"
proof (cases skip)
  case True
  then show ?thesis using assms by (auto simp: ready_probe_def outcome_intros split: if_splits)
next
  case False
  then obtain r s1 where p: "fw_ping_probe W (w_ping_timeout_ms W) ep s = Some (r, s1)"
    using assms by (auto simp: ready_probe_def split: option.splits)
  let ?u = "s1\<lparr>recovery_fail_count := recovery_fail_count s1 + 1\<rparr>"
  have "superseded ep ?u = superseded ep s1" by (simp add: superseded_def)
  then show ?thesis using assms False p outcome_hang [of ep ?u W] outcome_done [of ep s1 W]
    by (auto simp: ready_probe_def outcome_superseded split: if_splits)
qed

lemma cycle_timeout_current:
  assumes "dxrt_wait_fw_reboot_mailbox_cycle W ep s = Some (r, t)" "r \<noteq> - EAGAIN" "r \<noteq> 0"
  shows "\<not> superseded ep t"
proof -
  obtain d where d: "dl s = Some d" using assms by (cases "dl s") (auto simp: dxrt_wait_fw_reboot_mailbox_cycle_def)
  define total where "total = jiffies s + msecs_to_jiffies (w_hz W) (w_dlmsg_ready_timeout_ms W)"
  define ack where "ack = (if time_after (jiffies s + msecs_to_jiffies (w_hz W) 2000) total then total
      else jiffies s + msecs_to_jiffies (w_hz W) 2000)"
  have e: "dxrt_wait_fw_reboot_mailbox_cycle W ep s =
      (case until_deadline (w_env W) (test_drop ep) 0 ack s of
         None \<Rightarrow> None
       | Some (r1, s1) \<Rightarrow>
           if r1 = - EAGAIN then Some (- EAGAIN, s1) else if r1 = 0 then Some (- ETIMEDOUT, s1)
           else until_deadline (w_env W) (test_republish ep) (- ETIMEDOUT) total s1)"
    unfolding dxrt_wait_fw_reboot_mailbox_cycle_def ack_def total_def Let_def using d by simp
  obtain r1 s1 where a: "until_deadline (w_env W) (test_drop ep) 0 ack s = Some (r1, s1)"
    using assms(1) unfolding e by (cases "until_deadline (w_env W) (test_drop ep) 0 ack s") auto
  have rest: "(if r1 = - EAGAIN then Some (- EAGAIN, s1) else if r1 = 0 then Some (- ETIMEDOUT, s1)
      else until_deadline (w_env W) (test_republish ep) (- ETIMEDOUT) total s1) = Some (r, t)"
    using assms(1) unfolding e a by simp
  show ?thesis
  proof (cases "r1 = 0")
    case True
    then show ?thesis using rest until_deadline_verdict [OF a]
      by (auto simp: test_drop_def split: if_splits)
  next
    case False
    then have "until_deadline (w_env W) (test_republish ep) (- ETIMEDOUT) total s1 = Some (r, t)"
      using rest assms(2) by (auto split: if_splits)
    then show ?thesis using until_deadline_verdict assms(2,3)
      by (fastforce simp: test_republish_def split: if_splits)
  qed
qed

lemma cycle_again_superseded:
  "dxrt_wait_fw_reboot_mailbox_cycle W ep s = Some (- EAGAIN, u) \<Longrightarrow> superseded ep u"
  using until_deadline_verdict
  by (fastforce simp: dxrt_wait_fw_reboot_mailbox_cycle_def test_drop_def test_republish_def Let_def
      split: option.splits if_splits)

lemma settle_again_superseded:
  "dxrt_wait_fw_reboot_legacy_settle W ep s = Some (- EAGAIN, u) \<Longrightarrow> superseded ep u"
  using until_deadline_verdict unfolding dxrt_wait_fw_reboot_legacy_settle_def
  by (fastforce simp: test_settle_def split: if_splits)

lemma reboot_branch_outcome:
  assumes "dxrt_wait_fw_reboot_mailbox_cycle W ep s = Some (r, u)"
    and "(if r = - EAGAIN then Some u else if r \<noteq> 0 then Some (ready_hang W u)
      else ready_probe W ep False u) = Some t"
  shows "worker_outcome W ep t"
proof -
  consider "r = - EAGAIN" | "r \<noteq> - EAGAIN" "r \<noteq> 0" | "r = 0" by blast
  then show ?thesis
  proof cases
    case 1
    then show ?thesis using assms cycle_again_superseded outcome_superseded by simp
  next
    case 2
    then show ?thesis using assms cycle_timeout_current [OF assms(1) 2] outcome_hang [of ep u W] by simp
  next
    case 3
    then show ?thesis using assms(2) ready_probe_outcome by simp
  qed
qed




text \<open>What a link loss and a firmware-reboot kick have in common.\<close>

definition recovery_begin :: "u32 \<Rightarrow> dxdev \<Rightarrow> dxdev" where
  "recovery_begin reason s =
     emit_recovery_event RECOVERY_STARTED reason (dxrt_clear_all_pending (dx_pcie_clear_event_response
       (snd (dx_pcie_clear_response_queue
         (s\<lparr>dev_state := STATE_RECOVERING, last_recovery_reason := reason,
            recovering := True, recovery_epoch := recovery_epoch s + 1, ready_work := False,
            sched := clear_queue_list (sched s)\<rparr>)))))"

lemma link_down_begin:
  "dtype s \<noteq> 1 \<Longrightarrow> dev_state s \<noteq> STATE_PERM_FAIL \<Longrightarrow> dxrt_link_event_notify False s = recovery_begin 1 s"
  by (simp add: dxrt_link_event_notify_def recovery_begin_def Let_def)

lemma kick_begin:
  "dtype s \<noteq> 1 \<Longrightarrow> dev_state s \<noteq> STATE_PERM_FAIL \<Longrightarrow>
    dxrt_kick_fw_reboot_recovery reason s =
      (dx_pcie_set_init_completed (recovery_begin reason s))\<lparr>dev_state := STATE_TRANSPORT_OK, ready_work := True\<rparr>"
  by (simp add: dxrt_kick_fw_reboot_recovery_def recovery_begin_def Let_def)

text \<open>Clients hold no registration, and no response, credit or event of before is left.\<close>

definition flushed :: "dxdev \<Rightarrow> bool" where
  "flushed s \<longleftrightarrow> sched s = [] \<and>
     (\<forall>ch < 3. resp_ok (responses s ch) \<and> resp_pending (responses s ch) = [] \<and> response_pending s ch = 0)"

lemma flushed_cong:
  "sched s = sched t \<Longrightarrow> responses s = responses t \<Longrightarrow> response_pending s = response_pending t \<Longrightarrow>
    flushed s = flushed t"
  by (simp add: flushed_def)

lemma recovery_begin_fields [simp]:
  "dev_state (recovery_begin r s) = STATE_RECOVERING" "recovering (recovery_begin r s)"
  "recovery_epoch (recovery_begin r s) = recovery_epoch s + 1"
  by (simp_all add: recovery_begin_def)

lemma recovery_begin_ready_work [simp]: "\<not> ready_work (recovery_begin r s)"
  by (simp add: recovery_begin_def dxrt_clear_all_pending_def dx_pcie_clear_event_response_def
      dx_pcie_clear_response_queue_def)

lemma recovery_begin_flushed: "dx_dev_list_get s \<Longrightarrow> flushed (recovery_begin r s)"
  by (simp add: flushed_def recovery_begin_def dxrt_clear_all_pending_def dx_pcie_clear_event_response_def
      dx_pcie_clear_response_queue_def dx_dev_list_get_def resp_clear_ok clear_queue_list_def)

lemma recovery_begin_events:
  assumes "dx_dev_list_get s" "length (entries (event_queue s)) = 32"
  shows "evq_ok (event_queue (recovery_begin r s)) \<and> evq_pending (event_queue (recovery_begin r s)) =
    (if r = 4 then [] else [recovery_event 1 r (recovery_count s) (recovery_fail_count s) 1])"
proof -
  define u where "u = dxrt_clear_all_pending (dx_pcie_clear_event_response (snd (dx_pcie_clear_response_queue
         (s\<lparr>dev_state := STATE_RECOVERING, last_recovery_reason := r,
            recovering := True, recovery_epoch := recovery_epoch s + 1, ready_work := False,
            sched := clear_queue_list (sched s)\<rparr>))))"
  have u: "event_queue u = evq_clear (event_queue s)" "dx_dev_list_get u" "dev_state u = STATE_RECOVERING"
    "recovery_count u = recovery_count s" "recovery_fail_count u = recovery_fail_count s"
    using assms(1) unfolding u_def
    by (simp_all add: dx_pcie_clear_event_response_def dx_pcie_clear_response_queue_def dx_dev_list_get_def
        dxrt_clear_all_pending_def)
  have c: "evq_ok (evq_clear (event_queue s))" "evq_pending (evq_clear (event_queue s)) = []"
    using evq_clear_ok assms(2) by blast+
  show ?thesis unfolding recovery_begin_def emit_recovery_event_def u_def [symmetric]
    using u c recovery_event_queue [OF u(2)] events.enq_inv [OF c(1)] events.enq_pending [OF c(1)] by simp
qed

text \<open>
  Every new recovery overtakes the running one: a link loss and each firmware-reboot kick advance
  the epoch, so the worker of the earlier recovery sees itself superseded; they drop all
  registrations, pending responses, credits and events, leave only their own start event (none
  for a firmware update), and hold back the clients.  A kick also queues the readiness worker.
\<close>

theorem new_recovery_supersedes:
  assumes "dtype s \<noteq> 1" "dev_state s \<noteq> STATE_PERM_FAIL" "dx_dev_list_get s"
    and "length (entries (event_queue s)) = 32"
  shows "let t = dxrt_link_event_notify False s; k = dxrt_kick_fw_reboot_recovery reason s in
    superseded (recovery_epoch s) t \<and> dev_state t = STATE_RECOVERING \<and> recovering t \<and> \<not> ready_work t \<and>
    flushed t \<and> evq_pending (event_queue t) = [recovery_event 1 1 (recovery_count s) (recovery_fail_count s) 1] \<and>
    recovery_epoch k = recovery_epoch s + 1 \<and> dev_state k = STATE_TRANSPORT_OK \<and> recovering k \<and> ready_work k \<and>
    flushed k \<and> evq_pending (event_queue k) =
      (if reason = 4 then [] else [recovery_event 1 reason (recovery_count s) (recovery_fail_count s) 1])"
proof -
  let ?k = "(dx_pcie_set_init_completed (recovery_begin reason s))\<lparr>dev_state := STATE_TRANSPORT_OK, ready_work := True\<rparr>"
  have "flushed ?k = flushed (recovery_begin reason s)"
    by (rule flushed_cong) (simp_all add: dx_pcie_set_init_completed_def)
  then show ?thesis
    using assms recovery_begin_flushed [OF assms(3)] recovery_begin_events [OF assms(3,4)]
    by (simp add: link_down_begin kick_begin superseded_def Let_def)
qed

theorem new_recovery_supersedes_witness:
  "let t = dxrt_link_event_notify False example_dev in
    superseded 0 t \<and> flushed t \<and> evq_pending (event_queue t) = [recovery_event 1 1 0 0 1]"
  using new_recovery_supersedes [of example_dev 0]
  by (simp add: Let_def) (simp add: example_defs dx_dev_list_get_def)


text \<open>
  A permanent failure is final for everything that runs by itself: link events, firmware-reboot
  kicks and the readiness worker leave the device exactly as it is.
\<close>

theorem perm_fail_absorbing:
  assumes "dev_state s = STATE_PERM_FAIL"
  shows "dxrt_link_event_notify up s = s \<and> dxrt_kick_fw_reboot_recovery reason s = s \<and>
    dxrt_recovery_ready_work_fn W s = Some s"
  using assms
  by (simp add: dxrt_link_event_notify_def dxrt_kick_fw_reboot_recovery_def dxrt_recovery_ready_work_fn_def)

theorem perm_fail_absorbing_witness:
  "dxrt_link_event_notify True (example_dev\<lparr>dev_state := STATE_PERM_FAIL\<rparr>) =
     example_dev\<lparr>dev_state := STATE_PERM_FAIL\<rparr>"
  using perm_fail_absorbing [of "example_dev\<lparr>dev_state := STATE_PERM_FAIL\<rparr>" True 0 example_world] by simp

lemma perm_fail_check_fields [simp]:
  "jiffies (snd (perm_fail_check W s)) = jiffies s"
  "recovering (snd (perm_fail_check W s)) = recovering s"
  "sched (snd (perm_fail_check W s)) = sched s"
  "responses (snd (perm_fail_check W s)) = responses s"
  by (simp_all add: perm_fail_check_def Let_def)

lemma ready_hang_within:
  assumes "\<not> time_after (jiffies s) (perm_fail_window_start s + msecs_to_jiffies (w_hz W) (w_perm_fail_window_ms W))"
  shows "perm_fail_window_start (ready_hang W s) = perm_fail_window_start s \<and>
    jiffies (ready_hang W s) = jiffies s \<and>
    perm_fail_count_in_window (ready_hang W s) = perm_fail_count_in_window s + 1 \<and>
    dev_state (ready_hang W s) =
      (if w_perm_fail_max_retries W \<le> perm_fail_count_in_window s + 1 then STATE_PERM_FAIL else STATE_FW_HANG)"
  using assms by (simp add: ready_hang_def perm_fail_check_def Let_def)



text \<open>A firmware that answers the first probe at once.\<close>

definition pong_ram :: mmio where
  "pong_ram = writel 1 0x7014 (writel 0x504F4E47 0x7010 (writel 32 0x700C (writel 1 0x7008 (\<lambda>_. 0))))"

definition reply_env :: "mmio \<Rightarrow> nat \<Rightarrow> dxdev \<Rightarrow> dxdev" where
  "reply_env ram k s = s\<lparr>jiffies := jiffies s + 1, bar := ram, notify := (\<lambda>_. 1)\<rparr>"

abbreviation (input) "pong_env \<equiv> reply_env pong_ram"

abbreviation (input) "pong_world \<equiv> example_world\<lparr>w_env := pong_env\<rparr>"
abbreviation (input) "pong_dev \<equiv> example_dev\<lparr>dev_state := STATE_TRANSPORT_OK, recovering := True, dl := None\<rparr>"

lemma pong_ram_reads:
  "readl pong_ram 0x7008 = 1" "readl pong_ram 0x700C = 32"
  "get32 0 (map pong_ram [0x7010..<0x7030]) = 0x504F4E47" "get32 4 (map pong_ram [0x7010..<0x7030]) = 1"
proof -
  have g: "get32 (4 * i) (map m [a..<a + 32]) = readl m (a + 4 * i)" if "i < 8" for m :: mmio and a i
    using that by (simp add: get32_def readl_def ac_simps)
  show "readl pong_ram 0x7008 = 1" "readl pong_ram 0x700C = 32"
    by (simp_all add: pong_ram_def readl_writel_other)
  show "get32 0 (map pong_ram [0x7010..<0x7030]) = 0x504F4E47" "get32 4 (map pong_ram [0x7010..<0x7030]) = 1"
    using g [of 0 pong_ram 28688] g [of 1 pong_ram 28688] by (simp_all add: pong_ram_def readl_writel_other)
qed

lemma reply_notify:
  assumes "dx_dev_list_get s" "dx_ver s = 3"
  shows "dx_pcie_notify_msg_to_device (reply_env ram) s = (yield (reply_env ram) s)\<lparr>notify := writel 1 0x20 (\<lambda>_. 1)\<rparr>"
proof -
  have y: "notify (yield (reply_env ram) s) = (\<lambda>_. 1)" "dx_ver (yield (reply_env ram) s) = 3"
    using assms(2) by (simp_all add: yield_def reply_env_def)
  have r: "readl (\<lambda>_. 1) a \<noteq> 0" for a by (simp add: readl_def le32_def)
  have "notify_enable_loop (reply_env ram) (Suc 999) s = (readl (\<lambda>_. 1) 0x60, yield (reply_env ram) s)"
    unfolding notify_enable_loop.simps by (simp add: Let_def y r)
  then show ?thesis using assms r y by (simp add: dx_pcie_notify_msg_to_device_def dx_pcie_is_notify_enable_def)
qed

lemma pong_answers:
  assumes "msg s = Some 0x7000" "ping_seq_gen s = 0" "\<not> superseded ep s" "dx_dev_list_get s" "dx_ver s = 3"
  shows "\<exists>t. fw_ping_probe pong_world 500 ep s = Some (0, t)"
proof -
  define s1 where "s1 = yield pong_env (s\<lparr>ping_seq_gen := 1\<rparr>)"
  define u :: dxrt_message where "u = \<lparr>m_cmd = 29, m_sub_cmd = 4, m_data = 0, m_size = 16\<rparr>"
  define s2 where "s2 = s1\<lparr>bar := dxrt_msg_to_dev 0x7000 u
      (dx_memcpy_toio32 0x7010 (ping_request 1) (bar s1))\<rparr>"
  define s3 where "s3 = dx_pcie_notify_msg_to_device pong_env s2"
  define d where "d = jiffies s3 + msecs_to_jiffies 250 500"
  have ok: "dx_dev_list_get s2" "dx_ver s2 = 3" "dev_state s2 = dev_state s" "recovery_epoch s2 = recovery_epoch s"
    using assms by (simp_all add: s2_def s1_def yield_def reply_env_def dx_dev_list_get_def)
  have s3: "bar s3 = pong_ram" "\<not> superseded ep s3" "\<not> superseded ep s1"
    using ok assms(3) by (simp_all add: s3_def reply_notify superseded_def yield_def reply_env_def s2_def)
  have d: "time_before (jiffies s3) d"
    by (simp add: d_def msecs_to_jiffies_def time_before_def time_after_def)
  have "while_before pong_env (test_pong 0x7000 ep) (- ETIMEDOUT) d s3 = Some (0, s3)"
    using d s3 pong_ram_reads by (subst while_before.simps) (simp add: test_pong_def ack_seen_def)
  moreover have "w_hz pong_world = 250" "w_env pong_world = pong_env" by (simp_all add: example_world_def)
  ultimately have "fw_ping_probe pong_world 500 ep s = Some (0, s3)"
    using s3 pong_ram_reads assms
    by (simp add: fw_ping_probe_def Let_def dx_memcpy_fromio32_eq flip: s1_def u_def s2_def s3_def d_def)
  then show ?thesis by blast
qed

lemma pong_example: "\<exists>t. fw_ping_probe pong_world 500 0 pong_dev = Some (0, t)"
  by (rule pong_answers) (simp_all add: superseded_def example_defs dx_dev_list_get_def)

text \<open>
  (C39) A successful liveness probe is genuine: the device acknowledged, and the reply in the mailbox
  carries the reply magic and the sequence number of this very probe, while the recovery that
  asked is still the current one.
\<close>

theorem ping_genuine:
  assumes "fw_ping_probe W ms ep s = Some (0, t)" "msg s = Some m"
  shows "readl (bar t) (m + 8) = 1 \<and>
    get32 0 (map (bar t) [m + 16..<m + 48]) = 0x504F4E47 \<and>
    get32 4 (map (bar t) [m + 16..<m + 48]) = ping_seq_gen s + 1 \<and> \<not> superseded ep t"
proof -
  obtain d u r where w: "while_before (w_env W) (test_pong m ep) (- ETIMEDOUT) d u = Some (r, t)" "r = 0"
    and g: "get32 0 (dx_memcpy_fromio32 (bar t) (m + 16) 32) = 0x504F4E47"
      "get32 4 (dx_memcpy_fromio32 (bar t) (m + 16) 32) = ping_seq_gen s + 1"
    using assms by (auto simp: fw_ping_probe_def Let_def split: option.splits if_splits)
  have "test_pong m ep t = Some 0" using while_before_verdict [OF w(1)] w(2) by simp
  then show ?thesis using g
    by (auto simp: test_pong_def ack_seen_def Let_def dx_memcpy_fromio32_eq add.commute split: if_splits)
qed

theorem ping_genuine_witness:
  "\<exists>t. fw_ping_probe pong_world 500 0 pong_dev = Some (0, t) \<and> readl (bar t) 0x7008 = 1 \<and> \<not> superseded 0 t"
proof -
  obtain t where t: "fw_ping_probe pong_world 500 0 pong_dev = Some (0, t)" using pong_example by blast
  moreover have "msg pong_dev = Some 28672" by (simp add: example_defs)
  ultimately have "readl (bar t) 0x7008 = 1 \<and> \<not> superseded 0 t" using ping_genuine [OF t, of 28672] by simp
  then show ?thesis using t by blast
qed

lemma ping_ok_current: "fw_ping_probe W ms ep s = Some (0, t) \<Longrightarrow> \<not> superseded ep t"
  using while_before_verdict
  by (fastforce simp: fw_ping_probe_def test_pong_def Let_def split: option.splits if_splits)

lemma ready_done_fields [simp]:
  "dev_state (ready_done s) = STATE_READY" "\<not> recovering (ready_done s)"
  "recovery_count (ready_done s) = recovery_count s + 1"
  "recovery_epoch (ready_done s) = recovery_epoch s" "sched (ready_done s) = sched s"
  "responses (ready_done s) = responses s" "dtype (ready_done s) = dtype s"
  by (simp_all add: ready_done_def Let_def)

lemma answering_worker:
  assumes "dev_state s = STATE_TRANSPORT_OK"
    and "dl s = None \<or> dx_dlmsg_mailbox_ready (dl s) (bar s)" "last_recovery_reason s < 3"
    and "fw_ping_probe W (w_ping_timeout_ms W) (recovery_epoch s) s = Some (0, t)"
  shows "\<exists>u. dxrt_recovery_ready_work_fn W s = Some u \<and> dev_state u = STATE_READY \<and>
    dxrt_dev_state_errno u = 0 \<and> \<not> recovering u \<and> recovery_count u = recovery_count t + 1 \<and>
    recovery_epoch u = recovery_epoch s"
proof -
  let ?ep = "recovery_epoch s"
  have n: "\<not> superseded ?ep t" using ping_ok_current [OF assms(4)] .
  have p: "ready_probe W ?ep False s = Some (ready_done t)"
    using assms(4) n by (simp add: ready_probe_def)
  have r: "last_recovery_reason s \<noteq> 3" "last_recovery_reason s \<noteq> 4" "last_recovery_reason s \<noteq> 5"
    using assms(3) by auto
  have "dx_dlmsg_wait_mailbox_ready (w_env W) (w_hz W) (dl s) (w_dlmsg_ready_timeout_ms W) s = Some (True, s)"
    if "dl s \<noteq> None"
    using that assms(2) by (auto simp: dx_dlmsg_wait_mailbox_ready_def ready_loop.simps)
  then have "dxrt_recovery_ready_work_fn W s = Some (ready_done t)"
    using assms(1) p r by (simp add: dxrt_recovery_ready_work_fn_def superseded_def Let_def)
  then show ?thesis using n by (simp add: dxrt_dev_state_errno_def superseded_def)
qed

text \<open>
  A firmware that is back brings the device back: in the transport-up state, when the firmware
  publishes its mailbox (or has no download area) after a link flap and answers the probe, the
  worker ends with the device ready, the clients admitted again and the success counted.
\<close>

theorem answering_firmware_recovers:
  assumes "dev_state s = STATE_TRANSPORT_OK"
    and "dl s = None \<or> dx_dlmsg_mailbox_ready (dl s) (bar s)" "last_recovery_reason s < 3"
    and "fw_ping_probe W (w_ping_timeout_ms W) (recovery_epoch s) s = Some (0, t)"
  shows "\<exists>u. dxrt_recovery_ready_work_fn W s = Some u \<and> dev_state u = STATE_READY \<and>
    dxrt_dev_state_errno u = 0 \<and> \<not> recovering u \<and> recovery_count u = recovery_count t + 1 \<and>
    recovery_epoch u = recovery_epoch s"
  using answering_worker [OF assms] .

theorem answering_firmware_recovers_witness:
  "\<exists>u. dxrt_recovery_ready_work_fn pong_world pong_dev = Some u \<and> dev_state u = STATE_READY"
proof -
  have e: "w_ping_timeout_ms pong_world = 500" "recovery_epoch pong_dev = 0" "dl pong_dev = None"
    "dev_state pong_dev = STATE_TRANSPORT_OK" "last_recovery_reason pong_dev < 3"
    by (simp_all add: example_world_def example_defs)
  obtain t where "fw_ping_probe pong_world 500 0 pong_dev = Some (0, t)" using pong_example by blast
  then show ?thesis using answering_firmware_recovers [of pong_dev pong_world t] e by fastforce
qed

end
