(* ===== verification/Dx_Command.thy ===== *)
theory Dx_Command
  imports Dx_Recovery
begin

text \<open>
  The commands of \<^verbatim>\<open>rt/dxrt_drv_message.c\<close> that talk to the firmware through the mailbox: the general
  exchange, identification, and the registration of scheduling options.  A handler yields its
  return value and the state it leaves; \<open>None\<close> stands for a call that does not come back, because
  it dereferences \<open>NULL\<close>, corrupts memory or sleeps forever.
\<close>

section \<open>The general exchange\<close>

abbreviation (input) DX_PCIE_CPU_RESET :: int where "DX_PCIE_CPU_RESET \<equiv> 5"

text \<open>The part under the message lock.  \<open>m\<close> is \<open>dev->msg\<close>.\<close>

definition msg_exchange :: "world \<Rightarrow> nat \<Rightarrow> dxrt_message \<Rightarrow> dxdev \<Rightarrow> int \<times> dxdev" where
  "msg_exchange W m u s =
     (let e = dxrt_dev_state_errno s in
      if e \<noteq> 0 then (e, s)
      else case dxrt_fw_mbox_blocked s of (blocked, s1) \<Rightarrow>
        if blocked then (- EBUSY, s1)
        else case (if 0 < m_size u \<and> m_size u < SIZEOF_MSG
                   then dxrt_copy_from_user_io (m + MSG_DATA) (m_data u) (unat (m_size u)) s1
                   else (0, s1)) of (c, s2) \<Rightarrow>
          if c \<noteq> 0 then (- EFAULT, s2)
          else
            let s3 = dx_pcie_notify_msg_to_device (w_env W) (s2\<lparr>bar := dxrt_msg_to_dev m u (bar s2)\<rparr>)
            in case dxrt_polling_ack W m s3 of (r, s4) \<Rightarrow>
              let n = readl (bar s4) (m + MSG_SIZE) in
              if 0 < n \<and> n < SIZEOF_MSG \<and> r = 0
              then dxrt_copy_to_user_io (m_data u) (m + MSG_DATA) (unat n) s4
              else (r, s4))"

definition dxrt_msg_general :: "world \<Rightarrow> dxrt_message \<Rightarrow> dxdev \<Rightarrow> int \<times> dxdev" where
  "dxrt_msg_general W u s =
     (case (if dtype s = DX_STD then (0, s)
            else case msg s of
              None \<Rightarrow> (0, s)
            | Some m \<Rightarrow> msg_exchange W m u (mutex_lock W s)) of (ret, t) \<Rightarrow>
        if ret = 0 \<and> m_cmd u = DXRT_CMD_PCIE \<and> m_sub_cmd u = DX_PCIE_CPU_RESET
        then (ret, dxrt_kick_cpu_reset_recovery t) else (ret, t))"

section \<open>Identification\<close>

definition get64 :: "nat \<Rightarrow> bytes \<Rightarrow> u64" where
  "get64 off bs = ucast (get32 off bs) OR push_bit 32 (ucast (get32 (off + 4) bs))"

definition put64 :: "nat \<Rightarrow> u64 \<Rightarrow> bytes \<Rightarrow> bytes" where
  "put64 off v bs = put32 (off + 4) (ucast (drop_bit 32 v)) (put32 off (ucast v) bs)"

definition put16 :: "nat \<Rightarrow> u16 \<Rightarrow> bytes \<Rightarrow> bytes" where
  "put16 off v bs = bs[off := ucast v, off + 1 := ucast (drop_bit 8 v)]"

text \<open>
  \<open>dxrt_device_info_t\<close>, 40 bytes: type 0, variant 4, mem_addr 8, mem_size 16, num_dma_ch 24,
  fw_ver 28, bd_rev 30, bd_type 32, ddr_freq 34, ddr_type 36, interface 38.  The local object
  starts out as whatever the stack holds.
\<close>

abbreviation (input) SIZEOF_INFO :: nat where "SIZEOF_INFO \<equiv> 40"

definition dev_info :: "world \<Rightarrow> dxdev \<Rightarrow> bytes" where
  "dev_info W s =
     put32 4 (variant s) (put32 0 (of_nat (dtype s)) (map (w_stack W) [0..<SIZEOF_INFO]))"

definition fixed_info :: "u64 \<Rightarrow> u64 \<Rightarrow> u32 \<Rightarrow> bytes \<Rightarrow> bytes" where
  "fixed_info addr sz ch info =
     put16 28 202 (put16 38 1 (put32 24 ch (put64 16 sz (put64 8 addr info))))"

definition set_window :: "bytes \<Rightarrow> dxdev \<Rightarrow> dxdev" where
  "set_window info s =
     s\<lparr>mem_addr := get64 8 info, mem_size := get64 16 info, num_dma_ch := get32 24 info\<rparr>"

definition info_to_user :: "dxrt_message \<Rightarrow> bytes \<Rightarrow> dxdev \<Rightarrow> int \<times> dxdev" where
  "info_to_user u info s =
     (case copy_to_user (m_data u) info s of (ok, t) \<Rightarrow> (if ok then 0 else - EFAULT, t))"

definition dxrt_identify_device :: "world \<Rightarrow> dxrt_message \<Rightarrow> dxdev \<Rightarrow> (int \<times> dxdev) option" where
  "dxrt_identify_device W u s =
     (if dtype s = DX_STD then w_std W u s
      else if m_sub_cmd u = 1 then
        (case dl s of
           None \<Rightarrow> None
         | Some d \<Rightarrow>
             case dx_get_flash_ready (w_env W) d 500000 s of (ready, s1) \<Rightarrow>
               if ready
               then let info = fixed_info 0xD3000000 0x200000 3 (dev_info W s)
                    in Some (info_to_user u info (set_window info s1))
               else Some (- ECOMM, s1))
      else case msg s of
        Some m \<Rightarrow>
          (case dxrt_msg_general W u s of (ret, s1) \<Rightarrow>
             if ret < 0 then Some (ret, s1)
             else case copy_from_user (m_data u) SIZEOF_INFO s1 of
               None \<Rightarrow> Some (- EFAULT, s1)
             | Some info \<Rightarrow> Some (ret, set_window info s1))
      | None \<Rightarrow>
          let info = fixed_info 0x01000000 0xFF000000 1 (dev_info W s)
          in Some (info_to_user u info (set_window info s)))"

section \<open>Scheduling options\<close>

definition disable_queue :: "nat \<Rightarrow> dxdev \<Rightarrow> dxdev" where
  "disable_queue q s =
     (case (if q = DX_NORMAL_QUEUE0 then request_queue s
            else if q = DX_NORMAL_QUEUE1 then request_queue1 s
            else if q = DX_NORMAL_QUEUE2 then request_queue2 s
            else if q = DX_HIGH_QUEUE then request_high_queue s else None) of
        None \<Rightarrow> s
      | Some a \<Rightarrow> s\<lparr>bar := dxrt_disable_queue a (bar s)\<rparr>)"

abbreviation (input) DX_SCHED_ADD :: int where "DX_SCHED_ADD \<equiv> 1"
abbreviation (input) DX_SCHED_DELETE :: int where "DX_SCHED_DELETE \<equiv> 2"
abbreviation (input) N_BOUND_INF_MAX :: u32 where "N_BOUND_INF_MAX \<equiv> 7"

text \<open>What the firmware is told: the binding and its queue.\<close>

definition sched_to_dev :: "world \<Rightarrow> dxrt_message \<Rightarrow> u32 \<Rightarrow> nat \<Rightarrow> dxdev \<Rightarrow> int \<times> dxdev" where
  "sched_to_dev W u b q s =
     (case msg s of
        None \<Rightarrow> (0, s)
      | Some m \<Rightarrow>
          case dxrt_fw_mbox_blocked (mutex_lock W s) of (blocked, s1) \<Rightarrow>
            if blocked then (- EBUSY, s1)
            else dxrt_polling_ack W m (dx_pcie_notify_msg_to_device (w_env W)
              (s1\<lparr>bar := writel (of_nat q) (m + MSG_DATA + 4) (writel b (m + MSG_DATA)
                 (dxrt_msg_to_dev m u (bar s1)))\<rparr>)))"

definition sched_add :: "world \<Rightarrow> dxrt_message \<Rightarrow> u32 \<Rightarrow> dxdev \<Rightarrow> int \<times> dxdev" where
  "sched_add W u b s =
     (case add_queue_from_sched_op (alloc_ok s) b (sched s) of (r, l) \<Rightarrow>
        let s1 = s\<lparr>sched := l\<rparr> in
        if r = - EEXIST then (0, s1)
        else if r \<noteq> 0 then (r, s1)
        else case get_queue_from_sched_op b l of
          (g, Some q) \<Rightarrow> if g = 0 then sched_to_dev W u b q s1 else (g, s1)
        | (g, None) \<Rightarrow> (g, s1))"

definition sched_delete :: "world \<Rightarrow> dxrt_message \<Rightarrow> u32 \<Rightarrow> dxdev \<Rightarrow> int \<times> dxdev" where
  "sched_delete W u b s =
     (case get_queue_from_sched_op b (sched s) of
        (g, Some q) \<Rightarrow>
          if g \<noteq> 0 then (g, s)
          else (case delete_matching_queue b (sched s) of (r, l) \<Rightarrow>
            let s1 = s\<lparr>sched := l\<rparr> in
            if r = - EBUSY then (0, s1)
            else if r \<noteq> 0 then (r, s1)
            else sched_to_dev W u b q (disable_queue q s1))
      | (g, None) \<Rightarrow> (g, s))"

definition dxrt_schedule :: "world \<Rightarrow> dxrt_message \<Rightarrow> dxdev \<Rightarrow> int \<times> dxdev" where
  "dxrt_schedule W u s =
     (if dtype s \<noteq> DX_ACC \<or> m_data u = 0 then (0, s)
      else case copy_from_user (m_data u) 4 s of
        None \<Rightarrow> (- EFAULT, s)
      | Some bs \<Rightarrow>
          let b = get32 0 bs in
          if N_BOUND_INF_MAX \<le> b then (- EINVAL, s)
          else if m_sub_cmd u = DX_SCHED_ADD then sched_add W u b s
          else if m_sub_cmd u = DX_SCHED_DELETE then sched_delete W u b s
          else (- EINVAL, s))"

section \<open>Lemmas\<close>

lemma length_put64 [simp]: "off + 8 \<le> length bs \<Longrightarrow> length (put64 off v bs) = length bs"
  by (simp add: put64_def)

lemma length_put16 [simp]: "length (put16 off v bs) = length bs"
  by (simp add: put16_def)

lemma split64 [simp]: "ucast (ucast v :: u32) OR push_bit 32 (ucast (ucast (drop_bit 32 v) :: u32)) = (v :: u64)"
  by (rule bit_word_eqI) (auto simp: bit_simps)

lemma get64_put64 [simp]: "off + 8 \<le> length bs \<Longrightarrow> get64 off (put64 off v bs) = v"
  by (simp add: get64_def put64_def get32_put32_other)

lemma get_put_other:
  "off' + 8 \<le> off \<or> off + 8 \<le> off' \<Longrightarrow> off + 8 \<le> length bs \<Longrightarrow> off' + 8 \<le> length bs \<Longrightarrow>
    get64 off' (put64 off v bs) = get64 off' bs"
  "off' + 8 \<le> off \<or> off + 4 \<le> off' \<Longrightarrow> off + 4 \<le> length bs \<Longrightarrow> off' + 8 \<le> length bs \<Longrightarrow>
    get64 off' (put32 off w bs) = get64 off' bs"
  "off' + 4 \<le> off \<or> off + 8 \<le> off' \<Longrightarrow> off + 8 \<le> length bs \<Longrightarrow> off' + 4 \<le> length bs \<Longrightarrow>
    get32 off' (put64 off v bs) = get32 off' bs"
  by (auto simp: get64_def put64_def get32_put32_other)

lemma mbox_blocked_frame [simp]:
  "bar (snd (dxrt_fw_mbox_blocked s)) = bar s" "umem (snd (dxrt_fw_mbox_blocked s)) = umem s"
  "sched (snd (dxrt_fw_mbox_blocked s)) = sched s" "alloc_ok (snd (dxrt_fw_mbox_blocked s)) = alloc_ok s"
  by (simp_all add: dxrt_fw_mbox_blocked_def)

lemma msg_to_dev_fields:
  "readl (dxrt_msg_to_dev m u b) m = word_of_int (m_cmd u)"
  "readl (dxrt_msg_to_dev m u b) (m + 4) = word_of_int (m_sub_cmd u)"
  "readl (dxrt_msg_to_dev m u b) (m + 8) = 0"
  "readl (dxrt_msg_to_dev m u b) (m + 12) = m_size u"
  by (simp_all add: dxrt_msg_to_dev_def readl_writel_other)

lemma msg_to_dev_other: "a < m \<or> m + 16 \<le> a \<Longrightarrow> dxrt_msg_to_dev m u b a = b a"
  by (auto simp: dxrt_msg_to_dev_def writel_other)

lemma msg_to_dev_data:
  "map (dxrt_msg_to_dev m u (mcopy (m + 16) bs b)) [m + 16..<m + 16 + length bs] = bs"
proof -
  have "map (dxrt_msg_to_dev m u (mcopy (m + 16) bs b)) [m + 16..<m + 16 + length bs] =
      map (mcopy (m + 16) bs b) [m + 16..<m + 16 + length bs]"
    by (rule map_cong) (simp_all add: msg_to_dev_other)
  then show ?thesis by (simp only: map_mcopy_same)
qed

text \<open>The state in which a command with its payload is announced to the firmware.\<close>

definition posted :: "nat \<Rightarrow> dxrt_message \<Rightarrow> bytes \<Rightarrow> dxdev \<Rightarrow> dxdev" where
  "posted m u bs t = t\<lparr>bar := dxrt_msg_to_dev m u (mcopy (m + 16) bs (bar t))\<rparr>"

section \<open>Properties\<close>

text \<open>
  The gate holds under the lock: a command that finds the device not ready, or the firmware's
  mailbox not published, returns the matching error and has written no byte of message RAM or
  of user memory, whatever happened while it waited for the lock.
\<close>

theorem mailbox_gate:
  assumes "msg s = Some m" "dtype s \<noteq> 1"
    and "dxrt_dev_state_errno (mutex_lock W s) \<noteq> 0 \<or> fst (dxrt_fw_mbox_blocked (mutex_lock W s))"
  shows "case dxrt_msg_general W u s of (ret, t) \<Rightarrow>
    ret = (if dxrt_dev_state_errno (mutex_lock W s) \<noteq> 0 then dxrt_dev_state_errno (mutex_lock W s) else - EBUSY) \<and>
    bar t = bar (mutex_lock W s) \<and> umem t = umem (mutex_lock W s)"
  using assms by (auto simp: dxrt_msg_general_def msg_exchange_def case_prod_beta Let_def)

theorem mailbox_gate_witness:
  "fst (dxrt_msg_general example_world \<lparr>m_cmd = 1, m_sub_cmd = 0, m_data = 0, m_size = 0\<rparr>
     (example_dev\<lparr>dev_state := STATE_FW_HANG\<rparr>)) = - EIO"
  using mailbox_gate [of "example_dev\<lparr>dev_state := STATE_FW_HANG\<rparr>" 28672 example_world
      "\<lparr>m_cmd = 1, m_sub_cmd = 0, m_data = 0, m_size = 0\<rparr>"]
  by (simp add: example_defs example_world_def mutex_lock_def yield_def dxrt_dev_state_errno_def case_prod_beta)

text \<open>
  (C8) An exchange is faithful in both directions: when the doorbell is rung the mailbox holds the
  caller's command, subcommand, size and every payload byte, with the acknowledgement cleared;
  and when the firmware acknowledges, the caller's buffer holds exactly the bytes the firmware
  left in the mailbox.
\<close>

theorem exchange_faithful:
  assumes "dxrt_dev_state_errno s = 0" "dxrt_fw_mbox_blocked s = (False, t)" "alloc_ok t"
    and "copy_from_user (m_data u) (unat (m_size u)) t = Some bs" "0 < m_size u" "m_size u < 4016"
    and "dxrt_polling_ack W m (dx_pcie_notify_msg_to_device (w_env W) (posted m u bs t)) = (0, v)"
    and "0 < readl (bar v) (m + 12)" "readl (bar v) (m + 12) < 4016" "alloc_ok v"
    and "fst (copy_to_user (m_data u) (map (bar v) [m + 16..<m + 16 + unat (readl (bar v) (m + 12))]) v)"
  shows "let req = posted m u bs t in
    map (bar req) [m + 16..<m + 16 + unat (m_size u)] = bs \<and> readl (bar req) m = word_of_int (m_cmd u) \<and>
    readl (bar req) (m + 4) = word_of_int (m_sub_cmd u) \<and> readl (bar req) (m + 8) = 0 \<and>
    readl (bar req) (m + 12) = m_size u \<and> fst (msg_exchange W m u s) = 0 \<and>
    copy_from_user (m_data u) (unat (readl (bar v) (m + 12))) (snd (msg_exchange W m u s)) =
      Some (map (bar v) [m + 16..<m + 16 + unat (readl (bar v) (m + 12))])"
proof -
  let ?out = "map (bar v) [m + 16..<m + 16 + unat (readl (bar v) (m + 12))]"
  have len: "length bs = unat (m_size u)" using copy_from_user_length [OF assms(4)] .
  have "dxrt_copy_from_user_io (m + 16) (m_data u) (unat (m_size u)) t = (0, t\<lparr>bar := mcopy (m + 16) bs (bar t)\<rparr>)"
    using assms(3,4) by (simp add: dxrt_copy_from_user_io_def from_user_io_loop_ok)
  then have x: "msg_exchange W m u s = dxrt_copy_to_user_io (m_data u) (m + 16) (unat (readl (bar v) (m + 12))) v"
    using assms by (simp add: msg_exchange_def posted_def Let_def)
  have "unat (readl (bar v) (m + 12)) \<le> 2 ^ 64"
    using assms(9) by (simp add: word_less_nat_alt)
  then have "copy_from_user (m_data u) (length ?out) (snd (copy_to_user (m_data u) ?out v)) = Some ?out"
    using assms(11) by (intro copy_user_roundtrip) simp_all
  then have "fst (msg_exchange W m u s) = 0 \<and>
      copy_from_user (m_data u) (unat (readl (bar v) (m + 12))) (snd (msg_exchange W m u s)) = Some ?out"
    using assms(10,11) by (simp add: x dxrt_copy_to_user_io_def to_user_io_loop_eq Let_def)
  then show ?thesis using msg_to_dev_data [of m u bs "bar t"] len by (simp add: posted_def msg_to_dev_fields)
qed

lemma reply_ack:
  assumes "readl ram (m + 8) = 1"
  shows "dxrt_polling_ack (W\<lparr>w_env := reply_env ram\<rparr>) m s = (0, yield (reply_env ram) s)"
proof -
  have y: "bar (yield (reply_env ram) s) = ram" by (simp add: yield_def reply_env_def)
  have "ack_loop (reply_env ram) m (Suc 999) s = (0, yield (reply_env ram) s)"
    unfolding ack_loop.simps using assms by (simp add: ack_seen_def y Let_def)
  then show ?thesis by (simp add: dxrt_polling_ack_def)
qed

lemma copy_to_user_writable:
  "\<forall>a. umem s a \<noteq> None \<Longrightarrow> fst (copy_to_user p bs s)"
  by (induction bs arbitrary: p s) (auto split: option.splits)

abbreviation (input) "user_ram \<equiv> (\<lambda>_. Some 7) :: u64 \<Rightarrow> u8 option"
abbreviation (input) "ask \<equiv> \<lparr>m_cmd = 1, m_sub_cmd = 0, m_data = 0x1000, m_size = 4\<rparr>"

theorem exchange_faithful_witness:
  "fst (msg_exchange pong_world 0x7000 ask (example_dev\<lparr>umem := user_ram, dl := None\<rparr>)) = 0"
proof -
  let ?s = "example_dev\<lparr>umem := user_ram, dl := None\<rparr>"
  let ?v = "yield pong_env (dx_pcie_notify_msg_to_device pong_env (posted 28672 ask [7, 7, 7, 7] ?s))"
  have d: "dx_dev_list_get (posted 28672 ask [7, 7, 7, 7] ?s)" "dx_ver (posted 28672 ask [7, 7, 7, 7] ?s) = 3"
    by (simp_all add: posted_def example_defs dx_dev_list_get_def)
  have v: "bar ?v = pong_ram" "umem ?v = user_ram" "alloc_ok ?v"
    unfolding reply_notify [OF d] by (simp_all add: yield_def reply_env_def posted_def example_defs)
  have "dxrt_dev_state_errno ?s = 0" "dxrt_fw_mbox_blocked ?s = (False, ?s)" "alloc_ok ?s"
    "copy_from_user 4096 4 ?s = Some [7, 7, 7, 7]"
    by (simp_all add: example_defs dxrt_dev_state_errno_def dxrt_fw_mbox_blocked_def copy_from_user_def upt_rec)
  then show ?thesis
    using exchange_faithful [of ?s ?s ask "[7, 7, 7, 7]" pong_world 28672 ?v] pong_ram_reads v
      copy_to_user_writable [of ?v] reply_ack [of pong_ram 28672 example_world "dx_pcie_notify_msg_to_device pong_env (posted 28672 ask [7, 7, 7, 7] ?s)"]
    by (simp add: Let_def)
qed

text \<open>
  The memory window that every later transfer is checked against is taken back from the caller's
  own buffer: when the firmware acknowledges an identification without sending a payload, the
  window is whatever the caller had put there.
\<close>

theorem identify_window_from_caller:
  "let W = example_world\<lparr>w_env := reply_env (writel 1 0x7008 (\<lambda>_. 0))\<rparr>;
       s = example_dev\<lparr>umem := (\<lambda>_. Some 7), dl := None\<rparr>
   in \<exists>t. dxrt_identify_device W \<lparr>m_cmd = 0, m_sub_cmd = 0, m_data = 0x1000, m_size = 0\<rparr> s = Some (0, t) \<and>
     mem_addr t = 0x0707070707070707 \<and> mem_size t = 0x0707070707070707"
proof -
  let ?ram = "writel 1 0x7008 (\<lambda>_. 0) :: mmio"
  let ?E = "reply_env ?ram"
  let ?W = "example_world\<lparr>w_env := ?E\<rparr>"
  let ?s = "example_dev\<lparr>umem := (\<lambda>_. Some 7), dl := None\<rparr>"
  let ?u = "\<lparr>m_cmd = 0, m_sub_cmd = 0, m_data = 0x1000, m_size = 0\<rparr>"
  have z: "readl (\<lambda>_. 0) a = 0" for a by (simp add: readl_def le32_def)
  have r: "readl ?ram 0x7008 = 1" "readl ?ram 0x700C = 0" by (simp_all add: readl_writel_other z)
  define s1 where "s1 = mutex_lock ?W ?s"
  define s3 where "s3 = dx_pcie_notify_msg_to_device ?E (s1\<lparr>bar := dxrt_msg_to_dev 0x7000 ?u (bar s1)\<rparr>)"
  define v where "v = yield ?E s3"
  have s1: "dxrt_dev_state_errno s1 = 0" "dxrt_fw_mbox_blocked s1 = (False, s1)" "dx_dev_list_get s1"
    "dx_ver s1 = 3" "umem s1 = (\<lambda>_. Some 7)"
    by (simp_all add: s1_def mutex_lock_def yield_def reply_env_def example_defs dxrt_dev_state_errno_def
        dxrt_fw_mbox_blocked_def dx_dev_list_get_def)
  have "umem s3 = (\<lambda>_. Some 7)" unfolding s3_def
    by (subst reply_notify) (use s1 in \<open>simp_all add: yield_def reply_env_def dx_dev_list_get_def\<close>)
  then have v: "umem v = (\<lambda>_. Some 7)" "bar v = ?ram" by (simp_all add: v_def yield_def reply_env_def)
  have x: "msg_exchange ?W 0x7000 ?u s1 = (0, v)"
    using s1 r v reply_ack [of ?ram 28672 example_world s3] unfolding msg_exchange_def
    by (simp add: Let_def v_def flip: s3_def)
  have "msg ?s = Some 0x7000" "dtype ?s = 0" by (simp_all add: example_defs)
  then have g: "dxrt_msg_general ?W ?u ?s = (0, v)" using x by (simp add: dxrt_msg_general_def flip: s1_def)
  define info :: bytes where "info = map (\<lambda>_. 7) [0..<40::nat]"
  have c: "copy_from_user 0x1000 40 v = Some info"
    using v(1) by (auto simp: copy_from_user_def info_def comp_def Let_def)
  have i: "get64 8 info = 0x0707070707070707" "get64 16 info = 0x0707070707070707"
    by (simp_all add: get64_def get32_def le32_def info_def)
  show ?thesis using g c i \<open>msg ?s = _\<close> \<open>dtype ?s = 0\<close>
    by (simp add: dxrt_identify_device_def set_window_def Let_def)
qed

lemma get_queue_append:
  "b \<notin> bound ` set l \<Longrightarrow> q < 3 \<Longrightarrow>
    get_queue_from_sched_op b (l @ [\<lparr>bound = b, queue = q, ref_cnt = 1\<rparr>]) = (0, Some q)"
  by (induction l) auto

lemma add_again: "b \<in> bound ` set (sched s) \<Longrightarrow> alloc_ok s \<Longrightarrow>
    fst (sched_add W u b s) = 0 \<and> bar (snd (sched_add W u b s)) = bar s \<and>
    notify (snd (sched_add W u b s)) = notify s"
  by (cases rule: add_cases [where b = b and l = "sched s"]) (simp_all add: sched_add_def Let_def)

text \<open>
  A registration that the mailbox refuses is remembered all the same: the caller sees \<open>EBUSY\<close>, the
  entry stays, and when the caller tries again the call succeeds without telling the firmware.
\<close>

theorem refused_registration_sticks:
  assumes "alloc_ok s" "b \<notin> bound ` set (sched s)" "msg s \<noteq> None"
    and "add_queue_from_sched_op True b (sched s) = (0, l)"
    and "fst (dxrt_fw_mbox_blocked (mutex_lock W (s\<lparr>sched := l\<rparr>)))"
    and "sched (mutex_lock W (s\<lparr>sched := l\<rparr>)) = l" "alloc_ok (mutex_lock W (s\<lparr>sched := l\<rparr>))"
  shows "case sched_add W u b s of (r, t) \<Rightarrow> r = - EBUSY \<and> b \<in> bound ` set (sched t) \<and>
    fst (sched_add W u b t) = 0 \<and> bar (snd (sched_add W u b t)) = bar t \<and>
    notify (snd (sched_add W u b t)) = notify t"
proof -
  obtain q where l: "l = sched s @ [\<lparr>bound = b, queue = q, ref_cnt = 1\<rparr>]" "q < 3"
    using assms(2,4) by (cases rule: add_cases [where b = b and l = "sched s"]) auto
  let ?t = "snd (dxrt_fw_mbox_blocked (mutex_lock W (s\<lparr>sched := l\<rparr>)))"
  have "sched_add W u b s = (- EBUSY, ?t)"
    using assms get_queue_append [OF assms(2) l(2)] l
    by (auto simp: sched_add_def sched_to_dev_def case_prod_beta Let_def)
  then show ?thesis using add_again [of b ?t W u] assms(6,7) l by simp
qed

theorem refused_registration_sticks_witness:
  "fst (sched_add example_world ask 1 (example_dev\<lparr>dlmsg_contract_seen := True\<rparr>)) = - EBUSY"
  using refused_registration_sticks [of "example_dev\<lparr>dlmsg_contract_seen := True\<rparr>" 1
      "[\<lparr>bound = 1, queue = 0, ref_cnt = 1\<rparr>]" example_world ask]
  by (simp add: example_defs example_world_def mutex_lock_def yield_def dxrt_fw_mbox_blocked_def
      dx_dlmsg_mailbox_ready_def readb_def add_queue_from_sched_op_def case_prod_beta)

end
