(* ===== verification/Dx_Memory.thy ===== *)
theory Dx_Memory
  imports Dx_Command
begin

text \<open>
  Direct transfers between user memory and the device's memory window (\<open>dxrt_write_mem\<close>,
  \<open>dxrt_read_mem\<close>, \<open>dxrt_cpu_cache_flush\<close> of \<^verbatim>\<open>rt/dxrt_drv_message.c\<close>): the descriptor read from the
  user, the address check in 64-bit arithmetic, and the hand-over to the DMA engine.
\<close>

section \<open>Descriptor and address check\<close>

text \<open>\<open>dxrt_meminfo_t\<close> is 24 bytes, \<open>dxrt_req_meminfo_t\<close> adds the channel and padding.\<close>

record dxrt_req_meminfo =
  i_data :: u64
  i_base :: u64
  i_offset :: u32
  i_size :: u32
  i_ch :: u32

definition meminfo_of :: "bytes \<Rightarrow> dxrt_req_meminfo" where
  "meminfo_of bs = \<lparr>i_data = get64 0 bs, i_base = get64 8 bs, i_offset = get32 16 bs,
     i_size = get32 20 bs, i_ch = get32 24 bs\<rparr>"

text \<open>\<open>base + offset < low || base + offset + size > mem_addr + mem_size\<close>.\<close>

definition outside :: "u64 \<Rightarrow> dxrt_req_meminfo \<Rightarrow> dxdev \<Rightarrow> bool" where
  "outside low i s \<longleftrightarrow>
     i_base i + ucast (i_offset i) < low \<or>
     mem_addr s + mem_size s < i_base i + ucast (i_offset i) + ucast (i_size i)"

section \<open>Handlers\<close>

definition dxrt_write_mem :: "world \<Rightarrow> dxrt_message \<Rightarrow> dxdev \<Rightarrow> int \<times> dxdev" where
  "dxrt_write_mem W u s =
     (if recovering s then (- EBUSY, s)
      else if m_data u = 0 then (0, s)
      else case copy_from_user (m_data u) 32 s of
        None \<Rightarrow> (- EFAULT, s)
      | Some bs \<Rightarrow>
          let i = meminfo_of bs in
          if 3 < i_ch i then (- EINVAL, s)
          else if outside (mem_addr s) i s \<and> \<not> w_skip_addr_check W then (- EINVAL, s)
          else if i_data i = 0 then (0, s)
          else case w_sgdma_write W (i_data i) (i_base i + ucast (i_offset i)) (i_size i) (uint (i_ch i)) s of
            (n, t) \<Rightarrow> (if n \<noteq> uint (i_size i) then - ECOMM else 0, t))"

text \<open>Reading may start one mebibyte below the window.\<close>

definition dxrt_read_mem :: "world \<Rightarrow> dxrt_message \<Rightarrow> dxdev \<Rightarrow> (int \<times> dxdev) option" where
  "dxrt_read_mem W u s =
     (if recovering s then Some (- EBUSY, s)
      else if m_data u = 0 then Some (0, s)
      else case copy_from_user (m_data u) 32 s of
        None \<Rightarrow> Some (- EFAULT, s)
      | Some bs \<Rightarrow>
          let i = meminfo_of bs in
          if 3 < i_ch i then Some (- EINVAL, s)
          else if outside (mem_addr s - 0x100000) i s \<and> \<not> w_skip_addr_check W then Some (- EINVAL, s)
          else if dtype s = DX_STD then w_std W u s
          else if i_data i = 0 then Some (0, s)
          else case w_sgdma_read W (i_data i) (i_base i + ucast (i_offset i)) (i_size i) (uint (i_ch i)) s of
            (n, t) \<Rightarrow> Some (if n \<noteq> uint (i_size i) then - ECOMM else 0, t))"

definition dxrt_cpu_cache_flush :: "dxrt_message \<Rightarrow> dxdev \<Rightarrow> int" where
  "dxrt_cpu_cache_flush u s =
     (if m_data u = 0 then 0
      else case copy_from_user (m_data u) 24 s of
        None \<Rightarrow> - EFAULT
      | Some bs \<Rightarrow> if outside (mem_addr s) (meminfo_of bs) s then - EINVAL else 0)"

section \<open>What the check guarantees\<close>

text \<open>The transfer as the caller describes it, in unbounded arithmetic.\<close>

definition req_first :: "dxrt_req_meminfo \<Rightarrow> int" where
  "req_first i = uint (i_base i) + uint (i_offset i)"

definition req_end :: "dxrt_req_meminfo \<Rightarrow> int" where
  "req_end i = req_first i + uint (i_size i)"

definition inside_window :: "dxrt_req_meminfo \<Rightarrow> dxdev \<Rightarrow> bool" where
  "inside_window i s \<longleftrightarrow> uint (mem_addr s) \<le> req_first i \<and> req_end i \<le> uint (mem_addr s) + uint (mem_size s)"

lemma uint_ucast_32_64: "uint (ucast (w :: u32) :: u64) = uint w"
proof -
  have "uint w < 2 ^ LENGTH(32)" by (rule unsigned_less)
  then show ?thesis by (simp add: unsigned_ucast_eq unsigned_take_bit_eq take_bit_int_eq_self_iff)
qed

lemma add_exact64: "uint (a :: u64) + uint (b :: u64) < 2 ^ 64 \<Longrightarrow> uint (a + b) = uint a + uint b"
  by (rule uint_add_lem [THEN iffD1]) simp

lemma req_exact:
  assumes "req_end i < 2 ^ 64"
  shows "uint (i_base i + ucast (i_offset i)) = req_first i"
    "uint (i_base i + ucast (i_offset i) + ucast (i_size i)) = req_end i"
proof -
  have "0 \<le> uint (i_size i)" by simp
  then have f: "uint (i_base i) + uint (ucast (i_offset i) :: u64) < 2 ^ 64"
    using assms unfolding req_end_def req_first_def uint_ucast_32_64 by linarith
  then show e: "uint (i_base i + ucast (i_offset i)) = req_first i"
    using add_exact64 by (simp add: req_first_def uint_ucast_32_64)
  show "uint (i_base i + ucast (i_offset i) + ucast (i_size i)) = req_end i"
    using assms add_exact64 [of "i_base i + ucast (i_offset i)" "ucast (i_size i)"]
    by (simp add: e uint_ucast_32_64 req_end_def)
qed

lemma outside_exact:
  assumes "req_end i < 2 ^ 64" "uint (mem_addr s) + uint (mem_size s) < 2 ^ 64"
  shows "outside (mem_addr s) i s \<longleftrightarrow> \<not> inside_window i s"
  using req_exact [OF assms(1)] add_exact64 [OF assms(2)]
  by (auto simp: outside_def inside_window_def word_less_def)

text \<open>A descriptor, and a user memory that holds some bytes at address 4096.\<close>

definition descriptor :: "u64 \<Rightarrow> u32 \<Rightarrow> u32 \<Rightarrow> bytes" where
  "descriptor base sz ch = put32 24 ch (put32 20 sz (put64 8 base (put64 0 0x2000 (replicate 32 0))))"

lemma descriptor_fields:
  "length (descriptor base sz ch) = 32"
  "meminfo_of (descriptor base sz ch) =
     \<lparr>i_data = 0x2000, i_base = base, i_offset = 0, i_size = sz, i_ch = ch\<rparr>"
  by (simp_all add: meminfo_of_def descriptor_def get_put_other get32_put32_other get32_def [of _ "replicate _ _"]
      le32_def)

definition user_at :: "bytes \<Rightarrow> u64 \<Rightarrow> u8 option" where
  "user_at bs a = (if unat (a - 0x1000) < length bs then Some (bs ! unat (a - 0x1000)) else None)"

lemma user_at_read:
  assumes "length bs < 2 ^ 32"
  shows "copy_from_user 0x1000 (length bs) (s\<lparr>umem := user_at bs\<rparr>) = Some bs"
proof -
  have "unat (of_nat i :: u64) = i" if "i < length bs" for i
    using that assms by (simp add: unsigned_of_nat take_bit_nat_eq_self)
  then have "map (\<lambda>i. user_at bs (0x1000 + of_nat i)) [0..<length bs] = map Some bs"
    by (intro nth_equalityI) (simp_all add: user_at_def)
  then show ?thesis by (auto simp: copy_from_user_def comp_def)
qed

section \<open>Properties\<close>

text \<open>
  (C9) Direct writes stay in the window.  For a request whose end does not exceed the 64-bit address
  space, a write reaches the DMA engine only if every byte lies in the window, and then with
  exactly the requested address, length and channel; otherwise it is refused and nothing changes.
  A short transfer is reported as \<open>ECOMM\<close>.
\<close>

theorem write_mem_confined:
  assumes "req_end i < 2 ^ 64" "uint (mem_addr s) + uint (mem_size s) < 2 ^ 64" "\<not> w_skip_addr_check W"
    and "m_data u \<noteq> 0" "copy_from_user (m_data u) 32 s = Some bs" "i = meminfo_of bs"
  shows "dxrt_write_mem W u s =
    (if recovering s then (- EBUSY, s)
     else if 3 < i_ch i \<or> \<not> inside_window i s then (- EINVAL, s)
     else if i_data i = 0 then (0, s)
     else case w_sgdma_write W (i_data i) (word_of_int (req_first i)) (i_size i) (uint (i_ch i)) s of
       (n, t) \<Rightarrow> (if n = uint (i_size i) then 0 else - ECOMM, t))"
proof -
  have "i_base i + ucast (i_offset i) = word_of_int (req_first i)"
    using req_exact(1) [OF assms(1)] by (metis word_of_int_uint)
  then show ?thesis using assms outside_exact [OF assms(1,2)]
    by (auto simp: dxrt_write_mem_def Let_def case_prod_beta)
qed

theorem write_mem_confined_witness:
  "fst (dxrt_write_mem example_world ask
     (example_dev\<lparr>umem := user_at (descriptor 0x1000000 0x100 0)\<rparr>)) = 0 \<and>
   fst (dxrt_write_mem example_world ask
     (example_dev\<lparr>umem := user_at (descriptor 0x0FFFFFF 0x100 0)\<rparr>)) = - EINVAL"
proof -
  let ?s = "\<lambda>b. example_dev\<lparr>umem := user_at (descriptor b 0x100 0)\<rparr>"
  have c: "copy_from_user 0x1000 32 (?s b) = Some (descriptor b 0x100 0)" for b
    using user_at_read [of "descriptor b 0x100 0" example_dev] by (simp add: descriptor_fields)
  have w: "uint (mem_addr (?s b)) + uint (mem_size (?s b)) < 2 ^ 64" "\<not> recovering (?s b)" "mem_addr (?s b) = 0x1000000"
    "mem_size (?s b) = 0xFF000000" for b
    by (simp_all add: example_defs)
  show ?thesis
    using write_mem_confined [of _ "?s 0x1000000" example_world ask, OF _ w(1) _ _ _ refl]
      write_mem_confined [of _ "?s 0x0FFFFFF" example_world ask, OF _ w(1) _ _ _ refl] w c
    by (simp add: descriptor_fields req_end_def req_first_def inside_window_def example_world_def)
qed

text \<open>
  The sum in the address check wraps: a request that starts in the last page of the address
  space and runs over its end passes the check of every window that ends between the first and
  the last page, although it starts past the end of the window.
\<close>

theorem wrapping_request_passes:
  assumes "0x1000 \<le> uint (mem_addr s) + uint (mem_size s)"
    and "uint (mem_addr s) + uint (mem_size s) \<le> 0xFFFFFFFFFFFFF000"
  shows "let i = \<lparr>i_data = p, i_base = 0xFFFFFFFFFFFFF000, i_offset = 0, i_size = 0x2000, i_ch = 0\<rparr> in
    \<not> outside (mem_addr s) i s \<and> uint (mem_addr s) + uint (mem_size s) \<le> req_first i \<and> \<not> inside_window i s"
proof -
  have w: "uint (mem_addr s + mem_size s) = uint (mem_addr s) + uint (mem_size s)"
    using assms(2) by (intro add_exact64) simp
  have "0 \<le> uint (mem_size s)" by simp
  then have "uint (mem_addr s) \<le> 0xFFFFFFFFFFFFF000" using assms(2) by linarith
  then have a: "mem_addr s \<le> 0xFFFFFFFFFFFFF000" by (simp add: word_le_def)
  have e: "(0x10000000000001000 :: u64) = 0x1000" by simp
  have "(0x1000 :: u64) \<le> mem_addr s + mem_size s" using assms(1) w by (simp add: word_le_def)
  then show ?thesis using assms(2) a
    by (simp add: outside_def inside_window_def req_end_def req_first_def not_less e Let_def)
qed

theorem wrapping_request_passes_witness:
  "\<not> outside (mem_addr example_dev)
     \<lparr>i_data = 1, i_base = 0xFFFFFFFFFFFFF000, i_offset = 0, i_size = 0x2000, i_ch = 0\<rparr> example_dev"
  using wrapping_request_passes [of example_dev 1] by (simp add: example_defs Let_def)

end
