(* ===== verification/Dx_Inference.thy ===== *)
theory Dx_Inference
  imports Dx_Memory
begin

text \<open>
  The inference path of \<^verbatim>\<open>rt/dxrt_drv_message.c\<close>: submitting a request through the queue of its
  scheduling option, and waiting for a response on a channel, with termination and recovery
  breaking the wait.
\<close>

section \<open>Submitting\<close>

text \<open>
  \<open>dxrt_request_acc_t\<close> is 120 bytes: input.data 8, input.base 16, input.offset 24, input.size 28,
  dma_ch 84, bound 112, queue 116.  The queue copies as many bytes as its header says, past the
  request into the stack if the header says so.
\<close>

abbreviation (input) SIZEOF_REQ :: nat where "SIZEOF_REQ \<equiv> 120"
abbreviation (input) ERR_PCIE_DMA_CH0_FAIL :: u32 where "ERR_PCIE_DMA_CH0_FAIL \<equiv> 100"

definition req_elem :: "world \<Rightarrow> bytes \<Rightarrow> nat \<Rightarrow> u8" where
  "req_elem W req i = (if i < length req then req ! i else w_stack W i)"

text \<open>A queue pointer that is \<open>NULL\<close> is dereferenced.\<close>

definition dxrt_npu_run_requset_acc ::
  "world \<Rightarrow> bytes \<Rightarrow> iomem \<Rightarrow> nat \<Rightarrow> dxdev \<Rightarrow> (int \<times> dxdev) option" where
  "dxrt_npu_run_requset_acc W req qp q_num s =
     (if recovering s then Some (- EBUSY, s)
      else case qp of
        None \<Rightarrow> None
      | Some q \<Rightarrow>
          let s1 = mutex_lock W s in
          if dxrt_is_queue_full q (bar s1) then Some (- EBUSY, s1)
          else case dxrt_lock_queue q (bar s1) of (locked, b2) \<Rightarrow>
            if locked = 0 then Some (locked, s1\<lparr>bar := b2\<rparr>)
            else
              let s3 = snd (dx_pcie_notify_req_to_device q_num True (s1\<lparr>bar := b2\<rparr>))
              in case dxrt_lock_check (w_env W) q s3 of (granted, s4) \<Rightarrow>
                if granted = 0 then Some (- EINVAL, s4)
                else case dxrt_enqueue q (req_elem W req) (bar s4) of
                  None \<Rightarrow> None
                | Some (ret, b5) \<Rightarrow>
                    let s6 = snd (dx_pcie_notify_req_to_device q_num False
                                (s4\<lparr>bar := dxrt_unlock_queue q b5\<rparr>))
                    in case dxrt_enqueue_irq_done (w_env W) q s6 of (d, s7) \<Rightarrow>
                      Some (if d \<noteq> 0 then - EINVAL else ret, s7))"

definition dxrt_write_req_to_dev_acc ::
  "world \<Rightarrow> bytes \<Rightarrow> iomem \<Rightarrow> nat \<Rightarrow> dxdev \<Rightarrow> (int \<times> dxdev) option" where
  "dxrt_write_req_to_dev_acc W req qp q_num s =
     (if get64 8 req = 0 then dxrt_npu_run_requset_acc W req qp q_num s
      else case w_sgdma_write W (get64 8 req) (get64 16 req + ucast (get32 24 req)) (get32 28 req)
                  (sint (get32 84 req)) s of (n, t) \<Rightarrow>
        if n \<noteq> uint (get32 28 req)
        then Some (- ECOMM, dx_pcie_enqueue_event_response (ERR_PCIE_DMA_CH0_FAIL + get32 84 req) t)
        else dxrt_npu_run_requset_acc W req qp q_num t)"

definition queue_pointer :: "nat \<Rightarrow> dxdev \<Rightarrow> iomem" where
  "queue_pointer q s =
     (if q = DX_NORMAL_QUEUE0 then request_queue s
      else if q = DX_NORMAL_QUEUE1 then request_queue1 s
      else if q = DX_NORMAL_QUEUE2 then request_queue2 s
      else request_high_queue s)"

text \<open>
  What \<open>dxrt_write_input\<close> and \<open>dxrt_npu_run_request\<close> share: find the queue of the request's option,
  store it in the request and submit.
\<close>

definition submit ::
  "(bytes \<Rightarrow> iomem \<Rightarrow> nat \<Rightarrow> dxdev \<Rightarrow> (int \<times> dxdev) option) \<Rightarrow> dxrt_message \<Rightarrow> dxdev \<Rightarrow> (int \<times> dxdev) option" where
  "submit go u s =
     (if m_data u = 0 then Some (- 1, s)
      else case copy_from_user (m_data u) SIZEOF_REQ s of
        None \<Rightarrow> Some (- EFAULT, s)
      | Some req \<Rightarrow>
          case get_queue_from_sched_op (get32 112 req) (sched s) of
            (r, None) \<Rightarrow> Some (r, s)
          | (r, Some q) \<Rightarrow>
              if r \<noteq> 0 then Some (r, s)
              else if DX_HIGH_QUEUE < q then Some (- EINVAL, s)
              else go (put32 116 (of_nat q) req) (queue_pointer q s) q s)"

definition dxrt_write_input :: "world \<Rightarrow> dxrt_message \<Rightarrow> dxdev \<Rightarrow> (int \<times> dxdev) option" where
  "dxrt_write_input W u s =
     (if dtype s = DX_ACC then submit (dxrt_write_req_to_dev_acc W) u s else w_std W u s)"

definition dxrt_npu_run_request :: "world \<Rightarrow> dxrt_message \<Rightarrow> dxdev \<Rightarrow> (int \<times> dxdev) option" where
  "dxrt_npu_run_request W u s =
     (if dtype s = DX_ACC then submit (dxrt_npu_run_requset_acc W) u s else Some (- 1, s))"

section \<open>Waiting for responses\<close>

text \<open>
  \<open>dxrt_response_t\<close>, 40 bytes: the fields of the device's record in another order, the model type
  widened to 16 bits, without the DMA descriptor.
\<close>

definition user_response :: "bytes \<Rightarrow> bytes" where
  "user_response b =
     put32 36 (get32 56 b) (put32 32 (get32 60 b) (put32s 12 (map (\<lambda>i. get32 (12 + 4 * i) b) [0..<5])
       ((put32s 0 [get32 0 b, get32 4 b] (replicate 40 0))[8 := b ! 8, 9 := b ! 9, 10 := b ! 10, 11 := 0])))"

definition dxrt_copy_resp_to_user_acc :: "dxrt_message \<Rightarrow> bytes \<Rightarrow> dxdev \<Rightarrow> int \<times> dxdev" where
  "dxrt_copy_resp_to_user_acc u b s =
     (case copy_to_user (m_data u) (user_response b) s of (ok, t) \<Rightarrow> (if ok then 0 else - EFAULT, t))"

text \<open>\<open>atomic_dec_if_positive\<close> on the channel's credits.\<close>

definition take_credit :: "nat \<Rightarrow> dxdev \<Rightarrow> dxdev" where
  "take_credit ch s =
     (if 0 < response_pending s ch
      then s\<lparr>response_pending := (response_pending s)(ch := response_pending s ch - 1)\<rparr> else s)"

definition resp_cond :: "nat \<Rightarrow> dxdev \<Rightarrow> bool" where
  "resp_cond ch s \<longleftrightarrow>
     0 < response_pending s ch \<or> recovering s \<or> dxrt_dev_state_errno s \<noteq> 0 \<or> terminating s"

text \<open>The \<open>retry\<close> loop of version 1, which waits only when there is no credit, \<dots>\<close>

partial_function (option) retry_v1 ::
  "world \<Rightarrow> nat \<Rightarrow> dxdev \<Rightarrow> (int \<times> bytes option \<times> dxdev) option" where
  "retry_v1 W ch s =
     (if dxrt_dev_state_errno s \<noteq> 0 then Some (dxrt_dev_state_errno s, None, s)
      else case (if response_pending s ch = 0 then wait_event (w_env W) (resp_cond ch) s else Some (0, s)) of
        None \<Rightarrow> None
      | Some (r, s1) \<Rightarrow>
          if r = - ERESTARTSYS then Some (- ERESTARTSYS, None, s1)
          else if terminating s1 then Some (- ECANCELED, None, s1)
          else if response_pending s ch = 0 \<and> dxrt_dev_state_errno s1 \<noteq> 0
          then Some (dxrt_dev_state_errno s1, None, s1)
          else case dx_pcie_dequeue_response ch s1 of
            (e, Some b, s2) \<Rightarrow> Some (0, Some b, take_credit ch s2)
          | (e, None, s2) \<Rightarrow> retry_v1 W ch (take_credit ch s2))"

text \<open>\<open>\<dots>\<close> and the one of version 2 and of \<open>dxrt_read_output\<close>.\<close>

partial_function (option) retry_v2 ::
  "world \<Rightarrow> nat \<Rightarrow> dxdev \<Rightarrow> (int \<times> bytes option \<times> dxdev) option" where
  "retry_v2 W ch s =
     (if dxrt_dev_state_errno s \<noteq> 0 then Some (dxrt_dev_state_errno s, None, s)
      else case wait_event (w_env W) (resp_cond ch) s of
        None \<Rightarrow> None
      | Some (r, s1) \<Rightarrow>
          if r = - ERESTARTSYS then Some (- ERESTARTSYS, None, s1)
          else if terminating s1 then Some (- ECANCELED, None, s1)
          else if dxrt_dev_state_errno s1 \<noteq> 0 then Some (dxrt_dev_state_errno s1, None, s1)
          else case dx_pcie_dequeue_response ch s1 of
            (e, Some b, s2) \<Rightarrow> Some (0, Some b, take_credit ch s2)
          | (e, None, s2) \<Rightarrow> retry_v2 W ch (take_credit ch s2))"

text \<open>The channel number comes from the user.  \<open>fin\<close> is what is done with a response.\<close>

definition await_response ::
  "(nat \<Rightarrow> dxdev \<Rightarrow> (int \<times> bytes option \<times> dxdev) option) \<Rightarrow> (nat \<Rightarrow> bytes \<Rightarrow> dxdev \<Rightarrow> int \<times> dxdev) \<Rightarrow>
   dxrt_message \<Rightarrow> dxdev \<Rightarrow> (int \<times> dxdev) option" where
  "await_response retry fin u s =
     (if m_data u = 0 then Some (- 1, s)
      else case copy_from_user (m_data u) 4 s of
        None \<Rightarrow> Some (- EFAULT, s)
      | Some c \<Rightarrow>
          if 3 \<le> get32 0 c then Some (- EINVAL, s)
          else if terminating s then Some (- ECANCELED, s)
          else let ch = unat (get32 0 c) in
            case retry ch s of
              None \<Rightarrow> None
            | Some (r, None, t) \<Rightarrow> Some (r, t)
            | Some (r, Some b, t) \<Rightarrow> Some (fin ch b t))"

definition dxrt_npu_run_response_v1 :: "world \<Rightarrow> dxrt_message \<Rightarrow> dxdev \<Rightarrow> (int \<times> dxdev) option" where
  "dxrt_npu_run_response_v1 W u s =
     (if dtype s = DX_ACC
      then await_response (retry_v1 W) (\<lambda>ch. dxrt_copy_resp_to_user_acc u) u s else Some (- 1, s))"

definition dxrt_npu_run_response_v2 :: "world \<Rightarrow> dxrt_message \<Rightarrow> dxdev \<Rightarrow> (int \<times> dxdev) option" where
  "dxrt_npu_run_response_v2 W u s =
     (if dtype s = DX_ACC
      then await_response (retry_v2 W) (\<lambda>ch. dxrt_copy_resp_to_user_acc u) u s else Some (- 1, s))"

text \<open>\<open>dxrt_read_output\<close> also fetches the output data that the response describes.\<close>

definition fetch_output :: "world \<Rightarrow> dxrt_message \<Rightarrow> nat \<Rightarrow> bytes \<Rightarrow> dxdev \<Rightarrow> int \<times> dxdev" where
  "fetch_output W u ch b s =
     (if get32 0 b = 0 then (0, s)
      else if b ! 10 = 0 \<or> b ! 10 = 2 then
        case w_sgdma_read W (get64 32 b) (get64 40 b + ucast (get32 48 b)) (get32 52 b) (int ch) s of (n, t) \<Rightarrow>
          if n \<noteq> uint (get32 52 b)
          then (- ECOMM, dx_pcie_enqueue_event_response (ERR_PCIE_DMA_CH0_FAIL + of_nat ch) t)
          else dxrt_copy_resp_to_user_acc u b t
      else dxrt_copy_resp_to_user_acc u b s)"

definition dxrt_read_output :: "world \<Rightarrow> dxrt_message \<Rightarrow> dxdev \<Rightarrow> (int \<times> dxdev) option" where
  "dxrt_read_output W u s =
     (if dtype s = DX_ACC then await_response (retry_v2 W) (fetch_output W u) u s else w_std W u s)"

section \<open>Ending a wait\<close>

definition dxrt_terminate_event :: "world \<Rightarrow> dxrt_message \<Rightarrow> dxdev \<Rightarrow> (int \<times> dxdev) option" where
  "dxrt_terminate_event W u s =
     (if dtype s = DX_ACC then Some (dx_pcie_interrupt_event_wakeup s) else w_std W u s)"

definition dxrt_terminate :: "world \<Rightarrow> dxrt_message \<Rightarrow> dxdev \<Rightarrow> (int \<times> dxdev) option" where
  "dxrt_terminate W u s =
     (if dtype s \<noteq> DX_ACC then w_std W u s
      else if m_data u = 0 then Some (0, s)
      else case copy_from_user (m_data u) 4 s of
        None \<Rightarrow> Some (- EFAULT, s)
      | Some c \<Rightarrow>
          if 3 < get32 0 c then Some (- EINVAL, s)
          else Some (dx_pcie_interrupt_wakeup (unat (get32 0 c)) s))"

section \<open>Lemmas\<close>

lemma notify_req_bar [simp]: "bar (snd (dx_pcie_notify_req_to_device q l s)) = bar s"
  by (simp add: dx_pcie_notify_req_to_device_def split: option.split)

lemma wait_cases:
  assumes "wait_event E c s = Some (r, t)"
  obtains (woken) "r = 0" "c t" | (signal) "r = - ERESTARTSYS" "\<not> c t" "sigpend t"
  using wait_event_Some [OF assms] by blast

text \<open>What a wait for a response may end with.\<close>

definition response_outcome :: "nat \<Rightarrow> int \<Rightarrow> bytes option \<Rightarrow> dxdev \<Rightarrow> bool" where
  "response_outcome ch r b t \<longleftrightarrow>
     (\<exists>x u c. r = 0 \<and> b = Some x \<and> dxrt_dev_state_errno u = 0 \<and> \<not> terminating u \<and>
        resp_pop (responses u ch) = (Some x, c) \<and> t = take_credit ch (u\<lparr>responses := (responses u)(ch := c)\<rparr>)) \<or>
     (b = None \<and> ((r = dxrt_dev_state_errno t \<and> r \<noteq> 0) \<or> (r = - ERESTARTSYS \<and> sigpend t) \<or>
        (r = - ECANCELED \<and> terminating t)))"

lemma dequeue_outcome:
  assumes "dx_pcie_dequeue_response ch u = (e, Some b, v)" "dxrt_dev_state_errno u = 0" "\<not> terminating u"
  shows "response_outcome ch 0 (Some b) (take_credit ch v)"
proof -
  obtain c where "resp_pop (responses u ch) = (Some b, c)" "v = u\<lparr>responses := (responses u)(ch := c)\<rparr>"
    using assms(1) by (auto simp: dx_pcie_dequeue_response_def split: if_splits prod.splits option.splits)
  then show ?thesis using assms(2,3) unfolding response_outcome_def by blast
qed

lemma outcome_errno: "dxrt_dev_state_errno t \<noteq> 0 \<Longrightarrow> response_outcome ch (dxrt_dev_state_errno t) None t"
  and outcome_signal: "sigpend t \<Longrightarrow> response_outcome ch (- ERESTARTSYS) None t"
  and outcome_cancel: "terminating t \<Longrightarrow> response_outcome ch (- ECANCELED) None t"
  by (simp_all add: response_outcome_def)

lemmas response_intros = outcome_errno outcome_signal outcome_cancel dequeue_outcome

lemma retry_v2_outcome:
  assumes "retry_v2 W ch s = Some (r, b, t)"
  shows "response_outcome ch r b t"
proof -
  have "case (r, b, t) of (r, b, t) \<Rightarrow> response_outcome ch r b t"
  proof (rule retry_v2.raw_induct [where P = "\<lambda>W ch s p. case p of (r, b, t) \<Rightarrow> response_outcome ch r b t", OF _ assms])
    fix rec W ch s y
    assume IH: "\<And>W ch s y. rec W ch s = Some y \<Longrightarrow> case y of (r, b, t) \<Rightarrow> response_outcome ch r b t"
      and e: "(if dxrt_dev_state_errno s \<noteq> 0 then Some (dxrt_dev_state_errno s, None, s)
        else case wait_event (w_env W) (resp_cond ch) s of
          None \<Rightarrow> None
        | Some (r, s1) \<Rightarrow>
            if r = - ERESTARTSYS then Some (- ERESTARTSYS, None, s1)
            else if terminating s1 then Some (- ECANCELED, None, s1)
            else if dxrt_dev_state_errno s1 \<noteq> 0 then Some (dxrt_dev_state_errno s1, None, s1)
            else case dx_pcie_dequeue_response ch s1 of
              (e, Some b, s2) \<Rightarrow> Some (0, Some b, take_credit ch s2)
            | (e, None, s2) \<Rightarrow> rec W ch (take_credit ch s2)) = Some y"
    show "case y of (r, b, t) \<Rightarrow> response_outcome ch r b t"
      using e by (auto split: if_splits option.splits prod.splits intro: response_intros
          dest: IH [THEN case_prodD] elim: wait_cases)
  qed
  then show ?thesis by simp
qed

lemma retry_v1_outcome:
  assumes "retry_v1 W ch s = Some (r, b, t)"
  shows "response_outcome ch r b t"
proof -
  have "case (r, b, t) of (r, b, t) \<Rightarrow> response_outcome ch r b t"
  proof (rule retry_v1.raw_induct [where P = "\<lambda>W ch s p. case p of (r, b, t) \<Rightarrow> response_outcome ch r b t", OF _ assms])
    fix rec W ch s y
    assume IH: "\<And>W ch s y. rec W ch s = Some y \<Longrightarrow> case y of (r, b, t) \<Rightarrow> response_outcome ch r b t"
      and e: "(if dxrt_dev_state_errno s \<noteq> 0 then Some (dxrt_dev_state_errno s, None, s)
        else case (if response_pending s ch = 0 then wait_event (w_env W) (resp_cond ch) s else Some (0, s)) of
          None \<Rightarrow> None
        | Some (r, s1) \<Rightarrow>
            if r = - ERESTARTSYS then Some (- ERESTARTSYS, None, s1)
            else if terminating s1 then Some (- ECANCELED, None, s1)
            else if response_pending s ch = 0 \<and> dxrt_dev_state_errno s1 \<noteq> 0
            then Some (dxrt_dev_state_errno s1, None, s1)
            else case dx_pcie_dequeue_response ch s1 of
              (e, Some b, s2) \<Rightarrow> Some (0, Some b, take_credit ch s2)
            | (e, None, s2) \<Rightarrow> rec W ch (take_credit ch s2)) = Some y"
    show "case y of (r, b, t) \<Rightarrow> response_outcome ch r b t"
      using e by (auto split: if_splits option.splits prod.splits intro: response_intros
          dest: IH [THEN case_prodD] elim: wait_cases)
  qed
  then show ?thesis by simp
qed

lemma retry_ready:
  assumes "dxrt_dev_state_errno s = 0" "\<not> terminating s" "0 < response_pending s ch"
    and "dx_dev_list_get s" "resp_ok (responses s ch)" "resp_pending (responses s ch) = b # bs"
  shows "\<exists>c. retry_v1 W ch s = Some (0, Some b, take_credit ch (s\<lparr>responses := (responses s)(ch := c)\<rparr>)) \<and>
    retry_v2 W ch s = Some (0, Some b, take_credit ch (s\<lparr>responses := (responses s)(ch := c)\<rparr>)) \<and>
    resp_ok c \<and> resp_pending c = bs"
proof -
  obtain c where c: "resp_pop (responses s ch) = (Some b, c)" "resp_ok c" "resp_pending c = bs"
    using resps.deq_cons [OF assms(5,6)] by (metis prod.collapse)
  then have "dx_pcie_dequeue_response ch s = (0, Some b, s\<lparr>responses := (responses s)(ch := c)\<rparr>)"
    using assms(4) by (simp add: dx_pcie_dequeue_response_def)
  moreover have "wait_event (w_env W) (resp_cond ch) s = Some (0, s)"
    using assms(3) by (intro wait_event_cond) (simp add: resp_cond_def)
  ultimately show ?thesis using assms(1-3) c
    by (intro exI [of _ c]) (simp add: retry_v1.simps [of W ch s] retry_v2.simps [of W ch s])
qed

section \<open>Properties\<close>

text \<open>
  (C7) A submission is all or nothing towards the firmware.  When the lock is granted on a well-formed
  queue with room, the request's bytes are appended to the pending list as one element, the host
  lock is released and the release doorbell rung before the call waits for the firmware to take
  the interrupt; the call fails only if that handshake times out.
\<close>

theorem run_request_appends:
  assumes "\<not> recovering s" "\<not> dxrt_is_queue_full q (bar (mutex_lock W s))" "q_num < 4"
    and "dxrt_lock_check (w_env W) q (snd (dx_pcie_notify_req_to_device q_num True ((mutex_lock W s)
           \<lparr>bar := writel 33 (q + 2048) (bar (mutex_lock W s))\<rparr>))) = (1, s4)"
    and "queue_ok q (bar s4)" "\<not> dxrt_is_queue_full q (bar s4)" "readl (bar s4) (q + 2072) \<noteq> 0"
    and "q_esz q (bar s4) = length req" "dx_dev_list_get s4" "dx_ver s4 = 3"
  shows "\<exists>s6. dxrt_npu_run_requset_acc W req (Some q) q_num s =
      Some (if fst (dxrt_enqueue_irq_done (w_env W) q s6) \<noteq> 0 then - EINVAL else 0,
            snd (dxrt_enqueue_irq_done (w_env W) q s6)) \<and>
    queue_ok q (bar s6) \<and> q_list q (bar s6) = q_list q (bar s4) @ [req] \<and>
    readl (bar s6) (q + 2048) = 0 \<and> readl (bar s6) (q + 2076) = 1 \<and>
    notify s6 = writel 1 (the (queue_doorbell q_num False)) (notify s4)"
proof -
  have c: "q_count q (bar s4) < q_max q (bar s4)"
    using assms(6) queue_okD(5) [OF assms(5)] by (simp add: full_iff_count)
  let ?b = "enq_mem q (req_elem W req) (bar s4)"
  let ?s6 = "snd (dx_pcie_notify_req_to_device q_num False (s4\<lparr>bar := writel 0 (q + 2048) ?b\<rparr>))"
  have e: "dxrt_enqueue q (req_elem W req) (bar s4) = Some (0, ?b)"
    by (rule dxrt_enqueue_ok [OF assms(5,7)])
  have m: "map (req_elem W req) [0..<q_esz q (bar s4)] = req"
    using assms(8) by (intro nth_equalityI) (simp_all add: req_elem_def)
  have ok: "queue_ok q ?b" "q_list q ?b = q_list q (bar s4) @ [req]"
    using enq_mem_ok [OF assms(5) c] enq_mem_list [OF assms(5) c] m by simp_all
  have l: "queue_ok q (writel 0 (q + 2048) ?b)" "q_list q (writel 0 (q + 2048) ?b) = q_list q ?b"
    using q_list_header_write [OF _ ok(1), of 2048] by simp_all
  have n: "notify ?s6 = writel 1 (the (queue_doorbell q_num False)) (notify s4)"
    using assms(3,9,10) by (auto simp: dx_pcie_notify_req_to_device_def dx_dev_list_get_def queue_doorbell_def)
  have r: "dxrt_npu_run_requset_acc W req (Some q) q_num s =
      Some (if fst (dxrt_enqueue_irq_done (w_env W) q ?s6) \<noteq> 0 then - EINVAL else 0,
            snd (dxrt_enqueue_irq_done (w_env W) q ?s6))"
    using assms(1,2,4) e
    by (simp add: dxrt_npu_run_requset_acc_def dxrt_lock_queue_def dxrt_unlock_queue_def Let_def case_prod_beta)
  show ?thesis
    using r n l ok enq_mem_fields(6) [OF assms(5)]
    by (intro exI [of _ ?s6]) (simp add: readl_writel_other)
qed

text \<open>A firmware whose queue is empty and that grants every lock.\<close>

definition idle_queue :: "nat \<Rightarrow> mmio" where
  "idle_queue q = writel 1 (q + 2084) (dxrt_init_queue q 10 120 (\<lambda>_. 0))"

lemma idle_queue_ok:
  "queue_ok q (idle_queue q)" "\<not> dxrt_is_queue_full q (idle_queue q)" "readl (idle_queue q) (q + 2072) \<noteq> 0"
  "q_esz q (idle_queue q) = 120" "q_list q (idle_queue q) = []" "readl (idle_queue q) (q + 2084) = 1"
  "readl (idle_queue q) (q + 2076) \<noteq> 1"
proof -
  have f: "readl (idle_queue q) (q + 2064) = 10" "readl (idle_queue q) (q + 2068) = 120"
    "readl (idle_queue q) (q + 2072) = 1" "readl (idle_queue q) (q + 2052) = 0"
    "readl (idle_queue q) (q + 2056) = 0" "readl (idle_queue q) (q + 2060) = 0"
    "readl (idle_queue q) (q + 2076) = 0"
    using init_queue_fields [of q 10 120 "\<lambda>_. 0"] by (simp_all add: idle_queue_def readl_writel_other)
  show "queue_ok q (idle_queue q)" "\<not> dxrt_is_queue_full q (idle_queue q)" "readl (idle_queue q) (q + 2072) \<noteq> 0"
    "q_esz q (idle_queue q) = 120" "q_list q (idle_queue q) = []" "readl (idle_queue q) (q + 2076) \<noteq> 1"
    using f by (simp_all add: queue_ok_def q_list_def q_defs dxrt_is_queue_full_def)
  show "readl (idle_queue q) (q + 2084) = 1" by (simp add: idle_queue_def)
qed

theorem run_request_appends_witness:
  "\<exists>t. dxrt_npu_run_requset_acc (example_world\<lparr>w_env := reply_env (idle_queue 0x8000)\<rparr>)
     (replicate 120 9) (Some 0x8000) 0 example_dev = Some (0, t)"
proof -
  let ?E = "reply_env (idle_queue 0x8000)"
  let ?W = "example_world\<lparr>w_env := ?E\<rparr>"
  let ?s1 = "mutex_lock ?W example_dev"
  let ?s3 = "snd (dx_pcie_notify_req_to_device 0 True (?s1\<lparr>bar := writel 33 (0x8000 + 2048) (bar ?s1)\<rparr>))"
  have y: "bar (yield ?E s) = idle_queue 0x8000" "dx_dev_list_get (yield ?E s) = dx_dev_list_get s"
    "dx_ver (yield ?E s) = dx_ver s" for s
    by (simp_all add: yield_def reply_env_def dx_dev_list_get_def)
  have q: "readl (idle_queue 32768) 34852 = 1" "readl (idle_queue 32768) 34844 \<noteq> 1" using idle_queue_ok [of 32768] by simp_all
  have l: "dxrt_lock_check ?E 0x8000 s = (1, yield ?E s)" for s
    unfolding dxrt_lock_check_def lock_check_loop.simps by (simp add: Let_def y q)
  have i: "dxrt_enqueue_irq_done ?E 0x8000 s = (0, yield ?E s)" for s
    unfolding dxrt_enqueue_irq_done_def irq_done_loop.simps by (simp add: Let_def y q)
  have d: "dx_dev_list_get ?s3" "dx_ver ?s3 = 3" "\<not> recovering example_dev"
    by (simp_all add: mutex_lock_def yield_def reply_env_def example_defs dx_dev_list_get_def
        dx_pcie_notify_req_to_device_def queue_doorbell_def)
  show ?thesis
    using run_request_appends [of example_dev "0x8000" ?W 0 "yield ?E ?s3" "replicate 120 9"]
      idle_queue_ok [of 32768] y l i d by (auto simp: mutex_lock_def)
qed

text \<open>
  A wait for a response ends only for a reason, in both versions of the call: with the oldest
  response of the channel, taken from a device that was ready and by a reader that was not being
  closed; or without consuming anything, because the device is not ready, a signal is pending or
  the file is being closed.
\<close>

theorem response_wait_sound:
  "(case retry_v1 W ch s of None \<Rightarrow> True | Some (r, b, t) \<Rightarrow> response_outcome ch r b t) \<and>
   (case retry_v2 W ch s of None \<Rightarrow> True | Some (r, b, t) \<Rightarrow> response_outcome ch r b t)"
  using retry_v1_outcome [of W ch s] retry_v2_outcome [of W ch s] by (auto split: option.split)

text \<open>What a client reads back of a response.\<close>

lemma length_user_response [simp]: "length (user_response b) = 40"
  by (simp add: user_response_def)

lemma copy_to_user_more [simp]: "dxdev.more (snd (copy_to_user p bs s)) = dxdev.more s"
  "responses (snd (copy_to_user p bs s)) = responses s"
  "response_pending (snd (copy_to_user p bs s)) = response_pending s"
  by (induction bs arbitrary: p s) (auto split: option.splits)

text \<open>
  A response that has arrived is delivered at once.  On a ready device, a reader of a channel with
  a credit and pending responses gets the oldest one in its buffer, the next in line becomes the
  oldest, and one credit is used up; this holds for both versions of the call.
\<close>

theorem pending_response_delivered:
  assumes "dtype s = 0" "m_data u \<noteq> 0" "copy_from_user (m_data u) 4 s = Some c" "get32 0 c < 3"
    and "ch = unat (get32 0 c)" "dxrt_dev_state_errno s = 0" "\<not> terminating s" "0 < response_pending s ch"
    and "dx_dev_list_get s" "resp_ok (responses s ch)" "resp_pending (responses s ch) = b # bs"
    and "\<forall>a. umem s a \<noteq> None"
  shows "\<exists>t. dxrt_npu_run_response_v1 W u s = Some (0, t) \<and> dxrt_npu_run_response_v2 W u s = Some (0, t) \<and>
    copy_from_user (m_data u) 40 t = Some (user_response b) \<and> resp_pending (responses t ch) = bs \<and>
    response_pending t ch = response_pending s ch - 1"
proof -
  obtain d where d: "retry_v1 W ch s = Some (0, Some b, take_credit ch (s\<lparr>responses := (responses s)(ch := d)\<rparr>))"
    "retry_v2 W ch s = Some (0, Some b, take_credit ch (s\<lparr>responses := (responses s)(ch := d)\<rparr>))"
    "resp_pending d = bs"
    using retry_ready [OF assms(6-11)] by blast
  define v where "v = take_credit ch (s\<lparr>responses := (responses s)(ch := d)\<rparr>)"
  have v: "umem v = umem s" "responses v = (responses s)(ch := d)" "response_pending v ch = response_pending s ch - 1"
    using assms(8) by (simp_all add: v_def take_credit_def)
  let ?t = "snd (copy_to_user (m_data u) (user_response b) v)"
  have ok: "fst (copy_to_user (m_data u) (user_response b) v)" using assms(12) v by (intro copy_to_user_writable) simp
  have "dxrt_npu_run_response_v1 W u s = Some (0, ?t)" "dxrt_npu_run_response_v2 W u s = Some (0, ?t)"
    using assms(1-4,7) d(1,2) [folded v_def] ok unfolding assms(5)
    by (simp_all add: dxrt_npu_run_response_v1_def dxrt_npu_run_response_v2_def await_response_def
        dxrt_copy_resp_to_user_acc_def case_prod_beta not_le Let_def)
  moreover have "copy_from_user (m_data u) 40 ?t = Some (user_response b)"
    using copy_user_roundtrip [OF ok] by simp
  ultimately show ?thesis using v d(3) by auto
qed

theorem pending_response_delivered_witness:
  "\<exists>t. dxrt_npu_run_response_v2 example_world \<lparr>m_cmd = 30, m_sub_cmd = 0, m_data = 0x1000, m_size = 0\<rparr>
     (arrive 0 (replicate 64 5) (example_dev\<lparr>umem := (\<lambda>_. Some 0), response_callback := True\<rparr>)) = Some (0, t)"
proof -
  let ?idle = "example_dev\<lparr>umem := (\<lambda>_. Some 0), response_callback := True\<rparr>"
  let ?s = "arrive 0 (replicate 64 5) ?idle"
  let ?u = "\<lparr>m_cmd = 30, m_sub_cmd = 0, m_data = 0x1000, m_size = 0\<rparr>"
  have x: "responses example_dev 0 = \<lparr>r_pool = (\<lambda>_. []), r_list = [], r_header = 0\<rparr>"
    "response_pending example_dev 0 = 0" "dtype example_dev = 0" "dev_state example_dev = STATE_READY"
    "\<not> terminating example_dev" by (simp_all add: example_defs)
  have a: "dx_dev_list_get ?idle" "response_callback ?idle" "resp_ok (responses ?idle 0)" "resp_pending (responses ?idle 0) = []"
    "response_pending ?idle 0 = 0"
    using example_dev_ok(1) x by (simp_all add: dx_dev_list_get_def resp_ok_def resp_pending_def)
  have e: "responses ?s = (responses ?idle)(0 := resp_push (replicate 64 5) (responses ?idle 0))"
    "response_pending ?s 0 = 1" "dx_dev_list_get ?s"
    using arrive_effect [of ?idle 0 "replicate 64 5"] a by simp_all
  have p: "resp_pending (responses ?s 0) = [replicate 64 5]" "resp_ok (responses ?s 0)"
    using resps.enq_pending [OF a(3)] resps.enq_inv [OF a(3)] a(4) by (simp_all add: e)
  have f: "umem ?s = (\<lambda>_. Some 0)" "dtype ?s = 0" "dxrt_dev_state_errno ?s = 0" "\<not> terminating ?s"
    using x by (simp_all add: arrive_def dx_pcie_enqueue_response_def dxrt_response_notify_def
        dxrt_dev_state_errno_def Let_def)
  have c: "copy_from_user 0x1000 4 ?s = Some [0, 0, 0, 0]" "get32 0 [0, 0, 0, 0] = 0"
    using f(1) by (simp_all add: copy_from_user_def upt_rec get32_def le32_def)
  show ?thesis
    using pending_response_delivered [of ?s ?u "[0, 0, 0, 0]" 0 "replicate 64 5" "[]" example_world] e p f c by auto
qed

end
