(* ===== verification/Dx_Firmware.thy ===== *)
theory Dx_Firmware
  imports Dx_Inference
begin

text \<open>
  Firmware management and diagnostics of \<^verbatim>\<open>rt/dxrt_drv_message.c\<close>: custom commands, the log, update and
  upload of firmware images with the version test that selects the recovery to run afterwards,
  and device reset.
\<close>

section \<open>Custom command, log and reset\<close>

definition dxrt_soc_custom :: "world \<Rightarrow> dxrt_message \<Rightarrow> dxdev \<Rightarrow> (int \<times> dxdev) option" where
  "dxrt_soc_custom W u s =
     (if dtype s = DX_STD then Some (0, s)
      else let s0 = mutex_lock W s; e = dxrt_dev_state_errno s0 in
        if e \<noteq> 0 then Some (e, s0)
        else case dxrt_fw_mbox_blocked s0 of (blocked, s1) \<Rightarrow>
          if blocked then Some (- EBUSY, s1)
          else let sized = (0 < m_size u \<and> m_size u < SIZEOF_MSG) in
            if sized \<and> \<not> alloc_ok s1 then Some (- ENOMEM, s1)
            else case (if sized then copy_from_user (m_data u) (unat (m_size u)) s1 else Some []) of
              None \<Rightarrow> Some (- EFAULT, s1)
            | Some bs \<Rightarrow>
                (case msg s1 of
                   None \<Rightarrow> None
                 | Some m \<Rightarrow>
                     let s3 = dx_pcie_notify_msg_to_device (w_env W)
                           (s1\<lparr>bar := dxrt_msg_to_dev m u (dx_memcpy_toio32 (m + MSG_DATA) bs (bar s1))\<rparr>)
                     in case dxrt_polling_ack W m s3 of (r, s4) \<Rightarrow>
                       let n = readl (bar s4) (m + MSG_SIZE) in
                       Some (if 0 < n \<and> n < SIZEOF_MSG
                             then dxrt_copy_to_user_io (m_data u) (m + MSG_DATA) (unat n) s4
                             else (r, s4))))"

definition dxrt_get_log :: "dxrt_message \<Rightarrow> dxdev \<Rightarrow> (int \<times> dxdev) option" where
  "dxrt_get_log u s =
     (if dtype s = DX_STD then Some (0, s)
      else case log s of
        None \<Rightarrow> if alloc_ok s then None else Some (- EFAULT, s)
      | Some a \<Rightarrow>
          case dxrt_copy_to_user_io (m_data u) a (16 * 1024) s of
            (c, t) \<Rightarrow> Some (if c \<noteq> 0 then - EFAULT else 0, t))"

text \<open>The delay after the reset command is one scheduling point.\<close>

definition dxrt_reset_device :: "world \<Rightarrow> dxrt_message \<Rightarrow> dxdev \<Rightarrow> int \<times> dxdev" where
  "dxrt_reset_device W u s =
     (if dtype s = DX_STD then (0, s)
      else case msg s of
        None \<Rightarrow> (0, s)
      | Some m \<Rightarrow>
          let s1 = mutex_lock W s in
          case (if 0 < m_size u \<and> m_size u < SIZEOF_MSG
                then dxrt_copy_from_user_io (m + MSG_DATA) (m_data u) (unat (m_size u)) s1
                else (0, s1)) of (c, s2) \<Rightarrow>
            if c \<noteq> 0 then (c, s2)
            else (0, yield (w_env W) (dx_pcie_notify_msg_to_device (w_env W)
                   (s2\<lparr>bar := dxrt_msg_to_dev m u (bar s2)\<rparr>))))"

section \<open>The version of an image\<close>

text \<open>
  \<open>sscanf(ver, "%u.%u.%u", ..)\<close> of the kernel: each number may be preceded by white space, has at
  least one digit and is reduced to 32 bits; the dots have to match.
\<close>

definition is_space :: "u8 \<Rightarrow> bool" where
  "is_space c \<longleftrightarrow> c = 32 \<or> (9 \<le> c \<and> c \<le> 13) \<or> c = 160"

definition is_digit :: "u8 \<Rightarrow> bool" where
  "is_digit c \<longleftrightarrow> 48 \<le> c \<and> c \<le> 57"

definition scan_u :: "bytes \<Rightarrow> (u32 \<times> bytes) option" where
  "scan_u str =
     (let s = dropWhile is_space str; ds = takeWhile is_digit s in
      if ds = [] then None
      else Some (foldl (\<lambda>v d. 10 * v + (ucast d - 48)) 0 ds, dropWhile is_digit s))"

definition scan_dot :: "bytes \<Rightarrow> bytes option" where
  "scan_dot str = (case str of [] \<Rightarrow> None | c # r \<Rightarrow> if c = 46 then Some r else None)"

definition scan_version :: "bytes \<Rightarrow> (u32 \<times> u32 \<times> u32) option" where
  "scan_version str =
     (case scan_u str of None \<Rightarrow> None | Some (a, r1) \<Rightarrow>
      case scan_dot r1 of None \<Rightarrow> None | Some r2 \<Rightarrow>
      case scan_u r2 of None \<Rightarrow> None | Some (b, r3) \<Rightarrow>
      case scan_dot r3 of None \<Rightarrow> None | Some r4 \<Rightarrow>
      case scan_u r4 of None \<Rightarrow> None | Some (c, r5) \<Rightarrow> Some (a, b, c))"

abbreviation (input) DX_FW_HDR_VER_OFFSET :: nat where "DX_FW_HDR_VER_OFFSET \<equiv> 0xdc"
abbreviation (input) DX_FW_HDR_VER_LEN :: nat where "DX_FW_HDR_VER_LEN \<equiv> 16"

definition dxrt_fw_image_is_legacy :: "u64 \<Rightarrow> u32 \<Rightarrow> dxdev \<Rightarrow> bool" where
  "dxrt_fw_image_is_legacy data sz s =
     (if data = 0 \<or> sz < 0xdc + 16 then False
      else case copy_from_user (data + of_nat DX_FW_HDR_VER_OFFSET) DX_FW_HDR_VER_LEN s of
        None \<Rightarrow> False
      | Some ver \<Rightarrow>
          case scan_version (takeWhile (\<lambda>c. c \<noteq> 0) ver) of
            None \<Rightarrow> False
          | Some (v_maj, v_min, v_patch) \<Rightarrow>
              if v_maj \<noteq> 270 div 100 then v_maj < 270 div 100
              else if v_min \<noteq> (270 div 10) mod 10 then v_min < (270 div 10) mod 10
              else v_patch < 270 mod 10)"

section \<open>Update and upload\<close>

text \<open>\<open>FWUPDATE_DEV_UNRESET\<close> is bit 1 of the subcommand.\<close>

definition update_ack :: "world \<Rightarrow> nat \<Rightarrow> dxrt_message \<Rightarrow> dxdev \<Rightarrow> int \<times> dxdev" where
  "update_ack W m u s =
     (let s1 = mutex_lock W s;
          s2 = dx_pcie_notify_msg_to_device (w_env W) (s1\<lparr>bar := dxrt_msg_to_dev m u (bar s1)\<rparr>)
      in case dxrt_polling_ack W m s2 of (r, s3) \<Rightarrow>
        let ret = (if r = 0 then sint (readl (bar s3) (m + MSG_DATA)) else r) in
        (ret,
         if ret = 0 \<and> (word_of_int (m_sub_cmd u) :: u32) AND 2 = 0
         then if dxrt_fw_image_is_legacy (m_data u) (m_size u) s3
              then dxrt_kick_fw_update_recovery_nodlmsg s3
              else dxrt_kick_fw_update_recovery s3
         else s3))"

definition dxrt_update_firmware :: "world \<Rightarrow> dxrt_message \<Rightarrow> dxdev \<Rightarrow> (int \<times> dxdev) option" where
  "dxrt_update_firmware W u s =
     (if dtype s = DX_STD then Some (0, s)
      else if \<not> dx_dev_list_get s then None
      else let n = (if w_download_size W < m_size u then w_download_size W else m_size u) in
        case msg s of
          None \<Rightarrow> Some (0, s)
        | Some m \<Rightarrow>
            if m_data u = 0 then Some (update_ack W m u s)
            else case w_sgdma_write W (m_data u) (w_download_region W) n 0 s of (k, s1) \<Rightarrow>
              Some (if k \<noteq> uint n then (- 1, s1) else update_ack W m u s1))"

definition dxrt_write_firmware :: "world \<Rightarrow> dxrt_message \<Rightarrow> bytes \<Rightarrow> u64 \<Rightarrow> dxdev \<Rightarrow> int \<times> dxdev" where
  "dxrt_write_firmware W u buf dst s =
     (if m_data u = 0 then (0, s)
      else case w_sgdma_write_kernel W buf dst (m_size u) 0 s of
        (n, t) \<Rightarrow> (if n \<noteq> uint (m_size u) then - ECOMM else 0, t))"

abbreviation (input) DX_ROM :: int where "DX_ROM \<equiv> 1"
abbreviation (input) DX_2ND_BOOT :: int where "DX_2ND_BOOT \<equiv> 2"

text \<open>
  The bounce buffer holds one mebibyte; a larger image runs over its end.  The result of
  \<open>dxrt_write_firmware\<close> is dropped.
\<close>

definition dxrt_upload_firmware :: "world \<Rightarrow> dxrt_message \<Rightarrow> dxdev \<Rightarrow> (int \<times> dxdev) option" where
  "dxrt_upload_firmware W u s =
     (if dtype s = DX_STD then Some (0, s)
      else if \<not> alloc_ok s then Some (- ENOMEM, s)
      else if 0x100000 < m_size u then None
      else case copy_from_user (m_data u) (unat (m_size u)) s of
        None \<Rightarrow> Some (- EFAULT, s)
      | Some img \<Rightarrow>
          (case dl s of
             None \<Rightarrow> None
           | Some d \<Rightarrow>
               case dx_get_flash_ready (w_env W) d 2000000 s of (ready, s1) \<Rightarrow>
                 if \<not> ready then Some (- EINVAL, s1)
                 else let step = dx_get_boot_step d (bar s1) in
                   if (step = DX_ROM \<or> step = DX_2ND_BOOT) \<and> \<not> dx_dev_list_get s1 then None
                   else
                   let (ret, s2) =
                         (if step = DX_ROM
                          then (0, snd (dxrt_write_firmware W u img (w_booting_region W 0) s1))
                          else if step = DX_2ND_BOOT
                          then (0, snd (dxrt_write_firmware W u img (w_booting_region W 1) s1))
                          else (- EINVAL, s1))
                   in case dx_get_flash_done (w_env W) d s2 of
                     (ok, s3) \<Rightarrow> Some (if ok then ret else - EINVAL, s3)))"

section \<open>Reading back a printed version\<close>

text \<open>Decimal digits of a number, as an image header carries them.\<close>

fun dec :: "nat \<Rightarrow> bytes" where
  "dec n = (if n < 10 then [of_nat (48 + n)] else dec (n div 10) @ [of_nat (48 + n mod 10)])"

declare dec.simps [simp del]

definition version_string :: "nat \<Rightarrow> nat \<Rightarrow> nat \<Rightarrow> bytes" where
  "version_string a b c = dec a @ [46] @ dec b @ [46] @ dec c"

lemma digit_char:
  assumes "d < 10"
  shows "is_digit (of_nat (48 + d))" "ucast (of_nat (48 + d) :: u8) - 48 = (of_nat d :: u32)"
proof -
  have "d \<in> {0, 1, 2, 3, 4, 5, 6, 7, 8, 9}" using assms by auto
  then show "is_digit (of_nat (48 + d))" "ucast (of_nat (48 + d) :: u8) - 48 = (of_nat d :: u32)"
    by (auto simp: is_digit_def)
qed

lemma dec_digits: "list_all is_digit (dec n) \<and> dec n \<noteq> []"
proof (induction n rule: dec.induct)
  case (1 n)
  then show ?case by (simp add: dec.simps [of n] digit_char del: of_nat_add)
qed

lemma not_digit_0: "\<not> is_digit 0"
  by (simp add: is_digit_def)

lemma dec_value: "foldl (\<lambda>v d. 10 * v + (ucast d - 48)) 0 (dec n) = (of_nat n :: u32)"
proof (induction n rule: dec.induct)
  case (1 n)
  show ?case
  proof (cases "n < 10")
    case True
    then show ?thesis by (subst dec.simps) (simp add: digit_char(2) del: of_nat_add)
  next
    case False
    have "(of_nat n :: u32) = of_nat (10 * (n div 10) + n mod 10)" by simp
    also have "\<dots> = 10 * of_nat (n div 10) + of_nat (n mod 10)" by (simp only: of_nat_add of_nat_mult) simp
    finally show ?thesis using False 1
      by (subst dec.simps) (simp add: digit_char(2) del: of_nat_add)
  qed
qed

lemma not_digit_space: "is_digit c \<Longrightarrow> \<not> is_space c"
proof -
  assume "is_digit c"
  then have "48 \<le> c" "c \<le> 57" by (simp_all add: is_digit_def)
  moreover have "\<not> c \<le> 13" using \<open>48 \<le> c\<close> by (auto dest: order_trans)
  ultimately show ?thesis by (auto simp: is_space_def)
qed

lemma scan_u_dec:
  assumes "case rest of [] \<Rightarrow> True | c # _ \<Rightarrow> \<not> is_digit c"
  shows "scan_u (dec n @ rest) = Some (of_nat n, rest)"
proof -
  have d: "\<forall>c \<in> set (dec n). is_digit c" "dec n \<noteq> []" using dec_digits by (auto simp: list_all_iff)
  then obtain c cs where c: "dec n = c # cs" "is_digit c" by (cases "dec n") auto
  have "dropWhile is_space (dec n @ rest) = dec n @ rest" using c not_digit_space by simp
  moreover have "takeWhile is_digit (dec n @ rest) = dec n" "dropWhile is_digit (dec n @ rest) = rest"
    using d assms by (auto simp: takeWhile_append dropWhile_append split: list.splits)
  ultimately show ?thesis using d(2) dec_value by (simp add: scan_u_def)
qed

lemma not_digit_dot: "\<not> is_digit 46"
  by (simp add: is_digit_def)

lemma scan_version_string: "scan_version (version_string a b c) = Some (of_nat a, of_nat b, of_nat c)"
  using scan_u_dec [of "[]" c] scan_u_dec [of "46 # dec c" b] scan_u_dec [of "46 # dec b @ 46 # dec c" a]
  by (simp add: scan_version_def version_string_def scan_dot_def not_digit_dot)

section \<open>Properties\<close>

text \<open>
  The version test reads what is printed: for every image whose header holds a version
  \<open>A.B.C\<close> in decimal, with fields of any number of digits that fit, the image counts as legacy
  exactly when it is older than 2.7.0 field by field.
\<close>

theorem legacy_iff_older:
  assumes "length (version_string a b c) \<le> 16" "a < 2 ^ 32" "b < 2 ^ 32"
    and "p \<noteq> 0" "236 \<le> sz"
    and "copy_from_user (p + 220) 16 s = Some (version_string a b c @ replicate (16 - length (version_string a b c)) 0)"
  shows "dxrt_fw_image_is_legacy p sz s \<longleftrightarrow> a < 2 \<or> a = 2 \<and> b < 7"
proof -
  let ?v = "version_string a b c"
  have nz: "x \<noteq> 0" if "x \<in> set ?v" for x
    using that dec_digits not_digit_0 by (fastforce simp: version_string_def list_all_iff)
  then have t: "takeWhile (\<lambda>c. c \<noteq> 0) (?v @ replicate (16 - length ?v) 0) = ?v"
    by (cases "16 - length ?v") (auto simp: takeWhile_append)
  have u: "unat (of_nat a :: u32) = a" "unat (of_nat b :: u32) = b"
    using assms(2,3) by (simp_all add: unsigned_of_nat take_bit_nat_eq_self)
  have w: "(of_nat a :: u32) = 2 \<longleftrightarrow> a = 2" "(of_nat a :: u32) < 2 \<longleftrightarrow> a < 2"
    "(of_nat b :: u32) = 7 \<longleftrightarrow> b = 7" "(of_nat b :: u32) < 7 \<longleftrightarrow> b < 7"
    by (simp_all add: word_unat_eq_iff word_less_nat_alt u)
  show ?thesis using assms(4-6)
    by (auto simp: dxrt_fw_image_is_legacy_def t scan_version_string w not_less)
qed

definition image_memory :: "bytes \<Rightarrow> u64 \<Rightarrow> u8 option" where
  "image_memory ver a = user_at ver (a - 220)"

theorem legacy_iff_older_witness:
  "dxrt_fw_image_is_legacy 0x1000 4096 (example_dev\<lparr>umem := image_memory ([50, 46, 54, 46, 49, 48] @ replicate 10 0)\<rparr>)"
proof -
  let ?v = "[50, 46, 54, 46, 49, 48] :: bytes"
  let ?s = "example_dev\<lparr>umem := image_memory (?v @ replicate 10 0)\<rparr>"
  have v: "version_string 2 6 10 = ?v" by (simp add: version_string_def dec.simps)
  have "copy_from_user (0x1000 + 220) 16 ?s = copy_from_user 0x1000 16 (example_dev\<lparr>umem := user_at (?v @ replicate 10 0)\<rparr>)"
    by (simp add: copy_from_user_def image_memory_def algebra_simps)
  then have "copy_from_user (0x1000 + 220) 16 ?s = Some (?v @ replicate 10 0)"
    using user_at_read [of "?v @ replicate 10 0" example_dev] by simp
  then show ?thesis using legacy_iff_older [of 2 6 10 "0x1000" 4096 ?s] by (simp add: v)
qed

text \<open>
  A firmware update starts exactly one recovery: when the firmware accepts the image and a reset
  is expected, the epoch advances, the clients are held back and the readiness worker is queued,
  with the reason that says whether the new image publishes its readiness; in every other case
  no recovery is started.
\<close>

theorem update_starts_recovery:
  assumes "dxrt_polling_ack W m (dx_pcie_notify_msg_to_device (w_env W)
      ((mutex_lock W s)\<lparr>bar := dxrt_msg_to_dev m u (bar (mutex_lock W s))\<rparr>)) = (r, v)"
    and "dtype v \<noteq> 1" "dev_state v \<noteq> STATE_PERM_FAIL"
  shows "case update_ack W m u s of (ret, t) \<Rightarrow>
    ret = (if r = 0 then sint (readl (bar v) (m + 16)) else r) \<and>
    (if ret = 0 \<and> (word_of_int (m_sub_cmd u) :: u32) AND 2 = 0
     then recovery_epoch t = recovery_epoch v + 1 \<and> recovering t \<and> ready_work t \<and> dev_state t = STATE_TRANSPORT_OK \<and>
       last_recovery_reason t = (if dxrt_fw_image_is_legacy (m_data u) (m_size u) v then 5 else 4)
     else t = v)"
proof -
  have k: "recovery_epoch (dxrt_kick_fw_reboot_recovery x w) = recovery_epoch w + 1 \<and>
      recovering (dxrt_kick_fw_reboot_recovery x w) \<and> ready_work (dxrt_kick_fw_reboot_recovery x w) \<and>
      dev_state (dxrt_kick_fw_reboot_recovery x w) = STATE_TRANSPORT_OK \<and>
      last_recovery_reason (dxrt_kick_fw_reboot_recovery x w) = x"
    if "dtype w \<noteq> 1" "dev_state w \<noteq> STATE_PERM_FAIL" for x w
    using that by (simp add: kick_begin recovery_begin_def dx_pcie_set_init_completed_def
        dx_pcie_clear_event_response_def dx_pcie_clear_response_queue_def)
  show ?thesis
    using assms k [OF assms(2,3), of 4] k [of "v\<lparr>dlmsg_contract_seen := False\<rparr>" 5]
    by (simp add: update_ack_def Let_def dxrt_kick_fw_update_recovery_def dxrt_kick_fw_update_recovery_nodlmsg_def)
qed

theorem update_starts_recovery_witness:
  "last_recovery_reason (snd (update_ack (example_world\<lparr>w_env := reply_env (writel 1 0x7008 (\<lambda>_. 0))\<rparr>) 0x7000
     \<lparr>m_cmd = 4, m_sub_cmd = 0, m_data = 0, m_size = 0\<rparr> example_dev)) = 4"
proof -
  let ?ram = "writel 1 0x7008 (\<lambda>_. 0) :: mmio"
  let ?E = "reply_env ?ram"
  let ?W = "example_world\<lparr>w_env := ?E\<rparr>"
  let ?u = "\<lparr>m_cmd = 4, m_sub_cmd = 0, m_data = 0, m_size = 0\<rparr>"
  define s2 where "s2 = dx_pcie_notify_msg_to_device ?E
      ((mutex_lock ?W example_dev)\<lparr>bar := dxrt_msg_to_dev 0x7000 ?u (bar (mutex_lock ?W example_dev))\<rparr>)"
  have "dx_dev_list_get (mutex_lock ?W example_dev)" "dx_ver (mutex_lock ?W example_dev) = 3"
    by (simp_all add: mutex_lock_def yield_def reply_env_def example_defs dx_dev_list_get_def)
  then have "s2 = (yield ?E ((mutex_lock ?W example_dev)\<lparr>bar := dxrt_msg_to_dev 0x7000 ?u
      (bar (mutex_lock ?W example_dev))\<rparr>))\<lparr>notify := writel 1 0x20 (\<lambda>_. 1)\<rparr>"
    unfolding s2_def by (intro reply_notify) (simp_all add: dx_dev_list_get_def)
  then have v: "dtype (yield ?E s2) = 0" "dev_state (yield ?E s2) = STATE_READY" "bar (yield ?E s2) = ?ram"
    by (simp_all add: mutex_lock_def yield_def reply_env_def example_defs)
  have z: "readl (\<lambda>_. 0) a = 0" for a by (simp add: readl_def le32_def)
  have p: "dxrt_polling_ack ?W 0x7000 s2 = (0, yield ?E s2)" by (rule reply_ack) simp
  have d: "readl ?ram 28688 = 0" by (simp add: readl_writel_other z)
  show ?thesis
    using update_starts_recovery [of ?W 28672 ?u example_dev 0 "yield ?E s2"] p v d
    by (simp add: case_prod_beta dxrt_fw_image_is_legacy_def flip: s2_def)
qed

text \<open>
  An upload reports success when the boot loader says it is done, even if the transfer of the
  image failed: whatever the DMA engine returned, it does not reach the caller.
\<close>

theorem upload_drops_dma_error:
  assumes "dtype s \<noteq> 1" "alloc_ok s" "m_size u \<le> 0x100000" "copy_from_user (m_data u) (unat (m_size u)) s = Some img"
    and "dl s = Some d" "dx_get_flash_ready (w_env W) d 2000000 s = (True, s1)" "dx_get_boot_step d (bar s1) = 1"
    and "dx_dev_list_get s1" "dxrt_write_firmware W u img (w_booting_region W 0) s1 = (- ECOMM, s2)"
    and "dx_get_flash_done (w_env W) d s2 = (True, s3)"
  shows "dxrt_upload_firmware W u s = Some (0, s3)"
  using assms by (simp add: dxrt_upload_firmware_def Let_def not_less)

end
