(* ===== verification/Dx_Events.thy ===== *)
theory Dx_Events
  imports Dx_Firmware
begin

text \<open>
  Event delivery and driver information: \<open>dxrt_handle_event\<close>, \<open>dxrt_handle_event_v2\<close> and
  \<open>dxrt_handle_rt_drv_info_sub\<close> of \<^verbatim>\<open>rt/dxrt_drv_message.c\<close>, with \<open>dx_pcie_get_driver_info\<close> of
  \<^verbatim>\<open>pci_deepx/dx_cdev_ctrl.c\<close>.
\<close>

section \<open>PCIe information\<close>

record deepx_pcie_info =
  driver_version :: u32
  bus :: u8
  slot :: u8
  func :: u8
  speed :: u32
  width :: u32

definition dx_get_current_spd :: "world \<Rightarrow> u32" where
  "dx_get_current_spd W = (case w_lnksta W of None \<Rightarrow> - 22 | Some l \<Rightarrow> ucast (l AND 0x000f))"

definition dx_get_current_width :: "world \<Rightarrow> u32" where
  "dx_get_current_width W =
     (case w_lnksta W of None \<Rightarrow> - 22 | Some l \<Rightarrow> ucast (drop_bit 4 (l AND 0x03f0)))"

text \<open>The device pointer is used without a check.\<close>

definition dx_pcie_get_driver_info :: "world \<Rightarrow> dxdev \<Rightarrow> deepx_pcie_info option" where
  "dx_pcie_get_driver_info W s =
     (if \<not> dx_dev_list_get s then None
      else Some \<lparr>driver_version = w_drv_version W,
        bus = ucast (drop_bit 8 (w_pci_dev_id W)),
        slot = ucast (drop_bit 3 (w_pci_dev_id W) AND 0x1f),
        func = ucast (w_pci_dev_id W AND 7),
        speed = dx_get_current_spd W, width = dx_get_current_width W\<rparr>)"

section \<open>Events\<close>

text \<open>\<open>strscpy\<close> writes the truncated string and its terminator and leaves the rest of the field.\<close>

definition strscpy_at :: "nat \<Rightarrow> nat \<Rightarrow> bytes \<Rightarrow> bytes \<Rightarrow> bytes" where
  "strscpy_at off n src bs =
     (let k = min (length src) (n - 1) in take off bs @ take k src @ [0] @ drop (off + k + 1) bs)"

text \<open>
  The driver's own fields of an error event: rt_driver_version 16, pcie_driver_version 20, bus
  288, dev 289, func 290, speed 292, width 296, rt_driver_version_suffix 344.
\<close>

definition complete_event :: "world \<Rightarrow> deepx_pcie_info \<Rightarrow> bytes \<Rightarrow> bytes" where
  "complete_event W info ev =
     (if get32 EV_TYPE ev = DX_EVENT_TYPE_ERROR
      then put32 296 (width info) (put32 292 (speed info)
        ((put32 20 (driver_version info) (strscpy_at 344 16 (w_rt_suffix W) (put32 16 (w_rt_version W) ev)))
           [288 := bus info, 289 := slot info, 290 := func info]))
      else ev)"

text \<open>Taking one event and handing it to the caller, common to both versions.\<close>

definition deliver_event :: "world \<Rightarrow> dxrt_message \<Rightarrow> dxdev \<Rightarrow> (int \<times> dxdev) option" where
  "deliver_event W u s =
     (case dx_pcie_dequeue_event_response (w_env W) s of
        None \<Rightarrow> None
      | Some (ev, s1) \<Rightarrow>
          let s2 = (if get32 EV_TYPE ev = DX_EVENT_TYPE_ERROR
                    then s1\<lparr>dev_error := get32 8 ev, dev_notify := 0\<rparr>
                    else s1\<lparr>dev_error := 0, dev_notify := get32 8 ev\<rparr>)
          in case dx_pcie_get_driver_info W s2 of
            None \<Rightarrow> None
          | Some info \<Rightarrow>
              if m_data u = 0 then Some (0, s2)
              else case copy_to_user (m_data u) (complete_event W info ev) s2 of
                (ok, t) \<Rightarrow> Some (if ok then 0 else - EFAULT, t))"

definition dxrt_handle_event :: "world \<Rightarrow> dxrt_message \<Rightarrow> dxdev \<Rightarrow> (int \<times> dxdev) option" where
  "dxrt_handle_event W u s = deliver_event W u (s\<lparr>dev_error := 0\<rparr>)"

text \<open>The wait of version 2: recovery is sat out, closing the file and signals end it.\<close>

definition recovery_over :: "dxdev \<Rightarrow> bool" where
  "recovery_over s \<longleftrightarrow> \<not> recovering s \<or> terminating s"

definition event_cond :: "dxdev \<Rightarrow> bool" where
  "event_cond s \<longleftrightarrow> dx_pcie_is_event_pending s \<or> recovering s \<or> terminating s"

partial_function (option) event_wait :: "world \<Rightarrow> dxdev \<Rightarrow> (int \<times> dxdev) option" where
  "event_wait W s =
     (case (if recovering s then wait_event (w_env W) recovery_over s else Some (0, s)) of
        None \<Rightarrow> None
      | Some (r, s1) \<Rightarrow>
          if r = - ERESTARTSYS then Some (- ERESTARTSYS, s1)
          else if recovering s \<and> terminating s1 then Some (- ECANCELED, s1)
          else case wait_event (w_env W) event_cond (s1\<lparr>dev_error := 0\<rparr>) of
            None \<Rightarrow> None
          | Some (r2, s2) \<Rightarrow>
              if r2 = - ERESTARTSYS then Some (- ERESTARTSYS, s2)
              else if terminating s2 then Some (- ECANCELED, s2)
              else if recovering s2 then event_wait W s2
              else Some (0, s2))"

definition dxrt_handle_event_v2 :: "world \<Rightarrow> dxrt_message \<Rightarrow> dxdev \<Rightarrow> (int \<times> dxdev) option" where
  "dxrt_handle_event_v2 W u s =
     (if terminating s then Some (- ECANCELED, s)
      else case event_wait W s of
        None \<Rightarrow> None
      | Some (r, s1) \<Rightarrow> if r \<noteq> 0 then Some (r, s1) else deliver_event W u s1)"

section \<open>Driver information\<close>

text \<open>
  \<open>struct dxrt_drv_info\<close> is the version word; \<open>struct dxrt_drv_info_v2\<close> has 84 bytes, of which the
  last 64 are reserved; \<open>struct deepx_pcie_info\<close> has 16 with one byte of padding.
\<close>

definition rt_info_v2 :: "world \<Rightarrow> bytes" where
  "rt_info_v2 W = strscpy_at 4 16 (w_rt_suffix W) (put32 0 (w_rt_version W) (map (w_stack W) [0..<84]))"

definition pcie_info_image :: "world \<Rightarrow> deepx_pcie_info \<Rightarrow> bytes" where
  "pcie_info_image W info =
     put32 12 (width info) (put32 8 (speed info) ((put32 0 (driver_version info) (map (w_stack W) [0..<16]))
       [4 := bus info, 5 := slot info, 6 := func info]))"

definition give :: "dxrt_message \<Rightarrow> bytes \<Rightarrow> dxdev \<Rightarrow> int \<times> dxdev" where
  "give u bs s =
     (if m_data u = 0 then (0, s)
      else case copy_to_user (m_data u) bs s of (ok, t) \<Rightarrow> (if ok then 0 else - EFAULT, t))"

definition dxrt_handle_rt_drv_info_sub :: "world \<Rightarrow> dxrt_message \<Rightarrow> dxdev \<Rightarrow> (int \<times> dxdev) option" where
  "dxrt_handle_rt_drv_info_sub W u s =
     (if m_sub_cmd u = 0 then Some (give u (put32 0 (w_rt_version W) (replicate 4 0)) s)
      else if m_sub_cmd u = 1 then
        (if dtype s = DX_ACC
         then case dx_pcie_get_driver_info W s of
             None \<Rightarrow> None
           | Some info \<Rightarrow> Some (give u (pcie_info_image W info) s)
         else Some (0, s))
      else if m_sub_cmd u = 2 then Some (give u (rt_info_v2 W) s)
      else Some (- EINVAL, s))"

definition dxrt_handle_drv_info :: "world \<Rightarrow> dxrt_message \<Rightarrow> dxdev \<Rightarrow> (int \<times> dxdev) option" where
  "dxrt_handle_drv_info W u s = dxrt_handle_rt_drv_info_sub W u s"

section \<open>Lemmas\<close>

definition event_outcome :: "int \<Rightarrow> dxdev \<Rightarrow> bool" where
  "event_outcome r t \<longleftrightarrow>
     (r = 0 \<and> dx_pcie_is_event_pending t \<and> \<not> recovering t \<and> \<not> terminating t) \<or>
     (r = - ERESTARTSYS \<and> sigpend t) \<or> (r = - ECANCELED \<and> terminating t)"

lemma event_signal: "sigpend t \<Longrightarrow> event_outcome (- ERESTARTSYS) t"
  and event_cancel: "terminating t \<Longrightarrow> event_outcome (- ECANCELED) t"
  and event_ready: "event_cond t \<Longrightarrow> \<not> recovering t \<Longrightarrow>
    \<not> terminating t \<Longrightarrow> event_outcome 0 t"
  by (auto simp: event_outcome_def event_cond_def)

lemmas event_intros = event_signal event_cancel event_ready

lemma event_wait_outcome:
  assumes "event_wait W s = Some (r, t)"
  shows "event_outcome r t"
proof -
  have "case (r, t) of (r, t) \<Rightarrow> event_outcome r t"
  proof (rule event_wait.raw_induct [where P = "\<lambda>W s p. case p of (r, t) \<Rightarrow> event_outcome r t", OF _ assms])
    fix rec W s y
    assume IH: "\<And>W s y. rec W s = Some y \<Longrightarrow> case y of (r, t) \<Rightarrow> event_outcome r t"
      and e: "(case (if recovering s then wait_event (w_env W) recovery_over s
            else Some (0, s)) of
          None \<Rightarrow> None
        | Some (r, s1) \<Rightarrow>
            if r = - ERESTARTSYS then Some (- ERESTARTSYS, s1)
            else if recovering s \<and> terminating s1 then Some (- ECANCELED, s1)
            else case wait_event (w_env W) event_cond (s1\<lparr>dev_error := 0\<rparr>) of
              None \<Rightarrow> None
            | Some (r2, s2) \<Rightarrow>
                if r2 = - ERESTARTSYS then Some (- ERESTARTSYS, s2)
                else if terminating s2 then Some (- ECANCELED, s2)
                else if recovering s2 then rec W s2
                else Some (0, s2)) = Some y"
    show "case y of (r, t) \<Rightarrow> event_outcome r t"
      using e by (auto split: if_splits option.splits elim!: wait_cases)
        (blast intro: event_intros dest: IH [THEN case_prodD])+
  qed
  then show ?thesis by simp
qed

lemma length_strscpy_at:
  "off + n \<le> length bs \<Longrightarrow> 0 < n \<Longrightarrow> length (strscpy_at off n src bs) = length bs"
  by (auto simp: strscpy_at_def Let_def)

lemma length_complete_event [simp]: "length ev = 432 \<Longrightarrow> length (complete_event W info ev) = 432"
  by (simp add: complete_event_def length_strscpy_at)

lemma copy_to_user_events [simp]:
  "event_queue (snd (copy_to_user p bs s)) = event_queue s" "dev_error (snd (copy_to_user p bs s)) = dev_error s"
  by (induction bs arbitrary: p s) (auto split: option.splits)

section \<open>Properties\<close>

text \<open>
  The event reader of version 2 comes back only for a reason: with an event pending while no
  recovery is running and the file is open, or because of a signal, or because the file is being
  closed.  In particular a recovery never surfaces as an error of the event call.
\<close>

theorem event_wait_sound:
  "case event_wait W s of None \<Rightarrow> True | Some (r, t) \<Rightarrow> event_outcome r t"
  using event_wait_outcome by (auto split: option.split)

lemma complete_event_keeps:
  assumes "length ev = 432"
  shows "get32 0 (complete_event W info ev) = get32 0 ev" "get32 8 (complete_event W info ev) = get32 8 ev"
proof -
  have t: "get32 off (strscpy_at 344 16 src bs) = get32 off bs" if "off < 300" "length bs = 432" for off src bs
    using that by (auto simp: get32_def strscpy_at_def nth_append min_def Let_def)
  have l: "get32 off (bs[288 := a, 289 := b, 290 := c]) = get32 off bs" if "off < 280" for off bs a b c
    using that by (simp add: get32_def)
  show "get32 0 (complete_event W info ev) = get32 0 ev" "get32 8 (complete_event W info ev) = get32 8 ev"
    using assms by (simp_all add: complete_event_def get32_put32_other length_strscpy_at l t)
qed

text \<open>
  A pending event reaches its reader: on an open file, outside recovery, the call returns at once
  with the oldest event in the caller's buffer, its type and code as the device wrote them, the
  event is gone from the ring and the next one is in front.
\<close>

theorem event_delivered:
  assumes "\<not> terminating s" "\<not> recovering s" "dx_dev_list_get s" "evq_ok (event_queue s)"
    and "evq_pending (event_queue s) = e # es" "length e = 432" "m_data u \<noteq> 0" "\<forall>a. umem s a \<noteq> None"
  shows "\<exists>t img. dxrt_handle_event_v2 W u s = Some (0, t) \<and> copy_from_user (m_data u) 432 t = Some img \<and>
    get32 0 img = get32 0 e \<and> get32 8 img = get32 8 e \<and> (get32 0 e = 1 \<or> img = e) \<and>
    evq_pending (event_queue t) = es \<and> dev_error t = (if get32 0 e = 1 then get32 8 e else 0)"
proof -
  let ?s = "s\<lparr>dev_error := 0\<rparr>"
  obtain q where q: "evq_pop (event_queue s) = (Some e, q)" "evq_pending q = es"
    using events.deq_cons [OF assms(4,5)] by (metis prod.collapse)
  have "0 < count (event_queue s)"
    using assms(4,5) by (cases "count (event_queue s)") (auto simp: evq_pending_def)
  then have "event_cond ?s" using assms(3)
    by (simp add: event_cond_def dx_pcie_is_event_pending_def dx_dev_list_get_def)
  then have w: "event_wait W s = Some (0, ?s)"
    using assms(1,2) by (subst event_wait.simps) simp
  define v where "v = (if get32 0 e = 1 then s\<lparr>event_queue := q, dev_error := get32 8 e, dev_notify := 0\<rparr>
      else s\<lparr>event_queue := q, dev_error := 0, dev_notify := get32 8 e\<rparr>)"
  obtain info where i: "dx_pcie_get_driver_info W v = Some info"
    using assms(3) by (simp add: v_def dx_pcie_get_driver_info_def dx_dev_list_get_def)
  let ?img = "complete_event W info e"
  have ok: "fst (copy_to_user (m_data u) ?img v)" using assms(8) by (intro copy_to_user_writable) (simp add: v_def)
  let ?t = "snd (copy_to_user (m_data u) ?img v)"
  have "dx_pcie_dequeue_event_response (w_env W) ?s = Some (e, s\<lparr>event_queue := q, dev_error := 0\<rparr>)"
    using q(1) assms(3) by (simp add: dx_pcie_dequeue_event_response_def dx_dev_list_get_def)
  then have d: "deliver_event W u ?s = Some (0, ?t)"
    using i ok assms(7) unfolding deliver_event_def v_def by (auto simp: case_prod_beta Let_def split: if_splits)
  have "dxrt_handle_event_v2 W u s = Some (0, ?t)" using w d assms(1) by (simp add: dxrt_handle_event_v2_def)
  moreover have "copy_from_user (m_data u) 432 ?t = Some ?img" using copy_user_roundtrip [OF ok] assms(6) by simp
  moreover have "event_queue ?t = q" "dev_error ?t = (if get32 0 e = 1 then get32 8 e else 0)"
    by (simp_all add: v_def)
  moreover have "get32 0 e = 1 \<or> ?img = e" by (simp add: complete_event_def)
  ultimately show ?thesis using complete_event_keeps [OF assms(6), of W info] q(2) by metis
qed

theorem event_delivered_witness:
  "\<exists>t. dxrt_handle_event_v2 example_world ask (example_dev\<lparr>umem := user_ram,
     event_queue := evq_push (error_event 300) (event_queue example_dev)\<rparr>) = Some (0, t) \<and> dev_error t = 300"
proof -
  let ?s = "example_dev\<lparr>umem := user_ram, event_queue := evq_push (error_event 300) (event_queue example_dev)\<rparr>"
  have q: "evq_ok (event_queue ?s)" "evq_pending (event_queue ?s) = [error_event 300]"
    using events.enq_inv [of "event_queue example_dev"] events.enq_pending [of "event_queue example_dev"] by simp_all
  have x: "\<not> terminating ?s" "\<not> recovering ?s" "dx_dev_list_get ?s"
    using example_dev_ok(1) by (simp_all add: dx_dev_list_get_def) (simp_all add: example_defs)
  have e: "length (error_event 300) = 432" "get32 0 (error_event 300) = 1" "get32 8 (error_event 300) = 300"
    by (simp_all add: error_event_def zero_event_def get32_put32_other)
  show ?thesis using event_delivered [of ?s "error_event 300" "[]" ask example_world] q x e by auto
qed

text \<open>
  Two replies carry uninitialised kernel stack to the caller: the reserved words of the second
  driver information record, and four board fields of the identification record when the
  firmware is not asked.
\<close>

theorem stack_bytes_leak:
  "drop 20 (rt_info_v2 W) = map (w_stack W) [20..<84] \<and>
   take 8 (drop 30 (fixed_info a n c (dev_info W s))) = map (w_stack W) [30..<38]"
proof -
  have "rt_info_v2 W ! i = w_stack W i" if "20 \<le> i" "i < 84" for i
    using that by (auto simp: rt_info_v2_def strscpy_at_def Let_def nth_append nth_put32 min_def)
  moreover have "length (rt_info_v2 W) = 84" by (simp add: rt_info_v2_def length_strscpy_at)
  ultimately have a: "drop 20 (rt_info_v2 W) = map (w_stack W) [20..<84]"
    by (intro nth_equalityI) (simp_all del: upt_rec_numeral)
  have "fixed_info a n c (dev_info W s) ! i = w_stack W i" if "30 \<le> i" "i < 38" for i
    using that by (simp add: fixed_info_def dev_info_def put16_def put64_def nth_put32)
  then have "take 8 (drop 30 (fixed_info a n c (dev_info W s))) = map (w_stack W) [30..<38]"
    by (intro nth_equalityI) (simp_all add: fixed_info_def dev_info_def del: upt_rec_numeral)
  with a show ?thesis by blast
qed

text \<open>
  An event call on a device that has left the device list dereferences the missing device: the
  dequeue reports nothing, and the driver information is fetched all the same.
\<close>

theorem event_after_removal: "\<not> dx_dev_list_get s \<Longrightarrow> dxrt_handle_event W u s = None"
  by (auto simp: dxrt_handle_event_def deliver_event_def dx_pcie_dequeue_event_response_def
      dx_pcie_get_driver_info_def dx_dev_list_get_def Let_def)

end
