(* ===== verification/Dx_Dispatch.thy ===== *)
theory Dx_Dispatch
  imports Dx_Events
begin

text \<open>
  The recovery command and the command table of \<^verbatim>\<open>rt/dxrt_drv_message.c\<close>.  The recovery command
  resets the DMA channels, flushes the session state, has the firmware reboot and waits for the
  edge of its readiness flag and then for the readiness worker.  \<open>w_reset_dma_channels\<close> stands for
  the channel reset of the PCIe module: 0 for success, 1 when it had to reset the bus, negative for
  an error.
\<close>

section \<open>Waiting for a commanded reboot\<close>

definition send_recovery :: "world \<Rightarrow> dxrt_message \<Rightarrow> dxdev \<Rightarrow> dxdev" where
  "send_recovery W u s =
     (case msg s of
        None \<Rightarrow> s
      | Some m \<Rightarrow>
          let s1 = mutex_lock W s;
              s2 = (if 0 < m_size u \<and> m_size u < SIZEOF_MSG
                    then snd (dxrt_copy_from_user_io (m + MSG_DATA) (m_data u) (unat (m_size u)) s1)
                    else s1)
          in dx_pcie_notify_msg_to_device (w_env W) (s2\<lparr>bar := dxrt_msg_to_dev m u (bar s2)\<rparr>))"

definition test_cleared :: "dxdev \<Rightarrow> int option" where
  "test_cleared s = (if dx_dlmsg_mailbox_ready (dl s) (bar s) then None else Some 1)"

definition test_ready :: "dxdev \<Rightarrow> int option" where
  "test_ready s = (if dx_dlmsg_mailbox_ready (dl s) (bar s) then Some 1 else None)"

abbreviation (input) DXRT_FW_CMD_ACK_WINDOW_MS :: u32 where "DXRT_FW_CMD_ACK_WINDOW_MS \<equiv> 2000"

definition await_reboot :: "world \<Rightarrow> dxdev \<Rightarrow> (bool \<times> dxdev) option" where
  "await_reboot W s =
     (if dl s = None then Some (True, s)
      else
        let total = jiffies s + msecs_to_jiffies (w_hz W) (w_dlmsg_ready_timeout_ms W);
            ack0 = jiffies s + msecs_to_jiffies (w_hz W) DXRT_FW_CMD_ACK_WINDOW_MS;
            ack = (if time_after ack0 total then total else ack0)
        in case until_deadline (w_env W) test_cleared 0 ack s of
             None \<Rightarrow> None
           | Some (r, s1) \<Rightarrow>
               if r = 0 then Some (False, s1)
               else map_option (\<lambda>(r2, s2). (r2 \<noteq> 0, s2))
                      (until_deadline (w_env W) test_ready 0 total s1))"

fun final_errno :: "dxrt_dev_state \<Rightarrow> int" where
  "final_errno STATE_READY = 0"
| "final_errno STATE_PERM_FAIL = - ENODEV"
| "final_errno STATE_FW_HANG = - EIO"
| "final_errno _ = - EAGAIN"

definition dxrt_wait_fw_reboot_complete ::
  "world \<Rightarrow> dxrt_message \<Rightarrow> dxdev \<Rightarrow> (int \<times> dxdev) option" where
  "dxrt_wait_fw_reboot_complete W u s =
     (case await_reboot W (send_recovery W u s) of
        None \<Rightarrow> None
      | Some (ready, s1) \<Rightarrow>
          if \<not> ready then Some (- ETIMEDOUT, dx_pcie_set_init_completed s1)
          else
            let s2 = (dx_pcie_set_init_completed (s1\<lparr>dev_state := STATE_TRANSPORT_OK\<rparr>))\<lparr>ready_work := False\<rparr>
            in map_option (\<lambda>s3. (final_errno (dev_state s3), s3)) (dxrt_recovery_ready_work_fn W s2))"

section \<open>The recovery command\<close>

definition in_transition :: "dxdev \<Rightarrow> bool" where
  "in_transition s \<longleftrightarrow> dev_state s = STATE_RECOVERING \<or> dev_state s = STATE_TRANSPORT_OK"

text \<open>Disable and enable one hardware queue under its mutex, which may sleep.\<close>

definition toggle_queue :: "world \<Rightarrow> (dxdev \<Rightarrow> iomem) \<Rightarrow> dxdev \<Rightarrow> dxdev" where
  "toggle_queue W queue_of s =
     (case queue_of s of
        None \<Rightarrow> s
      | Some q \<Rightarrow>
          let s1 = mutex_lock W s in s1\<lparr>bar := dxrt_enable_queue q (dxrt_disable_queue q (bar s1))\<rparr>)"

definition begin_command :: "dxdev \<Rightarrow> dxdev" where
  "begin_command s =
     s\<lparr>dev_state := STATE_RECOVERING, last_recovery_reason := REASON_FW_TIMEOUT, recovering := True,
       recovery_epoch := recovery_epoch s + 1, sched := clear_queue_list (sched s)\<rparr>"

definition flush_session :: "world \<Rightarrow> dxdev \<Rightarrow> dxdev" where
  "flush_session W s =
     toggle_queue W request_high_queue (toggle_queue W request_queue2 (toggle_queue W request_queue1
       (toggle_queue W request_queue (dxrt_clear_all_pending (dx_pcie_clear_event_response
         (snd (dx_pcie_clear_response_queue s)))))))"

definition finish_command :: "int \<Rightarrow> dxdev \<Rightarrow> dxdev" where
  "finish_command ret s =
     (let s1 = s\<lparr>recovering := False\<rparr> in
      if in_transition s1
      then s1\<lparr>dev_state := (if ret = 0 then STATE_READY else STATE_WAITING_USER)\<rparr>
      else s1)"

definition dxrt_recovery_device :: "world \<Rightarrow> dxrt_message \<Rightarrow> dxdev \<Rightarrow> (int \<times> dxdev) option" where
  "dxrt_recovery_device W u s =
     (if dtype s = DX_STD then Some (0, s)
      else if in_transition s then Some (- EAGAIN, s)
      else let s1 = mutex_lock W s in
        if in_transition s1 then Some (- EAGAIN, s1)
        else case w_reset_dma_channels W (begin_command s1) of (r, s2) \<Rightarrow>
          if r = - EAGAIN then Some (- EAGAIN, s2)
          else let s3 = flush_session W s2 in
            map_option (\<lambda>(ret, s4). (ret, finish_command ret s4))
              (if r = 1 then Some (0, dx_pcie_set_init_completed s3)
               else if r = 0 then dxrt_wait_fw_reboot_complete W u s3
               else Some (r, s3)))"

section \<open>The command table\<close>

type_synonym handler = "world \<Rightarrow> dxrt_message \<Rightarrow> dxdev \<Rightarrow> (int \<times> dxdev) option"

definition message_handler :: "int \<Rightarrow> handler option" where
  "message_handler cmd =
     (if cmd = DXRT_CMD_IDENTIFY_DEVICE then Some dxrt_identify_device
      else if cmd = DXRT_CMD_WRITE_MEM then Some (\<lambda>W u s. Some (dxrt_write_mem W u s))
      else if cmd = DXRT_CMD_READ_MEM then Some dxrt_read_mem
      else if cmd = DXRT_CMD_CPU_CACHE_FLUSH then Some (\<lambda>W u s. Some (dxrt_cpu_cache_flush u s, s))
      else if cmd \<in> {DXRT_CMD_WRITE_INPUT_DMA_CH0, DXRT_CMD_WRITE_INPUT_DMA_CH1, DXRT_CMD_WRITE_INPUT_DMA_CH2}
        then Some dxrt_write_input
      else if cmd \<in> {DXRT_CMD_READ_OUTPUT_DMA_CH0, DXRT_CMD_READ_OUTPUT_DMA_CH1, DXRT_CMD_READ_OUTPUT_DMA_CH2}
        then Some dxrt_read_output
      else if cmd = DXRT_CMD_TERMINATE_EVENT then Some dxrt_terminate_event
      else if cmd = DXRT_CMD_SOC_CUSTOM then Some dxrt_soc_custom
      else if cmd \<in> {DXRT_CMD_GET_STATUS, DXRT_CMD_UPDATE_CONFIG, DXRT_CMD_UPDATE_CONFIG_JSON, DXRT_CMD_DUMP,
          DXRT_CMD_CUSTOM, DXRT_CMD_START, DXRT_CMD_PCIE}
        then Some (\<lambda>W u s. Some (dxrt_msg_general W u s))
      else if cmd = DXRT_CMD_RESET then Some (\<lambda>W u s. Some (dxrt_reset_device W u s))
      else if cmd = DXRT_CMD_UPDATE_FIRMWARE then Some dxrt_update_firmware
      else if cmd = DXRT_CMD_GET_LOG then Some (\<lambda>W. dxrt_get_log)
      else if cmd = DXRT_CMD_EVENT then Some dxrt_handle_event
      else if cmd = DXRT_CMD_DRV_INFO then Some dxrt_handle_drv_info
      else if cmd = DXRT_CMD_SCHEDULE then Some (\<lambda>W u s. Some (dxrt_schedule W u s))
      else if cmd = DXRT_CMD_UPLOAD_FIRMWARE then Some dxrt_upload_firmware
      else if cmd = DXRT_CMD_NPU_RUN_REQ then Some dxrt_npu_run_request
      else if cmd = DXRT_CMD_NPU_RUN_RESP then Some dxrt_npu_run_response_v1
      else if cmd = DXRT_CMD_NPU_RUN_RESP_V2 then Some dxrt_npu_run_response_v2
      else if cmd = DXRT_CMD_EVENT_V2 then Some dxrt_handle_event_v2
      else if cmd = DXRT_CMD_RECOVERY then Some dxrt_recovery_device
      else if cmd = DXRT_CMD_TERMINATE then Some dxrt_terminate
      else None)"

text \<open>A negative command would index the table below its start.\<close>

definition message_handler_general :: handler where
  "message_handler_general W u s =
     (if DXRT_CMD_MAX \<le> m_cmd u then Some (- EINVAL, s)
      else if m_cmd u < 0 then None
      else case message_handler (m_cmd u) of
        None \<Rightarrow> Some (- EINVAL, s)
      | Some h \<Rightarrow>
          let ret = dxrt_dev_state_errno s in
          if ret \<noteq> 0 \<and> \<not> dxrt_cmd_allowed_while_not_ready (m_cmd u) (dev_state s) then Some (ret, s)
          else h W u s)"

section \<open>The waits of the recovery command\<close>

lemma await_reboot_returns:
  assumes "clock_ok (w_env W)"
  obtains b t where "await_reboot W s = Some (b, t)"
proof (cases "dl s = None")
  case True
  then show ?thesis using that by (simp add: await_reboot_def)
next
  case False
  then obtain d where d: "dl s = Some d" by blast
  define total where "total = jiffies s + msecs_to_jiffies (w_hz W) (w_dlmsg_ready_timeout_ms W)"
  define ack where "ack = (if time_after (jiffies s + msecs_to_jiffies (w_hz W) 2000) total then total
      else jiffies s + msecs_to_jiffies (w_hz W) 2000)"
  obtain r1 s1 where a: "until_deadline (w_env W) test_cleared 0 ack s = Some (r1, s1)"
    using until_deadline_returns [OF assms] .
  obtain r2 s2 where b: "until_deadline (w_env W) test_ready 0 total s1 = Some (r2, s2)"
    using until_deadline_returns [OF assms] .
  have "await_reboot W s = (case until_deadline (w_env W) test_cleared 0 ack s of
       None \<Rightarrow> None
     | Some (r, s1) \<Rightarrow> if r = 0 then Some (False, s1)
         else map_option (\<lambda>(r2, s2). (r2 \<noteq> 0, s2)) (until_deadline (w_env W) test_ready 0 total s1))"
    unfolding await_reboot_def ack_def total_def Let_def using d by simp
  then have "await_reboot W s = Some (if r1 = 0 then (False, s1) else (r2 \<noteq> 0, s2))" by (simp add: a b)
  then show ?thesis using that by (cases "r1 = 0") auto
qed

lemma reboot_complete_returns:
  assumes "clock_ok (w_env W)"
  obtains r t where "dxrt_wait_fw_reboot_complete W u s = Some (r, t)" "r = 0 \<longrightarrow> dev_state t = STATE_READY"
proof -
  obtain b v where a: "await_reboot W (send_recovery W u s) = Some (b, v)"
    using await_reboot_returns [OF assms] .
  define v2 where "v2 = (dx_pcie_set_init_completed (v\<lparr>dev_state := STATE_TRANSPORT_OK\<rparr>))\<lparr>ready_work := False\<rparr>"
  obtain t where w: "dxrt_recovery_ready_work_fn W v2 = Some t" using worker_returns [OF assms] by blast
  have f: "final_errno x = 0 \<Longrightarrow> x = STATE_READY" for x by (cases x) simp_all
  show thesis
  proof (cases b)
    case True
    then show ?thesis
      using a w f by (intro that) (auto simp: dxrt_wait_fw_reboot_complete_def Let_def v2_def [symmetric])
  next
    case False
    then show ?thesis using a by (intro that) (auto simp: dxrt_wait_fw_reboot_complete_def)
  qed
qed

lemma finish_command_state:
  "\<not> recovering (finish_command r t)" "\<not> in_transition (finish_command r t)"
  "dev_state t = STATE_READY \<Longrightarrow> dev_state (finish_command r t) = STATE_READY"
  by (simp_all add: finish_command_def in_transition_def Let_def)

lemma dispatch_table: "message_handler cmd \<noteq> None \<longleftrightarrow> 0 \<le> cmd \<and> cmd < 32"
proof -
  have "0 \<le> cmd \<and> cmd < 32 \<longleftrightarrow> cmd \<in> set [0..31]" by auto
  also have "[0..31 :: int] = [0, 1, 2, 3, 4, 5, 6, 7, 8, 9, 10, 11, 12, 13, 14, 15, 16, 17, 18, 19, 20, 21, 22, 23,
      24, 25, 26, 27, 28, 29, 30, 31]" by code_simp
  finally show ?thesis by (auto simp: message_handler_def)
qed

lemma await_reboot_edge:
  assumes "await_reboot W s = Some (True, t)" "dl s \<noteq> None"
  shows "\<exists>i j. \<not> dx_dlmsg_mailbox_ready (dl ((yield (w_env W) ^^ i) s)) (bar ((yield (w_env W) ^^ i) s)) \<and>
    t = (yield (w_env W) ^^ j) ((yield (w_env W) ^^ i) s) \<and> dx_dlmsg_mailbox_ready (dl t) (bar t)"
proof -
  obtain ack total r1 s1 r2 where a: "until_deadline (w_env W) test_cleared 0 ack s = Some (r1, s1)" "r1 \<noteq> 0"
    and b: "until_deadline (w_env W) test_ready 0 total s1 = Some (r2, t)" "r2 \<noteq> 0"
    using assms by (auto simp: await_reboot_def Let_def split: option.splits if_splits)
  obtain i j where "s1 = (yield (w_env W) ^^ i) s" "t = (yield (w_env W) ^^ j) s1"
    using until_sleep.ends [OF a(1)] until_sleep.ends [OF b(1)] by auto
  moreover have "\<not> dx_dlmsg_mailbox_ready (dl s1) (bar s1)" "dx_dlmsg_mailbox_ready (dl t) (bar t)"
    using until_deadline_verdict [OF a(1)] until_deadline_verdict [OF b(1)] a(2) b(2)
    by (auto simp: test_cleared_def test_ready_def split: if_splits)
  ultimately show ?thesis by blast
qed

text \<open>A firmware that is down at first and publishes its readiness at the next scheduling point.\<close>

definition ready_ram :: mmio where
  "ready_ram = (\<lambda>_. 0)(65487 := 3, 65504 := 68, 65505 := 65, 65506 := 69, 65507 := 82, 65508 := 1, 65512 := 8)"

lemma ready_ram_ready: "dx_dlmsg_mailbox_ready (Some 65472) ready_ram"
  by (simp add: ready_ram_def dx_dlmsg_mailbox_ready_def dx_dlmsg_ready_valid_def readb_def readl_def readw_def
      le32_def Let_def)

lemma reboot_example:
  "\<exists>t. dxrt_wait_fw_reboot_complete (example_world\<lparr>w_env := reply_env ready_ram\<rparr>)
     \<lparr>m_cmd = 25, m_sub_cmd = 0, m_data = 0, m_size = 0\<rparr> (example_dev\<lparr>msg := None\<rparr>) = Some (- 5, t)"
proof -
  let ?W = "example_world\<lparr>w_env := reply_env ready_ram\<rparr>" and ?s = "example_dev\<lparr>msg := None\<rparr>"
  define v where "v = yield (reply_env ready_ram) ?s"
  define w where "w = (dx_pcie_set_init_completed (v\<lparr>dev_state := STATE_TRANSPORT_OK\<rparr>))\<lparr>ready_work := False\<rparr>"
  have down: "\<not> dx_dlmsg_mailbox_ready (Some d) (\<lambda>_. 0)" for d
    by (simp add: dx_dlmsg_mailbox_ready_def readb_def)
  have f: "dl ?s = Some 65472" "bar ?s = (\<lambda>_. 0)" "jiffies ?s = jiffies example_dev"
    by (simp_all add: example_defs)
  have v: "dx_dlmsg_mailbox_ready (dl v) (bar v)" using ready_ram_ready f by (simp add: v_def yield_def reply_env_def)
  have a: "until_deadline (reply_env ready_ram) test_cleared 0 d ?s = Some (1, ?s)" for d
    by (subst until_deadline.simps) (simp add: test_cleared_def f down)
  have m: "msecs_to_jiffies 250 5000 = 1250" by (simp add: msecs_to_jiffies_def)
  have b: "until_deadline (reply_env ready_ram) test_ready 0 (jiffies example_dev + 1250) ?s = Some (1, v)"
    using v by (subst until_deadline.simps, subst until_deadline.simps)
      (simp add: test_ready_def f down time_after_eq_def v_def)
  have e: "await_reboot ?W ?s = Some (True, v)"
    using a b m f by (simp add: await_reboot_def Let_def example_world_def)
  have w: "dev_state w = STATE_TRANSPORT_OK" "msg w = None" "last_recovery_reason w = 0" "dl w = dl v" "bar w = bar v"
      "perm_fail_count_in_window w = 0"
    by (simp_all add: w_def v_def yield_def reply_env_def dx_pcie_set_init_completed_def) (simp_all add: example_defs)
  let ?h = "ready_hang ?W (w\<lparr>recovery_fail_count := recovery_fail_count w + 1\<rparr>)"
  have "dx_dlmsg_wait_mailbox_ready (reply_env ready_ram) hz (dl w) ms w = Some (True, w)" for hz ms
    using v w f by (cases "dl v") (auto simp: dx_dlmsg_wait_mailbox_ready_def ready_loop.simps dx_dlmsg_mailbox_ready_def)
  moreover have "dl w \<noteq> None" using v w by (cases "dl v") (simp_all add: dx_dlmsg_mailbox_ready_def)
  ultimately have p: "dxrt_recovery_ready_work_fn ?W w = Some ?h"
    using w by (simp add: dxrt_recovery_ready_work_fn_def ready_probe_def fw_ping_probe_def superseded_def Let_def)
  have "dev_state ?h = STATE_FW_HANG"
    using w by (simp add: ready_hang_def perm_fail_check_def Let_def example_world_def word_le_nat_alt)
  then show ?thesis using e p
    by (simp add: dxrt_wait_fw_reboot_complete_def send_recovery_def Let_def flip: w_def)
qed

lemma recovery_begin_queues:
  "request_queue1 (recovery_begin r s) = request_queue1 s" "request_queue2 (recovery_begin r s) = request_queue2 s"
  "request_high_queue (recovery_begin r s) = request_high_queue s" "last_recovery_reason (recovery_begin r s) = r"
  "dtype (recovery_begin r s) = dtype s" "idx (recovery_begin r s) = idx s" "dl (recovery_begin r s) = dl s"
  "msg (recovery_begin r s) = msg s" "dw_present (recovery_begin r s) = dw_present s"
  "bar (recovery_begin r s) = bar s" "ep_ram_info (recovery_begin r s) = ep_ram_info s"
  "dx_ver (recovery_begin r s) = dx_ver s" "ping_seq_gen (recovery_begin r s) = ping_seq_gen s"
  by (simp_all add: recovery_begin_def emit_recovery_event_def dx_pcie_enqueue_recovery_event_def
      dx_pcie_interrupt_event_wakeup_def Let_def dxrt_clear_all_pending_def dx_pcie_clear_event_response_def
      dx_pcie_clear_response_queue_def)

lemma not_ready_gate:
  assumes "dtype s \<noteq> 1" "dev_state s \<noteq> STATE_READY" "m_cmd u \<in> {0..<32} - {17, 18, 19, 28, 31}"
    and "m_cmd u = 25 \<Longrightarrow> in_transition s"
  shows "message_handler_general W u s = Some (state_errno (dev_state s), s) \<and> state_errno (dev_state s) \<in> {- 5, - 61}"
proof -
  have "message_handler (m_cmd u) \<noteq> None" using assms(3) dispatch_table by simp
  moreover have "state_errno (dev_state s) \<in> {- 5, - 61}" using assms(2) by (cases "dev_state s") simp_all
  moreover have "\<not> dxrt_cmd_allowed_while_not_ready (m_cmd u) (dev_state s)"
    using assms(3,4) by (auto simp: dxrt_cmd_allowed_while_not_ready_def in_transition_def)
  ultimately show ?thesis using assms(1,3)
    by (auto simp: message_handler_general_def dxrt_dev_state_errno_def Let_def split: option.split)
qed

section \<open>Properties\<close>

text \<open>
  (C28) The recovery command always returns when the clock runs.  It is turned away with
  \<open>EAGAIN\<close> while another recovery is under way, or when the channel reset says that one has taken
  over; otherwise it leaves the device out of recovery and in a final state, and reports success
  only for a device that is ready, unless the whole endpoint was reset.
\<close>

theorem recovery_command_ends:
  assumes "clock_ok (w_env W)" "dtype s \<noteq> 1"
  shows "\<exists>r t. dxrt_recovery_device W u s = Some (r, t) \<and>
    (let reset = w_reset_dma_channels W (begin_command (mutex_lock W s)) in
       (r = - 11 \<and> in_transition t \<and> t \<in> {s, mutex_lock W s}) \<or>
       (r = - 11 \<and> reset = (r, t)) \<or>
       (\<not> recovering t \<and> \<not> in_transition t \<and> (r = 0 \<longrightarrow> dev_state t = STATE_READY \<or> fst reset = 1)))"
proof -
  let ?m = "mutex_lock W s"
  obtain r v where res: "w_reset_dma_channels W (begin_command ?m) = (r, v)" by fastforce
  let ?f = "flush_session W v"
  obtain w t where c: "dxrt_wait_fw_reboot_complete W u ?f = Some (w, t)" "w = 0 \<longrightarrow> dev_state t = STATE_READY"
    using reboot_complete_returns [OF assms(1)] .
  consider (busy) "in_transition s \<or> in_transition ?m" | (taken) "\<not> in_transition s" "\<not> in_transition ?m" "r = - 11"
    | (bus) "\<not> in_transition s" "\<not> in_transition ?m" "r = 1"
    | (reboot) "\<not> in_transition s" "\<not> in_transition ?m" "r = 0"
    | (err) "\<not> in_transition s" "\<not> in_transition ?m" "r \<noteq> - 11" "r \<noteq> 0" "r \<noteq> 1" by blast
  then show ?thesis
  proof cases
    case busy
    then show ?thesis using assms(2) by (auto simp: dxrt_recovery_device_def Let_def)
  next
    case taken
    then show ?thesis using assms(2) res by (simp add: dxrt_recovery_device_def Let_def)
  next
    case bus
    then show ?thesis using assms(2) res finish_command_state by (simp add: dxrt_recovery_device_def Let_def)
  next
    case reboot
    then show ?thesis using assms(2) res c finish_command_state
      by (simp add: dxrt_recovery_device_def Let_def)
  next
    case err
    then show ?thesis using assms(2) res finish_command_state by (simp add: dxrt_recovery_device_def Let_def)
  qed
qed


text \<open>
  (C30) A device that is not ready serves nothing but events, information and termination, and the
  recovery command unless a recovery is under way: every other command gets the error of the state
  and leaves the device untouched.
\<close>

theorem not_ready_refused:
  assumes "dtype s \<noteq> 1" "dev_state s \<noteq> STATE_READY" "m_cmd u \<in> {0..<32} - {17, 18, 19, 28, 31}"
    and "m_cmd u = 25 \<Longrightarrow> in_transition s"
  shows "message_handler_general W u s = Some (state_errno (dev_state s), s) \<and> state_errno (dev_state s) \<in> {- 5, - 61}"
  using not_ready_gate [OF assms] .

theorem not_ready_refused_witness:
  "message_handler_general example_world \<lparr>m_cmd = 22, m_sub_cmd = 0, m_data = 0, m_size = 0\<rparr>
     (example_dev\<lparr>dev_state := STATE_TRANSPORT_OK\<rparr>) =
   Some (- 61, example_dev\<lparr>dev_state := STATE_TRANSPORT_OK\<rparr>)"
proof -
  have "dtype example_dev \<noteq> 1" by (simp add: example_defs)
  then show ?thesis
    using not_ready_refused [of "example_dev\<lparr>dev_state := STATE_TRANSPORT_OK\<rparr>"
        "\<lparr>m_cmd = 22, m_sub_cmd = 0, m_data = 0, m_size = 0\<rparr>" example_world] by simp
qed

theorem recovery_command_ends_witness:
  "\<exists>r t. dxrt_recovery_device (example_world\<lparr>w_env := dev_clock\<rparr>)
     \<lparr>m_cmd = 25, m_sub_cmd = 0, m_data = 0, m_size = 0\<rparr> example_dev = Some (r, t) \<and>
     (r = - 11 \<or> \<not> recovering t \<and> \<not> in_transition t)"
proof -
  have "dtype example_dev \<noteq> 1" "clock_ok (w_env (example_world\<lparr>w_env := dev_clock\<rparr>))"
    by (simp_all add: example_defs dev_clock_ok)
  then show ?thesis
    using recovery_command_ends [of "example_world\<lparr>w_env := dev_clock\<rparr>" example_dev
        "\<lparr>m_cmd = 25, m_sub_cmd = 0, m_data = 0, m_size = 0\<rparr>"] unfolding Let_def by blast
qed



text \<open>
  The recovery command does not look at the recovery epoch when it finishes: a link loss that comes
  while it runs starts a recovery of its own, and the command takes the device out of that one too,
  letting the clients in and asking the user to decide.
\<close>

theorem recovery_command_overrides:
  "\<exists>t. dxrt_recovery_device
      (example_world\<lparr>w_env := (\<lambda>k s. if recovering s then dxrt_link_event_notify False s else s),
         w_reset_dma_channels := (\<lambda>s. (- 5, s))\<rparr>)
      \<lparr>m_cmd = 25, m_sub_cmd = 0, m_data = 0, m_size = 0\<rparr>
      (example_dev\<lparr>dev_state := STATE_FW_HANG, request_queue1 := None, request_queue2 := None,
         request_high_queue := None\<rparr>) = Some (- 5, t) \<and>
    recovery_epoch t = recovery_epoch example_dev + 2 \<and> last_recovery_reason t = REASON_LINK_FLAP \<and>
    \<not> recovering t \<and> dev_state t = STATE_WAITING_USER"
proof -
  define s where "s = example_dev\<lparr>dev_state := STATE_FW_HANG, request_queue1 := None, request_queue2 := None,
         request_high_queue := None\<rparr>"
  define E where "E = (\<lambda>(k :: nat) s. if recovering s then dxrt_link_event_notify False s else s)"
  define W where "W = example_world\<lparr>w_env := E, w_reset_dma_channels := (\<lambda>s. (- 5 :: int, s))\<rparr>"
  have s: "dtype s \<noteq> 1" "\<not> recovering s" "dev_state s = STATE_FW_HANG" "request_queue s = Some 0x8000"
      "recovery_epoch s = recovery_epoch example_dev"
    by (simp_all add: s_def example_defs)
  have m: "mutex_lock W s = s\<lparr>tick := Suc (tick s)\<rparr>"
    using s by (simp add: mutex_lock_def yield_def W_def E_def)
  define a where "a = begin_command (mutex_lock W s)"
  define v where "v = dxrt_clear_all_pending (dx_pcie_clear_event_response (snd (dx_pcie_clear_response_queue a)))"
  have v: "recovering v" "dtype v \<noteq> 1" "dev_state v = STATE_RECOVERING" "request_queue v = Some 0x8000"
      "recovery_epoch v = recovery_epoch example_dev + 1" "request_queue1 v = None" "request_queue2 v = None"
      "request_high_queue v = None"
    using s by (simp_all add: v_def a_def m begin_command_def dx_pcie_clear_response_queue_def
        dx_pcie_clear_event_response_def dxrt_clear_all_pending_def) (simp_all add: s_def)
  define y where "y = mutex_lock W v"
  have y: "recovering y" "dev_state y = STATE_RECOVERING" "recovery_epoch y = recovery_epoch example_dev + 2"
      "last_recovery_reason y = 1" "request_queue1 y = None" "request_queue2 y = None" "request_high_queue y = None"
    using v by (simp_all add: y_def mutex_lock_def yield_def W_def E_def link_down_begin recovery_begin_queues)
  have f: "flush_session W a = y\<lparr>bar := dxrt_enable_queue 0x8000 (dxrt_disable_queue 0x8000 (bar y))\<rparr>"
    using v y by (simp add: flush_session_def toggle_queue_def v_def [symmetric] y_def [symmetric] Let_def)
  have "w_reset_dma_channels W x = (- 5, x)" for x by (simp add: W_def)
  then have "dxrt_recovery_device W u s = Some (- 5, finish_command (- 5) (flush_session W a))" for u
    using s by (simp add: dxrt_recovery_device_def in_transition_def Let_def m a_def)
  then show ?thesis unfolding s_def [symmetric] E_def [symmetric] W_def [symmetric]
    using y f by (simp add: finish_command_def in_transition_def Let_def)
qed

end
