(* ===== verification/Dx_Cdev.thy ===== *)
theory Dx_Cdev
  imports Dx_Dispatch
begin

text \<open>
  The character device of \<^verbatim>\<open>rt/dxrt_drv_cdev.c\<close>: the file operations, and the creation and removal of
  the devices when the module is loaded and unloaded.  The file context (\<open>private_data\<close>,
  \<open>owner_tgid\<close>, \<open>terminating\<close>) is kept in the device state, for the one file whose calls are followed;
  the calls of other files are part of the environment.
\<close>

section \<open>Opening and closing\<close>

definition dxrt_dev_open :: "world \<Rightarrow> int \<Rightarrow> dxdev \<Rightarrow> int \<times> dxdev" where
  "dxrt_dev_open W tgid s =
     (if \<not> alloc_ok s then (- ENOMEM, s)
      else case (if dtype s = DX_ACC then w_sgdma_init W s else (0, s)) of (ret, t) \<Rightarrow>
        if ret \<noteq> 0 then (ret, t)
        else (0, t\<lparr>private_data := True, terminating := False, owner_tgid := tgid,
                   response := put32 0 0 (response t)\<rparr>))"

definition dxrt_wakeup_waiters :: "dxdev \<Rightarrow> dxdev" where
  "dxrt_wakeup_waiters s =
     (let s1 = s\<lparr>terminating := True\<rparr> in
      if dtype s = DX_ACC
      then snd (dx_pcie_interrupt_event_wakeup
             (fold (\<lambda>ch s. snd (dx_pcie_interrupt_wakeup ch s)) [0..<Suc MAX_PCIE_CH_NUM] s1))
      else s1\<lparr>dev_error := 99\<rparr>)"

definition dxrt_dev_release :: "world \<Rightarrow> dxdev \<Rightarrow> int \<times> dxdev" where
  "dxrt_dev_release W s =
     (if \<not> private_data s then (0, s)
      else (0, (if dtype s = DX_ACC then w_sgdma_deinit W s else s)\<lparr>private_data := False\<rparr>))"

definition dxrt_dev_flush :: "int \<Rightarrow> dxdev \<Rightarrow> int \<times> dxdev" where
  "dxrt_dev_flush tgid s =
     (if \<not> private_data s then (0, s)
      else if tgid \<noteq> owner_tgid s then (0, s)
      else (0, dxrt_wakeup_waiters s))"

section \<open>Reading, writing, mapping, polling\<close>

abbreviation (input) SIZEOF_RESPONSE :: nat where "SIZEOF_RESPONSE \<equiv> 40"
abbreviation (input) SIZEOF_REQUEST :: nat where "SIZEOF_REQUEST \<equiv> 80"

definition dxrt_dev_read :: "u64 \<Rightarrow> dxdev \<Rightarrow> int \<times> dxdev" where
  "dxrt_dev_read buf s =
     (if \<not> private_data s then (- ENODEV, s)
      else case copy_to_user buf (response s) s of (ok, t) \<Rightarrow>
        (if ok then int SIZEOF_RESPONSE else - EFAULT, t))"

text \<open>\<open>live_entries\<close> counts the list entries that are allocated.\<close>

definition dxrt_dev_write :: "u64 \<Rightarrow> nat \<Rightarrow> dxdev \<Rightarrow> int \<times> dxdev" where
  "dxrt_dev_write buf len s =
     (if \<not> private_data s then (- ENODEV, s)
      else if \<not> request_handler s then (0, s)
      else if \<not> alloc_ok s then (- ENOMEM, s)
      else
        let s1 = s\<lparr>live_entries := live_entries s + 1\<rparr>
        in if len \<noteq> SIZEOF_REQUEST then (- EINVAL, s1)
          else case copy_from_user buf len s1 of
            None \<Rightarrow> (- EFAULT, s1)
          | Some bs \<Rightarrow> (int len, s1\<lparr>requests := requests s1 @ [bs]\<rparr>))"

text \<open>
  Mapping and polling serve the standalone device only: \<open>dma_mmap\<close> is what the kernel's mapping
  of the NPU buffer returns, \<open>irq_event\<close> the NPU's interrupt flag.
\<close>

definition dxrt_dev_mmap :: "int \<Rightarrow> dxdev \<Rightarrow> int" where
  "dxrt_dev_mmap dma_mmap s =
     (if \<not> private_data s then - ENODEV else if dtype s = DX_STD then dma_mmap else - 1)"

definition dxrt_dev_poll :: "bool \<Rightarrow> dxdev \<Rightarrow> u32 \<times> bool" where
  "dxrt_dev_poll irq_event s =
     (if \<not> private_data s then (8, irq_event)
      else if dtype s = DX_STD then (if irq_event then 0x41 else 0, False)
      else (0, irq_event))"

section \<open>The ioctl\<close>

text \<open>
  The command words are \<open>_IOW('D', n, dxrt_message_t)\<close> with a structure of 24 bytes, and the
  enumeration goes on counting from the encoded word, so \<open>DXRT_IOCTL_MAX\<close> is a word too.
\<close>

abbreviation (input) DXRT_IOCTL_MAGIC :: u32 where "DXRT_IOCTL_MAGIC \<equiv> 0x44"
abbreviation (input) DXRT_IOCTL_MESSAGE :: u32 where "DXRT_IOCTL_MESSAGE \<equiv> 0x40184400"
abbreviation (input) DXRT_IOCTL_MAX :: u32 where "DXRT_IOCTL_MAX \<equiv> 0x40184402"

definition ioc_type :: "u32 \<Rightarrow> u32" where "ioc_type cmd = drop_bit 8 cmd AND 0xFF"
definition ioc_nr :: "u32 \<Rightarrow> u32" where "ioc_nr cmd = cmd AND 0xFF"

definition message_of :: "bytes \<Rightarrow> dxrt_message" where
  "message_of b = \<lparr>m_cmd = sint (get32 0 b), m_sub_cmd = sint (get32 4 b), m_data = get64 8 b, m_size = get32 16 b\<rparr>"

definition drop_pointers :: "dxdev \<Rightarrow> dxdev" where
  "drop_pointers s =
     s\<lparr>msg := None, log := None, dl := None, request_queue := None, request_queue1 := None,
       request_queue2 := None, request_high_queue := None\<rparr>"

definition dxrt_dev_ioctl :: "world \<Rightarrow> u32 \<Rightarrow> u64 \<Rightarrow> dxdev \<Rightarrow> (int \<times> dxdev) option" where
  "dxrt_dev_ioctl W cmd arg s =
     (if \<not> private_data s then Some (- ENODEV, s)
      else if ioc_type cmd \<noteq> DXRT_IOCTL_MAGIC \<or> DXRT_IOCTL_MAX \<le> ioc_nr cmd then Some (- EINVAL, s)
      else if cmd \<noteq> DXRT_IOCTL_MESSAGE then Some (0, s)
      else case copy_from_user arg 24 s of
        None \<Rightarrow> Some (- EFAULT, s)
      | Some b \<Rightarrow>
          let u = message_of b in
          if 0 \<le> m_cmd u \<and> m_cmd u < DXRT_CMD_MAX then
            (case dx_pcie_test_and_clear_init_completed s of (renew, s1) \<Rightarrow>
               if \<not> renew then message_handler_general W u s1
               else if dtype s1 \<noteq> DX_STD \<and> msg s1 \<noteq> None \<and> dx_pcie_get_message_area s1 = None
               then Some (- ENODEV, drop_pointers s1)
               else message_handler_general W u (dxrt_device_init W s1))
          else Some (- EINVAL, s))"

section \<open>Loading and unloading\<close>

text \<open>
  \<open>pool i\<close> is the state of the PCIe module's device \<open>i\<close>; \<open>created\<close> lists the devices that have a
  node, in the order of their creation.  \<open>region\<close> and \<open>dev_class\<close> are the registered numbers and
  class.  The kernel decides whether an allocation or a registration succeeds.
\<close>

record dxrt_driver =
  region :: bool
  dev_class :: bool
  created :: "nat list"
  pool :: "nat \<Rightarrow> dxdev"

text \<open>The zeroed structure with its list heads and counters initialised.\<close>

definition fresh_dxdev :: "dxdev \<Rightarrow> dxdev" where
  "fresh_dxdev s =
     s\<lparr>dtype := DX_ACC, variant := 200, mem_addr := 0, mem_size := 0, num_dma_ch := 0, msg := None, log := None,
       dl := None, request_queue := None, request_queue1 := None, request_queue2 := None,
       request_high_queue := None, dlmsg_contract_seen := False, sched := [], response_pending := (\<lambda>_. 0),
       dev_error := 0, dev_notify := 0, recovering := False, recovery_epoch := 0, response := replicate 40 0,
       request_handler := False, requests := []\<rparr>"

definition create_dxrt_device :: "(nat \<Rightarrow> bool) \<Rightarrow> nat \<Rightarrow> dxrt_driver \<Rightarrow> bool \<times> dxrt_driver" where
  "create_dxrt_device ok i d =
     (if \<not> ok i then (False, d)
      else (True, d\<lparr>created := created d @ [i],
        pool := (pool d)(i := dxrt_device_init_early (dxrt_recovery_state_init (fresh_dxdev (pool d i))))\<rparr>))"

definition remove_dxrt_device :: "nat \<Rightarrow> dxrt_driver \<Rightarrow> dxrt_driver" where
  "remove_dxrt_device i d =
     d\<lparr>created := removeAll i (created d),
       pool := (pool d)(i := dxrt_recovery_state_deinit (dx_pcie_unregister_link_event_callback
         (dx_pcie_unregister_event_callback (dx_pcie_unregister_response_callback (pool d i)))))\<rparr>"

function create_loop :: "(nat \<Rightarrow> bool) \<Rightarrow> nat \<Rightarrow> nat \<Rightarrow> dxrt_driver \<Rightarrow> int \<times> dxrt_driver" where
  "create_loop ok n i d =
     (if n \<le> i then (0, d)
      else case create_dxrt_device ok i d of (done, d1) \<Rightarrow>
        if done then create_loop ok n (Suc i) d1
        else (- 1, (fold remove_dxrt_device (rev [0..<i]) d1)\<lparr>dev_class := False, region := False\<rparr>))"
  by pat_completeness auto

termination by (relation "measure (\<lambda>(ok, n, i, d). n - i)") auto

declare create_loop.simps [simp del]

text \<open>\<open>chrdev\<close> and \<open>cls\<close> are the results of the two registrations, 0 for success.\<close>

definition dxrt_driver_cdev_init ::
  "int \<Rightarrow> int \<Rightarrow> (nat \<Rightarrow> bool) \<Rightarrow> nat \<Rightarrow> dxrt_driver \<Rightarrow> int \<times> dxrt_driver" where
  "dxrt_driver_cdev_init chrdev cls ok n d =
     (if chrdev < 0 then (chrdev, d)
      else if cls < 0 then (cls, d)
      else create_loop ok n 0 (d\<lparr>region := True, dev_class := True\<rparr>))"

definition dxrt_driver_cdev_deinit :: "nat \<Rightarrow> dxrt_driver \<Rightarrow> dxrt_driver" where
  "dxrt_driver_cdev_deinit n d =
     (fold remove_dxrt_device [0..<n] d)\<lparr>dev_class := False, region := False\<rparr>"

section \<open>Lemmas\<close>

lemma wakeup_keeps [simp]:
  "terminating (snd (dx_pcie_interrupt_wakeup ch s)) = terminating s"
  "terminating (snd (dx_pcie_interrupt_event_wakeup s)) = terminating s"
  for s :: dxdev
  by (simp_all add: dx_pcie_interrupt_wakeup_def dx_pcie_interrupt_event_wakeup_def Let_def)

lemma fold_wakeup_keeps [simp]:
  "terminating (fold (\<lambda>ch s. snd (dx_pcie_interrupt_wakeup ch s)) chs s) = terminating s" for s :: dxdev
  by (induction chs arbitrary: s) simp_all

lemma wakeup_terminates [simp]: "terminating (dxrt_wakeup_waiters s)"
  by (simp add: dxrt_wakeup_waiters_def Let_def)

text \<open>No callback of the module is registered with the PCIe module.\<close>

definition unhooked :: "dxdev \<Rightarrow> bool" where
  "unhooked s \<longleftrightarrow> \<not> response_callback s \<and> \<not> event_callback s \<and> \<not> link_event_callback s"

definition hooked :: "dxdev \<Rightarrow> bool" where
  "hooked s \<longleftrightarrow> response_callback s \<and> event_callback s \<and> link_event_callback s"

lemma fresh_frame [simp]: "idx (fresh_dxdev s) = idx s" "dtype (fresh_dxdev s) = 0"
  by (simp_all add: fresh_dxdev_def)

lemma state_init_frame [simp]:
  "idx (dxrt_recovery_state_init s) = idx s" "dtype (dxrt_recovery_state_init s) = dtype s"
  "dev_state (dxrt_recovery_state_init s) = STATE_READY"
  "recovering (dxrt_recovery_state_init s) = recovering s"
  by (simp_all add: dxrt_recovery_state_init_def)

lemma init_early_hooked:
  "idx s < 64 \<Longrightarrow> dtype s \<noteq> 1 \<Longrightarrow> hooked (dxrt_device_init_early s) \<and> idx (dxrt_device_init_early s) = idx s"
  by (simp add: dxrt_device_init_early_def hooked_def dx_pcie_register_link_event_callback_def
      dx_pcie_register_event_callback_def dx_pcie_register_response_callback_def dxrt_bind_pcie_resources_def
      dxrt_clear_all_pending_def Let_def)

lemma create_hooked:
  assumes "ok i" "idx (pool d i) < 64"
  shows "\<exists>d1. create_dxrt_device ok i d = (True, d1) \<and> created d1 = created d @ [i] \<and> hooked (pool d1 i) \<and>
    idx (pool d1 i) = idx (pool d i) \<and> (\<forall>j. j \<noteq> i \<longrightarrow> pool d1 j = pool d j) \<and>
    region d1 = region d \<and> dev_class d1 = dev_class d"
  using assms init_early_hooked by (simp add: create_dxrt_device_def)

lemma removed_unhooked:
  "idx s < 64 \<Longrightarrow> unhooked (dxrt_recovery_state_deinit (dx_pcie_unregister_link_event_callback
     (dx_pcie_unregister_event_callback (dx_pcie_unregister_response_callback s))))"
  by (simp add: unhooked_def dxrt_recovery_state_deinit_def dx_pcie_unregister_link_event_callback_def
      dx_pcie_unregister_event_callback_def dx_pcie_unregister_response_callback_def)

lemma fold_remove_other: "j \<notin> set is \<Longrightarrow> pool (fold remove_dxrt_device is d) j = pool d j"
  by (induction "is" arbitrary: d) (simp_all add: remove_dxrt_device_def)

lemma fold_remove_created:
  "created (fold remove_dxrt_device is d) = filter (\<lambda>i. i \<notin> set is) (created d)"
proof (induction "is" arbitrary: d)
  case (Cons i "is")
  have "filter (\<lambda>j. j \<notin> set is) (removeAll i xs) = filter (\<lambda>j. j \<notin> set (i # is)) xs" for xs
    by (induction xs) auto
  then show ?case using Cons.IH by (simp add: remove_dxrt_device_def)
qed simp

lemma fold_remove_unhooked:
  "distinct is \<Longrightarrow> j \<in> set is \<Longrightarrow> idx (pool d j) < 64 \<Longrightarrow> unhooked (pool (fold remove_dxrt_device is d) j)"
proof (induction "is" arbitrary: d)
  case (Cons i "is")
  have "pool (remove_dxrt_device i d) j = pool d j" if "j \<noteq> i" using that by (simp add: remove_dxrt_device_def)
  moreover have "unhooked (pool (remove_dxrt_device i d) i)" if "j = i"
    using that Cons.prems(3) removed_unhooked by (simp add: remove_dxrt_device_def)
  ultimately show ?case using Cons fold_remove_other [of i "is"] by (cases "j = i") simp_all
qed simp

lemma create_loop_outcome:
  assumes "i \<le> n" "created d = [0..<i]" "\<forall>j < i. hooked (pool d j)" "\<forall>j < n. idx (pool d j) < 64"
    and "\<forall>j \<ge> i. j < n \<longrightarrow> unhooked (pool d j)" "region d" "dev_class d"
  shows "case create_loop ok n i d of (r, t) \<Rightarrow>
    if (\<forall>j. i \<le> j \<and> j < n \<longrightarrow> ok j)
    then r = 0 \<and> created t = [0..<n] \<and> (\<forall>j < n. hooked (pool t j)) \<and> region t \<and> dev_class t
    else r = - 1 \<and> created t = [] \<and> (\<forall>j < n. unhooked (pool t j)) \<and> \<not> region t \<and> \<not> dev_class t"
  using assms
proof (induction ok n i d rule: create_loop.induct)
  case (1 ok n i d)
  consider (stop) "n \<le> i" | (fail) "i < n" "\<not> ok i" | (go) "i < n" "ok i" by linarith
  then show ?case
  proof cases
    case stop
    then show ?thesis using "1.prems" by (subst create_loop.simps) auto
  next
    case fail
    let ?r = "fold remove_dxrt_device (rev [0..<i]) d"
    have "create_loop ok n i d = (- 1, ?r\<lparr>dev_class := False, region := False\<rparr>)"
      using fail by (subst create_loop.simps) (simp add: create_dxrt_device_def)
    moreover have "unhooked (pool ?r j)" if "j < n" for j
      using that "1.prems"(4,5) fold_remove_other [of j "rev [0..<i]" d] fold_remove_unhooked [of "rev [0..<i]" j d]
      by (cases "j < i") simp_all
    moreover have "created ?r = []" using "1.prems"(2) by (simp add: fold_remove_created)
    ultimately show ?thesis using fail by auto
  next
    case go
    then obtain d1 where d1: "create_dxrt_device ok i d = (True, d1)" "created d1 = created d @ [i]"
        "hooked (pool d1 i)" "idx (pool d1 i) = idx (pool d i)" "\<forall>j. j \<noteq> i \<longrightarrow> pool d1 j = pool d j"
        "region d1 = region d" "dev_class d1 = dev_class d"
      using create_hooked [of ok i d] "1.prems"(4) by blast
    have e: "create_loop ok n i d = create_loop ok n (Suc i) d1"
      using go d1(1) by (subst create_loop.simps) simp
    have "(\<forall>j. i \<le> j \<and> j < n \<longrightarrow> ok j) \<longleftrightarrow> (\<forall>j. Suc i \<le> j \<and> j < n \<longrightarrow> ok j)"
      using go(2) by (metis Suc_leD le_antisym not_less_eq_eq)
    moreover have "\<forall>j < Suc i. hooked (pool d1 j)" "\<forall>j < n. idx (pool d1 j) < 64"
        "\<forall>j \<ge> Suc i. j < n \<longrightarrow> unhooked (pool d1 j)"
      using "1.prems" d1 by (metis less_Suc_eq, metis, metis Suc_leD Suc_n_not_le_n)
    ultimately show ?thesis unfolding e
      using "1.IH" [OF _ d1(1) [symmetric]] go d1 "1.prems" by simp
  qed
qed

section \<open>Properties\<close>




definition example_driver :: dxrt_driver where
  "example_driver = \<lparr>region = False, dev_class = False, created = [], pool = (\<lambda>_. example_dev)\<rparr>"


text \<open>
  No message leaves the table: a message whose number is negative or too large, and an argument that
  cannot be read, are refused before anything is looked up, and every other message goes to an
  entry that exists.
\<close>

theorem ioctl_in_range:
  assumes "private_data s"
  shows "(case copy_from_user arg 24 s of
      None \<Rightarrow> dxrt_dev_ioctl W 0x40184400 arg s = Some (- 14, s)
    | Some b \<Rightarrow>
        if 0 \<le> m_cmd (message_of b) \<and> m_cmd (message_of b) < 32
        then message_handler (m_cmd (message_of b)) \<noteq> None
        else dxrt_dev_ioctl W 0x40184400 arg s = Some (- 22, s))"
  using assms
  by (auto simp: dxrt_dev_ioctl_def ioc_type_def ioc_nr_def Let_def dispatch_table [simplified] split: option.split)

theorem ioctl_in_range_witness:
  "dxrt_dev_ioctl example_world 0x40184400 0x1000 (example_dev\<lparr>umem := (\<lambda>_. Some 255)\<rparr>) =
     Some (- 22, example_dev\<lparr>umem := (\<lambda>_. Some 255)\<rparr>)"
proof -
  let ?s = "example_dev\<lparr>umem := (\<lambda>_. Some 255)\<rparr>"
  have c: "copy_from_user 0x1000 24 ?s = Some (replicate 24 255)"
    by (simp add: copy_from_user_def Let_def map_replicate_const)
  have m: "m_cmd (message_of (replicate 24 255)) = - 1"
    by (simp add: message_of_def get32_def le32_def)
  have "private_data ?s" by (simp add: example_defs)
  from ioctl_in_range [OF this, where arg = 4096 and W = example_world] show ?thesis by (simp add: c m)
qed

text \<open>
  The guard against stale pointers cannot fire.  The flag that leads to it is only ever reported set
  for a device that is still listed, and such a device has a message area; for a device that is
  gone the flag reads as clear, and the message goes to its handler with the old pointers.
\<close>

theorem removed_device_keeps_pointers:
  assumes "\<not> dx_dev_list_get s" "private_data s" "copy_from_user arg 24 s = Some b"
    and "0 \<le> m_cmd (message_of b)" "m_cmd (message_of b) < 32"
  shows "dxrt_dev_ioctl W 0x40184400 arg s = message_handler_general W (message_of b) s"
  using assms
  by (simp add: dxrt_dev_ioctl_def ioc_type_def ioc_nr_def Let_def dx_pcie_test_and_clear_init_completed_def)

theorem removed_device_keeps_pointers_witness:
  "dxrt_dev_ioctl example_world 0x40184400 0x1000 (example_dev\<lparr>dw_present := False, umem := (\<lambda>_. Some 0)\<rparr>) =
     message_handler_general example_world \<lparr>m_cmd = 0, m_sub_cmd = 0, m_data = 0, m_size = 0\<rparr>
       (example_dev\<lparr>dw_present := False, umem := (\<lambda>_. Some 0)\<rparr>)"
proof -
  let ?s = "example_dev\<lparr>dw_present := False, umem := (\<lambda>_. Some 0)\<rparr>"
  have c: "copy_from_user 0x1000 24 ?s = Some (replicate 24 0)"
    by (simp add: copy_from_user_def Let_def map_replicate_const)
  have m: "message_of (replicate 24 0) = \<lparr>m_cmd = 0, m_sub_cmd = 0, m_data = 0, m_size = 0\<rparr>"
    by (simp add: message_of_def get64_def get32_def le32_def)
  have "\<not> dx_dev_list_get ?s" "private_data ?s" by (simp_all add: example_defs dx_dev_list_get_def)
  from removed_device_keeps_pointers [OF this c, where W = example_world] show ?thesis by (simp add: m)
qed

text \<open>The numbers are not checked: every word of the driver's type other than a message is accepted and ignored.\<close>

theorem unknown_ioctl_accepted:
  assumes "private_data s" "ioc_type cmd = 0x44" "cmd \<noteq> 0x40184400"
  shows "dxrt_dev_ioctl W cmd arg s = Some (0, s)"
proof -
  have "ioc_nr cmd \<le> 0xFF" unfolding ioc_nr_def by (rule word_and_le1)
  then have "\<not> 0x40184402 \<le> ioc_nr cmd" using order_trans by fastforce
  then show ?thesis using assms by (simp add: dxrt_dev_ioctl_def)
qed

text \<open>A write of the wrong size loses the entry it has allocated.\<close>

theorem write_leaks_entry:
  assumes "private_data s" "request_handler s" "alloc_ok s" "len \<noteq> 80"
  shows "dxrt_dev_write buf len s = (- 22, s\<lparr>live_entries := live_entries s + 1\<rparr>)"
  using assms by (simp add: dxrt_dev_write_def Let_def)

end
