(* ===== verification/Dx_System.thy ===== *)
theory Dx_System
  imports Dx_Cdev
begin

text \<open>
  The invariant of the device object and what keeps it.  Every entry point of the runtime module
  (the commands, the link events, the readiness worker, the interrupt callbacks, the file
  operations) keeps it, provided that whatever else runs at a scheduling point keeps it too; so
  it holds in every state that an interleaving of them can reach.
\<close>

section \<open>The invariant\<close>

text \<open>Bindings are unique and name a normal queue.\<close>

definition sched_wf :: "dx_sched list \<Rightarrow> bool" where
  "sched_wf l \<longleftrightarrow> distinct (map bound l) \<and> (\<forall>e \<in> set l. queue e < DX_NORMAL_QUEUE_MAX)"

definition dev_ok :: "dxdev \<Rightarrow> bool" where
  "dev_ok s \<longleftrightarrow> sched_wf (sched s) \<and> evq_ok (event_queue s) \<and> (\<forall>ch < 3. resp_ok (responses s ch)) \<and>
     (\<forall>ch. 0 \<le> response_pending s ch) \<and> (recovering s \<longrightarrow> in_transition s)"

text \<open>The functions of the DMA part, the standalone driver and the environment keep the invariant.\<close>

definition world_ok :: "world \<Rightarrow> bool" where
  "world_ok W \<longleftrightarrow> (\<forall>s. dev_ok s \<longrightarrow>
     (\<forall>k. dev_ok (w_env W k s)) \<and>
     (\<forall>p a n ch. dev_ok (snd (w_sgdma_write W p a n ch s)) \<and> dev_ok (snd (w_sgdma_read W p a n ch s))) \<and>
     (\<forall>bs a n ch. dev_ok (snd (w_sgdma_write_kernel W bs a n ch s))) \<and>
     dev_ok (snd (w_sgdma_init W s)) \<and> dev_ok (w_sgdma_deinit W s) \<and>
     dev_ok (snd (w_reset_dma_channels W s)) \<and> (\<forall>a b c d. dev_ok (w_set_hw_msi W a b c d s)) \<and>
     (\<forall>u r t. w_std W u s = Some (r, t) \<longrightarrow> dev_ok t))"

text \<open>The result of a call that may not return.\<close>

definition kept :: "('r \<times> dxdev) option \<Rightarrow> bool" where
  "kept x = (case x of None \<Rightarrow> True | Some p \<Rightarrow> dev_ok (snd p))"

lemma kept_simps [simp]: "kept None" "kept (Some p) = dev_ok (snd p)"
  by (simp_all add: kept_def)

lemma kept_bind:
  "kept x \<Longrightarrow> (\<And>r t. x = Some (r, t) \<Longrightarrow> dev_ok t \<Longrightarrow> kept (g r t)) \<Longrightarrow>
    kept (case x of None \<Rightarrow> None | Some (r, t) \<Rightarrow> g r t)"
  by (auto simp: kept_def split: option.splits)

lemma kept_map: "kept x \<Longrightarrow> (\<And>r t. dev_ok t \<Longrightarrow> dev_ok (snd (g (r, t)))) \<Longrightarrow> kept (map_option g x)"
  by (auto simp: kept_def split: option.splits)

section \<open>Fields the invariant does not mention\<close>

lemma dev_ok_frame [simp]:
  "dev_ok (s\<lparr>bar := b\<rparr>) = dev_ok s" "dev_ok (s\<lparr>tick := n\<rparr>) = dev_ok s" "dev_ok (s\<lparr>umem := m\<rparr>) = dev_ok s"
  "dev_ok (s\<lparr>notify := b\<rparr>) = dev_ok s" "dev_ok (s\<lparr>events_irq := i\<rparr>) = dev_ok s"
  "dev_ok (s\<lparr>init_completed := x\<rparr>) = dev_ok s" "dev_ok (s\<lparr>dlmsg_contract_seen := x\<rparr>) = dev_ok s"
  "dev_ok (s\<lparr>dev_error := e\<rparr>) = dev_ok s" "dev_ok (s\<lparr>dev_notify := e\<rparr>) = dev_ok s"
  "dev_ok (s\<lparr>ready_work := x\<rparr>) = dev_ok s" "dev_ok (s\<lparr>ping_seq_gen := e\<rparr>) = dev_ok s"
  "dev_ok (s\<lparr>mem_addr := a\<rparr>) = dev_ok s" "dev_ok (s\<lparr>mem_size := a\<rparr>) = dev_ok s" "dev_ok (s\<lparr>num_dma_ch := e\<rparr>) = dev_ok s"
  "dev_ok (s\<lparr>last_recovery_reason := e\<rparr>) = dev_ok s" "dev_ok (s\<lparr>recovery_epoch := e\<rparr>) = dev_ok s"
  "dev_ok (s\<lparr>recovery_count := e\<rparr>) = dev_ok s" "dev_ok (s\<lparr>recovery_fail_count := e\<rparr>) = dev_ok s"
  "dev_ok (s\<lparr>last_recovery_jiffies := a\<rparr>) = dev_ok s" "dev_ok (s\<lparr>perm_fail_window_start := a\<rparr>) = dev_ok s"
  "dev_ok (s\<lparr>perm_fail_count_in_window := e\<rparr>) = dev_ok s" "dev_ok (s\<lparr>terminating := x\<rparr>) = dev_ok s"
  "dev_ok (s\<lparr>private_data := x\<rparr>) = dev_ok s" "dev_ok (s\<lparr>owner_tgid := g\<rparr>) = dev_ok s"
  "dev_ok (s\<lparr>response := bs\<rparr>) = dev_ok s" "dev_ok (s\<lparr>requests := bss\<rparr>) = dev_ok s"
  "dev_ok (s\<lparr>live_entries := n\<rparr>) = dev_ok s"
  "dev_ok (s\<lparr>msg := p\<rparr>) = dev_ok s" "dev_ok (s\<lparr>log := p\<rparr>) = dev_ok s" "dev_ok (s\<lparr>dl := p\<rparr>) = dev_ok s"
  "dev_ok (s\<lparr>request_queue := p\<rparr>) = dev_ok s" "dev_ok (s\<lparr>request_queue1 := p\<rparr>) = dev_ok s"
  "dev_ok (s\<lparr>request_queue2 := p\<rparr>) = dev_ok s" "dev_ok (s\<lparr>request_high_queue := p\<rparr>) = dev_ok s"
  by (simp_all add: dev_ok_def in_transition_def)

section \<open>The message layer\<close>

lemma ok_yield [simp]: "world_ok W \<Longrightarrow> dev_ok s \<Longrightarrow> dev_ok (yield (w_env W) s)"
  by (simp add: yield_def world_ok_def)

lemma ok_mutex_lock [simp]: "world_ok W \<Longrightarrow> dev_ok s \<Longrightarrow> dev_ok (mutex_lock W s)"
  by (simp add: mutex_lock_def)

lemma ok_copy_to_user [simp]: "dev_ok (snd (copy_to_user p bs s)) = dev_ok s"
  by (induction bs arbitrary: p s) (simp_all split: option.split)

lemma ok_to_user_io_loop [simp]: "dev_ok (snd (to_user_io_loop p a n s)) = dev_ok s"
proof (induction p a n s rule: to_user_io_loop.induct)
  case (1 p a n s)
  let ?k = "min n 1024"
  show ?case
  proof (cases "n = 0 \<or> \<not> fst (copy_to_user p (dx_memcpy_fromio32 (bar s) a ?k) s)")
    case True
    then show ?thesis by (subst to_user_io_loop.simps) (auto simp: Let_def case_prod_beta)
  next
    case False
    then show ?thesis using "1.IH" [of ?k True]
      by (subst to_user_io_loop.simps) (simp add: Let_def case_prod_beta prod_eq_iff)
  qed
qed

lemma ok_from_user_io_loop [simp]: "dev_ok (snd (from_user_io_loop a p n s)) = dev_ok s"
proof (induction a p n s rule: from_user_io_loop.induct)
  case (1 a p n s)
  then show ?case by (subst from_user_io_loop.simps) (simp add: Let_def split: option.split)
qed

lemma ok_user_io [simp]:
  "dev_ok (snd (dxrt_copy_to_user_io p a n s)) = dev_ok s"
  "dev_ok (snd (dxrt_copy_from_user_io a p n s)) = dev_ok s"
  by (simp_all add: dxrt_copy_to_user_io_def dxrt_copy_from_user_io_def)

lemma ok_notify_loop [simp]: "world_ok W \<Longrightarrow> dev_ok s \<Longrightarrow> dev_ok (snd (notify_enable_loop (w_env W) n s))"
  by (induction n arbitrary: s) (simp_all add: Let_def)

lemma ok_notify_msg [simp]: "world_ok W \<Longrightarrow> dev_ok s \<Longrightarrow> dev_ok (dx_pcie_notify_msg_to_device (w_env W) s)"
  by (simp add: dx_pcie_notify_msg_to_device_def dx_pcie_is_notify_enable_def case_prod_beta)

lemma ok_notify_req [simp]: "dev_ok (snd (dx_pcie_notify_req_to_device q l s)) = dev_ok s"
  by (simp add: dx_pcie_notify_req_to_device_def split: option.split)

lemma ok_wakeups [simp]:
  "dev_ok (snd (dx_pcie_interrupt_event_wakeup s)) = dev_ok s"
  "dev_ok (snd (dx_pcie_interrupt_wakeup ch s)) = dev_ok s"
  by (simp_all add: dx_pcie_interrupt_event_wakeup_def dx_pcie_interrupt_wakeup_def Let_def)

lemma ok_push_event [simp]: "dev_ok s \<Longrightarrow> dev_ok (s\<lparr>event_queue := evq_push e (event_queue s)\<rparr>)"
  using events.enq_inv by (simp add: dev_ok_def in_transition_def)

lemma ok_enqueue_event [simp]: "dev_ok s \<Longrightarrow> dev_ok (dx_pcie_enqueue_event_response c s)"
  by (simp add: dx_pcie_enqueue_event_response_def Let_def)

lemma ok_enqueue_recovery [simp]: "dev_ok s \<Longrightarrow> dev_ok (dx_pcie_enqueue_recovery_event c r a b d s)"
  by (simp add: dx_pcie_enqueue_recovery_event_def Let_def)

lemma ok_enqueue_abort [simp]: "dev_ok s \<Longrightarrow> dev_ok (dx_pcie_enqueue_abort_event c e wr rd s)"
  by (simp add: dx_pcie_enqueue_abort_event_def Let_def)

lemma ok_set_init [simp]: "dev_ok (dx_pcie_set_init_completed s) = dev_ok s"
  by (simp add: dx_pcie_set_init_completed_def)

lemma ok_ack_loop [simp]: "world_ok W \<Longrightarrow> dev_ok s \<Longrightarrow> dev_ok (snd (ack_loop (w_env W) m n s))"
  by (induction n arbitrary: s) (simp_all add: Let_def split: option.split)

lemma ok_polling_ack [simp]: "world_ok W \<Longrightarrow> dev_ok s \<Longrightarrow> dev_ok (snd (dxrt_polling_ack W m s))"
  by (simp add: dxrt_polling_ack_def)

lemma ok_mbox_blocked [simp]: "dev_ok (snd (dxrt_fw_mbox_blocked s)) = dev_ok s"
  by (simp add: dxrt_fw_mbox_blocked_def)

section \<open>The recovery state machine\<close>

text \<open>Moving the device on: freely once the clients are admitted, within a recovery otherwise.\<close>

lemma ok_set_state:
  "dev_ok s \<Longrightarrow> \<not> recovering s \<or> x = STATE_RECOVERING \<or> x = STATE_TRANSPORT_OK \<Longrightarrow> dev_ok (s\<lparr>dev_state := x\<rparr>)"
  by (auto simp: dev_ok_def in_transition_def)

lemma ok_stop_recovering [simp]: "dev_ok s \<Longrightarrow> dev_ok (s\<lparr>recovering := False\<rparr>)"
  by (simp add: dev_ok_def in_transition_def)

lemma ok_emit [simp]: "dev_ok s \<Longrightarrow> dev_ok (emit_recovery_event c r s)"
  by (simp add: emit_recovery_event_def)

lemma ok_clear_pending [simp]: "dev_ok s \<Longrightarrow> dev_ok (dxrt_clear_all_pending s)"
  by (simp add: dxrt_clear_all_pending_def dev_ok_def in_transition_def)

lemma ok_clear_queues [simp]:
  "dev_ok s \<Longrightarrow> dev_ok (snd (dx_pcie_clear_response_queue s))"
  "dev_ok s \<Longrightarrow> dev_ok (dx_pcie_clear_event_response s)"
  using evq_clear_ok resp_clear_ok
  by (auto simp: dx_pcie_clear_response_queue_def dx_pcie_clear_event_response_def dev_ok_def in_transition_def evq_ok_def)

lemma ok_bind [simp]: "dev_ok s \<Longrightarrow> dev_ok (dxrt_bind_pcie_resources c s)"
  by (simp add: dxrt_bind_pcie_resources_def Let_def)

lemma ok_begin: "dev_ok s \<Longrightarrow> dev_ok (s\<lparr>dev_state := STATE_RECOVERING, recovering := True, sched := []\<rparr>)"
  by (simp add: dev_ok_def in_transition_def sched_wf_def)

lemma ok_recovery_begin [simp]:
  assumes "dev_ok s"
  shows "dev_ok (recovery_begin r s)"
proof -
  have "dev_ok (s\<lparr>dev_state := STATE_RECOVERING, last_recovery_reason := r, recovering := True,
      recovery_epoch := recovery_epoch s + 1, ready_work := False, sched := clear_queue_list (sched s)\<rparr>)"
    using ok_begin [OF assms] by (simp add: dev_ok_def in_transition_def clear_queue_list_def)
  then show ?thesis unfolding recovery_begin_def by simp
qed

lemma ok_link_event [simp]: "dev_ok s \<Longrightarrow> dev_ok (dxrt_link_event_notify up s)"
proof (cases "dtype s = 1 \<or> dev_state s = STATE_PERM_FAIL")
  case True
  assume "dev_ok s"
  then show ?thesis using True by (auto simp: dxrt_link_event_notify_def)
next
  case False
  assume ok: "dev_ok s"
  show ?thesis
  proof (cases up)
    case True
    then show ?thesis using False ok by (simp add: dxrt_link_event_notify_def Let_def ok_set_state)
  next
    case down: False
    then show ?thesis using False ok link_down_begin by simp
  qed
qed

lemma ok_kick [simp]: "dev_ok s \<Longrightarrow> dev_ok (dxrt_kick_fw_reboot_recovery reason s)"
proof (cases "dtype s = 1 \<or> dev_state s = STATE_PERM_FAIL")
  case True
  assume "dev_ok s"
  then show ?thesis using True by (auto simp: dxrt_kick_fw_reboot_recovery_def)
next
  case False
  assume "dev_ok s"
  then show ?thesis using False by (simp add: kick_begin ok_set_state)
qed

lemma ok_kicks [simp]:
  "dev_ok s \<Longrightarrow> dev_ok (dxrt_kick_cpu_reset_recovery s)" "dev_ok s \<Longrightarrow> dev_ok (dxrt_kick_fw_update_recovery s)"
  "dev_ok s \<Longrightarrow> dev_ok (dxrt_kick_fw_update_recovery_nodlmsg s)"
  by (simp_all add: dxrt_kick_cpu_reset_recovery_def dxrt_kick_fw_update_recovery_def
      dxrt_kick_fw_update_recovery_nodlmsg_def)

lemma ok_perm_fail: "dev_ok s \<Longrightarrow> \<not> recovering s \<Longrightarrow> dev_ok (snd (perm_fail_check W s))"
  by (simp add: perm_fail_check_def Let_def ok_set_state)

lemma ok_ready_done [simp]: "dev_ok s \<Longrightarrow> dev_ok (ready_done s)"
  by (simp add: ready_done_def Let_def ok_set_state)

lemma ok_ready_hang [simp]:
  assumes "dev_ok s"
  shows "dev_ok (ready_hang W s)"
proof -
  have "dev_ok (s\<lparr>dev_state := STATE_FW_HANG, recovering := False\<rparr>)"
    using assms by (simp add: dev_ok_def)
  then show ?thesis unfolding ready_hang_def Let_def by (intro ok_perm_fail) simp_all
qed

section \<open>The waits\<close>

text \<open>What every wait of the driver shares.\<close>

lemma keptI: "(\<And>p. x = Some p \<Longrightarrow> dev_ok (snd p)) \<Longrightarrow> kept x"
  by (cases x) simp_all

lemma kept_until: "world_ok W \<Longrightarrow> dev_ok s \<Longrightarrow> kept (until_deadline (w_env W) test fin d s)"
  by (rule keptI) (rule until_sleep.keeps [where P = dev_ok, OF ok_yield])

lemma kept_while_before: "world_ok W \<Longrightarrow> dev_ok s \<Longrightarrow> kept (while_before (w_env W) test fin d s)"
  by (rule keptI) (rule before_sleep.keeps [where P = dev_ok, OF ok_yield])

lemma kept_ready_loop: "world_ok W \<Longrightarrow> dev_ok s \<Longrightarrow> kept (ready_loop (w_env W) m d s)"
  by (rule keptI) (rule ready_sleep.keeps [where P = dev_ok, OF ok_yield])

lemma kept_wait_event: "world_ok W \<Longrightarrow> dev_ok s \<Longrightarrow> kept (wait_event (w_env W) c s)"
  by (rule keptI) (rule wait_sleep.keeps [where P = dev_ok, OF ok_yield])

lemma wait_event_ok: "wait_event (w_env W) c s = Some p \<Longrightarrow> world_ok W \<Longrightarrow> dev_ok s \<Longrightarrow> dev_ok (snd p)"
  using kept_wait_event [of W s c] by simp

lemma kept_ready_wait: "world_ok W \<Longrightarrow> dev_ok s \<Longrightarrow> kept (dx_dlmsg_wait_mailbox_ready (w_env W) hz m ms s)"
  by (simp add: dx_dlmsg_wait_mailbox_ready_def kept_ready_loop)

lemma kept_cycle: "world_ok W \<Longrightarrow> dev_ok s \<Longrightarrow> kept (dxrt_wait_fw_reboot_mailbox_cycle W ep s)"
  by (auto simp: dxrt_wait_fw_reboot_mailbox_cycle_def Let_def intro!: kept_bind kept_until)

lemma kept_settle: "world_ok W \<Longrightarrow> dev_ok s \<Longrightarrow> kept (dxrt_wait_fw_reboot_legacy_settle W ep s)"
  by (simp add: dxrt_wait_fw_reboot_legacy_settle_def kept_until)

lemma kept_ping: "world_ok W \<Longrightarrow> dev_ok s \<Longrightarrow> kept (fw_ping_probe W ms ep s)"
  by (cases "msg s") (auto simp: fw_ping_probe_def Let_def intro!: kept_bind kept_while_before)

text \<open>The worker's own result carries no code.\<close>

lemma ready_probe_ok: "world_ok W \<Longrightarrow> dev_ok s \<Longrightarrow> ready_probe W ep skip s = Some t \<Longrightarrow> dev_ok t"
  using kept_ping [of W s "w_ping_timeout_ms W" ep]
  by (auto simp: ready_probe_def split: option.splits if_splits)

lemma worker_ok:
  assumes "world_ok W" "dev_ok s" "dxrt_recovery_ready_work_fn W s = Some t"
  shows "dev_ok t"
  using assms kept_settle [OF assms(1,2), of "recovery_epoch s"] kept_cycle [OF assms(1,2), of "recovery_epoch s"]
    kept_ready_wait [OF assms(1,2), of "w_hz W" "dl s" "w_dlmsg_ready_timeout_ms W"]
  by (auto simp: dxrt_recovery_ready_work_fn_def Let_def split: option.splits if_splits intro: ready_probe_ok)

section \<open>The commands\<close>

lemma ok_flash [simp]:
  "world_ok W \<Longrightarrow> dev_ok s \<Longrightarrow> dev_ok (snd (flash_loop (w_env W) d v n s))"
  by (induction n arbitrary: s) (simp_all add: Let_def)

lemma ok_flash_calls [simp]:
  "world_ok W \<Longrightarrow> dev_ok s \<Longrightarrow> dev_ok (snd (dx_get_flash_ready (w_env W) d n s))"
  "world_ok W \<Longrightarrow> dev_ok s \<Longrightarrow> dev_ok (snd (dx_get_flash_done (w_env W) d s))"
  by (simp_all add: dx_get_flash_ready_def dx_get_flash_done_def)

lemma ok_exchange [simp]: "world_ok W \<Longrightarrow> dev_ok s \<Longrightarrow> dev_ok (snd (msg_exchange W m u s))"
  by (simp add: msg_exchange_def Let_def case_prod_beta)

lemma ok_msg_general [simp]: "world_ok W \<Longrightarrow> dev_ok s \<Longrightarrow> dev_ok (snd (dxrt_msg_general W u s))"
  by (simp add: dxrt_msg_general_def case_prod_beta split: option.split)

lemma ok_set_window [simp]: "dev_ok (set_window info s) = dev_ok s"
  by (simp add: set_window_def)

lemma kept_std: "world_ok W \<Longrightarrow> dev_ok s \<Longrightarrow> kept (w_std W u s)"
  by (rule keptI) (auto simp: world_ok_def)

lemma kept_identify: "world_ok W \<Longrightarrow> dev_ok s \<Longrightarrow> kept (dxrt_identify_device W u s)"
  by (simp add: dxrt_identify_device_def info_to_user_def Let_def case_prod_beta kept_std split: option.split)

text \<open>The scheduler's list is well formed if the columns of bindings and of queues are.\<close>

lemma sched_wf_columns: "sched_wf l \<longleftrightarrow> distinct (map bound l) \<and> (\<forall>q \<in> set (map queue l). q < 3)"
  by (auto simp: sched_wf_def)

lemma sched_wf_add:
  assumes "sched_wf l"
  shows "sched_wf (snd (add_queue_from_sched_op ok b l))"
proof (cases "fst (add_scan b 0 l)")
  case True
  then have "snd (add_queue_from_sched_op ok b l) = (if ok then snd (snd (add_scan b 0 l)) else l)"
    by (simp add: add_queue_from_sched_op_def case_prod_beta split: bool.split)
  then show ?thesis using assms unfolding sched_wf_columns
    by (simp add: add_scan_bounds add_scan_queues del: set_map)
next
  case False
  then have "b \<notin> bound ` set l" "snd (snd (add_scan b 0 l)) = l"
    using add_scan_found add_scan_not_found by blast+
  then show ?thesis using assms False
    by (auto simp: add_queue_from_sched_op_def sched_wf_def case_prod_beta split: bool.split)
qed

lemma delete_columns:
  "set (map bound (snd (delete_matching_queue b l))) \<subseteq> set (map bound l) \<and>
   set (map queue (snd (delete_matching_queue b l))) \<subseteq> set (map queue l) \<and>
   (distinct (map bound l) \<longrightarrow> distinct (map bound (snd (delete_matching_queue b l))))"
  by (induction l) (auto simp: case_prod_beta)

lemma sched_wf_delete: "sched_wf l \<Longrightarrow> sched_wf (snd (delete_matching_queue b l))"
  using delete_columns [of b l] unfolding sched_wf_columns by blast

lemma ok_set_sched: "dev_ok s \<Longrightarrow> sched_wf l \<Longrightarrow> dev_ok (s\<lparr>sched := l\<rparr>)"
  by (simp add: dev_ok_def in_transition_def)

lemma ok_sched_to_dev [simp]: "world_ok W \<Longrightarrow> dev_ok s \<Longrightarrow> dev_ok (snd (sched_to_dev W u b q s))"
  by (simp add: sched_to_dev_def case_prod_beta split: option.split)

lemma ok_disable_queue [simp]: "dev_ok (disable_queue q s) = dev_ok s"
  by (simp add: disable_queue_def split: option.split)

lemma dev_ok_sched: "dev_ok s \<Longrightarrow> sched_wf (sched s)"
  by (simp add: dev_ok_def)

lemma ok_schedule [simp]: "world_ok W \<Longrightarrow> dev_ok s \<Longrightarrow> dev_ok (snd (dxrt_schedule W u s))"
  by (auto simp: dxrt_schedule_def sched_add_def sched_delete_def Let_def case_prod_beta ok_set_sched sched_wf_add
      sched_wf_delete dev_ok_sched split: option.split)

lemma ok_sgdma [simp]:
  "world_ok W \<Longrightarrow> dev_ok s \<Longrightarrow> dev_ok (snd (w_sgdma_write W p a n ch s))"
  "world_ok W \<Longrightarrow> dev_ok s \<Longrightarrow> dev_ok (snd (w_sgdma_read W p a n ch s))"
  "world_ok W \<Longrightarrow> dev_ok s \<Longrightarrow> dev_ok (snd (w_sgdma_write_kernel W bs a n ch s))"
  "world_ok W \<Longrightarrow> dev_ok s \<Longrightarrow> dev_ok (snd (w_sgdma_init W s))"
  "world_ok W \<Longrightarrow> dev_ok s \<Longrightarrow> dev_ok (w_sgdma_deinit W s)"
  "world_ok W \<Longrightarrow> dev_ok s \<Longrightarrow> dev_ok (snd (w_reset_dma_channels W s))"
  "world_ok W \<Longrightarrow> dev_ok s \<Longrightarrow> dev_ok (w_set_hw_msi W e f g h s)"
  by (simp_all add: world_ok_def)

lemma ok_write_mem [simp]: "world_ok W \<Longrightarrow> dev_ok s \<Longrightarrow> dev_ok (snd (dxrt_write_mem W u s))"
  by (simp add: dxrt_write_mem_def Let_def case_prod_beta split: option.split)

lemma kept_read_mem: "world_ok W \<Longrightarrow> dev_ok s \<Longrightarrow> kept (dxrt_read_mem W u s)"
  by (simp add: dxrt_read_mem_def Let_def case_prod_beta kept_std split: option.split)

lemma ok_lock_loops [simp]:
  "world_ok W \<Longrightarrow> dev_ok s \<Longrightarrow> dev_ok (snd (lock_check_loop (w_env W) q n s))"
  "world_ok W \<Longrightarrow> dev_ok s \<Longrightarrow> dev_ok (snd (irq_done_loop (w_env W) q n s))"
  by (induction n arbitrary: s) (simp_all add: Let_def)

lemma ok_lock_calls [simp]:
  "world_ok W \<Longrightarrow> dev_ok s \<Longrightarrow> dev_ok (snd (dxrt_lock_check (w_env W) q s))"
  "world_ok W \<Longrightarrow> dev_ok s \<Longrightarrow> dev_ok (snd (dxrt_enqueue_irq_done (w_env W) q s))"
  by (simp_all add: dxrt_lock_check_def dxrt_enqueue_irq_done_def Let_def case_prod_beta)

lemma kept_run_request: "world_ok W \<Longrightarrow> dev_ok s \<Longrightarrow> kept (dxrt_npu_run_requset_acc W req qp q s)"
  by (simp add: dxrt_npu_run_requset_acc_def Let_def case_prod_beta split: option.split)

lemma kept_write_req: "world_ok W \<Longrightarrow> dev_ok s \<Longrightarrow> kept (dxrt_write_req_to_dev_acc W req qp q s)"
  by (simp add: dxrt_write_req_to_dev_acc_def case_prod_beta kept_run_request)

lemma kept_submit: "(\<And>req qp q. kept (go req qp q s)) \<Longrightarrow> dev_ok s \<Longrightarrow> kept (submit go u s)"
  by (simp add: submit_def case_prod_beta split: option.split)

lemma kept_submits:
  "world_ok W \<Longrightarrow> dev_ok s \<Longrightarrow> kept (dxrt_write_input W u s)"
  "world_ok W \<Longrightarrow> dev_ok s \<Longrightarrow> kept (dxrt_npu_run_request W u s)"
  by (simp_all add: dxrt_write_input_def dxrt_npu_run_request_def kept_submit kept_write_req kept_run_request kept_std)

lemma ok_take_credit [simp]: "dev_ok s \<Longrightarrow> dev_ok (take_credit ch s)"
  by (simp add: take_credit_def dev_ok_def in_transition_def)

lemma ok_pop_response:
  assumes "dev_ok s" "dx_pcie_dequeue_response ch s = (e, b, t)"
  shows "dev_ok t"
  using assms resps.deq_inv [of "responses s ch"]
  by (auto simp: dx_pcie_dequeue_response_def dev_ok_def in_transition_def split: if_splits prod.splits option.splits)

text \<open>The response waits also say whether there was a response.\<close>

lemma retry_ok:
  assumes "world_ok W" "dev_ok s"
  shows "retry_v1 W ch s = Some (r, b, t) \<Longrightarrow> dev_ok t" "retry_v2 W ch s = Some (r, b, t) \<Longrightarrow> dev_ok t"
proof -
  note w = wait_event_ok [OF _ assms(1)]
  have "W = W \<longrightarrow> dev_ok s \<longrightarrow> dev_ok (snd (snd (r, b, t)))" if "retry_v1 W ch s = Some (r, b, t)"
    by (rule retry_v1.raw_induct [where P = "\<lambda>W' ch s p. W' = W \<longrightarrow> dev_ok s \<longrightarrow> dev_ok (snd (snd p))", OF _ that])
       (auto split: option.splits if_splits prod.splits dest!: w dest: ok_pop_response)
  then show "retry_v1 W ch s = Some (r, b, t) \<Longrightarrow> dev_ok t" using assms(2) by simp
  have "W = W \<longrightarrow> dev_ok s \<longrightarrow> dev_ok (snd (snd (r, b, t)))" if "retry_v2 W ch s = Some (r, b, t)"
    by (rule retry_v2.raw_induct [where P = "\<lambda>W' ch s p. W' = W \<longrightarrow> dev_ok s \<longrightarrow> dev_ok (snd (snd p))", OF _ that])
       (auto split: option.splits if_splits prod.splits dest!: w dest: ok_pop_response)
  then show "retry_v2 W ch s = Some (r, b, t) \<Longrightarrow> dev_ok t" using assms(2) by simp
qed

lemma ok_copy_resp [simp]: "dev_ok (snd (dxrt_copy_resp_to_user_acc u b s)) = dev_ok s"
  by (simp add: dxrt_copy_resp_to_user_acc_def case_prod_beta)

lemma ok_fetch [simp]: "world_ok W \<Longrightarrow> dev_ok s \<Longrightarrow> dev_ok (snd (fetch_output W u ch b s))"
  by (simp add: fetch_output_def case_prod_beta)

lemma kept_await:
  assumes "dev_ok s" "\<And>ch r b t. retry ch s = Some (r, b, t) \<Longrightarrow> dev_ok t"
    and "\<And>ch b t. dev_ok t \<Longrightarrow> dev_ok (snd (fin ch b t))"
  shows "kept (await_response retry fin u s)"
  using assms by (auto simp: await_response_def Let_def split: option.split)

lemma kept_responses:
  "world_ok W \<Longrightarrow> dev_ok s \<Longrightarrow> kept (dxrt_npu_run_response_v1 W u s)"
  "world_ok W \<Longrightarrow> dev_ok s \<Longrightarrow> kept (dxrt_npu_run_response_v2 W u s)"
  "world_ok W \<Longrightarrow> dev_ok s \<Longrightarrow> kept (dxrt_read_output W u s)"
  by (auto simp: dxrt_npu_run_response_v1_def dxrt_npu_run_response_v2_def dxrt_read_output_def
      intro!: kept_await kept_std intro: retry_ok)

lemma kept_terminates:
  "world_ok W \<Longrightarrow> dev_ok s \<Longrightarrow> kept (dxrt_terminate_event W u s)"
  "world_ok W \<Longrightarrow> dev_ok s \<Longrightarrow> kept (dxrt_terminate W u s)"
  by (simp_all add: dxrt_terminate_event_def dxrt_terminate_def kept_std split: option.split)

lemma kept_soc_custom: "world_ok W \<Longrightarrow> dev_ok s \<Longrightarrow> kept (dxrt_soc_custom W u s)"
  by (simp add: dxrt_soc_custom_def Let_def case_prod_beta split: option.split)

lemma kept_get_log: "dev_ok s \<Longrightarrow> kept (dxrt_get_log u s)"
  by (simp add: dxrt_get_log_def case_prod_beta split: option.split)

lemma ok_reset_device [simp]: "world_ok W \<Longrightarrow> dev_ok s \<Longrightarrow> dev_ok (snd (dxrt_reset_device W u s))"
  by (simp add: dxrt_reset_device_def Let_def case_prod_beta split: option.split)

lemma ok_update_ack [simp]: "world_ok W \<Longrightarrow> dev_ok s \<Longrightarrow> dev_ok (snd (update_ack W m u s))"
  by (simp add: update_ack_def Let_def case_prod_beta)

lemma kept_update: "world_ok W \<Longrightarrow> dev_ok s \<Longrightarrow> kept (dxrt_update_firmware W u s)"
  by (simp add: dxrt_update_firmware_def Let_def case_prod_beta split: option.split)

lemma ok_write_firmware [simp]: "world_ok W \<Longrightarrow> dev_ok s \<Longrightarrow> dev_ok (snd (dxrt_write_firmware W u bs a s))"
  by (simp add: dxrt_write_firmware_def case_prod_beta)

lemma kept_upload: "world_ok W \<Longrightarrow> dev_ok s \<Longrightarrow> kept (dxrt_upload_firmware W u s)"
  by (simp add: dxrt_upload_firmware_def Let_def case_prod_beta split: option.split)

lemma kept_interrupt_event:
  "world_ok W \<Longrightarrow> dev_ok s \<Longrightarrow> dx_pcie_interrupt_event (w_env W) s = Some t \<Longrightarrow> dev_ok t"
  by (auto simp: dx_pcie_interrupt_event_def Let_def split: if_splits option.splits dest!: wait_event_ok)

lemma ok_pop_event: "dev_ok s \<Longrightarrow> evq_pop (event_queue s) = (e, q) \<Longrightarrow> dev_ok (s\<lparr>event_queue := q\<rparr>)"
  using events.deq_inv [of "event_queue s"] by (simp add: dev_ok_def in_transition_def)

lemma kept_dequeue_event: "world_ok W \<Longrightarrow> dev_ok s \<Longrightarrow> kept (dx_pcie_dequeue_event_response (w_env W) s)"
  by (auto simp: dx_pcie_dequeue_event_response_def split: option.splits prod.splits
      intro: ok_pop_event kept_interrupt_event)

lemma kept_deliver: "world_ok W \<Longrightarrow> dev_ok s \<Longrightarrow> kept (deliver_event W u s)"
  unfolding deliver_event_def
  by (rule kept_bind [OF kept_dequeue_event]) (auto simp: Let_def case_prod_beta split: option.split)

lemma kept_event_wait:
  assumes "world_ok W" "dev_ok s"
  shows "kept (event_wait W s)"
proof (rule keptI)
  fix p assume p: "event_wait W s = Some p"
  note w = wait_event_ok [OF _ assms(1)]
  have "W = W \<longrightarrow> dev_ok s \<longrightarrow> dev_ok (snd p)"
    by (rule event_wait.raw_induct [where P = "\<lambda>W' s p. W' = W \<longrightarrow> dev_ok s \<longrightarrow> dev_ok (snd p)", OF _ p])
       (auto split: option.splits if_splits prod.splits dest!: w)
  then show "dev_ok (snd p)" using assms(2) by simp
qed

lemma kept_event_v2: "world_ok W \<Longrightarrow> dev_ok s \<Longrightarrow> kept (dxrt_handle_event_v2 W u s)"
  unfolding dxrt_handle_event_v2_def
  by (auto intro!: kept_bind kept_event_wait kept_deliver)

lemma kept_events:
  "world_ok W \<Longrightarrow> dev_ok s \<Longrightarrow> kept (dxrt_handle_event W u s)"
  "world_ok W \<Longrightarrow> dev_ok s \<Longrightarrow> kept (dxrt_handle_drv_info W u s)"
  by (simp_all add: dxrt_handle_event_def kept_deliver dxrt_handle_drv_info_def dxrt_handle_rt_drv_info_sub_def
      give_def Let_def case_prod_beta split: option.split)

section \<open>The recovery command and the table\<close>

lemma ok_send_recovery [simp]: "world_ok W \<Longrightarrow> dev_ok s \<Longrightarrow> dev_ok (send_recovery W u s)"
  by (simp add: send_recovery_def Let_def split: option.split)

lemma kept_await_reboot: "world_ok W \<Longrightarrow> dev_ok s \<Longrightarrow> kept (await_reboot W s)"
  by (auto simp: await_reboot_def Let_def intro!: kept_bind kept_map kept_until)

lemma kept_reboot_complete:
  assumes "world_ok W" "dev_ok s"
  shows "kept (dxrt_wait_fw_reboot_complete W u s)"
  unfolding dxrt_wait_fw_reboot_complete_def
proof (rule kept_bind)
  show "kept (await_reboot W (send_recovery W u s))" using assms by (simp add: kept_await_reboot)
  fix b v assume v: "dev_ok v"
  have ok: "dev_ok ((dx_pcie_set_init_completed (v\<lparr>dev_state := STATE_TRANSPORT_OK\<rparr>))\<lparr>ready_work := False\<rparr>)"
    using ok_set_state [OF v] by simp
  show "kept (if \<not> b then Some (- ETIMEDOUT, dx_pcie_set_init_completed v)
      else let s2 = (dx_pcie_set_init_completed (v\<lparr>dev_state := STATE_TRANSPORT_OK\<rparr>))\<lparr>ready_work := False\<rparr>
        in map_option (\<lambda>s3. (final_errno (dev_state s3), s3)) (dxrt_recovery_ready_work_fn W s2))"
    using v worker_ok [OF assms(1) ok] by (auto simp: Let_def intro!: keptI)
qed

lemma ok_begin_command [simp]: "dev_ok s \<Longrightarrow> dev_ok (begin_command s)"
  by (simp add: begin_command_def dev_ok_def in_transition_def clear_queue_list_def sched_wf_def)

lemma ok_toggle [simp]: "world_ok W \<Longrightarrow> dev_ok s \<Longrightarrow> dev_ok (toggle_queue W sel s)"
  by (simp add: toggle_queue_def Let_def split: option.split)

lemma ok_flush_session [simp]: "world_ok W \<Longrightarrow> dev_ok s \<Longrightarrow> dev_ok (flush_session W s)"
  by (simp add: flush_session_def)

lemma ok_finish [simp]: "dev_ok s \<Longrightarrow> dev_ok (finish_command r s)"
  by (simp add: finish_command_def Let_def ok_set_state)

lemma kept_recovery: "world_ok W \<Longrightarrow> dev_ok s \<Longrightarrow> kept (dxrt_recovery_device W u s)"
  by (auto simp: dxrt_recovery_device_def Let_def case_prod_beta intro!: kept_map kept_reboot_complete)

lemmas kept_handlers = kept_identify kept_read_mem kept_submits kept_responses kept_terminates kept_soc_custom
  kept_get_log kept_update kept_upload kept_events kept_event_v2 kept_recovery

lemma kept_dispatch:
  assumes "world_ok W" "dev_ok s"
  shows "kept (message_handler_general W u s)"
proof -
  have "kept (h W u s)" if "message_handler (m_cmd u) = Some h" for h
    using that assms by (auto simp: message_handler_def kept_handlers split: if_splits)
  then show ?thesis using assms by (simp add: message_handler_general_def Let_def split: option.split)
qed

section \<open>The file operations\<close>

lemma ok_query_msi [simp]: "world_ok W \<Longrightarrow> dev_ok s \<Longrightarrow> dev_ok (dxrt_query_msi_imwr W s)"
  by (simp add: dxrt_query_msi_imwr_def Let_def case_prod_beta split: option.split)

lemma ok_device_init [simp]: "world_ok W \<Longrightarrow> dev_ok s \<Longrightarrow> dev_ok (dxrt_device_init W s)"
  by (simp add: dxrt_device_init_def Let_def)

lemma ok_drop_pointers [simp]: "dev_ok (drop_pointers s) = dev_ok s"
  by (simp add: drop_pointers_def)

lemma ok_test_and_clear [simp]: "dev_ok (snd (dx_pcie_test_and_clear_init_completed s)) = dev_ok s"
  by (simp add: dx_pcie_test_and_clear_init_completed_def)

lemma kept_ioctl: "world_ok W \<Longrightarrow> dev_ok s \<Longrightarrow> kept (dxrt_dev_ioctl W cmd arg s)"
  by (simp add: dxrt_dev_ioctl_def Let_def case_prod_beta kept_dispatch split: option.split)

lemma ok_fold_wakeup [simp]:
  "dev_ok (fold (\<lambda>ch s. snd (dx_pcie_interrupt_wakeup ch s)) chs s) = dev_ok s"
  by (induction chs arbitrary: s) simp_all

lemma ok_file_ops [simp]:
  "world_ok W \<Longrightarrow> dev_ok s \<Longrightarrow> dev_ok (snd (dxrt_dev_open W g s))"
  "world_ok W \<Longrightarrow> dev_ok s \<Longrightarrow> dev_ok (snd (dxrt_dev_release W s))"
  "dev_ok s \<Longrightarrow> dev_ok (snd (dxrt_dev_flush g s))"
  "dev_ok s \<Longrightarrow> dev_ok (snd (dxrt_dev_read p s))"
  "dev_ok s \<Longrightarrow> dev_ok (snd (dxrt_dev_write p n s))"
  by (simp_all add: dxrt_dev_open_def dxrt_dev_release_def dxrt_dev_flush_def dxrt_wakeup_waiters_def
      dxrt_dev_read_def dxrt_dev_write_def Let_def case_prod_beta split: option.split)

section \<open>Interleavings\<close>

text \<open>
  One step of the system: a thread makes a call and comes back, a work item runs, or an interrupt
  arrives.  Within a call, the other threads run at its scheduling points.
\<close>

inductive dev_step :: "world \<Rightarrow> dxdev \<Rightarrow> dxdev \<Rightarrow> bool" for W :: world where
  ioctl: "dxrt_dev_ioctl W cmd arg s = Some (r, t) \<Longrightarrow> dev_step W s t"
| open_file: "dev_step W s (snd (dxrt_dev_open W tgid s))"
| close_file: "dev_step W s (snd (dxrt_dev_flush tgid s))"
| release_file: "dev_step W s (snd (dxrt_dev_release W s))"
| read_file: "dev_step W s (snd (dxrt_dev_read buf s))"
| write_file: "dev_step W s (snd (dxrt_dev_write buf len s))"
| worker: "dxrt_recovery_ready_work_fn W (s\<lparr>ready_work := False\<rparr>) = Some t \<Longrightarrow> ready_work s \<Longrightarrow> dev_step W s t"
| link_event: "dev_step W s (dx_pcie_notify_link_event dxrt_link_event_notify up s)"
| arrival: "ch < 3 \<Longrightarrow> dev_step W s (dx_pcie_enqueue_response dxrt_response_notify ch s)"
| event: "dev_step W s (dx_pcie_enqueue_event_response code s)"
| abort: "dev_step W s (dx_pcie_enqueue_abort_event code dma_err wr rd s)"
| device: "dev_step W s (s\<lparr>bar := b, notify := n\<rparr>)"
| clock: "dev_step W s (s\<lparr>jiffies := j, sigpend := p\<rparr>)"

lemma ok_arrival: "dev_ok s \<Longrightarrow> ch < 3 \<Longrightarrow> dev_ok (dx_pcie_enqueue_response dxrt_response_notify ch s)"
  using resps.enq_inv
  by (auto simp: dx_pcie_enqueue_response_def dxrt_response_notify_def Let_def dev_ok_def in_transition_def)

lemma ok_clock: "dev_ok s \<Longrightarrow> dev_ok (s\<lparr>jiffies := j, sigpend := p\<rparr>)"
  by (simp add: dev_ok_def in_transition_def)

interpretation system: trans_inv "dev_step W" "\<lambda>s. world_ok W \<longrightarrow> dev_ok s" for W
proof
  fix s t assume "dev_step W s t" "world_ok W \<longrightarrow> dev_ok s"
  then show "world_ok W \<longrightarrow> dev_ok t"
  proof (induction rule: dev_step.induct)
    case (ioctl cmd arg s r t)
    then show ?case using kept_ioctl [of W s cmd arg] by auto
  next
    case (worker s t)
    then show ?case using worker_ok [of W "s\<lparr>ready_work := False\<rparr>" t] by auto
  qed (auto simp: dx_pcie_notify_link_event_def ok_arrival ok_clock)
qed


lemma example_ok: "world_ok example_world" "dev_ok example_dev"
proof -
  show "world_ok example_world" by (simp add: world_ok_def example_world_def)
  have "resp_ok (responses example_dev ch)" for ch by (simp add: example_defs resp_ok_def ring_ix_def)
  moreover have "evq_ok (event_queue example_dev)" by simp
  ultimately show "dev_ok example_dev"
    by (simp add: dev_ok_def sched_wf_def) (simp add: example_defs)
qed


text \<open>
  The condition on the environment is met by the system itself: threads that only make steps of the
  system at the scheduling points of a call keep the invariant there too.
\<close>

lemma nested_world_ok:
  assumes "world_ok W" "\<And>k s. (dev_step W)\<^sup>*\<^sup>* s (E k s)"
  shows "world_ok (W\<lparr>w_env := E\<rparr>)"
proof -
  have "dev_ok (E k s)" if "dev_ok s" for k s using system.run_inv [OF assms(2)] assms(1) that by blast
  then show ?thesis using assms(1) unfolding world_ok_def by simp
qed

text \<open>The scheduler never hands out the high-priority queue.\<close>

lemma queue_in_range:
  "sched_wf l \<Longrightarrow> get_queue_from_sched_op b l = (r, Some q) \<Longrightarrow> r = 0 \<and> q < 3"
  by (induction l) (auto simp: sched_wf_def split: if_splits)

end
