(* ===== verification/Dx_EdmaMem.thy ===== *)
theory Dx_EdmaMem
  imports Dx_Mmio "HOL-Library.Multiset"
begin

text \<open>
  The memory of the DMA engine (\<^verbatim>\<open>pci_deepx/dw-edma-mem.c\<close>): the global pools of bursts and descriptors,
  the chunks that group the bursts of one descriptor table, and the staging buffer of a channel.
  An object is named by a reference: a slot of a pool or an address from \<open>kzalloc\<close>.  Chunks and
  descriptors are values that carry their reference; bursts live in a store, since a chunk and the
  code that fills it share them.
\<close>

section \<open>Data\<close>

datatype ref = Pool nat | Desc nat | Heap nat

datatype dw_edma_dir = EDMA_DIR_WRITE | EDMA_DIR_READ

record dx_edma_region =
  r_paddr :: u64
  r_vaddr :: "nat option"
  r_sz :: nat

record dw_edma_burst =
  sar :: u64
  dar :: u64
  b_sz :: u32
  from_pool :: bool

definition zero_burst :: dw_edma_burst where
  "zero_burst = \<lparr>sar = 0, dar = 0, b_sz = 0, from_pool = False\<rparr>"

text \<open>
  \<open>burst\<close> is the anchor of the list, \<open>burst_list\<close> its elements, whose number \<open>bursts_alloc\<close> counts.  The
  size of the region grows by the bytes that are queued, a \<open>size_t\<close>.
\<close>

record dw_edma_chunk =
  c_ref :: "ref option"
  burst :: "ref option"
  burst_list :: "ref list"
  bursts_alloc :: nat
  cb :: bool
  ll_region :: dx_edma_region
  host_region :: dx_edma_region

datatype shadow_state = SHADOW_IDLE | SHADOW_BUILDING | SHADOW_READY | SHADOW_ISR_PENDING | SHADOW_CANCELLED
datatype lazy_refill_state = LAZY_REFILL_IDLE | LAZY_REFILL_PENDING | LAZY_REFILL_PREPARING

text \<open>A scatter list is the list of what is left of it: host address and length of each entry.\<close>

type_synonym sg_list = "(u64 \<times> u32) list"

record dw_edma_desc =
  d_ref :: ref
  d_from_pool :: bool
  chunk_anchor :: "dw_edma_chunk option"
  chunk_list :: "dw_edma_chunk list"
  chunks_alloc :: nat
  alloc_sz :: u32
  xfer_sz :: u32
  sg_cur :: sg_list
  sg_remaining :: nat
  addr_accum :: u64
  lazy_mode :: bool
  sh_state :: shadow_state
  shadow_chunk :: "dw_edma_chunk option"
  shadow_next_chunk :: "dw_edma_chunk option"
  shadow_next_sg :: sg_list
  shadow_next_remaining :: nat
  shadow_next_addr :: u64
  shadow_alloc_sz :: u32
  shadow_has_more :: bool
  shadow_work_initialized :: bool
  shadow_expected_cb :: bool
  lz_state :: lazy_refill_state
  lazy_work_initialized :: bool

text \<open>\<open>ch_ll\<close> is the region of this channel in \<open>dw->ll_region_wr\<close> or \<open>dw->ll_region_rd\<close>.\<close>

record dw_edma_chan =
  ch_id :: nat
  ch_dir :: dw_edma_dir
  ll_max :: nat
  ch_ll :: dx_edma_region
  desc_buf :: dx_edma_region
  desc_buf_is_buddy :: bool

text \<open>
  The allocator of the kernel hands out address \<open>n\<close> at its \<open>n\<close>-th call, unless \<open>oom n\<close>; \<open>heap_live\<close> are the
  objects that were handed out and not freed.  \<open>burst_pool_live\<close>: the pool of bursts is allocated.
\<close>

record edma_mem =
  burst_pool_live :: bool
  burst_free_list :: "nat \<Rightarrow> nat"
  burst_free_cnt :: nat
  bursts :: "ref \<Rightarrow> dw_edma_burst"
  desc_free_list :: "nat \<Rightarrow> nat"
  desc_free_cnt :: nat
  cleanup_chunks :: "dw_edma_chunk list"
  heap_live :: "nat list"
  heap_next :: nat
  oom :: "nat \<Rightarrow> bool"

abbreviation (input) EDMA_LL_SZ :: nat where "EDMA_LL_SZ \<equiv> 24"
abbreviation (input) EDMA_CHUNK_SIZE :: nat where "EDMA_CHUNK_SIZE \<equiv> 1048576"
abbreviation (input) EDMA_GLOBAL_BURST_POOL_SIZE :: nat where
  "EDMA_GLOBAL_BURST_POOL_SIZE \<equiv> 524292"
abbreviation (input) EDMA_GLOBAL_DESC_POOL_SIZE :: nat where "EDMA_GLOBAL_DESC_POOL_SIZE \<equiv> 4"

definition kzalloc :: "edma_mem \<Rightarrow> ref option \<times> edma_mem" where
  "kzalloc m =
     (let n = heap_next m; m1 = m\<lparr>heap_next := Suc n\<rparr> in
      if oom m n then (None, m1) else (Some (Heap n), m1\<lparr>heap_live := n # heap_live m\<rparr>))"

fun kfree :: "ref \<Rightarrow> edma_mem \<Rightarrow> edma_mem" where
  "kfree (Heap n) m = m\<lparr>heap_live := remove1 n (heap_live m)\<rparr>"
| "kfree _ m = m"

section \<open>Bursts\<close>

definition dw_edma_alloc_burst_from_pool :: "edma_mem \<Rightarrow> ref option \<times> edma_mem" where
  "dw_edma_alloc_burst_from_pool m =
     (if 0 < burst_free_cnt m then
        let b = Pool (burst_free_list m (burst_free_cnt m - 1))
        in (Some b, m\<lparr>burst_free_cnt := burst_free_cnt m - 1,
                      bursts := (bursts m)(b := zero_burst\<lparr>from_pool := True\<rparr>)\<rparr>)
      else (None, m))"

definition dw_edma_alloc_burst_dynamic :: "edma_mem \<Rightarrow> ref option \<times> edma_mem" where
  "dw_edma_alloc_burst_dynamic m =
     (case kzalloc m of
        (None, m1) \<Rightarrow> (None, m1)
      | (Some b, m1) \<Rightarrow> (Some b, m1\<lparr>bursts := (bursts m1)(b := zero_burst)\<rparr>))"

fun is_in_burst_pool :: "edma_mem \<Rightarrow> ref \<Rightarrow> bool" where
  "is_in_burst_pool m (Pool i) \<longleftrightarrow> burst_pool_live m \<and> i < EDMA_GLOBAL_BURST_POOL_SIZE"
| "is_in_burst_pool m _ \<longleftrightarrow> False"

text \<open>\<open>atomic\<close>: the caller runs in an interrupt or holds a lock, so it must not sleep.\<close>

definition dw_edma_alloc_burst ::
  "bool \<Rightarrow> dw_edma_chunk \<Rightarrow> edma_mem \<Rightarrow> ref option \<times> dw_edma_chunk \<times> edma_mem" where
  "dw_edma_alloc_burst atomic c m =
     (case (case dw_edma_alloc_burst_from_pool m of
              (Some b, m1) \<Rightarrow> (Some b, m1)
            | (None, m1) \<Rightarrow> if atomic then (None, m1) else dw_edma_alloc_burst_dynamic m1) of
        (None, m1) \<Rightarrow> (None, c, m1)
      | (Some b, m1) \<Rightarrow>
          (Some b,
           (case burst c of
              Some _ \<Rightarrow> c\<lparr>bursts_alloc := bursts_alloc c + 1, burst_list := burst_list c @ [b]\<rparr>
            | None \<Rightarrow> c\<lparr>bursts_alloc := 0, burst := Some b, burst_list := []\<rparr>),
           m1))"

text \<open>The index of a burst in the pool; a burst outside it is that many elements away.\<close>

fun pool_index :: "ref \<Rightarrow> nat" where
  "pool_index (Pool i) = i"
| "pool_index (Desc i) = EDMA_GLOBAL_BURST_POOL_SIZE + i"
| "pool_index (Heap n) = EDMA_GLOBAL_BURST_POOL_SIZE + n"

definition push_free :: "ref \<Rightarrow> edma_mem \<Rightarrow> edma_mem" where
  "push_free b m =
     (if burst_free_cnt m < EDMA_GLOBAL_BURST_POOL_SIZE
      then m\<lparr>burst_free_list := (burst_free_list m)(burst_free_cnt m := pool_index b),
             burst_free_cnt := burst_free_cnt m + 1\<rparr>
      else m)"

definition fix_from_pool :: "ref \<Rightarrow> edma_mem \<Rightarrow> edma_mem" where
  "fix_from_pool b m =
     (if is_in_burst_pool m b \<and> \<not> from_pool (bursts m b)
      then m\<lparr>bursts := (bursts m)(b := bursts m b\<lparr>from_pool := True\<rparr>)\<rparr> else m)"

definition dw_edma_free_single_burst :: "ref \<Rightarrow> edma_mem \<Rightarrow> edma_mem" where
  "dw_edma_free_single_burst b m =
     (let m1 = fix_from_pool b m in
      if from_pool (bursts m1 b) then push_free b m1 else kfree b m1)"

text \<open>
  The loops that free many bursts under one lock: pool bursts go back at once, the others are put on
  a list and freed after the lock has been dropped.
\<close>

fun free_locked :: "ref list \<Rightarrow> edma_mem \<Rightarrow> ref list \<Rightarrow> ref list \<times> edma_mem" where
  "free_locked [] m dyn = (dyn, m)"
| "free_locked (b # bs) m dyn =
     (let m1 = fix_from_pool b m in
      if from_pool (bursts m1 b) then free_locked bs (push_free b m1) dyn
      else free_locked bs m1 (b # dyn))"

definition dw_edma_free_burst_batch :: "ref list \<Rightarrow> edma_mem \<Rightarrow> edma_mem" where
  "dw_edma_free_burst_batch bs m = (case free_locked bs m [] of (dyn, m1) \<Rightarrow> fold kfree dyn m1)"

definition dw_edma_free_burst :: "dw_edma_chunk \<Rightarrow> edma_mem \<Rightarrow> dw_edma_chunk \<times> edma_mem" where
  "dw_edma_free_burst c m =
     (case burst c of
        None \<Rightarrow> (c, m)
      | Some h \<Rightarrow>
          (case free_locked (burst_list c @ [h]) m [] of (dyn, m1) \<Rightarrow>
             (c\<lparr>burst := None, burst_list := [], bursts_alloc := bursts_alloc c - length (burst_list c)\<rparr>,
              fold kfree dyn m1)))"

primrec dw_edma_alloc_burst_batch :: "nat \<Rightarrow> edma_mem \<Rightarrow> ref list \<times> edma_mem" where
  "dw_edma_alloc_burst_batch 0 m = ([], m)"
| "dw_edma_alloc_burst_batch (Suc n) m =
     (if burst_free_cnt m = 0 then ([], m)
      else
        let b = Pool (burst_free_list m (burst_free_cnt m - 1));
            m1 = m\<lparr>burst_free_cnt := burst_free_cnt m - 1,
                   bursts := (bursts m)(b := bursts m b\<lparr>from_pool := True\<rparr>)\<rparr>
        in case dw_edma_alloc_burst_batch n m1 of (bs, m2) \<Rightarrow> (b # bs, m2))"

section \<open>Chunks\<close>

definition zero_chunk :: dw_edma_chunk where
  "zero_chunk = \<lparr>c_ref = None, burst = None, burst_list = [], bursts_alloc = 0, cb = False,
     ll_region = \<lparr>r_paddr = 0, r_vaddr = None, r_sz = 0\<rparr>, host_region = \<lparr>r_paddr = 0, r_vaddr = None, r_sz = 0\<rparr>\<rparr>"

definition dw_edma_alloc_chunk_for_chan ::
  "dw_edma_chan \<Rightarrow> edma_mem \<Rightarrow> dw_edma_chunk option \<times> edma_mem" where
  "dw_edma_alloc_chunk_for_chan ch m =
     (if r_vaddr (desc_buf ch) = None then (None, m)
      else case kzalloc m of
        (None, m1) \<Rightarrow> (None, m1)
      | (Some r, m1) \<Rightarrow> (Some (zero_chunk\<lparr>c_ref := Some r, host_region := desc_buf ch\<rparr>), m1))"

definition dw_edma_alloc_chunk ::
  "bool \<Rightarrow> dw_edma_chan \<Rightarrow> dw_edma_desc \<Rightarrow> edma_mem \<Rightarrow> dw_edma_chunk option \<times> dw_edma_desc \<times> edma_mem" where
  "dw_edma_alloc_chunk atomic ch d m =
     (case dw_edma_alloc_chunk_for_chan ch m of
        (None, m1) \<Rightarrow> (None, d, m1)
      | (Some c0, m1) \<Rightarrow>
          let c = c0\<lparr>cb := even (chunks_alloc d), ll_region := ch_ll ch\<rparr> in
          (case chunk_anchor d of
             Some _ \<Rightarrow>
               (case dw_edma_alloc_burst atomic c m1 of
                  (None, c1, m2) \<Rightarrow> (None, d, (case c_ref c of Some r \<Rightarrow> kfree r m2 | None \<Rightarrow> m2))
                | (Some b, c1, m2) \<Rightarrow>
                    (Some c1, d\<lparr>chunks_alloc := chunks_alloc d + 1, chunk_list := chunk_list d @ [c1]\<rparr>, m2))
           | None \<Rightarrow> (Some c, d\<lparr>chunks_alloc := 0, chunk_anchor := Some c\<rparr>, m1)))"

definition free_chunk_object :: "dw_edma_chunk \<Rightarrow> edma_mem \<Rightarrow> edma_mem" where
  "free_chunk_object c m =
     (let m1 = snd (dw_edma_free_burst c m) in case c_ref c of Some r \<Rightarrow> kfree r m1 | None \<Rightarrow> m1)"

definition dw_edma_free_chunk :: "dw_edma_desc \<Rightarrow> edma_mem \<Rightarrow> dw_edma_desc \<times> edma_mem" where
  "dw_edma_free_chunk d m =
     (case chunk_anchor d of
        None \<Rightarrow> (d, m)
      | Some a \<Rightarrow>
          (d\<lparr>chunk_anchor := None, chunk_list := []\<rparr>,
           free_chunk_object a (fold free_chunk_object (chunk_list d) m)))"

definition dw_edma_alloc_unlinked_chunk ::
  "dw_edma_chan \<Rightarrow> edma_mem \<Rightarrow> dw_edma_chunk option \<times> edma_mem" where
  "dw_edma_alloc_unlinked_chunk ch m =
     (case dw_edma_alloc_chunk_for_chan ch m of
        (None, m1) \<Rightarrow> (None, m1)
      | (Some c, m1) \<Rightarrow> (Some (c\<lparr>burst := None, bursts_alloc := 0, cb := False, ll_region := ch_ll ch\<rparr>), m1))"

definition dw_edma_free_unlinked_chunk :: "dw_edma_chunk option \<Rightarrow> edma_mem \<Rightarrow> edma_mem" where
  "dw_edma_free_unlinked_chunk co m = (case co of None \<Rightarrow> m | Some c \<Rightarrow> free_chunk_object c m)"

text \<open>Chunks given up in an interrupt are freed by a work item.\<close>

definition dw_edma_defer_chunk_free :: "dw_edma_chunk \<Rightarrow> edma_mem \<Rightarrow> edma_mem" where
  "dw_edma_defer_chunk_free c m = m\<lparr>cleanup_chunks := cleanup_chunks m @ [c]\<rparr>"

definition dw_edma_cleanup_work :: "edma_mem \<Rightarrow> edma_mem" where
  "dw_edma_cleanup_work m = fold free_chunk_object (cleanup_chunks m) (m\<lparr>cleanup_chunks := []\<rparr>)"

section \<open>Descriptors\<close>

definition zero_desc :: "ref \<Rightarrow> dw_edma_desc" where
  "zero_desc r = \<lparr>d_ref = r, d_from_pool = False, chunk_anchor = None, chunk_list = [], chunks_alloc = 0,
     alloc_sz = 0, xfer_sz = 0, sg_cur = [], sg_remaining = 0, addr_accum = 0, lazy_mode = False,
     sh_state = SHADOW_IDLE, shadow_chunk = None, shadow_next_chunk = None, shadow_next_sg = [],
     shadow_next_remaining = 0, shadow_next_addr = 0, shadow_alloc_sz = 0, shadow_has_more = False,
     shadow_work_initialized = False, shadow_expected_cb = False, lz_state = LAZY_REFILL_IDLE,
     lazy_work_initialized = False\<rparr>"

definition dw_edma_alloc_desc_from_pool :: "edma_mem \<Rightarrow> dw_edma_desc option \<times> edma_mem" where
  "dw_edma_alloc_desc_from_pool m =
     (if 0 < desc_free_cnt m
      then (Some ((zero_desc (Desc (desc_free_list m (desc_free_cnt m - 1))))\<lparr>d_from_pool := True\<rparr>),
            m\<lparr>desc_free_cnt := desc_free_cnt m - 1\<rparr>)
      else (None, m))"

definition dw_edma_alloc_desc_dynamic :: "edma_mem \<Rightarrow> dw_edma_desc option \<times> edma_mem" where
  "dw_edma_alloc_desc_dynamic m =
     (case kzalloc m of (None, m1) \<Rightarrow> (None, m1) | (Some r, m1) \<Rightarrow> (Some (zero_desc r), m1))"

definition dw_edma_alloc_desc :: "edma_mem \<Rightarrow> dw_edma_desc option \<times> edma_mem" where
  "dw_edma_alloc_desc m =
     (case (case dw_edma_alloc_desc_from_pool m of
              (Some d, m1) \<Rightarrow> (Some d, m1)
            | (None, m1) \<Rightarrow> dw_edma_alloc_desc_dynamic m1) of
        (None, m1) \<Rightarrow> (None, m1)
      | (Some d, m1) \<Rightarrow> (Some (d\<lparr>chunk_anchor := Some zero_chunk, chunk_list := [], chunks_alloc := 0\<rparr>), m1))"

fun desc_index :: "ref \<Rightarrow> nat" where
  "desc_index (Desc i) = i"
| "desc_index (Pool i) = EDMA_GLOBAL_DESC_POOL_SIZE + i"
| "desc_index (Heap n) = EDMA_GLOBAL_DESC_POOL_SIZE + n"

definition push_desc :: "ref \<Rightarrow> edma_mem \<Rightarrow> edma_mem" where
  "push_desc r m =
     (if desc_free_cnt m < EDMA_GLOBAL_DESC_POOL_SIZE
      then m\<lparr>desc_free_list := (desc_free_list m)(desc_free_cnt m := desc_index r),
             desc_free_cnt := desc_free_cnt m + 1\<rparr>
      else m)"

text \<open>
  \<open>settle\<close> is what a worker of the descriptor that is already running still does before
  \<open>cancel_work_sync\<close> returns.
\<close>

definition dw_edma_free_desc ::
  "(dw_edma_desc \<times> edma_mem \<Rightarrow> dw_edma_desc \<times> edma_mem) \<Rightarrow> dw_edma_desc \<Rightarrow> edma_mem \<Rightarrow> edma_mem" where
  "dw_edma_free_desc settle d m =
     (let (d1, m1) =
            (if shadow_work_initialized d
             then case settle (if sh_state d \<noteq> SHADOW_IDLE then d\<lparr>sh_state := SHADOW_CANCELLED\<rparr> else d, m) of
                    (e, n) \<Rightarrow> (e\<lparr>shadow_work_initialized := False\<rparr>, n)
             else (d, m));
          m2 = dw_edma_free_unlinked_chunk (shadow_chunk d1) m1;
          m3 = dw_edma_free_unlinked_chunk (shadow_next_chunk d1) m2;
          d2 = d1\<lparr>shadow_chunk := None, shadow_next_chunk := None\<rparr>;
          (d3, m4) =
            (if lazy_work_initialized d2
             then case settle (d2\<lparr>lz_state := LAZY_REFILL_IDLE\<rparr>, m3) of
                    (e, n) \<Rightarrow> (e\<lparr>lazy_work_initialized := False\<rparr>, n)
             else (d2, m3));
          m5 = snd (dw_edma_free_chunk d3 m4)
      in if d_from_pool d3 then push_desc (d_ref d3) m5 else kfree (d_ref d3) m5)"

section \<open>The staging buffer of a channel\<close>

text \<open>
  \<open>cma\<close> and \<open>buddy\<close> are the answers of the two kernel allocators: a virtual and a bus address, or
  \<open>None\<close>.  The second is tried when the first fails.
\<close>

definition dw_edma_alloc_dma_mem ::
  "(nat \<times> u64) option \<Rightarrow> (nat \<times> u64) option \<Rightarrow> dx_edma_region \<Rightarrow> int \<times> dx_edma_region \<times> bool option" where
  "dw_edma_alloc_dma_mem cma buddy r =
     (case cma of
        Some (v, p) \<Rightarrow> (0, r\<lparr>r_vaddr := Some v, r_paddr := p\<rparr>, Some False)
      | None \<Rightarrow>
          (case buddy of
             Some (v, p) \<Rightarrow> (0, r\<lparr>r_vaddr := Some v, r_paddr := p\<rparr>, Some True)
           | None \<Rightarrow> (- ENOMEM, r\<lparr>r_vaddr := None\<rparr>, None)))"

definition dx_dma_chan_is_helper :: "dw_edma_chan \<Rightarrow> bool" where
  "dx_dma_chan_is_helper ch \<longleftrightarrow> ch_dir ch = EDMA_DIR_READ \<and> 2 \<le> ch_id ch \<and> ch_id ch \<le> 3"

definition dx_dma_chan_alloc_desc_buf ::
  "(nat \<times> u64) option \<Rightarrow> (nat \<times> u64) option \<Rightarrow> dw_edma_chan \<Rightarrow> int \<times> dw_edma_chan" where
  "dx_dma_chan_alloc_desc_buf cma buddy ch =
     (if dx_dma_chan_is_helper ch
      then (0, ch\<lparr>desc_buf := \<lparr>r_paddr = 0, r_vaddr = None, r_sz = 0\<rparr>, desc_buf_is_buddy := False\<rparr>)
      else if r_vaddr (desc_buf ch) \<noteq> None then (0, ch)
      else case dw_edma_alloc_dma_mem cma buddy ((desc_buf ch)\<lparr>r_sz := EDMA_CHUNK_SIZE\<rparr>) of
        (ret, r, kind) \<Rightarrow>
          if ret \<noteq> 0 then (ret, ch\<lparr>desc_buf := r\<lparr>r_sz := 0\<rparr>\<rparr>)
          else (0, ch\<lparr>desc_buf := r, desc_buf_is_buddy := (kind = Some True)\<rparr>))"

definition dx_dma_chan_free_desc_buf :: "dw_edma_chan \<Rightarrow> dw_edma_chan" where
  "dx_dma_chan_free_desc_buf ch =
     (if r_vaddr (desc_buf ch) = None then ch
      else ch\<lparr>desc_buf := \<lparr>r_paddr = 0, r_vaddr = None, r_sz = 0\<rparr>, desc_buf_is_buddy := False\<rparr>)"

section \<open>Setting up the pools\<close>

text \<open>\<open>ok\<close> tells which of the four allocations succeeds.\<close>

definition dw_edma_mem_init :: "(nat \<Rightarrow> bool) \<Rightarrow> edma_mem \<Rightarrow> int \<times> edma_mem" where
  "dw_edma_mem_init ok m =
     (let m1 = m\<lparr>cleanup_chunks := [], bursts := (\<lambda>r. case r of Pool i \<Rightarrow> zero_burst | _ \<Rightarrow> bursts m r)\<rparr> in
      if \<not> (ok 0 \<and> ok 1) then (- ENOMEM, m1)
      else
        let m2 = m1\<lparr>burst_pool_live := True, burst_free_cnt := EDMA_GLOBAL_BURST_POOL_SIZE,
                    burst_free_list := (\<lambda>i. if i < EDMA_GLOBAL_BURST_POOL_SIZE then i else 0)\<rparr>
        in if \<not> (ok 2 \<and> ok 3) then (- ENOMEM, m2\<lparr>burst_pool_live := False\<rparr>)
           else (0, m2\<lparr>desc_free_cnt := EDMA_GLOBAL_DESC_POOL_SIZE,
                      desc_free_list := (\<lambda>i. if i < EDMA_GLOBAL_DESC_POOL_SIZE then i else 0)\<rparr>))"

definition dw_edma_mem_deinit :: "edma_mem \<Rightarrow> edma_mem" where
  "dw_edma_mem_deinit m = (dw_edma_cleanup_work m)\<lparr>burst_pool_live := False\<rparr>"

section \<open>Ownership\<close>

text \<open>
  Everything that can be handed out is either free or in use, exactly once.  \<open>U\<close> is the multiset of
  the references in use: bursts, chunks and descriptors.
\<close>

definition free_bursts :: "edma_mem \<Rightarrow> ref list" where
  "free_bursts m = map (\<lambda>i. Pool (burst_free_list m i)) [0..<burst_free_cnt m]"

definition free_descs :: "edma_mem \<Rightarrow> ref list" where
  "free_descs m = map (\<lambda>i. Desc (desc_free_list m i)) [0..<desc_free_cnt m]"

definition all_slots :: "ref multiset" where
  "all_slots = mset (map Pool [0..<EDMA_GLOBAL_BURST_POOL_SIZE]) + mset (map Desc [0..<EDMA_GLOBAL_DESC_POOL_SIZE])"

definition mem_ok :: "ref multiset \<Rightarrow> edma_mem \<Rightarrow> bool" where
  "mem_ok U m \<longleftrightarrow> burst_pool_live m \<and>
     mset (free_bursts m) + mset (free_descs m) + U = all_slots + mset (map Heap (heap_live m)) \<and>
     distinct (heap_live m) \<and> (\<forall>n \<in> set (heap_live m). n < heap_next m) \<and>
     (\<forall>n. \<not> from_pool (bursts m (Heap n)))"

lemma distinct_count_le: "distinct xs \<Longrightarrow> count (mset xs) r \<le> 1"
  by (simp add: distinct_count_atmost_1)

lemma all_slots_distinct: "count all_slots r \<le> 1"
proof -
  have "distinct (map Pool [0..<n] @ map Desc [0..<k])" for n k by (auto simp: distinct_map inj_on_def)
  then show ?thesis unfolding all_slots_def mset_append [symmetric] by (rule distinct_count_le)
qed

lemma mem_ok_in_use:
  assumes "mem_ok U m" "r \<in># U"
  shows "r \<notin> set (free_bursts m)" "r \<notin> set (free_descs m)" "r \<in> Heap ` set (heap_live m) \<or> r \<in># all_slots"
    "count U r = 1"
proof -
  have e: "mset (free_bursts m) + mset (free_descs m) + U = all_slots + mset (map Heap (heap_live m))"
    and d: "distinct (map Heap (heap_live m))"
    using assms(1) by (auto simp: mem_ok_def distinct_map inj_on_def)
  have h: "count (mset (map Heap (heap_live m))) r \<le> 1" using d by (simp add: distinct_count_atmost_1)
  have "count all_slots r = 0 \<or> count (mset (map Heap (heap_live m))) r = 0"
    by (cases r) (auto simp: all_slots_def count_eq_zero_iff)
  then have le: "count (all_slots + mset (map Heap (heap_live m))) r \<le> 1"
    using h all_slots_distinct [of r] by auto
  have eq: "count (mset (free_bursts m)) r + count (mset (free_descs m)) r + count U r =
      count (all_slots + mset (map Heap (heap_live m))) r"
    using e by (metis count_union)
  have u: "1 \<le> count U r" using assms(2) by (simp add: Suc_le_eq)
  show "count U r = 1" using eq le u by linarith
  have "count (mset (free_bursts m)) r = 0" "count (mset (free_descs m)) r = 0" using eq le u by linarith+
  then show "r \<notin> set (free_bursts m)" "r \<notin> set (free_descs m)" by (simp_all add: count_eq_zero_iff)
  show "r \<in> Heap ` set (heap_live m) \<or> r \<in># all_slots"
    using e assms(2) by (metis in_multiset_in_set list.set_map union_iff)
qed

text \<open>What is in use names objects of the right kind.\<close>

fun is_burst :: "ref \<Rightarrow> bool" where
  "is_burst (Desc i) = False"
| "is_burst _ = True"

fun is_pool :: "ref \<Rightarrow> bool" where
  "is_pool (Pool i) = True"
| "is_pool _ = False"

lemma filter_all_slots: "size (filter_mset is_pool all_slots) = EDMA_GLOBAL_BURST_POOL_SIZE"
proof -
  have "filter is_pool (map Pool [0..<n]) = map Pool [0..<n]" "filter is_pool (map Desc [0..<k]) = []" for n k
    by (simp_all add: filter_id_conv filter_empty_conv)
  then have "size (filter_mset is_pool (mset (map Pool [0..<n]) + mset (map Desc [0..<k]))) = n" for n k
    by (simp flip: mset_filter mset_map add: size_mset del: mset_map mset_upt)
  then show ?thesis unfolding all_slots_def .
qed

lemma free_bursts_room:
  assumes "mem_ok (add_mset (Pool i) U) m"
  shows "burst_free_cnt m < EDMA_GLOBAL_BURST_POOL_SIZE" "i < EDMA_GLOBAL_BURST_POOL_SIZE"
proof -
  have e: "mset (free_bursts m) + mset (free_descs m) + add_mset (Pool i) U = all_slots + mset (map Heap (heap_live m))"
    using assms by (simp add: mem_ok_def)
  have f: "filter_mset is_pool (mset (free_bursts m)) = mset (free_bursts m)"
      "filter_mset is_pool (mset (map Heap (heap_live m))) = {#}"
    by (auto simp: free_bursts_def filter_mset_eq_conv filter_mset_eq_mempty_iff)
  have "size (filter_mset is_pool (mset (free_bursts m) + mset (free_descs m) + add_mset (Pool i) U)) =
      EDMA_GLOBAL_BURST_POOL_SIZE"
    unfolding e filter_union_mset f(2) by (simp add: filter_all_slots)
  then show "burst_free_cnt m < EDMA_GLOBAL_BURST_POOL_SIZE"
    unfolding filter_union_mset f by (simp add: free_bursts_def)
  have "Pool i \<in># all_slots" using mem_ok_in_use(3) [OF assms, of "Pool i"] by auto
  then show "i < EDMA_GLOBAL_BURST_POOL_SIZE" by (auto simp: all_slots_def)
qed

lemma pop_burst_ok:
  assumes "mem_ok U m" "0 < burst_free_cnt m"
    and "b = Pool (burst_free_list m (burst_free_cnt m - 1))"
  shows "mem_ok (add_mset b U) (m\<lparr>burst_free_cnt := burst_free_cnt m - 1, bursts := (bursts m)(b := v)\<rparr>)"
    "b \<notin># U"
proof -
  have f: "free_bursts m = free_bursts (m\<lparr>burst_free_cnt := burst_free_cnt m - 1, bursts := (bursts m)(b := v)\<rparr>) @ [b]"
    using assms(2,3) by (cases "burst_free_cnt m") (simp_all add: free_bursts_def)
  then show "mem_ok (add_mset b U) (m\<lparr>burst_free_cnt := burst_free_cnt m - 1, bursts := (bursts m)(b := v)\<rparr>)"
    using assms by (auto simp: mem_ok_def free_descs_def)
  have "b \<in> set (free_bursts m)" by (subst f) simp
  then show "b \<notin># U" using mem_ok_in_use(1) [OF assms(1)] by blast
qed

lemma kzalloc_ok:
  assumes "mem_ok U m" "kzalloc m = (r, m1)"
  shows "(case r of None \<Rightarrow> mem_ok U m1 | Some b \<Rightarrow> mem_ok (add_mset b U) m1 \<and> b \<notin># U \<and> is_burst b)"
    "bursts m1 = bursts m"
proof -
  have n: "heap_next m \<notin> set (heap_live m)" using assms(1) by (auto simp: mem_ok_def)
  have "Heap (heap_next m) \<notin># U"
    using mem_ok_in_use(3) [OF assms(1)] n by (auto simp: all_slots_def)
  then show "(case r of None \<Rightarrow> mem_ok U m1 | Some b \<Rightarrow> mem_ok (add_mset b U) m1 \<and> b \<notin># U \<and> is_burst b)"
    using assms n
    by (auto simp: kzalloc_def Let_def mem_ok_def free_bursts_def free_descs_def less_Suc_eq split: if_splits)
  show "bursts m1 = bursts m" using assms(2) by (auto simp: kzalloc_def Let_def split: if_splits)
qed

lemma kfree_ok:
  assumes "mem_ok (add_mset r U) m" "r = Heap n"
  shows "mem_ok U (kfree r m)"
proof -
  have "n \<in> set (heap_live m)" using mem_ok_in_use(3) [OF assms(1), of r] assms(2) by (auto simp: all_slots_def)
  then have "mset (map Heap (heap_live m)) = add_mset r (mset (map Heap (remove1 n (heap_live m))))"
    using assms(2) by (simp flip: image_mset_add_mset)
  then show ?thesis
    using assms by (auto simp: mem_ok_def free_bursts_def free_descs_def dest: notin_set_remove1 split: if_splits)
qed

lemma push_free_ok: "mem_ok (add_mset (Pool i) U) m \<Longrightarrow> mem_ok U (push_free (Pool i) m)"
proof -
  assume ok: "mem_ok (add_mset (Pool i) U) m"
  have "free_bursts (push_free (Pool i) m) = free_bursts m @ [Pool i]"
    using free_bursts_room(1) [OF ok] by (simp add: push_free_def free_bursts_def)
  then show ?thesis using ok by (simp add: mem_ok_def free_descs_def push_free_def)
qed

lemma fix_from_pool_ok [simp]: "mem_ok U (fix_from_pool b m) = mem_ok U m"
  by (cases b) (auto simp: fix_from_pool_def mem_ok_def free_bursts_def free_descs_def)

lemma fixed_pool: "mem_ok (add_mset (Pool i) U) m \<Longrightarrow> from_pool (bursts (fix_from_pool (Pool i) m) (Pool i))"
  using free_bursts_room(2) by (auto simp: fix_from_pool_def mem_ok_def)

lemma fixed_heap: "mem_ok U m \<Longrightarrow> \<not> from_pool (bursts (fix_from_pool (Heap n) m) (Heap n))"
  by (simp add: fix_from_pool_def mem_ok_def)

lemma free_locked_ok:
  assumes "mem_ok (mset bs + mset dyn + U) m" "\<forall>b \<in> set bs. is_burst b" "\<forall>b \<in> set dyn. \<exists>n. b = Heap n"
    and "free_locked bs m dyn = (dyn1, m1)"
  shows "mem_ok (mset dyn1 + U) m1 \<and> (\<forall>b \<in> set dyn1. \<exists>n. b = Heap n)"
  using assms
proof (induction bs arbitrary: m dyn)
  case (Cons b bs)
  have ok: "mem_ok (add_mset b (mset bs + mset dyn + U)) (fix_from_pool b m)" using Cons.prems(1) by simp
  show ?case
  proof (cases b)
    case (Pool i)
    then have "mem_ok (mset bs + mset dyn + U) (push_free b (fix_from_pool b m))" using push_free_ok ok by simp
    then show ?thesis
      using Cons.IH [of dyn "push_free b (fix_from_pool b m)"] Cons.prems fixed_pool [of i _ m] Pool by (auto simp: Let_def)
  next
    case (Heap n)
    then show ?thesis
      using Cons.IH [of "b # dyn" "fix_from_pool b m"] Cons.prems ok fixed_heap [of _ m n] by (auto simp: Let_def)
  qed (use Cons.prems(2) in simp)
qed auto

lemma fold_kfree_ok: "mem_ok (mset dyn + U) m \<Longrightarrow> \<forall>b \<in> set dyn. \<exists>n. b = Heap n \<Longrightarrow> mem_ok U (fold kfree dyn m)"
  by (induction dyn arbitrary: m) (auto dest: kfree_ok)

lemma free_burst_batch_ok:
  assumes "mem_ok (mset bs + U) m" "\<forall>b \<in> set bs. is_burst b"
  shows "mem_ok U (dw_edma_free_burst_batch bs m)"
  using free_locked_ok [of bs "[]" U m] assms fold_kfree_ok
  by (auto simp: dw_edma_free_burst_batch_def split: prod.split)

lemma free_single_burst_ok:
  assumes "mem_ok (add_mset b U) m" "is_burst b"
  shows "mem_ok U (dw_edma_free_single_burst b m)"
proof (cases b)
  case (Pool i)
  then show ?thesis using assms fixed_pool push_free_ok by (simp add: dw_edma_free_single_burst_def Let_def)
next
  case (Heap n)
  then show ?thesis using assms fixed_heap kfree_ok [of b U "fix_from_pool b m"]
    by (auto simp: dw_edma_free_single_burst_def Let_def)
qed (use assms(2) in simp)

text \<open>The bursts of a chunk: the elements of its list and its anchor.\<close>

definition chunk_bursts :: "dw_edma_chunk \<Rightarrow> ref multiset" where
  "chunk_bursts c = (case burst c of None \<Rightarrow> {#} | Some h \<Rightarrow> add_mset h (mset (burst_list c)))"

definition chunk_ok :: "dw_edma_chunk \<Rightarrow> bool" where
  "chunk_ok c \<longleftrightarrow> bursts_alloc c = length (burst_list c) \<and> (burst c = None \<longrightarrow> burst_list c = []) \<and>
     (\<forall>b \<in># chunk_bursts c. is_burst b) \<and> (\<forall>r. c_ref c = Some r \<longrightarrow> (\<exists>n. r = Heap n))"

definition chunk_refs :: "dw_edma_chunk \<Rightarrow> ref multiset" where
  "chunk_refs c = chunk_bursts c + (case c_ref c of None \<Rightarrow> {#} | Some r \<Rightarrow> {#r#})"

lemma free_burst_ok:
  assumes "mem_ok (chunk_bursts c + U) m" "chunk_ok c"
  shows "mem_ok U (snd (dw_edma_free_burst c m))" "chunk_bursts (fst (dw_edma_free_burst c m)) = {#}"
    "chunk_ok (fst (dw_edma_free_burst c m))"
proof -
  show "mem_ok U (snd (dw_edma_free_burst c m))"
  proof (cases "burst c")
    case (Some h)
    have "mem_ok (mset (burst_list c @ [h]) + mset [] + U) m" using assms(1) Some by (simp add: chunk_bursts_def)
    moreover have "\<forall>b \<in> set (burst_list c @ [h]). is_burst b" using assms(2) Some by (auto simp: chunk_ok_def chunk_bursts_def)
    ultimately show ?thesis
      using free_locked_ok [of "burst_list c @ [h]" "[]" U m] Some fold_kfree_ok
      by (auto simp: dw_edma_free_burst_def split: prod.split)
  qed (use assms in \<open>simp add: dw_edma_free_burst_def chunk_bursts_def\<close>)
  show "chunk_bursts (fst (dw_edma_free_burst c m)) = {#}" "chunk_ok (fst (dw_edma_free_burst c m))"
    using assms(2) by (auto simp: dw_edma_free_burst_def chunk_bursts_def chunk_ok_def split: option.split prod.split)
qed

lemma free_chunk_object_ok:
  assumes "mem_ok (chunk_refs c + U) m" "chunk_ok c"
  shows "mem_ok U (free_chunk_object c m)"
proof (cases "c_ref c")
  case None
  then show ?thesis using assms free_burst_ok(1) by (simp add: chunk_refs_def free_chunk_object_def)
next
  case (Some r)
  have "mem_ok (chunk_bursts c + add_mset r U) m" using assms(1) Some by (simp add: chunk_refs_def)
  then have "mem_ok (add_mset r U) (snd (dw_edma_free_burst c m))" using free_burst_ok(1) assms(2) by blast
  then show ?thesis using Some assms(2) kfree_ok by (auto simp: free_chunk_object_def chunk_ok_def)
qed

lemma fold_free_chunks_ok:
  "mem_ok (\<Sum>\<^sub># (mset (map chunk_refs cs)) + U) m \<Longrightarrow> \<forall>c \<in> set cs. chunk_ok c \<Longrightarrow> mem_ok U (fold free_chunk_object cs m)"
proof (induction cs arbitrary: m)
  case (Cons c cs)
  have "mem_ok (chunk_refs c + (\<Sum>\<^sub># (mset (map chunk_refs cs)) + U)) m"
    using Cons.prems(1) by (simp add: union_assoc)
  from free_chunk_object_ok [OF this] show ?case using Cons by simp
qed simp

section \<open>Allocation\<close>

lemma alloc_burst_cases:
  assumes "mem_ok U m" "dw_edma_alloc_burst atomic c m = (r, c1, m1)"
  shows "(r = None \<and> c1 = c \<and> mem_ok U m1 \<and> bursts m1 = bursts m) \<or>
    (\<exists>b. r = Some b \<and> mem_ok (add_mset b U) m1 \<and> b \<notin># U \<and> is_burst b \<and> (\<forall>x. x \<noteq> b \<longrightarrow> bursts m1 x = bursts m x) \<and>
       c1 = (case burst c of
               Some _ \<Rightarrow> c\<lparr>bursts_alloc := bursts_alloc c + 1, burst_list := burst_list c @ [b]\<rparr>
             | None \<Rightarrow> c\<lparr>bursts_alloc := 0, burst := Some b, burst_list := []\<rparr>))"
proof (cases "0 < burst_free_cnt m")
  case True
  define b where "b = Pool (burst_free_list m (burst_free_cnt m - 1))"
  have "mem_ok (add_mset b U) (m\<lparr>burst_free_cnt := burst_free_cnt m - 1,
      bursts := (bursts m)(b := zero_burst\<lparr>from_pool := True\<rparr>)\<rparr>)" "b \<notin># U"
    using pop_burst_ok [OF assms(1) True b_def] by blast+
  then show ?thesis using assms(2) True
    by (auto simp: dw_edma_alloc_burst_def dw_edma_alloc_burst_from_pool_def Let_def b_def)
next
  case False
  obtain r0 m0 where k: "kzalloc m = (r0, m0)" by fastforce
  note z = kzalloc_ok [OF assms(1) k]
  have u: "mem_ok V (m0\<lparr>bursts := (bursts m0)(b := zero_burst)\<rparr>)" if "r0 = Some b" "mem_ok V m0" for V b
    using that k by (auto simp: kzalloc_def Let_def mem_ok_def free_bursts_def free_descs_def zero_burst_def split: if_splits)
  show ?thesis
    using assms False k z u
    by (cases r0) (auto simp: dw_edma_alloc_burst_def dw_edma_alloc_burst_from_pool_def dw_edma_alloc_burst_dynamic_def
        split: if_splits)
qed

lemma alloc_burst_ok:
  assumes "mem_ok (chunk_bursts c + U) m" "chunk_ok c" "dw_edma_alloc_burst atomic c m = (r, c1, m1)"
  shows "mem_ok (chunk_bursts c1 + U) m1" "chunk_ok c1" "c_ref c1 = c_ref c" "r \<noteq> None \<longrightarrow> burst c1 \<noteq> None"
  using alloc_burst_cases [OF assms(1,3)] assms(1,2)
  by (auto simp: chunk_ok_def chunk_bursts_def add_mset_commute split: option.splits)

lemma alloc_batch_ok:
  assumes "mem_ok U m" "dw_edma_alloc_burst_batch n m = (bs, m1)"
  shows "mem_ok (mset bs + U) m1 \<and> distinct bs \<and> (\<forall>b \<in> set bs. b \<notin># U \<and> is_burst b) \<and> length bs \<le> n \<and>
    (\<forall>x. x \<notin> set bs \<longrightarrow> bursts m1 x = bursts m x)"
  using assms
proof (induction n arbitrary: m m1 bs U)
  case (Suc n)
  show ?case
  proof (cases "burst_free_cnt m = 0")
    case False
    define b where "b = Pool (burst_free_list m (burst_free_cnt m - 1))"
    define m0 where "m0 = m\<lparr>burst_free_cnt := burst_free_cnt m - 1,
        bursts := (bursts m)(b := bursts m b\<lparr>from_pool := True\<rparr>)\<rparr>"
    have ok: "mem_ok (add_mset b U) m0" "b \<notin># U"
      using pop_burst_ok [OF Suc.prems(1) _ b_def] False by (auto simp: m0_def)
    obtain cs where cs: "dw_edma_alloc_burst_batch n m0 = (cs, m1)" "bs = b # cs"
      using Suc.prems(2) False by (auto simp: Let_def b_def m0_def split: prod.splits)
    have "is_burst b" "\<forall>x. x \<noteq> b \<longrightarrow> bursts m0 x = bursts m x" by (simp_all add: b_def m0_def)
    then show ?thesis using Suc.IH [OF ok(1) cs(1)] ok(2) cs(2) by auto
  qed (use Suc.prems in simp)
qed simp

lemma alloc_chunk_for_chan_ok:
  assumes "mem_ok U m" "dw_edma_alloc_chunk_for_chan ch m = (r, m1)"
  shows "(r = None \<and> mem_ok U m1) \<or>
    (\<exists>c. r = Some c \<and> mem_ok (chunk_refs c + U) m1 \<and> chunk_ok c \<and> chunk_bursts c = {#} \<and> burst c = None \<and>
       burst_list c = [] \<and> host_region c = desc_buf ch \<and> r_vaddr (desc_buf ch) \<noteq> None \<and> c_ref c \<noteq> None)"
proof -
  obtain r0 m0 where k: "kzalloc m = (r0, m0)" by fastforce
  show ?thesis
  proof (cases "r0 = None \<or> r_vaddr (desc_buf ch) = None")
    case True
    then show ?thesis using assms k kzalloc_ok(1) [OF assms(1) k] by (auto simp: dw_edma_alloc_chunk_for_chan_def split: if_splits)
  next
    case False
    then obtain n where n: "r0 = Some (Heap n)" using k by (auto simp: kzalloc_def Let_def split: if_splits)
    have "r = Some (zero_chunk\<lparr>c_ref := Some (Heap n), host_region := desc_buf ch\<rparr>)" "m1 = m0"
      using assms(2) k n False by (auto simp: dw_edma_alloc_chunk_for_chan_def)
    moreover have "mem_ok (add_mset (Heap n) U) m0" using kzalloc_ok(1) [OF assms(1) k] n by simp
    ultimately show ?thesis using False
      by (simp add: chunk_refs_def chunk_ok_def chunk_bursts_def zero_chunk_def)
  qed
qed

lemma chunk_frame [simp]:
  "chunk_refs (c\<lparr>cb := x\<rparr>) = chunk_refs c" "chunk_refs (c\<lparr>ll_region := g\<rparr>) = chunk_refs c"
  "chunk_bursts (c\<lparr>cb := x\<rparr>) = chunk_bursts c" "chunk_bursts (c\<lparr>ll_region := g\<rparr>) = chunk_bursts c"
  "chunk_ok (c\<lparr>cb := x\<rparr>) = chunk_ok c" "chunk_ok (c\<lparr>ll_region := g\<rparr>) = chunk_ok c"
  by (auto simp: chunk_refs_def chunk_bursts_def chunk_ok_def split: option.splits)

text \<open>What a descriptor holds: itself, its chunks and those of the shadow build.\<close>

definition opt_chunk :: "dw_edma_chunk option \<Rightarrow> dw_edma_chunk list" where
  "opt_chunk co = (case co of None \<Rightarrow> [] | Some c \<Rightarrow> [c])"

definition desc_chunks :: "dw_edma_desc \<Rightarrow> dw_edma_chunk list" where
  "desc_chunks d = chunk_list d @ opt_chunk (chunk_anchor d) @ opt_chunk (shadow_chunk d) @ opt_chunk (shadow_next_chunk d)"

definition refs_of :: "dw_edma_chunk list \<Rightarrow> ref multiset" where
  "refs_of cs = \<Sum>\<^sub># (mset (map chunk_refs cs))"

lemma refs_of_simps [simp]:
  "refs_of [] = {#}" "refs_of (c # cs) = chunk_refs c + refs_of cs" "refs_of (cs @ ds) = refs_of cs + refs_of ds"
  by (simp_all add: refs_of_def)

definition desc_refs :: "dw_edma_desc \<Rightarrow> ref multiset" where
  "desc_refs d = add_mset (d_ref d) (refs_of (desc_chunks d))"

definition desc_ok :: "dw_edma_desc \<Rightarrow> bool" where
  "desc_ok d \<longleftrightarrow> (\<forall>c \<in> set (desc_chunks d). chunk_ok c) \<and> (chunk_anchor d = None \<longrightarrow> chunk_list d = []) \<and>
     (if d_from_pool d then \<exists>i. d_ref d = Desc i else \<exists>n. d_ref d = Heap n)"

lemma free_chunks_ok:
  "mem_ok (refs_of cs + U) m \<Longrightarrow> \<forall>c \<in> set cs. chunk_ok c \<Longrightarrow> mem_ok U (fold free_chunk_object cs m)"
  unfolding refs_of_def by (rule fold_free_chunks_ok)

lemma free_unlinked_ok:
  "mem_ok (refs_of (opt_chunk co) + U) m \<Longrightarrow> \<forall>c \<in> set (opt_chunk co). chunk_ok c \<Longrightarrow>
    mem_ok U (dw_edma_free_unlinked_chunk co m)"
  by (cases co) (auto simp: dw_edma_free_unlinked_chunk_def opt_chunk_def free_chunk_object_ok)

lemma free_desc_room:
  assumes "mem_ok (add_mset (Desc i) U) m"
  shows "desc_free_cnt m < EDMA_GLOBAL_DESC_POOL_SIZE"
proof -
  define p where "p r \<longleftrightarrow> (\<exists>i. r = Desc i)" for r
  have e: "mset (free_bursts m) + mset (free_descs m) + add_mset (Desc i) U = all_slots + mset (map Heap (heap_live m))"
    using assms by (simp add: mem_ok_def)
  have f: "filter_mset p (mset (free_descs m)) = mset (free_descs m)"
      "filter_mset p (mset (map Heap (heap_live m))) = {#}" "p (Desc i)"
    by (auto simp: free_descs_def filter_mset_eq_conv filter_mset_eq_mempty_iff p_def)
  have "filter p (map Pool [0..<n]) = []" "filter p (map Desc [0..<k]) = map Desc [0..<k]" for n k
    by (simp_all add: filter_id_conv filter_empty_conv p_def)
  then have "size (filter_mset p (mset (map Pool [0..<n]) + mset (map Desc [0..<k]))) = k" for n k
    by (simp flip: mset_filter mset_map add: size_mset del: mset_map mset_upt)
  then have "size (filter_mset p (mset (free_bursts m) + mset (free_descs m) + add_mset (Desc i) U)) =
      EDMA_GLOBAL_DESC_POOL_SIZE"
    unfolding e filter_union_mset f(2) all_slots_def by simp
  then show ?thesis unfolding filter_union_mset f(1) using f(3) by (simp add: free_descs_def)
qed

lemma push_desc_ok: "mem_ok (add_mset (Desc i) U) m \<Longrightarrow> mem_ok U (push_desc (Desc i) m)"
proof -
  assume ok: "mem_ok (add_mset (Desc i) U) m"
  have "free_descs (push_desc (Desc i) m) = free_descs m @ [Desc i]"
    using free_desc_room [OF ok] by (simp add: push_desc_def free_descs_def)
  then show ?thesis using ok by (simp add: mem_ok_def free_bursts_def push_desc_def)
qed

text \<open>The list of chunks that wait for the cleanup is touched only by deferring and by the cleanup itself.\<close>

lemma cleanup_frame [simp]:
  "cleanup_chunks (kfree r m) = cleanup_chunks m" "cleanup_chunks (push_free r m) = cleanup_chunks m"
  "cleanup_chunks (fix_from_pool r m) = cleanup_chunks m" "cleanup_chunks (push_desc r m) = cleanup_chunks m"
  "cleanup_chunks (snd (kzalloc m)) = cleanup_chunks m"
  by (cases r; simp add: push_free_def fix_from_pool_def push_desc_def kzalloc_def Let_def)+

lemma cleanup_free_locked [simp]: "cleanup_chunks (snd (free_locked bs m dyn)) = cleanup_chunks m"
  by (induction bs arbitrary: m dyn) (simp_all add: Let_def)

lemma cleanup_fold_kfree [simp]: "cleanup_chunks (fold kfree dyn m) = cleanup_chunks m"
  by (induction dyn arbitrary: m) simp_all

lemma cleanup_frees [simp]:
  "cleanup_chunks (dw_edma_free_burst_batch bs m) = cleanup_chunks m"
  "cleanup_chunks (snd (dw_edma_free_burst c m)) = cleanup_chunks m"
  "cleanup_chunks (dw_edma_free_single_burst r m) = cleanup_chunks m"
  by (simp_all add: dw_edma_free_burst_batch_def dw_edma_free_burst_def dw_edma_free_single_burst_def Let_def
      case_prod_beta split: option.split)

lemma cleanup_free_object [simp]: "cleanup_chunks (free_chunk_object c m) = cleanup_chunks m"
  by (simp add: free_chunk_object_def Let_def split: option.split)

lemma cleanup_fold_free [simp]: "cleanup_chunks (fold free_chunk_object cs m) = cleanup_chunks m"
  by (induction cs arbitrary: m) simp_all

lemma cleanup_free_chunks [simp]:
  "cleanup_chunks (snd (dw_edma_free_chunk d m)) = cleanup_chunks m"
  "cleanup_chunks (dw_edma_free_unlinked_chunk co m) = cleanup_chunks m"
  by (simp_all add: dw_edma_free_chunk_def dw_edma_free_unlinked_chunk_def split: option.split)

lemma cleanup_alloc_burst [simp]: "cleanup_chunks (snd (snd (dw_edma_alloc_burst a c m))) = cleanup_chunks m"
  by (simp add: dw_edma_alloc_burst_def dw_edma_alloc_burst_from_pool_def dw_edma_alloc_burst_dynamic_def
      kzalloc_def Let_def)

lemma cleanup_alloc_batch [simp]: "cleanup_chunks (snd (dw_edma_alloc_burst_batch n m)) = cleanup_chunks m"
  by (induction n arbitrary: m) (simp_all add: Let_def case_prod_beta)

lemma cleanup_alloc_for_chan [simp]: "cleanup_chunks (snd (dw_edma_alloc_chunk_for_chan ch m)) = cleanup_chunks m"
  by (simp add: dw_edma_alloc_chunk_for_chan_def kzalloc_def Let_def)

lemma cleanup_alloc_chunk [simp]: "cleanup_chunks (snd (snd (dw_edma_alloc_chunk a ch d m))) = cleanup_chunks m"
  using cleanup_alloc_for_chan [of ch m]
  by (auto simp: dw_edma_alloc_chunk_def Let_def simp del: cleanup_alloc_for_chan split: prod.split option.split
      dest: arg_cong [of _ _ "\<lambda>x. cleanup_chunks (snd (snd x))"])

section \<open>Descriptors and their chunks\<close>

text \<open>A descriptor in use, beside the chunks that wait for the cleanup and what else is in use.\<close>

definition live :: "ref multiset \<Rightarrow> dw_edma_desc \<Rightarrow> edma_mem \<Rightarrow> bool" where
  "live U d m \<longleftrightarrow> mem_ok (desc_refs d + refs_of (cleanup_chunks m) + U) m \<and> desc_ok d \<and>
     (\<forall>c \<in> set (cleanup_chunks m). chunk_ok c)"

lemma desc_frame [simp]:
  "desc_refs (d\<lparr>sh_state := x\<rparr>) = desc_refs d" "desc_ok (d\<lparr>sh_state := x\<rparr>) = desc_ok d"
  "desc_refs (d\<lparr>lz_state := y\<rparr>) = desc_refs d" "desc_ok (d\<lparr>lz_state := y\<rparr>) = desc_ok d"
  "desc_refs (d\<lparr>shadow_work_initialized := z\<rparr>) = desc_refs d" "desc_ok (d\<lparr>shadow_work_initialized := z\<rparr>) = desc_ok d"
  "desc_refs (d\<lparr>lazy_work_initialized := z\<rparr>) = desc_refs d" "desc_ok (d\<lparr>lazy_work_initialized := z\<rparr>) = desc_ok d"
  by (simp_all add: desc_refs_def desc_ok_def desc_chunks_def)

lemma live_frame [simp]:
  "live U (d\<lparr>sh_state := x\<rparr>) m = live U d m" "live U (d\<lparr>lz_state := y\<rparr>) m = live U d m"
  "live U (d\<lparr>shadow_work_initialized := z\<rparr>) m = live U d m" "live U (d\<lparr>lazy_work_initialized := z\<rparr>) m = live U d m"
  by (simp_all add: live_def)

lemma free_shadow_live:
  assumes "live U d m"
  shows "live U (d\<lparr>shadow_chunk := None, shadow_next_chunk := None\<rparr>)
    (dw_edma_free_unlinked_chunk (shadow_next_chunk d) (dw_edma_free_unlinked_chunk (shadow_chunk d) m))"
proof -
  let ?e = "d\<lparr>shadow_chunk := None, shadow_next_chunk := None\<rparr>"
  have r: "desc_refs d = refs_of (opt_chunk (shadow_chunk d)) + (refs_of (opt_chunk (shadow_next_chunk d)) + desc_refs ?e)"
    by (simp add: desc_refs_def desc_chunks_def opt_chunk_def)
  have k: "\<forall>c \<in> set (opt_chunk (shadow_chunk d)). chunk_ok c" "\<forall>c \<in> set (opt_chunk (shadow_next_chunk d)). chunk_ok c"
      "desc_ok ?e"
    using assms by (auto simp: live_def desc_ok_def desc_chunks_def opt_chunk_def)
  let ?V = "desc_refs ?e + refs_of (cleanup_chunks m) + U"
  have "mem_ok (refs_of (opt_chunk (shadow_chunk d)) + (refs_of (opt_chunk (shadow_next_chunk d)) + ?V)) m"
    using assms unfolding live_def r by (simp add: ac_simps)
  then have "mem_ok (refs_of (opt_chunk (shadow_next_chunk d)) + ?V) (dw_edma_free_unlinked_chunk (shadow_chunk d) m)"
    using free_unlinked_ok k(1) by blast
  then have "mem_ok ?V (dw_edma_free_unlinked_chunk (shadow_next_chunk d) (dw_edma_free_unlinked_chunk (shadow_chunk d) m))"
    using free_unlinked_ok k(2) by blast
  then show ?thesis using k(3) assms by (simp add: live_def)
qed

lemma free_chunk_live:
  assumes "live U d m" "shadow_chunk d = None" "shadow_next_chunk d = None"
  shows "mem_ok (add_mset (d_ref d) (refs_of (cleanup_chunks m) + U)) (snd (dw_edma_free_chunk d m))"
proof (cases "chunk_anchor d")
  case None
  then show ?thesis
    using assms by (auto simp: live_def dw_edma_free_chunk_def desc_refs_def desc_chunks_def opt_chunk_def desc_ok_def)
next
  case (Some a)
  let ?V = "add_mset (d_ref d) (refs_of (cleanup_chunks m) + U)"
  have "mem_ok (refs_of (chunk_list d @ [a]) + ?V) m" "\<forall>c \<in> set (chunk_list d @ [a]). chunk_ok c"
    using assms Some by (auto simp: live_def desc_refs_def desc_ok_def desc_chunks_def opt_chunk_def ac_simps)
  then have "mem_ok ?V (fold free_chunk_object (chunk_list d @ [a]) m)" by (rule free_chunks_ok)
  then show ?thesis using Some by (simp add: dw_edma_free_chunk_def)
qed

text \<open>
  What the workers of a descriptor may do while they are being cancelled: they keep the account, and
  without a shadow build there is none to find afterwards.
\<close>

definition no_shadow :: "dw_edma_desc \<Rightarrow> bool" where
  "no_shadow d \<longleftrightarrow> shadow_chunk d = None \<and> shadow_next_chunk d = None \<and> \<not> shadow_work_initialized d"

definition settle_ok :: "ref multiset \<Rightarrow> (dw_edma_desc \<times> edma_mem \<Rightarrow> dw_edma_desc \<times> edma_mem) \<Rightarrow> bool" where
  "settle_ok U settle \<longleftrightarrow> (\<forall>e n. live U e n \<longrightarrow>
     live U (fst (settle (e, n))) (snd (settle (e, n))) \<and> (no_shadow e \<longrightarrow> no_shadow (fst (settle (e, n)))))"

lemma free_desc_ok:
  assumes "live U d m" "settle_ok U settle"
  shows "mem_ok (refs_of (cleanup_chunks (dw_edma_free_desc settle d m)) + U) (dw_edma_free_desc settle d m) \<and>
    (\<forall>c \<in> set (cleanup_chunks (dw_edma_free_desc settle d m)). chunk_ok c)"
proof -
  define d0 where "d0 = (if sh_state d \<noteq> SHADOW_IDLE then d\<lparr>sh_state := SHADOW_CANCELLED\<rparr> else d)"
  define p1 where "p1 = (if shadow_work_initialized d
      then ((fst (settle (d0, m)))\<lparr>shadow_work_initialized := False\<rparr>, snd (settle (d0, m))) else (d, m))"
  have l1: "live U (fst p1) (snd p1)" using assms by (simp add: p1_def d0_def settle_ok_def)
  define d2 where "d2 = (fst p1)\<lparr>shadow_chunk := None, shadow_next_chunk := None\<rparr>"
  define m3 where "m3 = dw_edma_free_unlinked_chunk (shadow_next_chunk (fst p1))
      (dw_edma_free_unlinked_chunk (shadow_chunk (fst p1)) (snd p1))"
  have l2: "live U d2 m3" "no_shadow d2"
    using free_shadow_live [OF l1] by (simp_all add: d2_def m3_def no_shadow_def p1_def)
  define p3 where "p3 = (if lazy_work_initialized d2
      then ((fst (settle (d2\<lparr>lz_state := LAZY_REFILL_IDLE\<rparr>, m3)))\<lparr>lazy_work_initialized := False\<rparr>,
            snd (settle (d2\<lparr>lz_state := LAZY_REFILL_IDLE\<rparr>, m3))) else (d2, m3))"
  have "live U (d2\<lparr>lz_state := LAZY_REFILL_IDLE\<rparr>) m3" "no_shadow (d2\<lparr>lz_state := LAZY_REFILL_IDLE\<rparr>)"
    using l2 by (simp_all add: no_shadow_def)
  then have l3: "live U (fst p3) (snd p3)" "no_shadow (fst p3)"
    using assms(2) l2 by (auto simp: p3_def settle_ok_def no_shadow_def)
  define d3 where "d3 = fst p3"
  define m5 where "m5 = snd (dw_edma_free_chunk d3 (snd p3))"
  have f: "dw_edma_free_desc settle d m = (if d_from_pool d3 then push_desc (d_ref d3) m5 else kfree (d_ref d3) m5)"
    unfolding dw_edma_free_desc_def Let_def m5_def d3_def p3_def m3_def d2_def p1_def d0_def
    by (simp add: case_prod_beta)
  have c: "cleanup_chunks (dw_edma_free_desc settle d m) = cleanup_chunks (snd p3)" using f by (simp add: m5_def)
  have "mem_ok (add_mset (d_ref d3) (refs_of (cleanup_chunks (snd p3)) + U)) m5"
    using free_chunk_live [of U d3 "snd p3"] l3 by (simp add: m5_def d3_def no_shadow_def)
  moreover have "if d_from_pool d3 then \<exists>i. d_ref d3 = Desc i else \<exists>n. d_ref d3 = Heap n"
    using l3 by (simp add: live_def desc_ok_def d3_def)
  ultimately have "mem_ok (refs_of (cleanup_chunks (snd p3)) + U) (dw_edma_free_desc settle d m)"
    unfolding f using push_desc_ok kfree_ok by (auto split: if_splits)
  then show ?thesis using c l3(1) by (simp add: live_def)
qed

lemma alloc_desc_ok:
  assumes "mem_ok U m" "dw_edma_alloc_desc m = (r, m1)"
  shows "(r = None \<and> mem_ok U m1) \<or> (\<exists>d. r = Some d \<and> mem_ok (desc_refs d + U) m1 \<and> desc_ok d)"
    "cleanup_chunks m1 = cleanup_chunks m"
proof -
  have fresh: "desc_refs (d\<lparr>chunk_anchor := Some zero_chunk, chunk_list := [], chunks_alloc := 0\<rparr>) = {#d_ref d#}"
      "desc_ok (d\<lparr>chunk_anchor := Some zero_chunk, chunk_list := [], chunks_alloc := 0\<rparr>)"
    if "d = zero_desc x \<and> (\<exists>n. x = Heap n) \<or> d = (zero_desc x)\<lparr>d_from_pool := True\<rparr> \<and> (\<exists>i. x = Desc i)" for d x
    using that by (auto simp: desc_refs_def desc_chunks_def opt_chunk_def chunk_refs_def chunk_bursts_def zero_chunk_def
        zero_desc_def desc_ok_def chunk_ok_def)
  obtain r0 m0 where k: "kzalloc m = (r0, m0)" by fastforce
  have heap: "r0 = Some x \<Longrightarrow> \<exists>n. x = Heap n" for x using k by (auto simp: kzalloc_def Let_def split: if_splits)
  have pop: "mem_ok (add_mset (Desc (desc_free_list m (desc_free_cnt m - 1))) U) (m\<lparr>desc_free_cnt := desc_free_cnt m - 1\<rparr>)"
    if "0 < desc_free_cnt m"
  proof -
    have "free_descs m = free_descs (m\<lparr>desc_free_cnt := desc_free_cnt m - 1\<rparr>) @ [Desc (desc_free_list m (desc_free_cnt m - 1))]"
      using that by (cases "desc_free_cnt m") (simp_all add: free_descs_def)
    then show ?thesis using assms(1) by (simp add: mem_ok_def free_bursts_def)
  qed
  show "(r = None \<and> mem_ok U m1) \<or> (\<exists>d. r = Some d \<and> mem_ok (desc_refs d + U) m1 \<and> desc_ok d)"
  proof (cases "0 < desc_free_cnt m")
    case True
    define x where "x = Desc (desc_free_list m (desc_free_cnt m - 1))"
    define d where "d = (zero_desc x)\<lparr>d_from_pool := True\<rparr>"
    have "d_ref d = x" by (simp add: d_def zero_desc_def)
    moreover have "r = Some (d\<lparr>chunk_anchor := Some zero_chunk, chunk_list := [], chunks_alloc := 0\<rparr>)"
        "m1 = m\<lparr>desc_free_cnt := desc_free_cnt m - 1\<rparr>"
      using assms(2) True by (auto simp: dw_edma_alloc_desc_def dw_edma_alloc_desc_from_pool_def d_def x_def)
    ultimately show ?thesis using pop [OF True] fresh [of d x] by (simp add: d_def x_def)
  next
    case False
    show ?thesis
    proof (cases r0)
      case None
      then show ?thesis using assms(2) False k kzalloc_ok [OF assms(1) k]
        by (simp add: dw_edma_alloc_desc_def dw_edma_alloc_desc_from_pool_def dw_edma_alloc_desc_dynamic_def)
    next
      case (Some x)
      have "d_ref (zero_desc x) = x" by (simp add: zero_desc_def)
      then show ?thesis using assms(2) False k kzalloc_ok [OF assms(1) k] heap fresh [of "zero_desc x" x] Some
        by (auto simp: dw_edma_alloc_desc_def dw_edma_alloc_desc_from_pool_def dw_edma_alloc_desc_dynamic_def)
    qed
  qed
  show "cleanup_chunks m1 = cleanup_chunks m"
    using assms(2) by (auto simp: dw_edma_alloc_desc_def dw_edma_alloc_desc_from_pool_def dw_edma_alloc_desc_dynamic_def
        kzalloc_def Let_def split: if_splits)
qed

lemma alloc_chunk_ok:
  assumes "mem_ok (desc_refs d + U) m" "desc_ok d" "dw_edma_alloc_chunk a ch d m = (r, d1, m1)"
  shows "mem_ok (desc_refs d1 + U) m1 \<and> desc_ok d1"
proof -
  obtain r0 m0 where k: "dw_edma_alloc_chunk_for_chan ch m = (r0, m0)" by fastforce
  note z = alloc_chunk_for_chan_ok [OF assms(1) k]
  show ?thesis
  proof (cases r0)
    case None
    then show ?thesis using assms z k by (auto simp: dw_edma_alloc_chunk_def)
  next
    case (Some c0)
    define c where "c = c0\<lparr>cb := even (chunks_alloc d), ll_region := ch_ll ch\<rparr>"
    obtain n where c: "mem_ok (chunk_bursts c + add_mset (Heap n) (desc_refs d + U)) m0" "chunk_ok c" "c_ref c = Some (Heap n)"
      using z Some by (auto simp: c_def chunk_ok_def chunk_refs_def)
    show ?thesis
    proof (cases "chunk_anchor d")
      case None
      then have "d1 = d\<lparr>chunks_alloc := 0, chunk_anchor := Some c\<rparr>" "m1 = m0"
        using assms(3) k Some by (auto simp: dw_edma_alloc_chunk_def Let_def c_def)
      then show ?thesis using None assms(2) c
        by (simp add: desc_refs_def desc_chunks_def opt_chunk_def chunk_refs_def desc_ok_def ac_simps add_mset_commute)
    next
      case anchor: (Some x)
      obtain rb c1 m2 where b: "dw_edma_alloc_burst a c m0 = (rb, c1, m2)" by (metis prod_cases3)
      note ab = alloc_burst_ok [OF c(1,2) b]
      show ?thesis
      proof (cases rb)
        case None
        then have "c1 = c" using alloc_burst_cases [OF c(1) b] by simp
        moreover have "chunk_bursts c = {#}" using z Some by (auto simp: c_def)
        ultimately have "mem_ok (add_mset (Heap n) (desc_refs d + U)) m2" using ab(1) by simp
        then show ?thesis using assms(2,3) k Some anchor b None c(3) kfree_ok
          by (auto simp: dw_edma_alloc_chunk_def Let_def c_def [symmetric])
      next
        case (Some y)
        then have "d1 = d\<lparr>chunks_alloc := chunks_alloc d + 1, chunk_list := chunk_list d @ [c1]\<rparr>" "m1 = m2"
          using assms(3) k \<open>r0 = Some c0\<close> anchor b by (simp_all add: dw_edma_alloc_chunk_def Let_def c_def [symmetric])
        then show ?thesis using assms(2) ab c(3) anchor
          by (simp add: desc_refs_def desc_chunks_def chunk_refs_def desc_ok_def ac_simps add_mset_commute)
      qed
    qed
  qed
qed

section \<open>Clients of the allocator\<close>

text \<open>
  A state of the allocator with its clients: descriptors, chunks that are in no descriptor, bursts of
  a batch, and the memory.
\<close>

type_synonym holdings = "dw_edma_desc list \<times> dw_edma_chunk list \<times> ref list \<times> edma_mem"

fun in_use :: "holdings \<Rightarrow> ref multiset" where
  "in_use (ds, cs, bs, m) = \<Sum>\<^sub># (mset (map desc_refs ds)) + refs_of cs + mset bs + refs_of (cleanup_chunks m)"

fun holdings_ok :: "holdings \<Rightarrow> bool" where
  "holdings_ok (ds, cs, bs, m) \<longleftrightarrow> mem_ok (in_use (ds, cs, bs, m)) m \<and> (\<forall>d \<in> set ds. desc_ok d) \<and>
     (\<forall>c \<in> set cs. chunk_ok c) \<and> (\<forall>b \<in> set bs. is_burst b) \<and> (\<forall>c \<in> set (cleanup_chunks m). chunk_ok c)"

inductive mem_step :: "holdings \<Rightarrow> holdings \<Rightarrow> bool" where
  new_chunk: "dw_edma_alloc_unlinked_chunk ch m = (Some c, m1) \<Longrightarrow> mem_step (ds, cs, bs, m) (ds, c # cs, bs, m1)"
| no_chunk: "dw_edma_alloc_unlinked_chunk ch m = (None, m1) \<Longrightarrow> mem_step (ds, cs, bs, m) (ds, cs, bs, m1)"
| grow_chunk: "dw_edma_alloc_burst a c m = (r, c1, m1) \<Longrightarrow> mem_step (ds, c # cs, bs, m) (ds, c1 # cs, bs, m1)"
| free_chunk: "mem_step (ds, c # cs, bs, m) (ds, cs, bs, dw_edma_free_unlinked_chunk (Some c) m)"
| defer_chunk: "mem_step (ds, c # cs, bs, m) (ds, cs, bs, dw_edma_defer_chunk_free c m)"
| cleanup: "mem_step (ds, cs, bs, m) (ds, cs, bs, dw_edma_cleanup_work m)"
| take_batch: "dw_edma_alloc_burst_batch n m = (bs1, m1) \<Longrightarrow> mem_step (ds, cs, bs, m) (ds, cs, bs1 @ bs, m1)"
| free_batch: "mem_step (ds, cs, bs1 @ bs, m) (ds, cs, bs, dw_edma_free_burst_batch bs1 m)"
| free_single: "mem_step (ds, cs, b # bs, m) (ds, cs, bs, dw_edma_free_single_burst b m)"
| new_desc: "dw_edma_alloc_desc m = (Some d, m1) \<Longrightarrow> mem_step (ds, cs, bs, m) (d # ds, cs, bs, m1)"
| no_desc: "dw_edma_alloc_desc m = (None, m1) \<Longrightarrow> mem_step (ds, cs, bs, m) (ds, cs, bs, m1)"
| grow_desc: "dw_edma_alloc_chunk a ch d m = (r, d1, m1) \<Longrightarrow> mem_step (d # ds, cs, bs, m) (d1 # ds, cs, bs, m1)"
| free_desc: "(\<And>U. settle_ok U settle) \<Longrightarrow>
    mem_step (d # ds, cs, bs, m) (ds, cs, bs, dw_edma_free_desc settle d m)"
| reorder: "mset ds1 = mset ds \<Longrightarrow> mset cs1 = mset cs \<Longrightarrow> mset bs1 = mset bs \<Longrightarrow>
    mem_step (ds, cs, bs, m) (ds1, cs1, bs1, m)"

lemma alloc_unlinked_ok:
  assumes "mem_ok U m" "dw_edma_alloc_unlinked_chunk ch m = (r, m1)"
  shows "case r of None \<Rightarrow> mem_ok U m1 | Some c \<Rightarrow> mem_ok (chunk_refs c + U) m1 \<and> chunk_ok c"
    "cleanup_chunks m1 = cleanup_chunks m"
proof -
  obtain r0 m0 where k: "dw_edma_alloc_chunk_for_chan ch m = (r0, m0)" by fastforce
  show "case r of None \<Rightarrow> mem_ok U m1 | Some c \<Rightarrow> mem_ok (chunk_refs c + U) m1 \<and> chunk_ok c"
    using alloc_chunk_for_chan_ok [OF assms(1) k] assms(2) k
    by (auto simp: dw_edma_alloc_unlinked_chunk_def chunk_refs_def chunk_ok_def chunk_bursts_def)
  show "cleanup_chunks m1 = cleanup_chunks m"
    using assms(2) k cleanup_alloc_for_chan [of ch m] by (auto simp: dw_edma_alloc_unlinked_chunk_def split: option.splits)
qed

lemma cleanup_work_ok:
  assumes "mem_ok (refs_of (cleanup_chunks m) + U) m" "\<forall>c \<in> set (cleanup_chunks m). chunk_ok c"
  shows "mem_ok U (dw_edma_cleanup_work m) \<and> cleanup_chunks (dw_edma_cleanup_work m) = []"
proof -
  have "mem_ok V (m\<lparr>cleanup_chunks := []\<rparr>) = mem_ok V m" for V by (simp add: mem_ok_def free_bursts_def free_descs_def)
  then show ?thesis using assms free_chunks_ok by (simp add: dw_edma_cleanup_work_def)
qed

lemma cleanup_of_alloc:
  "dw_edma_alloc_burst a c m = (r, c1, m1) \<Longrightarrow> cleanup_chunks m1 = cleanup_chunks m"
  "dw_edma_alloc_burst_batch n m = (bs, m1) \<Longrightarrow> cleanup_chunks m1 = cleanup_chunks m"
  "dw_edma_alloc_chunk a ch d m = (s, d1, m1) \<Longrightarrow> cleanup_chunks m1 = cleanup_chunks m"
  using cleanup_alloc_burst [of a c m] cleanup_alloc_batch [of n m] cleanup_alloc_chunk [of a ch d m] by simp_all

lemma desc_sum: "\<Sum>\<^sub># (mset (map desc_refs (d # ds))) = desc_refs d + \<Sum>\<^sub># (mset (map desc_refs ds))"
  by simp

lemma refs_of_mset: "mset cs1 = mset cs \<Longrightarrow> refs_of cs1 = refs_of cs"
  by (simp add: refs_of_def)

lemma mem_step_ok: "mem_step x y \<Longrightarrow> holdings_ok x \<Longrightarrow> holdings_ok y"
proof (induction rule: mem_step.induct)
  case (new_chunk ch m c m1 ds cs bs)
  then show ?case using alloc_unlinked_ok [of "in_use (ds, cs, bs, m)" m ch "Some c" m1] by (auto simp: ac_simps)
next
  case (no_chunk ch m m1 ds cs bs)
  then show ?case using alloc_unlinked_ok [of "in_use (ds, cs, bs, m)" m ch None m1] by auto
next
  case (grow_chunk a c m r c1 m1 ds cs bs)
  let ?U = "in_use (ds, cs, bs, m) + (case c_ref c of None \<Rightarrow> {#} | Some r \<Rightarrow> {#r#})"
  have e: "in_use (ds, c # cs, bs, m) = chunk_bursts c + ?U" by (simp add: chunk_refs_def ac_simps)
  then have "mem_ok (chunk_bursts c + ?U) m" "chunk_ok c" using grow_chunk.prems by (simp_all del: in_use.simps)
  note k = alloc_burst_ok [OF this grow_chunk.hyps]
  have "in_use (ds, c1 # cs, bs, m1) = chunk_bursts c1 + ?U"
    using k(3) cleanup_of_alloc(1) [OF grow_chunk.hyps] by (simp add: chunk_refs_def ac_simps)
  then show ?case using k grow_chunk.prems cleanup_of_alloc(1) [OF grow_chunk.hyps] by (simp del: in_use.simps)
next
  case (free_chunk ds c cs bs m)
  then show ?case using free_chunk_object_ok [of c "in_use (ds, cs, bs, m)" m]
    by (simp add: dw_edma_free_unlinked_chunk_def ac_simps)
next
  case (defer_chunk ds c cs bs m)
  have "mem_ok V (m\<lparr>cleanup_chunks := x\<rparr>) = mem_ok V m" for V x by (simp add: mem_ok_def free_bursts_def free_descs_def)
  then show ?case using defer_chunk by (simp add: dw_edma_defer_chunk_free_def ac_simps)
next
  case (cleanup ds cs bs m)
  let ?U = "\<Sum>\<^sub># (mset (map desc_refs ds)) + refs_of cs + mset bs"
  have "mem_ok (refs_of (cleanup_chunks m) + ?U) m" using cleanup by (simp add: ac_simps)
  then show ?case using cleanup_work_ok [of m ?U] cleanup by simp
next
  case (take_batch n m bs1 m1 ds cs bs)
  then show ?case
    using alloc_batch_ok [of "in_use (ds, cs, bs, m)" m n bs1 m1] cleanup_of_alloc(2) [OF take_batch.hyps]
    by (auto simp: ac_simps)
next
  case (free_batch ds cs bs1 bs m)
  then show ?case using free_burst_batch_ok [of bs1 "in_use (ds, cs, bs, m)" m] by (auto simp: ac_simps)
next
  case (free_single ds cs b bs m)
  then show ?case using free_single_burst_ok [of b "in_use (ds, cs, bs, m)" m] by (auto simp: ac_simps)
next
  case (new_desc m d m1 ds cs bs)
  have "mem_ok (in_use (ds, cs, bs, m)) m" using new_desc.prems by simp
  note k = alloc_desc_ok [OF this new_desc.hyps]
  have "mem_ok (desc_refs d + in_use (ds, cs, bs, m)) m1" "desc_ok d" using k(1) by (simp_all del: in_use.simps)
  moreover have "in_use (d # ds, cs, bs, m1) = desc_refs d + in_use (ds, cs, bs, m)" using k(2) by (simp add: ac_simps)
  ultimately show ?case using new_desc.prems k(2) by (simp del: in_use.simps)
next
  case (no_desc m m1 ds cs bs)
  have "mem_ok (in_use (ds, cs, bs, m)) m" using no_desc.prems by simp
  note k = alloc_desc_ok [OF this no_desc.hyps]
  then show ?case using no_desc.prems by simp
next
  case (grow_desc a ch d m r d1 m1 ds cs bs)
  have "in_use (d # ds, cs, bs, m) = desc_refs d + in_use (ds, cs, bs, m)" by (simp add: ac_simps)
  then have "mem_ok (desc_refs d + in_use (ds, cs, bs, m)) m" "desc_ok d"
    using grow_desc.prems by (simp_all del: in_use.simps)
  note k = alloc_chunk_ok [OF this grow_desc.hyps] cleanup_of_alloc(3) [OF grow_desc.hyps]
  have "in_use (d1 # ds, cs, bs, m1) = desc_refs d1 + in_use (ds, cs, bs, m)" using k(2) by (simp add: ac_simps)
  then show ?case using k grow_desc.prems by (simp del: in_use.simps)
next
  case (free_desc settle d ds cs bs m)
  let ?U = "\<Sum>\<^sub># (mset (map desc_refs ds)) + refs_of cs + mset bs"
  have "live ?U d m" using free_desc.prems by (simp add: live_def ac_simps)
  then show ?case using free_desc_ok [of ?U d m settle] free_desc by (simp add: ac_simps)
next
  case (reorder ds1 ds cs1 cs bs1 bs m)
  then show ?case using refs_of_mset [of cs1 cs] mset_eq_setD [of ds1 ds] mset_eq_setD [of cs1 cs] mset_eq_setD [of bs1 bs]
    by simp
qed

interpretation mem_run: trans_inv mem_step holdings_ok
  by unfold_locales (rule mem_step_ok)

text \<open>A memory whose pools have just been set up.\<close>

lemma mem_init_ok:
  assumes "heap_live m = []" "\<forall>n. \<not> from_pool (bursts m (Heap n))" "dw_edma_mem_init ok m = (0, m1)"
  shows "holdings_ok ([], [], [], m1)"
proof -
  have id: "map (\<lambda>i. Pool (if i < n then i else 0)) [0..<n] = map Pool [0..<n]"
      "map (\<lambda>i. Desc (if i < n then i else 0)) [0..<n] = map Desc [0..<n]" for n by simp_all
  have "mset (free_bursts m1) + mset (free_descs m1) = all_slots" "cleanup_chunks m1 = []"
      "heap_live m1 = []" "\<forall>n. \<not> from_pool (bursts m1 (Heap n))" "burst_pool_live m1"
    using assms
    by (auto simp: dw_edma_mem_init_def Let_def free_bursts_def free_descs_def all_slots_def id simp del: mset_map split: if_splits)
  then show ?thesis by (simp add: mem_ok_def)
qed

section \<open>Properties\<close>

text \<open>
  (C17) The memory of the DMA engine is neither lost nor given out twice.  After any run of allocations,
  releases, deferred releases and cleanups from freshly set up pools, every object is in use at most
  once and is then not free; and when the clients have given everything back, both pools are full
  again and nothing is left on the heap.
\<close>

theorem engine_memory_conserved:
  assumes "heap_live m = []" "\<forall>n. \<not> from_pool (bursts m (Heap n))" "dw_edma_mem_init ok m = (0, m1)"
    and "mem_step\<^sup>*\<^sup>* ([], [], [], m1) (ds, cs, bs, n)"
  shows "(\<forall>r. count (in_use (ds, cs, bs, n)) r \<le> 1) \<and>
    (\<forall>r \<in># in_use (ds, cs, bs, n). r \<notin> set (free_bursts n) \<union> set (free_descs n)) \<and>
    (ds = [] \<and> cs = [] \<and> bs = [] \<and> cleanup_chunks n = [] \<longrightarrow>
      heap_live n = [] \<and> mset (free_bursts n) + mset (free_descs n) = all_slots)"
proof -
  have "holdings_ok (ds, cs, bs, n)" using mem_run.run_inv [OF assms(4) mem_init_ok [OF assms(1-3)]] .
  then have ok: "mem_ok (in_use (ds, cs, bs, n)) n" by simp
  have "count (in_use (ds, cs, bs, n)) r \<le> 1" for r
    using mem_ok_in_use(4) [OF ok, of r] by (metis count_inI le_refl zero_le_one)
  moreover have "r \<notin> set (free_bursts n) \<union> set (free_descs n)" if "r \<in># in_use (ds, cs, bs, n)" for r
    using mem_ok_in_use(1,2) [OF ok that] by simp
  moreover have "heap_live n = [] \<and> mset (free_bursts n) + mset (free_descs n) = all_slots"
    if "ds = [] \<and> cs = [] \<and> bs = [] \<and> cleanup_chunks n = []"
  proof -
    have e: "mset (free_bursts n) + mset (free_descs n) = all_slots + mset (map Heap (heap_live n))"
      using ok that by (simp add: mem_ok_def)
    have "Heap k \<notin># mset (free_bursts n) + mset (free_descs n)" for k by (auto simp: free_bursts_def free_descs_def)
    then have "heap_live n = []" unfolding e by (cases "heap_live n") auto
    then show ?thesis using e by simp
  qed
  ultimately show ?thesis by blast
qed

definition example_mem :: edma_mem where
  "example_mem = \<lparr>burst_pool_live = False, burst_free_list = (\<lambda>_. 0), burst_free_cnt = 0, bursts = (\<lambda>_. zero_burst),
     desc_free_list = (\<lambda>_. 0), desc_free_cnt = 0, cleanup_chunks = [], heap_live = [], heap_next = 0, oom = (\<lambda>_. False)\<rparr>"

abbreviation (input) "example_pools \<equiv> snd (dw_edma_mem_init (\<lambda>_. True) example_mem)"

lemma example_pools_ready: "dw_edma_mem_init (\<lambda>_. True) example_mem = (0, example_pools)"
  by (simp add: dw_edma_mem_init_def Let_def)

lemma example_mem_start: "heap_live example_mem = []" "\<forall>n. \<not> from_pool (bursts example_mem (Heap n))"
  by (simp_all add: example_mem_def zero_burst_def)

theorem engine_memory_conserved_witness:
  "case dw_edma_alloc_burst_batch 3 example_pools of (bs, m) \<Rightarrow>
     let n = dw_edma_free_burst_batch bs m in mset (free_bursts n) + mset (free_descs n) = all_slots"
proof -
  obtain bs m where b: "dw_edma_alloc_burst_batch 3 example_pools = (bs, m)" by fastforce
  have c: "cleanup_chunks m = []"
    using cleanup_of_alloc(2) [OF b] by (simp add: dw_edma_mem_init_def Let_def)
  have "mem_step ([], [], [], example_pools) ([], [], bs, m)" using take_batch [OF b, of "[]" "[]" "[]"] by simp
  moreover have "mem_step ([], [], bs, m) ([], [], [], dw_edma_free_burst_batch bs m)"
    using free_batch [of "[]" "[]" bs "[]" m] by simp
  ultimately have "mem_step\<^sup>*\<^sup>* ([], [], [], example_pools) ([], [], [], dw_edma_free_burst_batch bs m)" by simp
  from engine_memory_conserved [OF example_mem_start example_pools_ready this] show ?thesis
    using b c by (simp add: Let_def)
qed

text \<open>
  The staging buffer is all or nothing: an attempt that succeeds leaves a buffer of a full megabyte
  on a data channel and none on a helper channel, one that fails leaves no buffer; asking again
  changes nothing, and releasing leaves nothing.
\<close>

theorem staging_buffer_states:
  assumes "dx_dma_chan_alloc_desc_buf cma buddy ch = (r, t)" "r_vaddr (desc_buf ch) = None"
  shows "(if dx_dma_chan_is_helper ch then r = 0 \<and> r_vaddr (desc_buf t) = None
     else if cma = None \<and> buddy = None then r = - 12 \<and> r_vaddr (desc_buf t) = None \<and> r_sz (desc_buf t) = 0
     else r = 0 \<and> r_vaddr (desc_buf t) \<noteq> None \<and> r_sz (desc_buf t) = 1048576 \<and>
       dx_dma_chan_alloc_desc_buf cma2 buddy2 t = (0, t)) \<and>
    r_vaddr (desc_buf (dx_dma_chan_free_desc_buf t)) = None"
  using assms
  by (auto simp: dx_dma_chan_alloc_desc_buf_def dw_edma_alloc_dma_mem_def dx_dma_chan_free_desc_buf_def
      dx_dma_chan_is_helper_def split: if_splits option.splits)

end
