(* ===== verification/Dx_EdmaSg.thy ===== *)
theory Dx_EdmaSg
  imports Dx_EdmaMem
begin

text \<open>
  From a scatter list to bursts (\<^verbatim>\<open>pci_deepx/dw-edma-core.c\<close>): entries that continue each other on both sides
  are merged, a chunk takes as many bursts as its descriptor table has room for, and what is left is
  filled into the same buffer when the chunk is done.  The reference is the list of bytes to move,
  each as a source and a destination address.
\<close>

section \<open>Filling a chunk\<close>

abbreviation (input) U32_MAX :: u32 where "U32_MAX \<equiv> - 1"
abbreviation (input) U64_MAX :: u64 where "U64_MAX \<equiv> - 1"

definition dw_edma_last_data_burst :: "dw_edma_chunk \<Rightarrow> ref option" where
  "dw_edma_last_data_burst c =
     (if burst c = None \<or> burst_list c = [] then None else Some (last (burst_list c)))"

definition dw_edma_can_merge_sg_burst ::
  "dw_edma_dir \<Rightarrow> dw_edma_burst option \<Rightarrow> u64 \<Rightarrow> u64 \<Rightarrow> u32 \<Rightarrow> bool" where
  "dw_edma_can_merge_sg_burst dir lst host_addr dev_addr len =
     (case lst of
        None \<Rightarrow> False
      | Some l \<Rightarrow>
          if len = 0 \<or> U32_MAX - b_sz l < len then False
          else
            let merged_sz = ucast (b_sz l + len) in
            if U64_MAX - merged_sz < sar l \<or> U64_MAX - merged_sz < dar l then False
            else if dir = EDMA_DIR_WRITE
              then dar l + ucast (b_sz l) = host_addr \<and> sar l + ucast (b_sz l) = dev_addr
              else sar l + ucast (b_sz l) = host_addr \<and> dar l + ucast (b_sz l) = dev_addr)"

text \<open>The variables of the loop: \<open>f_batch\<close> are the bursts of the batch that are not used yet.\<close>

record fill_state =
  f_chunk :: dw_edma_chunk
  f_mem :: edma_mem
  f_accum :: u32
  f_batch :: "ref list"
  f_sg :: sg_list
  f_remaining :: nat
  f_addr :: u64
  f_consumed :: nat

definition grow_region :: "u32 \<Rightarrow> dw_edma_chunk \<Rightarrow> dw_edma_chunk" where
  "grow_region len c = c\<lparr>ll_region := (ll_region c)\<lparr>r_sz := r_sz (ll_region c) + unat len\<rparr>\<rparr>"

definition dw_edma_extend_sg_burst :: "ref \<Rightarrow> u32 \<Rightarrow> fill_state \<Rightarrow> fill_state" where
  "dw_edma_extend_sg_burst b len s =
     (let m = f_mem s; v = bursts m b in
      s\<lparr>f_mem := m\<lparr>bursts := (bursts m)(b := v\<lparr>b_sz := b_sz v + len\<rparr>)\<rparr>,
        f_chunk := grow_region len (f_chunk s), f_accum := f_accum s + len\<rparr>)"

definition dw_edma_init_sg_burst ::
  "dw_edma_dir \<Rightarrow> ref \<Rightarrow> u64 \<Rightarrow> u64 \<Rightarrow> u32 \<Rightarrow> bool \<Rightarrow> fill_state \<Rightarrow> fill_state" where
  "dw_edma_init_sg_burst dir b host_addr dev_addr len already_linked s =
     (let c = (if already_linked then f_chunk s
               else (f_chunk s)\<lparr>burst_list := burst_list (f_chunk s) @ [b],
                                bursts_alloc := bursts_alloc (f_chunk s) + 1\<rparr>);
          m = f_mem s;
          v = (bursts m b)\<lparr>b_sz := len\<rparr>;
          w = (if dir = EDMA_DIR_WRITE then v\<lparr>sar := dev_addr, dar := host_addr\<rparr>
               else v\<lparr>dar := dev_addr, sar := host_addr\<rparr>)
      in s\<lparr>f_mem := m\<lparr>bursts := (bursts m)(b := w)\<rparr>, f_chunk := grow_region len c, f_accum := f_accum s + len\<rparr>)"

text \<open>One entry: extend the last burst, or take a burst of the batch or a new one; \<open>False\<close> when there is none.\<close>

definition add_entry :: "dw_edma_dir \<Rightarrow> bool \<Rightarrow> u64 \<Rightarrow> u32 \<Rightarrow> fill_state \<Rightarrow> bool \<times> fill_state" where
  "add_entry dir atomic host_addr len s =
     (let lst = dw_edma_last_data_burst (f_chunk s) in
      if dw_edma_can_merge_sg_burst dir (map_option (bursts (f_mem s)) lst) host_addr (f_addr s) len
      then (True, dw_edma_extend_sg_burst (the lst) len s)
      else case f_batch s of
        b # bs \<Rightarrow> (True, dw_edma_init_sg_burst dir b host_addr (f_addr s) len False (s\<lparr>f_batch := bs\<rparr>))
      | [] \<Rightarrow>
          (case dw_edma_alloc_burst atomic (f_chunk s) (f_mem s) of
             (None, c1, m1) \<Rightarrow> (False, s\<lparr>f_chunk := c1, f_mem := m1\<rparr>)
           | (Some b, c1, m1) \<Rightarrow>
               (True, dw_edma_init_sg_burst dir b host_addr (f_addr s) len True (s\<lparr>f_chunk := c1, f_mem := m1\<rparr>))))"

text \<open>The loop over the entries; the first argument is \<open>need - consumed\<close>.\<close>

fun fill_loop :: "nat \<Rightarrow> dw_edma_dir \<Rightarrow> bool \<Rightarrow> fill_state \<Rightarrow> int \<times> fill_state" where
  "fill_loop 0 dir atomic s = (0, s)"
| "fill_loop (Suc n) dir atomic s =
     (case f_sg s of
        [] \<Rightarrow> (0, s)
      | (host_addr, len) # sg \<Rightarrow>
          if f_remaining s = 0 then (0, s)
          else if U64_MAX - ucast len < f_addr s \<or> U64_MAX - ucast len < host_addr then (- EINVAL, s)
          else case add_entry dir atomic host_addr len s of (added, s1) \<Rightarrow>
            if \<not> added then (0, s1)
            else fill_loop n dir atomic (s1\<lparr>f_addr := f_addr s + ucast len, f_sg := sg,
                   f_remaining := f_remaining s - 1, f_consumed := f_consumed s + 1\<rparr>))"

text \<open>The position in the scatter list: what is left, how many entries, and the device address.\<close>

record sg_cursor =
  k_sg :: sg_list
  k_remaining :: nat
  k_addr :: u64

definition dw_edma_fill_sg_bursts ::
  "dw_edma_dir \<Rightarrow> nat \<Rightarrow> bool \<Rightarrow> nat \<Rightarrow> dw_edma_chunk \<Rightarrow> edma_mem \<Rightarrow> u32 \<Rightarrow> sg_cursor \<Rightarrow>
    int \<times> dw_edma_chunk \<times> edma_mem \<times> u32 \<times> sg_cursor" where
  "dw_edma_fill_sg_bursts dir ll atomic batch_max c m accum k =
     (if k_sg k = [] \<or> k_remaining k = 0 \<or> ll \<le> bursts_alloc c \<or> batch_max = 0 then (0, c, m, accum, k)
      else
        let capacity = ll - bursts_alloc c;
            need = min (k_remaining k) (min capacity batch_max)
        in case dw_edma_alloc_burst_batch need m of (batch, m1) \<Rightarrow>
          (case fill_loop need dir atomic
                  \<lparr>f_chunk = c, f_mem = m1, f_accum = accum, f_batch = batch, f_sg = k_sg k,
                   f_remaining = k_remaining k, f_addr = k_addr k, f_consumed = 0\<rparr> of
             (ret, s) \<Rightarrow>
               let m2 = dw_edma_free_burst_batch (f_batch s) (f_mem s) in
               if ret \<noteq> 0 then (ret, f_chunk s, m2, f_accum s, k)
               else if f_sg s = [] \<and> f_remaining s \<noteq> 0 then (- EINVAL, f_chunk s, m2, f_accum s, k)
               else (int (f_consumed s), f_chunk s, m2, f_accum s,
                     \<lparr>k_sg = f_sg s, k_remaining = f_remaining s, k_addr = f_addr s\<rparr>)))"

section \<open>The bytes that move\<close>

definition burst_moves :: "dw_edma_burst \<Rightarrow> (u64 \<times> u64) list" where
  "burst_moves b = map (\<lambda>i. (sar b + of_nat i, dar b + of_nat i)) [0..<unat (b_sz b)]"

definition chunk_moves :: "edma_mem \<Rightarrow> dw_edma_chunk \<Rightarrow> (u64 \<times> u64) list" where
  "chunk_moves m c = concat (map (\<lambda>r. burst_moves (bursts m r)) (burst_list c))"

definition entry_moves :: "dw_edma_dir \<Rightarrow> u64 \<Rightarrow> u64 \<Rightarrow> u32 \<Rightarrow> (u64 \<times> u64) list" where
  "entry_moves dir dev host len =
     map (\<lambda>i. if dir = EDMA_DIR_WRITE then (dev + of_nat i, host + of_nat i) else (host + of_nat i, dev + of_nat i))
       [0..<unat len]"

fun sg_moves :: "dw_edma_dir \<Rightarrow> u64 \<Rightarrow> sg_list \<Rightarrow> (u64 \<times> u64) list" where
  "sg_moves dir addr [] = []"
| "sg_moves dir addr ((host, len) # sg) = entry_moves dir addr host len @ sg_moves dir (addr + ucast len) sg"

definition sg_bytes :: "sg_list \<Rightarrow> u64" where
  "sg_bytes sg = sum_list (map (\<lambda>(h, len). ucast len) sg)"

lemma sg_bytes_simps [simp]: "sg_bytes [] = 0" "sg_bytes ((h, len) # sg) = ucast len + sg_bytes sg"
  by (simp_all add: sg_bytes_def)

lemma sg_moves_append: "sg_moves dir addr (xs @ ys) = sg_moves dir addr xs @ sg_moves dir (addr + sg_bytes xs) ys"
  by (induction xs arbitrary: addr) (auto simp: add.assoc)

text \<open>A burst that is extended by an entry which continues it on both sides moves its bytes and then those of the entry.\<close>

lemma extend_moves:
  assumes "dw_edma_can_merge_sg_burst dir (Some l) host dev len"
  shows "burst_moves (l\<lparr>b_sz := b_sz l + len\<rparr>) = burst_moves l @ entry_moves dir dev host len"
proof -
  have m: "\<not> U32_MAX - b_sz l < len"
    and side: "if dir = EDMA_DIR_WRITE then dar l + ucast (b_sz l) = host \<and> sar l + ucast (b_sz l) = dev
      else sar l + ucast (b_sz l) = host \<and> dar l + ucast (b_sz l) = dev"
    using assms by (auto simp: dw_edma_can_merge_sg_burst_def Let_def split: if_splits)
  have "unat (U32_MAX - b_sz l) = 4294967295 - unat (b_sz l)"
    by (subst unat_sub) (simp_all add: word_order.extremum unsigned_minus_1_eq_mask mask_eq_exp_minus_1)
  moreover have "unat (b_sz l) < 2 ^ LENGTH(32)" by (rule unsigned_less)
  ultimately have "unat (b_sz l) + unat len < 4294967296"
    using m by (simp add: word_less_nat_alt)
  then have u: "unat (b_sz l + len) = unat (b_sz l) + unat len" by (simp add: unat_word_ariths)
  have "[0..<a + b] = [0..<a] @ map (\<lambda>i. a + i) [0..<b]" for a b :: nat
    unfolding upt_add_eq_append [OF le0] by (simp add: map_add_upt add.commute)
  then have s: "[0..<unat (b_sz l + len)] = [0..<unat (b_sz l)] @ map (\<lambda>i. unat (b_sz l) + i) [0..<unat len]"
    unfolding u .
  show ?thesis
  proof (cases dir)
    case EDMA_DIR_WRITE
    then have "host = dar l + ucast (b_sz l)" "dev = sar l + ucast (b_sz l)" using side by simp_all
    then show ?thesis using EDMA_DIR_WRITE by (simp add: burst_moves_def entry_moves_def s add.assoc)
  next
    case EDMA_DIR_READ
    then have "host = sar l + ucast (b_sz l)" "dev = dar l + ucast (b_sz l)" using side by simp_all
    then show ?thesis using EDMA_DIR_READ by (simp add: burst_moves_def entry_moves_def s add.assoc)
  qed
qed

section \<open>The loop\<close>

text \<open>The loop owns the bursts of the chunk and of the batch, beside what is in use elsewhere.\<close>

definition fill_ok :: "ref multiset \<Rightarrow> fill_state \<Rightarrow> bool" where
  "fill_ok U s \<longleftrightarrow> mem_ok (chunk_bursts (f_chunk s) + mset (f_batch s) + U) (f_mem s) \<and> chunk_ok (f_chunk s) \<and>
     burst (f_chunk s) \<noteq> None \<and> (\<forall>b \<in> set (f_batch s). is_burst b)"

lemma mem_ok_burst_update [simp]:
  "from_pool v = from_pool (bursts m b) \<Longrightarrow> mem_ok U (m\<lparr>bursts := (bursts m)(b := v)\<rparr>) = mem_ok U m"
  by (auto simp: mem_ok_def free_bursts_def free_descs_def)

lemma grow_region_simps [simp]:
  "chunk_bursts (grow_region n c) = chunk_bursts c" "chunk_ok (grow_region n c) = chunk_ok c"
  "burst (grow_region n c) = burst c" "burst_list (grow_region n c) = burst_list c"
  "bursts_alloc (grow_region n c) = bursts_alloc c" "c_ref (grow_region n c) = c_ref c" "cb (grow_region n c) = cb c"
  "host_region (grow_region n c) = host_region c" "r_paddr (ll_region (grow_region n c)) = r_paddr (ll_region c)"
  "r_vaddr (ll_region (grow_region n c)) = r_vaddr (ll_region c)"
  "r_sz (ll_region (grow_region n c)) = r_sz (ll_region c) + unat n"
  by (simp_all add: grow_region_def)

lemma burst_list_distinct:
  assumes "mem_ok (chunk_bursts c + U) m" "burst c \<noteq> None"
  shows "distinct (burst_list c)"
proof -
  have "count (mset (burst_list c)) r \<le> 1" for r
  proof -
    have "count (mset (burst_list c)) r \<le> count (chunk_bursts c + U) r"
      using assms(2) by (auto simp: chunk_bursts_def)
    also have "\<dots> \<le> 1" using mem_ok_in_use(4) [OF assms(1), of r] by (metis count_inI le_refl zero_le_one)
    finally show ?thesis .
  qed
  then show ?thesis by (simp add: distinct_count_atmost_1 le_Suc_eq count_eq_zero_iff)
qed

lemma chunk_moves_other:
  "b \<notin> set (burst_list c) \<Longrightarrow> chunk_moves (m\<lparr>bursts := (bursts m)(b := v)\<rparr>) c = chunk_moves m c"
  by (auto simp: chunk_moves_def intro!: arg_cong [where f = concat])

lemma chunk_moves_cong:
  "burst_list c = burst_list d \<Longrightarrow> \<forall>b \<in> set (burst_list d). bursts m b = bursts n b \<Longrightarrow> chunk_moves m c = chunk_moves n d"
  by (auto simp: chunk_moves_def intro!: arg_cong [where f = concat])

lemma init_moves: "burst_moves ((if dir = EDMA_DIR_WRITE then v\<lparr>b_sz := len, sar := dev, dar := host\<rparr>
    else v\<lparr>b_sz := len, dar := dev, sar := host\<rparr>)) = entry_moves dir dev host len"
  by (simp add: burst_moves_def entry_moves_def)

lemma init_sg_burst_ok:
  assumes "mem_ok (chunk_bursts c + mset bs + U) (f_mem s)" "chunk_ok c" "burst c \<noteq> None" "\<forall>x \<in> set bs. is_burst x"
    and "c = (if linked then f_chunk s else (f_chunk s)\<lparr>burst_list := burst_list (f_chunk s) @ [b],
      bursts_alloc := bursts_alloc (f_chunk s) + 1\<rparr>)"
    and "f_batch s = bs" "burst_list c = bl @ [b]" "b \<notin> set bl"
    and "t = dw_edma_init_sg_burst dir b host dev len linked s"
  shows "fill_ok U t" "burst_list (f_chunk t) = bl @ [b]"
    "chunk_moves (f_mem t) (f_chunk t) =
      concat (map (\<lambda>r. burst_moves (bursts (f_mem s) r)) bl) @ entry_moves dir dev host len"
    "f_accum t = f_accum s + len" "f_batch t = bs" "r_sz (ll_region (f_chunk t)) = r_sz (ll_region c) + unat len"
proof -
  define w where "w = (if dir = EDMA_DIR_WRITE then (bursts (f_mem s) b)\<lparr>b_sz := len, sar := dev, dar := host\<rparr>
      else (bursts (f_mem s) b)\<lparr>b_sz := len, dar := dev, sar := host\<rparr>)"
  have t: "t = s\<lparr>f_mem := (f_mem s)\<lparr>bursts := (bursts (f_mem s))(b := w)\<rparr>, f_chunk := grow_region len c, f_accum := f_accum s + len\<rparr>"
    using assms(5,9) by (simp add: dw_edma_init_sg_burst_def Let_def w_def)
  have "from_pool w = from_pool (bursts (f_mem s) b)" by (simp add: w_def)
  then show "fill_ok U t" using assms(1-4,6) by (simp add: t fill_ok_def)
  show "burst_list (f_chunk t) = bl @ [b]" "f_accum t = f_accum s + len" "f_batch t = bs"
    "r_sz (ll_region (f_chunk t)) = r_sz (ll_region c) + unat len"
    using assms(6,7) by (simp_all add: t)
  have "burst_moves w = entry_moves dir dev host len" using init_moves by (simp add: w_def)
  moreover have "\<And>r. r \<in> set bl \<Longrightarrow> (r = b) = False" using assms(8) by blast
  ultimately show "chunk_moves (f_mem t) (f_chunk t) =
      concat (map (\<lambda>r. burst_moves (bursts (f_mem s) r)) bl) @ entry_moves dir dev host len"
    using assms(7) unfolding chunk_moves_def by (simp add: t cong: map_cong)
qed

lemma extend_sg_burst_ok:
  assumes "fill_ok U s" "burst_list (f_chunk s) = bl @ [b]" "b \<notin> set bl"
    and "dw_edma_can_merge_sg_burst dir (Some (bursts (f_mem s) b)) host dev len"
    and "t = dw_edma_extend_sg_burst b len s"
  shows "fill_ok U t" "burst_list (f_chunk t) = burst_list (f_chunk s)"
    "chunk_moves (f_mem t) (f_chunk t) = chunk_moves (f_mem s) (f_chunk s) @ entry_moves dir dev host len"
    "f_accum t = f_accum s + len" "f_batch t = f_batch s"
    "r_sz (ll_region (f_chunk t)) = r_sz (ll_region (f_chunk s)) + unat len"
proof -
  define w where "w = (bursts (f_mem s) b)\<lparr>b_sz := b_sz (bursts (f_mem s) b) + len\<rparr>"
  have t: "t = s\<lparr>f_mem := (f_mem s)\<lparr>bursts := (bursts (f_mem s))(b := w)\<rparr>, f_chunk := grow_region len (f_chunk s), f_accum := f_accum s + len\<rparr>"
    using assms(5) by (simp add: dw_edma_extend_sg_burst_def Let_def w_def)
  show "fill_ok U t" using assms(1) by (simp add: t fill_ok_def w_def)
  show "burst_list (f_chunk t) = burst_list (f_chunk s)" "f_accum t = f_accum s + len" "f_batch t = f_batch s"
    "r_sz (ll_region (f_chunk t)) = r_sz (ll_region (f_chunk s)) + unat len"
    by (simp_all add: t)
  have "\<And>r. r \<in> set bl \<Longrightarrow> (r = b) = False" using assms(3) by blast
  then show "chunk_moves (f_mem t) (f_chunk t) = chunk_moves (f_mem s) (f_chunk s) @ entry_moves dir dev host len"
    using assms(2) extend_moves [OF assms(4)] unfolding chunk_moves_def by (simp add: t w_def cong: map_cong)
qed

lemma add_entry_ok:
  assumes "fill_ok U s" "add_entry dir atomic host len s = (added, t)"
  shows "fill_ok U t \<and> f_sg t = f_sg s \<and> f_remaining t = f_remaining s \<and> f_addr t = f_addr s \<and> f_consumed t = f_consumed s \<and>
    c_ref (f_chunk t) = c_ref (f_chunk s) \<and> cb (f_chunk t) = cb (f_chunk s) \<and> host_region (f_chunk t) = host_region (f_chunk s) \<and>
    r_paddr (ll_region (f_chunk t)) = r_paddr (ll_region (f_chunk s)) \<and> r_vaddr (ll_region (f_chunk t)) = r_vaddr (ll_region (f_chunk s)) \<and>
    (if added then chunk_moves (f_mem t) (f_chunk t) = chunk_moves (f_mem s) (f_chunk s) @ entry_moves dir (f_addr s) host len \<and>
       f_accum t = f_accum s + len \<and> length (burst_list (f_chunk t)) \<le> length (burst_list (f_chunk s)) + 1 \<and>
       r_sz (ll_region (f_chunk t)) = r_sz (ll_region (f_chunk s)) + unat len \<and> burst_list (f_chunk t) \<noteq> []
     else chunk_moves (f_mem t) (f_chunk t) = chunk_moves (f_mem s) (f_chunk s) \<and> f_accum t = f_accum s \<and>
       burst_list (f_chunk t) = burst_list (f_chunk s) \<and> ll_region (f_chunk t) = ll_region (f_chunk s))"
proof -
  let ?c = "f_chunk s" and ?m = "f_mem s"
  define lst where "lst = dw_edma_last_data_burst ?c"
  have ok: "mem_ok (chunk_bursts ?c + (mset (f_batch s) + U)) ?m" "burst ?c \<noteq> None" "chunk_ok ?c"
    using assms(1) by (simp_all add: fill_ok_def ac_simps)
  have dist: "distinct (burst_list ?c)" using burst_list_distinct [OF ok(1,2)] .
  consider (extend) "dw_edma_can_merge_sg_burst dir (map_option (bursts ?m) lst) host (f_addr s) len"
    | (batch) b bs where "\<not> dw_edma_can_merge_sg_burst dir (map_option (bursts ?m) lst) host (f_addr s) len" "f_batch s = b # bs"
    | (alloc) "\<not> dw_edma_can_merge_sg_burst dir (map_option (bursts ?m) lst) host (f_addr s) len" "f_batch s = []"
    by (cases "f_batch s") auto
  then show ?thesis
  proof cases
    case extend
    then obtain b where b: "lst = Some b" by (cases lst) (auto simp: dw_edma_can_merge_sg_burst_def)
    then have bl: "burst_list ?c = butlast (burst_list ?c) @ [b]" "burst_list ?c \<noteq> []"
      by (auto simp: lst_def dw_edma_last_data_burst_def split: if_splits)
    then have nb: "b \<notin> set (butlast (burst_list ?c))" using dist by (metis distinct_append distinct.simps(2) disjoint_iff list.set_intros(1))
    have t: "added" "t = dw_edma_extend_sg_burst b len s" using assms(2) extend b by (auto simp: add_entry_def Let_def lst_def)
    note k = extend_sg_burst_ok [OF assms(1) bl(1) nb _ t(2)]
    have "dw_edma_can_merge_sg_burst dir (Some (bursts ?m b)) host (f_addr s) len" using extend b by simp
    note k = k [OF this]
    show ?thesis using k t bl by (simp add: dw_edma_extend_sg_burst_def Let_def)
  next
    case (batch b bs)
    have t: "added" "t = dw_edma_init_sg_burst dir b host (f_addr s) len False (s\<lparr>f_batch := bs\<rparr>)"
      using assms(2) batch by (auto simp: add_entry_def Let_def lst_def)
    define c where "c = ?c\<lparr>burst_list := burst_list ?c @ [b], bursts_alloc := bursts_alloc ?c + 1\<rparr>"
    have e: "chunk_bursts ?c + (mset (f_batch s) + U) = chunk_bursts c + mset bs + U"
      using batch(2) ok(2) by (auto simp: chunk_bursts_def c_def)
    have "is_burst b" "\<forall>x \<in> set bs. is_burst x" using assms(1) batch(2) by (auto simp: fill_ok_def)
    then have c: "mem_ok (chunk_bursts c + mset bs + U) (f_mem (s\<lparr>f_batch := bs\<rparr>))" "chunk_ok c" "burst c \<noteq> None"
        "\<forall>x \<in> set bs. is_burst x"
      using ok(1) [unfolded e] ok(2,3) by (auto simp: chunk_ok_def c_def chunk_bursts_def)
    have "distinct (burst_list c)" using burst_list_distinct [of c "mset bs + U" ?m] c by (simp add: union_assoc)
    then have nb: "b \<notin> set (burst_list ?c)" by (simp add: c_def)
    have "c = (if False then f_chunk (s\<lparr>f_batch := bs\<rparr>) else (f_chunk (s\<lparr>f_batch := bs\<rparr>))\<lparr>
        burst_list := burst_list (f_chunk (s\<lparr>f_batch := bs\<rparr>)) @ [b], bursts_alloc := bursts_alloc (f_chunk (s\<lparr>f_batch := bs\<rparr>)) + 1\<rparr>)"
        "burst_list c = burst_list ?c @ [b]" by (simp_all add: c_def)
    note k = init_sg_burst_ok [OF c this(1) _ this(2) nb t(2)]
    show ?thesis using k t by (simp add: chunk_moves_def c_def) (simp add: dw_edma_init_sg_burst_def Let_def)
  next
    case alloc
    obtain r c1 m1 where a: "dw_edma_alloc_burst atomic ?c ?m = (r, c1, m1)" by (metis prod_cases3)
    note cases = alloc_burst_cases [OF ok(1) a] and k = alloc_burst_ok [OF ok(1,3) a]
    show ?thesis
    proof (cases r)
      case None
      then have "\<not> added" "t = s\<lparr>f_chunk := c1, f_mem := m1\<rparr>" "c1 = ?c" "bursts m1 = bursts ?m"
        using assms(2) alloc a cases by (auto simp: add_entry_def Let_def lst_def)
      then show ?thesis using k assms(1) alloc(2) by (simp add: fill_ok_def chunk_moves_def ac_simps)
    next
      case (Some b)
      have t: "added" "t = dw_edma_init_sg_burst dir b host (f_addr s) len True (s\<lparr>f_chunk := c1, f_mem := m1\<rparr>)"
        using assms(2) alloc a Some by (auto simp: add_entry_def Let_def lst_def)
      have c1: "c1 = ?c\<lparr>bursts_alloc := bursts_alloc ?c + 1, burst_list := burst_list ?c @ [b]\<rparr>"
          "b \<notin># chunk_bursts ?c + (mset (f_batch s) + U)" "\<forall>x. x \<noteq> b \<longrightarrow> bursts m1 x = bursts ?m x"
        using cases Some ok(2) by auto
      have nb: "b \<notin> set (burst_list ?c)" using c1(2) ok(2) by (auto simp: chunk_bursts_def)
      have "mem_ok (chunk_bursts c1 + mset [] + U) (f_mem (s\<lparr>f_chunk := c1, f_mem := m1\<rparr>))" "chunk_ok c1" "burst c1 \<noteq> None"
        using k alloc(2) Some by simp_all
      note i = init_sg_burst_ok [OF this _ _ _ _ nb t(2)]
      have old: "map (\<lambda>r. burst_moves (bursts m1 r)) (burst_list ?c) = map (\<lambda>r. burst_moves (bursts ?m r)) (burst_list ?c)"
        using c1(3) nb by (auto intro!: map_cong)
      show ?thesis using i c1(1) alloc(2) t(1) old
        by (simp add: chunk_moves_def) (simp add: t(2) dw_edma_init_sg_burst_def Let_def c1(1))
    qed
  qed
qed

text \<open>What stays the same of a chunk while it is filled.\<close>

definition same_chunk :: "dw_edma_chunk \<Rightarrow> dw_edma_chunk \<Rightarrow> bool" where
  "same_chunk c d \<longleftrightarrow> c_ref c = c_ref d \<and> cb c = cb d \<and> host_region c = host_region d \<and>
     r_paddr (ll_region c) = r_paddr (ll_region d) \<and> r_vaddr (ll_region c) = r_vaddr (ll_region d)"

definition sg_len :: "sg_list \<Rightarrow> nat" where
  "sg_len sg = sum_list (map (\<lambda>(h, len). unat len) sg)"

definition sg_len32 :: "sg_list \<Rightarrow> u32" where
  "sg_len32 sg = sum_list (map snd sg)"

lemma sg_len_simps [simp]:
  "sg_len [] = 0" "sg_len ((h, len) # sg) = unat len + sg_len sg"
  "sg_len32 [] = 0" "sg_len32 ((h, len) # sg) = len + sg_len32 sg"
  by (simp_all add: sg_len_def sg_len32_def)

text \<open>Some number of entries has been taken over, and nothing else has happened.\<close>

definition entries_taken :: "dw_edma_dir \<Rightarrow> nat \<Rightarrow> fill_state \<Rightarrow> fill_state \<Rightarrow> bool" where
  "entries_taken dir n s t \<longleftrightarrow> n \<le> length (f_sg s) \<and> n \<le> f_remaining s \<and> f_sg t = drop n (f_sg s) \<and>
     f_remaining t = f_remaining s - n \<and> f_consumed t = f_consumed s + n \<and>
     f_addr t = f_addr s + sg_bytes (take n (f_sg s)) \<and> f_accum t = f_accum s + sg_len32 (take n (f_sg s)) \<and>
     r_sz (ll_region (f_chunk t)) = r_sz (ll_region (f_chunk s)) + sg_len (take n (f_sg s)) \<and>
     length (burst_list (f_chunk t)) \<le> length (burst_list (f_chunk s)) + n \<and> same_chunk (f_chunk t) (f_chunk s) \<and>
     (0 < n \<or> burst_list (f_chunk s) \<noteq> [] \<longrightarrow> burst_list (f_chunk t) \<noteq> []) \<and>
     chunk_moves (f_mem t) (f_chunk t) = chunk_moves (f_mem s) (f_chunk s) @ sg_moves dir (f_addr s) (take n (f_sg s))"

lemma taken_zero: "entries_taken dir 0 s s"
  by (simp add: entries_taken_def same_chunk_def)

lemma taken_Suc:
  assumes "f_sg s = (h, len) # sg" "0 < f_remaining s" "fill_ok U s" "add_entry dir atomic h len s = (True, s1)"
    and "entries_taken dir n (s1\<lparr>f_addr := f_addr s + ucast len, f_sg := sg, f_remaining := f_remaining s - 1,
      f_consumed := f_consumed s + 1\<rparr>) t"
  shows "entries_taken dir (Suc n) s t"
proof -
  note a = add_entry_ok [OF assms(3,4)]
  show ?thesis using assms(1,2,5) a by (auto simp: entries_taken_def same_chunk_def add.assoc)
qed

lemma fill_loop_ok:
  "fill_ok U s \<Longrightarrow> fill_loop k dir atomic s = (ret, t) \<Longrightarrow>
    fill_ok U t \<and> (\<exists>n \<le> k. entries_taken dir n s t) \<and> ret \<in> {0, - 22}"
proof (induction k dir atomic s rule: fill_loop.induct)
  case (1 dir atomic s)
  then show ?case using taken_zero by auto
next
  case (2 k dir atomic s)
  show ?case
  proof (cases "f_sg s")
    case Nil
    then show ?thesis using "2.prems" taken_zero [of dir s] by auto
  next
    case (Cons e sg)
    obtain h len where e: "e = (h, len)" by fastforce
    obtain added s1 where a: "add_entry dir atomic h len s = (added, s1)" by fastforce
    note ok = add_entry_ok [OF "2.prems"(1) a]
    let ?n = "s1\<lparr>f_addr := f_addr s + ucast len, f_sg := sg, f_remaining := f_remaining s - 1, f_consumed := f_consumed s + 1\<rparr>"
    consider (stop) "f_remaining s = 0 \<or> U64_MAX - ucast len < f_addr s \<or> U64_MAX - ucast len < h"
      | (full) "f_remaining s \<noteq> 0" "\<not> (U64_MAX - ucast len < f_addr s \<or> U64_MAX - ucast len < h)" "\<not> added"
      | (more) "f_remaining s \<noteq> 0" "\<not> (U64_MAX - ucast len < f_addr s \<or> U64_MAX - ucast len < h)" "added" by blast
    then show ?thesis
    proof cases
      case stop
      then show ?thesis using "2.prems" Cons e taken_zero [of dir s] by (auto split: if_splits)
    next
      case full
      then have "t = s1" "ret = 0" using "2.prems"(2) Cons e a by simp_all
      moreover have "entries_taken dir 0 s s1" using ok full(3) by (simp add: entries_taken_def same_chunk_def)
      ultimately show ?thesis using ok by auto
    next
      case more
      then have l: "fill_loop k dir atomic ?n = (ret, t)" using "2.prems"(2) Cons e a by simp
      have "fill_ok U ?n" using ok by (simp add: fill_ok_def)
      then have "fill_ok U t \<and> (\<exists>n \<le> k. entries_taken dir n ?n t) \<and> ret \<in> {0, - 22}"
        using "2.IH" [OF Cons e [symmetric] more(1,2) a [symmetric]] more(3) l by simp
      then obtain n where n: "fill_ok U t" "n \<le> k" "entries_taken dir n ?n t" "ret \<in> {0, - 22}" by blast
      have "entries_taken dir (Suc n) s t"
        using taken_Suc [OF _ _ "2.prems"(1) _ n(3)] Cons e more a by simp
      then show ?thesis using n by (intro conjI exI [of _ "Suc n"]) simp_all
    qed
  qed
qed

section \<open>One call\<close>

text \<open>Giving bursts back does not change what the others move.\<close>

lemma burst_moves_from_pool [simp]: "burst_moves (b\<lparr>from_pool := x\<rparr>) = burst_moves b"
  by (simp add: burst_moves_def)

lemma moves_frame [simp]:
  "burst_moves (bursts (fix_from_pool b m) x) = burst_moves (bursts m x)" "bursts (push_free b m) = bursts m"
  "bursts (kfree b m) = bursts m"
  by (cases b; simp add: fix_from_pool_def push_free_def)+

lemma free_locked_moves: "burst_moves (bursts (snd (free_locked bs m dyn)) x) = burst_moves (bursts m x)"
  by (induction bs arbitrary: m dyn) (simp_all add: Let_def)

lemma fold_kfree_bursts [simp]: "bursts (fold kfree dyn m) = bursts m"
  by (induction dyn arbitrary: m) simp_all

lemma free_batch_moves [simp]: "chunk_moves (dw_edma_free_burst_batch bs m) c = chunk_moves m c"
  using free_locked_moves [of bs m "[]"] by (simp add: chunk_moves_def dw_edma_free_burst_batch_def case_prod_beta)

lemma free_burst_moves [simp]: "chunk_moves (snd (dw_edma_free_burst d m)) c = chunk_moves m c"
  using free_locked_moves [of _ m "[]"]
  by (simp add: chunk_moves_def dw_edma_free_burst_def case_prod_beta split: option.split)

text \<open>The chunk after \<open>n\<close> entries have been taken from the cursor \<open>k\<close> to the cursor \<open>k1\<close>.\<close>

definition took :: "dw_edma_dir \<Rightarrow> nat \<Rightarrow> sg_cursor \<Rightarrow> sg_cursor \<Rightarrow> bool" where
  "took dir n k k1 \<longleftrightarrow> n \<le> length (k_sg k) \<and> n \<le> k_remaining k \<and> k_sg k1 = drop n (k_sg k) \<and>
     k_remaining k1 = k_remaining k - n \<and> k_addr k1 = k_addr k + sg_bytes (take n (k_sg k))"

lemma fill_sg_ok:
  assumes "mem_ok (chunk_bursts c + U) m" "chunk_ok c" "burst c \<noteq> None" "bursts_alloc c \<le> ll"
    and "dw_edma_fill_sg_bursts dir ll atomic bm c m accum k = (ret, c1, m1, accum1, k1)"
  shows "mem_ok (chunk_bursts c1 + U) m1 \<and> chunk_ok c1 \<and> burst c1 \<noteq> None \<and> bursts_alloc c1 \<le> ll \<and> same_chunk c1 c \<and>
    (if 0 \<le> ret then took dir (nat ret) k k1 \<and> nat ret \<le> bm \<and>
       chunk_moves m1 c1 = chunk_moves m c @ sg_moves dir (k_addr k) (take (nat ret) (k_sg k)) \<and>
       accum1 = accum + sg_len32 (take (nat ret) (k_sg k)) \<and>
       r_sz (ll_region c1) = r_sz (ll_region c) + sg_len (take (nat ret) (k_sg k)) \<and> (0 < ret \<longrightarrow> burst_list c1 \<noteq> [])
     else ret = - 22 \<and> k1 = k)"
proof (cases "k_sg k = [] \<or> k_remaining k = 0 \<or> ll \<le> bursts_alloc c \<or> bm = 0")
  case True
  then have "ret = 0" "c1 = c" "m1 = m" "accum1 = accum" "k1 = k" using assms(5) by (simp_all add: dw_edma_fill_sg_bursts_def)
  then show ?thesis using assms(1-4) by (simp add: took_def same_chunk_def)
next
  case False
  define need where "need = min (k_remaining k) (min (ll - bursts_alloc c) bm)"
  obtain batch mb where b: "dw_edma_alloc_burst_batch need m = (batch, mb)" by fastforce
  define s where "s = \<lparr>f_chunk = c, f_mem = mb, f_accum = accum, f_batch = batch, f_sg = k_sg k,
      f_remaining = k_remaining k, f_addr = k_addr k, f_consumed = 0\<rparr>"
  obtain r t where l: "fill_loop need dir atomic s = (r, t)" by fastforce
  note a = alloc_batch_ok [OF assms(1) b]
  have s0: "fill_ok U s" using a assms(2,3) by (simp add: fill_ok_def s_def ac_simps)
  obtain n where n: "fill_ok U t" "n \<le> need" "entries_taken dir n s t" "r \<in> {0, - 22}" using fill_loop_ok [OF s0 l] by blast
  have "x \<notin> set batch" if "x \<in> set (burst_list c)" for x
    using a that assms(3) by (auto simp: chunk_bursts_def)
  then have mv: "chunk_moves mb c = chunk_moves m c" using a by (intro chunk_moves_cong) auto
  define m2 where "m2 = dw_edma_free_burst_batch (f_batch t) (f_mem t)"
  have "mem_ok (mset (f_batch t) + (chunk_bursts (f_chunk t) + U)) (f_mem t)" "\<forall>x \<in> set (f_batch t). is_burst x"
    using n(1) by (auto simp: fill_ok_def ac_simps)
  then have m2: "mem_ok (chunk_bursts (f_chunk t) + U) m2" using free_burst_batch_ok by (simp add: m2_def)
  have c1: "c1 = f_chunk t" "m1 = m2" "accum1 = f_accum t"
    and rk: "(ret, k1) = (if r \<noteq> 0 then (r, k) else if f_sg t = [] \<and> f_remaining t \<noteq> 0 then (- 22, k)
      else (int (f_consumed t), \<lparr>k_sg = f_sg t, k_remaining = f_remaining t, k_addr = f_addr t\<rparr>))"
    using assms(5) False b l unfolding dw_edma_fill_sg_bursts_def
    by (auto simp: Let_def need_def [symmetric] s_def [symmetric] m2_def [symmetric] split: if_splits)
  have room: "length (burst_list (f_chunk t)) \<le> ll"
    using n(2,3) assms(2,4) False by (simp add: entries_taken_def s_def need_def chunk_ok_def) linarith
  have base: "mem_ok (chunk_bursts c1 + U) m1" "chunk_ok c1" "burst c1 \<noteq> None" "bursts_alloc c1 \<le> ll" "same_chunk c1 c"
    using m2 n(1,3) c1 room by (auto simp: fill_ok_def chunk_ok_def entries_taken_def s_def)
  show ?thesis
  proof (cases "r \<noteq> 0 \<or> f_sg t = [] \<and> f_remaining t \<noteq> 0")
    case True
    then have "ret = - 22 \<and> k1 = k" using rk n(4) by (auto split: if_splits)
    then show ?thesis using base by simp
  next
    case ok: False
    then have r: "ret = int n" "k1 = \<lparr>k_sg = f_sg t, k_remaining = f_remaining t, k_addr = f_addr t\<rparr>"
      using rk n(3) by (auto simp: entries_taken_def s_def split: if_splits)
    have "chunk_moves m1 c1 = chunk_moves m c @ sg_moves dir (k_addr k) (take n (k_sg k))"
      using n(3) mv c1 by (simp add: entries_taken_def s_def m2_def)
    then show ?thesis using base r n(2,3) c1 by (simp add: took_def entries_taken_def s_def need_def)
  qed
qed

section \<open>Shadow and refilled chunks\<close>

definition dw_edma_shadow_fill_chunk ::
  "dw_edma_chan \<Rightarrow> bool \<Rightarrow> dw_edma_desc \<Rightarrow> dw_edma_chunk \<Rightarrow> edma_mem \<Rightarrow> int \<times> dw_edma_desc \<times> dw_edma_chunk \<times> edma_mem" where
  "dw_edma_shadow_fill_chunk ch atomic d c m =
     (if shadow_next_sg d = [] \<or> shadow_next_remaining d = 0 then (0, d, c, m)
      else case dw_edma_alloc_burst atomic c m of
        (None, c1, m1) \<Rightarrow> (0, d, c1, m1)
      | (Some _, c1, m1) \<Rightarrow>
          (case dw_edma_fill_sg_bursts (ch_dir ch) (ll_max ch) atomic (ll_max ch) c1 m1 (shadow_alloc_sz d)
                  \<lparr>k_sg = shadow_next_sg d, k_remaining = shadow_next_remaining d, k_addr = shadow_next_addr d\<rparr> of
             (filled, c2, m2, accum, k) \<Rightarrow>
               let d1 = d\<lparr>shadow_alloc_sz := accum\<rparr> in
               if filled \<le> 0 then (0, d1, c2, m2)
               else (filled, d1\<lparr>shadow_next_sg := k_sg k, shadow_next_remaining := k_remaining k,
                       shadow_next_addr := k_addr k, shadow_has_more := (0 < k_remaining k)\<rparr>, c2, m2)))"

definition dw_edma_reset_chunk_region :: "dw_edma_chan \<Rightarrow> dw_edma_chunk \<Rightarrow> dw_edma_chunk" where
  "dw_edma_reset_chunk_region ch c = c\<lparr>burst := None, burst_list := [], bursts_alloc := 0, ll_region := ch_ll ch\<rparr>"

text \<open>The plan is the new position and the new sum of the sizes, committed when the chunk is launched.\<close>

definition dw_edma_lazy_refill_chunk_prepare ::
  "dw_edma_chan \<Rightarrow> bool \<Rightarrow> dw_edma_desc \<Rightarrow> dw_edma_chunk \<Rightarrow> edma_mem \<Rightarrow>
    (int \<times> sg_cursor \<times> u32) \<times> dw_edma_chunk \<times> edma_mem" where
  "dw_edma_lazy_refill_chunk_prepare ch atomic d c m =
     (let k = \<lparr>k_sg = sg_cur d, k_remaining = sg_remaining d, k_addr = addr_accum d\<rparr> in
      if sg_cur d = [] \<or> sg_remaining d = 0 then ((0, k, alloc_sz d), c, m)
      else
        let c0 = dw_edma_reset_chunk_region ch c; c1 = c0\<lparr>cb := \<not> cb c0\<rparr> in
        case dw_edma_alloc_burst atomic c1 m of
          (None, c2, m1) \<Rightarrow> ((0, k, alloc_sz d), c2, m1)
        | (Some _, c2, m1) \<Rightarrow>
            (case dw_edma_fill_sg_bursts (ch_dir ch) (ll_max ch) atomic (ll_max ch) c2 m1 (alloc_sz d) k of
               (filled, c3, m2, accum, k1) \<Rightarrow>
                 if filled \<le> 0
                 then (case dw_edma_free_burst c3 m2 of (c4, m3) \<Rightarrow> ((0, k, alloc_sz d), c4, m3))
                 else ((filled, k1, accum), c3, m2)))"

section \<open>Preparing a transfer\<close>

datatype dma_direction = DMA_MEM_TO_DEV | DMA_DEV_TO_MEM | DMA_DIR_OTHER

record edma_chan = dw_edma_chan +
  configured :: bool
  cfg_direction :: dma_direction
  cfg_src_addr :: u64
  cfg_dst_addr :: u64

text \<open>What the preparation reads of its surroundings: the module parameters and the work queue.\<close>

record prep_env =
  p_atomic :: bool
  p_shadow_wq :: bool
  p_shadow_wq_min_sg :: nat
  p_precopy_available :: bool
  p_wq_present :: bool

text \<open>The interleaved template with its frames as functions of the index.\<close>

record il_template =
  il_numf :: nat
  il_frame_size :: nat
  il_src_start :: u64
  il_dst_start :: u64
  il_size :: "nat \<Rightarrow> u64"
  il_src_sgl :: bool
  il_dst_sgl :: bool
  il_src_icg :: "nat \<Rightarrow> u64"
  il_dst_icg :: "nat \<Rightarrow> u64"

datatype xfer = XFER_SCATTER_GATHER sg_list nat | XFER_CYCLIC u64 u64 nat | XFER_INTERLEAVED il_template

definition dw_edma_shadow_prepare_build ::
  "prep_env \<Rightarrow> dw_edma_chan \<Rightarrow> dw_edma_desc \<Rightarrow> edma_mem \<Rightarrow> bool \<times> dw_edma_desc \<times> edma_mem" where
  "dw_edma_shadow_prepare_build E ch d m =
     (if \<not> lazy_mode d \<or> shadow_next_remaining d = 0 then (False, d, m)
      else
        let d1 = d\<lparr>shadow_next_chunk := None\<rparr> in
        case (case shadow_next_chunk d of
                Some c \<Rightarrow> (Some c, m)
              | None \<Rightarrow> if p_atomic E then (None, m) else dw_edma_alloc_unlinked_chunk ch m) of
          (None, m1) \<Rightarrow> (False, d1, m1)
        | (Some c, m1) \<Rightarrow>
            let c1 = c\<lparr>cb := shadow_expected_cb d\<rparr>;
                d2 = d1\<lparr>shadow_chunk := Some c1, shadow_alloc_sz := 0, sh_state := SHADOW_BUILDING\<rparr>
            in if \<not> p_wq_present E then
                 (if p_atomic E then (False, d2\<lparr>sh_state := SHADOW_IDLE\<rparr>, m1)
                  else (False, d2\<lparr>sh_state := SHADOW_IDLE, shadow_chunk := None\<rparr>, dw_edma_free_unlinked_chunk (Some c1) m1))
               else (True, d2, m1))"

definition save_cursor :: "sg_cursor \<Rightarrow> dw_edma_desc \<Rightarrow> dw_edma_desc" where
  "save_cursor k d = d\<lparr>sg_cur := k_sg k, sg_remaining := k_remaining k, addr_accum := k_addr k, lazy_mode := True\<rparr>"

definition fixed_lazy :: "sg_cursor \<Rightarrow> dw_edma_desc \<Rightarrow> dw_edma_desc" where
  "fixed_lazy k d =
     (save_cursor k d)\<lparr>sh_state := SHADOW_IDLE, shadow_has_more := False, lazy_work_initialized := True\<rparr>"

text \<open>The table is full and entries are left: with a shadow build when it is allowed and can be prepared, else in place.\<close>

definition enter_lazy ::
  "prep_env \<Rightarrow> dw_edma_chan \<Rightarrow> nat \<Rightarrow> dw_edma_chunk \<Rightarrow> sg_cursor \<Rightarrow> dw_edma_desc \<Rightarrow> edma_mem \<Rightarrow> dw_edma_desc \<times> edma_mem" where
  "enter_lazy E ch cnt c k d m =
     (if ch_dir ch = EDMA_DIR_WRITE \<and> p_shadow_wq E \<and> (p_shadow_wq_min_sg E = 0 \<or> p_shadow_wq_min_sg E \<le> cnt) \<and>
         p_precopy_available E \<and> 1 \<le> chunks_alloc d \<and> 2 \<le> k_remaining k
      then
        let d1 = (save_cursor k d)\<lparr>shadow_next_sg := k_sg k, shadow_next_remaining := k_remaining k,
                   shadow_next_addr := k_addr k, shadow_alloc_sz := 0, shadow_has_more := True,
                   sh_state := SHADOW_IDLE, shadow_expected_cb := \<not> cb c, shadow_chunk := None,
                   shadow_next_chunk := None, shadow_work_initialized := True\<rparr>
        in case dw_edma_shadow_prepare_build E ch d1 m of
             (True, d2, m2) \<Rightarrow> (d2, m2)
           | (False, d2, m2) \<Rightarrow>
               (fixed_lazy k (d2\<lparr>lazy_mode := False, shadow_has_more := False, sh_state := SHADOW_IDLE\<rparr>), m2)
      else (fixed_lazy k d, m))"

definition last_chunk :: "dw_edma_desc \<Rightarrow> dw_edma_chunk" where
  "last_chunk d = last (chunk_list d)"

definition set_last_chunk :: "dw_edma_chunk \<Rightarrow> dw_edma_desc \<Rightarrow> dw_edma_desc" where
  "set_last_chunk c d = d\<lparr>chunk_list := butlast (chunk_list d) @ [c]\<rparr>"

lemma fill_progress:
  assumes "dw_edma_fill_sg_bursts dir ll atomic bm c m accum k = (ret, c1, m1, accum1, k1)" "0 < ret"
  shows "k_remaining k1 < k_remaining k"
proof -
  have loop: "fill_loop n dir atomic s = (r, t) \<Longrightarrow> f_remaining t + f_consumed t \<le> f_remaining s + f_consumed s \<and> r \<le> 0" for n s r t
  proof (induction n dir atomic s rule: fill_loop.induct)
    case (2 n dir atomic s)
    have frame: "f_remaining u = f_remaining s \<and> f_consumed u = f_consumed s \<and> f_sg u = f_sg s"
      if "add_entry dir atomic h len s = (b, u)" for h len b u
      using that by (auto simp: add_entry_def Let_def dw_edma_extend_sg_burst_def dw_edma_init_sg_burst_def
          split: if_splits list.splits prod.splits option.splits)
    show ?case
      using "2.prems" "2.IH" by (fastforce split: list.splits prod.splits if_splits dest: frame)
  qed simp
  show ?thesis
    using assms by (auto simp: dw_edma_fill_sg_bursts_def Let_def split: if_splits prod.splits dest!: loop)
qed

text \<open>The preparation loop of a scatter-gather transfer; 64 bursts are asked for at a time.\<close>

abbreviation (input) DW_EDMA_PREP_BURST_BATCH_SIZE :: nat where "DW_EDMA_PREP_BURST_BATCH_SIZE \<equiv> 64"

function prep_sg ::
  "prep_env \<Rightarrow> dw_edma_chan \<Rightarrow> nat \<Rightarrow> dw_edma_desc \<Rightarrow> edma_mem \<Rightarrow> sg_cursor \<Rightarrow> bool \<times> dw_edma_desc \<times> edma_mem" where
  "prep_sg E ch cnt d m k =
     (if k_remaining k = 0 then (True, d, m)
      else if k_sg k = [] then (False, d, m)
      else if bursts_alloc (last_chunk d) = ll_max ch
      then (case enter_lazy E ch cnt (last_chunk d) k d m of (d1, m1) \<Rightarrow> (True, d1, m1))
      else
        (case dw_edma_fill_sg_bursts (ch_dir ch) (ll_max ch) (p_atomic E) DW_EDMA_PREP_BURST_BATCH_SIZE
                (last_chunk d) m (alloc_sz d) k of
           (filled, c1, m1, accum, k1) \<Rightarrow>
             let d1 = (set_last_chunk c1 d)\<lparr>alloc_sz := accum\<rparr> in
             if filled \<le> 0 then (False, d1, m1) else prep_sg E ch cnt d1 m1 k1))"
  by pat_completeness auto

termination
  by (relation "measure (\<lambda>(E, ch, cnt, d, m, k). k_remaining k)") (auto simp: not_le dest!: fill_progress [OF sym])

declare prep_sg.simps [simp del]

text \<open>
  The loop over the periods of a cyclic or the frames of an interleaved transfer: \<open>n\<close> bursts from
  index \<open>i\<close>, at the source and destination addresses reached so far.
\<close>

definition period_burst :: "dw_edma_dir \<Rightarrow> xfer \<Rightarrow> nat \<Rightarrow> u64 \<Rightarrow> u64 \<Rightarrow> dw_edma_burst \<Rightarrow> dw_edma_burst" where
  "period_burst dir x i src dst b =
     (let b1 = (case x of
                  XFER_CYCLIC paddr len cnt \<Rightarrow> b\<lparr>b_sz := ucast len\<rparr>
                | XFER_INTERLEAVED il \<Rightarrow> b\<lparr>b_sz := ucast (il_size il i)\<rparr>
                | XFER_SCATTER_GATHER sg n \<Rightarrow> b)
      in if dir = EDMA_DIR_WRITE
         then (case x of XFER_CYCLIC paddr len cnt \<Rightarrow> b1\<lparr>sar := src, dar := paddr\<rparr> | _ \<Rightarrow> b1\<lparr>sar := src\<rparr>)
         else (case x of XFER_CYCLIC paddr len cnt \<Rightarrow> b1\<lparr>dar := dst, sar := paddr\<rparr> | _ \<Rightarrow> b1\<lparr>dar := dst\<rparr>))"

definition next_addrs :: "xfer \<Rightarrow> nat \<Rightarrow> u32 \<Rightarrow> u64 \<times> u64 \<Rightarrow> u64 \<times> u64" where
  "next_addrs x i sz p =
     (case x of
        XFER_INTERLEAVED il \<Rightarrow>
          if 0 < il_frame_size il
          then (if il_src_sgl il then fst p + ucast sz + il_src_icg il i else fst p,
                if il_dst_sgl il then snd p + ucast sz + il_dst_icg il i else snd p)
          else p
      | _ \<Rightarrow> p)"

fun prep_periods ::
  "nat \<Rightarrow> nat \<Rightarrow> prep_env \<Rightarrow> dw_edma_chan \<Rightarrow> xfer \<Rightarrow> u64 \<times> u64 \<Rightarrow> dw_edma_desc \<Rightarrow> edma_mem \<Rightarrow>
    bool \<times> dw_edma_desc \<times> edma_mem" where
  "prep_periods 0 i E ch x p d m = (True, d, m)"
| "prep_periods (Suc n) i E ch x p d m =
     (case (if bursts_alloc (last_chunk d) = ll_max ch then dw_edma_alloc_chunk (p_atomic E) ch d m
            else (Some (last_chunk d), d, m)) of
        (None, d1, m1) \<Rightarrow> (False, d1, m1)
      | (Some c, d1, m1) \<Rightarrow>
          (case dw_edma_alloc_burst (p_atomic E) c m1 of
             (None, c1, m2) \<Rightarrow> (False, set_last_chunk c1 d1, m2)
           | (Some b, c1, m2) \<Rightarrow>
               let v = period_burst (ch_dir ch) x i (fst p) (snd p) (bursts m2 b);
                   m3 = m2\<lparr>bursts := (bursts m2)(b := v)\<rparr>;
                   d2 = (set_last_chunk (grow_region (b_sz v) c1) d1)\<lparr>alloc_sz := alloc_sz d1 + b_sz v\<rparr>
               in prep_periods n (Suc i) E ch x (next_addrs x i (b_sz v) p) d2 m3))"

definition direction_ok :: "edma_chan \<Rightarrow> dma_direction \<Rightarrow> bool" where
  "direction_ok ch dir =
     (case cfg_direction ch of
        DMA_DEV_TO_MEM \<Rightarrow> dir = DMA_DEV_TO_MEM \<and> ch_dir ch = EDMA_DIR_READ
      | DMA_MEM_TO_DEV \<Rightarrow> dir = DMA_MEM_TO_DEV \<and> ch_dir ch = EDMA_DIR_WRITE
      | DMA_DIR_OTHER \<Rightarrow> (dir = DMA_MEM_TO_DEV \<and> ch_dir ch = EDMA_DIR_READ) \<or>
                        (dir = DMA_DEV_TO_MEM \<and> ch_dir ch = EDMA_DIR_WRITE))"

fun shape_ok :: "xfer \<Rightarrow> bool" where
  "shape_ok (XFER_CYCLIC paddr len cnt) \<longleftrightarrow> len \<noteq> 0 \<and> cnt \<noteq> 0"
| "shape_ok (XFER_SCATTER_GATHER sg n) \<longleftrightarrow> 1 \<le> n"
| "shape_ok (XFER_INTERLEAVED il) \<longleftrightarrow> il_numf il \<noteq> 0 \<and> \<not> 0 < il_frame_size il"

definition prep_bursts ::
  "prep_env \<Rightarrow> edma_chan \<Rightarrow> xfer \<Rightarrow> dw_edma_desc \<Rightarrow> edma_mem \<Rightarrow> bool \<times> dw_edma_desc \<times> edma_mem" where
  "prep_bursts E ch x d m =
     (let base = dw_edma_chan.truncate ch; src = cfg_src_addr ch; dst = cfg_dst_addr ch in
      case x of
        XFER_SCATTER_GATHER sg n \<Rightarrow>
          prep_sg E base n d m
            \<lparr>k_sg = sg, k_remaining = n, k_addr = (if ch_dir ch = EDMA_DIR_WRITE then src else dst)\<rparr>
      | XFER_CYCLIC paddr len cnt \<Rightarrow> prep_periods cnt 0 E base x (src, dst) d m
      | XFER_INTERLEAVED il \<Rightarrow> prep_periods (il_numf il) 0 E base x (il_src_start il, il_dst_start il) d m)"

definition dw_edma_device_transfer ::
  "prep_env \<Rightarrow> edma_chan \<Rightarrow> dma_direction \<Rightarrow> xfer \<Rightarrow> edma_mem \<Rightarrow> dw_edma_desc option \<times> edma_mem" where
  "dw_edma_device_transfer E ch dir x m =
     (if \<not> configured ch then (None, m)
      else if ch_dir ch = EDMA_DIR_READ \<and> 2 \<le> ch_id ch then (None, m)
      else if \<not> direction_ok ch dir \<or> \<not> shape_ok x then (None, m)
      else case dw_edma_alloc_desc m of
        (None, m1) \<Rightarrow> (None, m1)
      | (Some d, m1) \<Rightarrow>
          (case dw_edma_alloc_chunk (p_atomic E) (dw_edma_chan.truncate ch) d m1 of
             (None, d1, m2) \<Rightarrow> (None, dw_edma_free_desc id d1 m2)
           | (Some c, d1, m2) \<Rightarrow>
               (case prep_bursts E ch x d1 m2 of
                  (True, d2, m3) \<Rightarrow> (Some d2, m3)
                | (False, d2, m3) \<Rightarrow> (None, dw_edma_free_desc id d2 m3))))"

definition dw_edma_device_prep_slave_sg ::
  "prep_env \<Rightarrow> edma_chan \<Rightarrow> sg_list \<Rightarrow> nat \<Rightarrow> dma_direction \<Rightarrow> edma_mem \<Rightarrow> dw_edma_desc option \<times> edma_mem" where
  "dw_edma_device_prep_slave_sg E ch sg n dir m = dw_edma_device_transfer E ch dir (XFER_SCATTER_GATHER sg n) m"

definition dw_edma_device_prep_dma_cyclic ::
  "prep_env \<Rightarrow> edma_chan \<Rightarrow> u64 \<Rightarrow> u64 \<Rightarrow> nat \<Rightarrow> dma_direction \<Rightarrow> edma_mem \<Rightarrow> dw_edma_desc option \<times> edma_mem" where
  "dw_edma_device_prep_dma_cyclic E ch paddr len cnt dir m = dw_edma_device_transfer E ch dir (XFER_CYCLIC paddr len cnt) m"

definition dw_edma_device_prep_interleaved_dma ::
  "prep_env \<Rightarrow> edma_chan \<Rightarrow> dma_direction \<Rightarrow> il_template \<Rightarrow> edma_mem \<Rightarrow> dw_edma_desc option \<times> edma_mem" where
  "dw_edma_device_prep_interleaved_dma E ch dir il m = dw_edma_device_transfer E ch dir (XFER_INTERLEAVED il) m"

section \<open>The prepared descriptor\<close>

text \<open>All that a descriptor holds but the bursts of its last chunk.\<close>

definition rest_refs :: "dw_edma_desc \<Rightarrow> ref multiset" where
  "rest_refs d = add_mset (d_ref d) (refs_of (butlast (chunk_list d)) + refs_of (opt_chunk (chunk_anchor d)) +
     refs_of (opt_chunk (shadow_chunk d)) + refs_of (opt_chunk (shadow_next_chunk d)) +
     (case c_ref (last_chunk d) of None \<Rightarrow> {#} | Some r \<Rightarrow> {#r#}))"

lemma desc_refs_last:
  assumes "chunk_list d \<noteq> []"
  shows "desc_refs d = chunk_bursts (last_chunk d) + rest_refs d"
proof -
  have "refs_of (chunk_list d) = refs_of (butlast (chunk_list d)) + chunk_refs (last_chunk d)"
    using assms by (metis append_butlast_last_id last_chunk_def refs_of_simps add.right_neutral)
  then show ?thesis by (simp add: desc_refs_def desc_chunks_def rest_refs_def chunk_refs_def ac_simps)
qed

lemma set_last_chunk_simps [simp]:
  "last_chunk (set_last_chunk c d) = c" "chunk_list (set_last_chunk c d) \<noteq> []"
  "c_ref c = c_ref (last_chunk d) \<Longrightarrow> rest_refs (set_last_chunk c d) = rest_refs d"
  "last_chunk (d\<lparr>alloc_sz := a\<rparr>) = last_chunk d" "rest_refs (d\<lparr>alloc_sz := a\<rparr>) = rest_refs d"
  by (simp_all add: last_chunk_def set_last_chunk_def rest_refs_def)

lemma desc_refs_alloc_sz [simp]: "desc_refs (d\<lparr>alloc_sz := a\<rparr>) = desc_refs d" "desc_ok (d\<lparr>alloc_sz := a\<rparr>) = desc_ok d"
  by (simp_all add: desc_refs_def desc_ok_def desc_chunks_def)

lemma desc_ok_last:
  assumes "desc_ok d" "chunk_list d \<noteq> []"
  shows "chunk_ok (last_chunk d)" "chunk_ok c \<Longrightarrow> desc_ok (set_last_chunk c d)"
proof -
  show "chunk_ok (last_chunk d)" using assms by (simp add: desc_ok_def desc_chunks_def last_chunk_def)
  assume c: "chunk_ok c"
  have "set (butlast (chunk_list d)) \<subseteq> set (chunk_list d)" by (auto dest: in_set_butlastD)
  then show "desc_ok (set_last_chunk c d)" using assms c by (auto simp: desc_ok_def desc_chunks_def set_last_chunk_def)
qed

text \<open>The descriptor is being filled: its last chunk has its anchor and room, and there is no shadow build.\<close>

definition filling :: "ref multiset \<Rightarrow> nat \<Rightarrow> dw_edma_desc \<Rightarrow> edma_mem \<Rightarrow> bool" where
  "filling U ll d m \<longleftrightarrow> mem_ok (desc_refs d + U) m \<and> desc_ok d \<and> chunk_list d \<noteq> [] \<and> burst (last_chunk d) \<noteq> None \<and>
     bursts_alloc (last_chunk d) \<le> ll \<and> shadow_chunk d = None \<and> shadow_next_chunk d = None \<and> \<not> lazy_mode d"

lemma filling_fill:
  assumes "filling U ll d m"
    and "dw_edma_fill_sg_bursts dir ll atomic bm (last_chunk d) m accum k = (ret, c1, m1, accum1, k1)"
  shows "filling U ll ((set_last_chunk c1 d)\<lparr>alloc_sz := accum1\<rparr>) m1"
proof -
  have l: "chunk_list d \<noteq> []" "desc_ok d" using assms(1) by (simp_all add: filling_def)
  have e: "desc_refs d + U = chunk_bursts (last_chunk d) + (rest_refs d + U)" using desc_refs_last [OF l(1)] by (simp add: union_assoc)
  have p: "mem_ok (chunk_bursts (last_chunk d) + (rest_refs d + U)) m" "chunk_ok (last_chunk d)" "burst (last_chunk d) \<noteq> None"
      "bursts_alloc (last_chunk d) \<le> ll"
    using assms(1) desc_ok_last(1) [OF l(2,1)] unfolding filling_def e by simp_all
  note k = fill_sg_ok [OF p assms(2)]
  have c: "c_ref c1 = c_ref (last_chunk d)" using k by (simp add: same_chunk_def)
  have "desc_refs (set_last_chunk c1 d) = chunk_bursts c1 + rest_refs d"
    using desc_refs_last [of "set_last_chunk c1 d"] c by simp
  then show ?thesis using k assms(1) desc_ok_last(2) [OF l(2,1)]
    by (simp add: filling_def union_assoc) (simp add: set_last_chunk_def)
qed

text \<open>What the preparation leaves: \<open>n\<close> entries in the last chunk, and the position of the others for later.\<close>

definition prepared :: "dw_edma_chan \<Rightarrow> nat \<Rightarrow> sg_cursor \<Rightarrow> dw_edma_desc \<Rightarrow> bool" where
  "prepared ch n k d \<longleftrightarrow> n \<le> k_remaining k \<and> n \<le> length (k_sg k) \<and> bursts_alloc (last_chunk d) \<le> ll_max ch \<and>
     (n = k_remaining k \<longrightarrow> \<not> lazy_mode d) \<and>
     (n < k_remaining k \<longrightarrow> lazy_mode d \<and> sg_cur d = drop n (k_sg k) \<and> sg_remaining d = k_remaining k - n \<and>
        addr_accum d = k_addr k + sg_bytes (take n (k_sg k)) \<and> bursts_alloc (last_chunk d) = ll_max ch \<and>
        (sh_state d = SHADOW_BUILDING \<and> shadow_next_sg d = drop n (k_sg k) \<and> shadow_next_remaining d = k_remaining k - n \<and>
           shadow_next_addr d = addr_accum d \<and> (\<exists>c. shadow_chunk d = Some c \<and> cb c = (\<not> cb (last_chunk d))) \<or>
         sh_state d = SHADOW_IDLE \<and> lazy_work_initialized d))"

lemma desc_same_refs:
  assumes "d_ref e = d_ref d" "chunk_list e = chunk_list d" "chunk_anchor e = chunk_anchor d" "shadow_chunk e = shadow_chunk d"
    "shadow_next_chunk e = shadow_next_chunk d"
  shows "desc_refs e = desc_refs d" "d_from_pool e = d_from_pool d \<Longrightarrow> desc_ok e = desc_ok d" "last_chunk e = last_chunk d"
  using assms by (simp_all add: desc_refs_def desc_ok_def desc_chunks_def last_chunk_def)

lemma shadow_prepare_ok:
  assumes "mem_ok (desc_refs d + U) m" "desc_ok d" "shadow_chunk d = None" "shadow_next_chunk d = None"
    and "dw_edma_shadow_prepare_build E ch d m = (b, d1, m1)"
  shows "mem_ok (desc_refs d1 + U) m1 \<and> desc_ok d1 \<and> bursts m1 = bursts m \<and> shadow_next_chunk d1 = None \<and>
    (if b then \<exists>c. d1 = d\<lparr>shadow_next_chunk := None, shadow_chunk := Some c, shadow_alloc_sz := 0, sh_state := SHADOW_BUILDING\<rparr> \<and>
       cb c = shadow_expected_cb d
     else d1 = d \<or> d1 = d\<lparr>shadow_alloc_sz := 0, sh_state := SHADOW_IDLE\<rparr>)"
proof -
  have none: "d\<lparr>shadow_next_chunk := None\<rparr> = d" using assms(4) by simp
  obtain r m0 where a: "dw_edma_alloc_unlinked_chunk ch m = (r, m0)" by fastforce
  have bm: "bursts m0 = bursts m"
    using a by (auto simp: dw_edma_alloc_unlinked_chunk_def dw_edma_alloc_chunk_for_chan_def kzalloc_def Let_def split: if_splits option.splits)
  note ok = alloc_unlinked_ok(1) [OF assms(1) a]
  show ?thesis
  proof (cases "\<not> lazy_mode d \<or> shadow_next_remaining d = 0 \<or> p_atomic E \<or> r = None")
    case True
    then have "\<not> b" "d1 = d" "m1 = m \<or> m1 = m0 \<and> r = None"
      using assms(4,5) a none by (auto simp: dw_edma_shadow_prepare_build_def Let_def split: if_splits)
    then show ?thesis using assms(1,2,4) ok bm by auto
  next
    case False
    then obtain c where c: "r = Some c" by auto
    define c1 where "c1 = c\<lparr>cb := shadow_expected_cb d\<rparr>"
    define d2 where "d2 = d\<lparr>shadow_next_chunk := None, shadow_chunk := Some c1, shadow_alloc_sz := 0, sh_state := SHADOW_BUILDING\<rparr>"
    have c1: "mem_ok (chunk_refs c1 + (desc_refs d + U)) m0" "chunk_ok c1" using ok c by (simp_all add: c1_def)
    have r2: "desc_refs d2 = chunk_refs c1 + desc_refs d" "desc_ok d2"
      using assms(2,3,4) c1(2) by (auto simp: d2_def desc_refs_def desc_chunks_def opt_chunk_def desc_ok_def ac_simps)
    show ?thesis
    proof (cases "p_wq_present E")
      case True
      then have "b" "d1 = d2" "m1 = m0"
        using assms(4,5) a c False by (auto simp: dw_edma_shadow_prepare_build_def Let_def d2_def c1_def)
      moreover have "cb c1 = shadow_expected_cb d" "shadow_next_chunk d2 = None" by (simp_all add: c1_def d2_def)
      ultimately show ?thesis using c1 r2 bm d2_def by (auto simp: union_assoc)
    next
      case nowq: False
      then have e: "\<not> b" "d1 = d\<lparr>shadow_alloc_sz := 0, sh_state := SHADOW_IDLE\<rparr>" "m1 = dw_edma_free_unlinked_chunk (Some c1) m0"
        using assms(3,4,5) a c False by (auto simp: dw_edma_shadow_prepare_build_def Let_def c1_def)
      have "mem_ok (desc_refs d + U) m1" using free_chunk_object_ok [OF c1] e(3) by (simp add: dw_edma_free_unlinked_chunk_def)
      moreover have "desc_refs d1 = desc_refs d" "desc_ok d1 = desc_ok d" using desc_same_refs [of d1 d] e(2) by simp_all
      moreover have "burst c1 = None" using a c
        by (auto simp: c1_def dw_edma_alloc_unlinked_chunk_def split: option.splits prod.splits)
      then have "bursts m1 = bursts m" using e(3) bm
        by (simp add: dw_edma_free_unlinked_chunk_def free_chunk_object_def dw_edma_free_burst_def Let_def split: option.split)
      ultimately show ?thesis using e(1,2) assms(2,4) by simp
    qed
  qed
qed

lemma enter_lazy_ok:
  assumes "filling U (ll_max ch) d m" "bursts_alloc (last_chunk d) = ll_max ch" "0 < k_remaining k"
    and "enter_lazy E ch cnt (last_chunk d) k d m = (d1, m1)"
  shows "mem_ok (desc_refs d1 + U) m1 \<and> desc_ok d1 \<and> bursts m1 = bursts m \<and> last_chunk d1 = last_chunk d \<and>
    chunk_list d1 \<noteq> [] \<and> alloc_sz d1 = alloc_sz d \<and> prepared ch 0 k d1"
proof -
  have ok: "mem_ok (desc_refs d + U) m" "desc_ok d" "shadow_chunk d = None" "shadow_next_chunk d = None" "chunk_list d \<noteq> []"
    using assms(1) by (simp_all add: filling_def)
  have fixed: "mem_ok (desc_refs (fixed_lazy k e) + U) n \<and> desc_ok (fixed_lazy k e) \<and> last_chunk (fixed_lazy k e) = last_chunk d \<and>
      chunk_list (fixed_lazy k e) \<noteq> [] \<and> alloc_sz (fixed_lazy k e) = alloc_sz d \<and> prepared ch 0 k (fixed_lazy k e)"
    if "mem_ok (desc_refs e + U) n" "desc_ok e" "chunk_list e = chunk_list d" "alloc_sz e = alloc_sz d" for e n
  proof -
    have "desc_refs (fixed_lazy k e) = desc_refs e" "desc_ok (fixed_lazy k e) = desc_ok e" "last_chunk (fixed_lazy k e) = last_chunk e"
      using desc_same_refs [of "fixed_lazy k e" e] by (simp_all add: fixed_lazy_def save_cursor_def)
    moreover have "last_chunk e = last_chunk d" using that(3) by (simp add: last_chunk_def)
    ultimately show ?thesis using that ok(5) assms(2,3)
      by (simp add: prepared_def) (simp add: fixed_lazy_def save_cursor_def)
  qed
  define d0 where "d0 = (save_cursor k d)\<lparr>shadow_next_sg := k_sg k, shadow_next_remaining := k_remaining k,
      shadow_next_addr := k_addr k, shadow_alloc_sz := 0, shadow_has_more := True, sh_state := SHADOW_IDLE,
      shadow_expected_cb := \<not> cb (last_chunk d), shadow_chunk := None, shadow_next_chunk := None, shadow_work_initialized := True\<rparr>"
  have d0: "desc_refs d0 = desc_refs d" "desc_ok d0 = desc_ok d" "last_chunk d0 = last_chunk d" "chunk_list d0 = chunk_list d"
      "alloc_sz d0 = alloc_sz d" "shadow_chunk d0 = None" "shadow_next_chunk d0 = None"
    using desc_same_refs [of d0 d] ok(3,4) by (simp_all add: d0_def save_cursor_def)
  obtain b d2 m2 where s: "dw_edma_shadow_prepare_build E ch d0 m = (b, d2, m2)" by (metis prod_cases3)
  have "mem_ok (desc_refs d0 + U) m" "desc_ok d0" using ok d0 by simp_all
  note k = shadow_prepare_ok [OF this d0(6,7) s]
  consider (direct) "d1 = fixed_lazy k d" "m1 = m" | (shadow) "b" "d1 = d2" "m1 = m2"
    | (refused) "\<not> b" "d1 = fixed_lazy k (d2\<lparr>lazy_mode := False, shadow_has_more := False, sh_state := SHADOW_IDLE\<rparr>)" "m1 = m2"
    using assms(4) s by (auto simp: enter_lazy_def Let_def d0_def split: if_splits bool.splits)
  then show ?thesis
  proof cases
    case direct
    then show ?thesis using fixed [of d m] ok by simp
  next
    case shadow
    then obtain c where c: "d2 = d0\<lparr>shadow_next_chunk := None, shadow_chunk := Some c, shadow_alloc_sz := 0, sh_state := SHADOW_BUILDING\<rparr>"
        "cb c = shadow_expected_cb d0" using k by auto
    have "last_chunk d2 = last_chunk d0" using c(1) by (simp add: last_chunk_def)
    then have "last_chunk d2 = last_chunk d" "chunk_list d2 = chunk_list d" "alloc_sz d2 = alloc_sz d" using c(1) d0 by simp_all
    moreover have "prepared ch 0 k d2"
      unfolding prepared_def \<open>last_chunk d2 = last_chunk d\<close> using assms(2,3) c by (simp add: d0_def save_cursor_def)
    ultimately show ?thesis using shadow k ok(5) by simp
  next
    case refused
    let ?e = "d2\<lparr>lazy_mode := False, shadow_has_more := False, sh_state := SHADOW_IDLE\<rparr>"
    have "desc_refs ?e = desc_refs d2" "desc_ok ?e = desc_ok d2" using desc_same_refs [of ?e d2] by simp_all
    moreover have "chunk_list ?e = chunk_list d" "alloc_sz ?e = alloc_sz d" using k refused(1) d0 by auto
    ultimately show ?thesis using fixed [of ?e m2] refused k by simp
  qed
qed

lemma sg_sums_append [simp]:
  "sg_bytes (xs @ ys) = sg_bytes xs + sg_bytes ys" "sg_len32 (xs @ ys) = sg_len32 xs + sg_len32 ys"
  by (simp_all add: sg_bytes_def sg_len32_def)

lemma prepared_later:
  assumes "took dir n k k1" "prepared ch j k1 d"
  shows "prepared ch (n + j) k d"
proof -
  have "take (n + j) (k_sg k) = take n (k_sg k) @ take j (k_sg k1)" using assms(1) by (simp add: took_def take_add)
  then have b: "k_addr k1 + sg_bytes (take j (k_sg k1)) = k_addr k + sg_bytes (take (n + j) (k_sg k))"
    using assms(1) by (simp add: took_def add.assoc)
  have r: "k_sg k1 = drop n (k_sg k)" "k_remaining k1 = k_remaining k - n" "n \<le> k_remaining k" "n \<le> length (k_sg k)"
    using assms(1) by (simp_all add: took_def)
  have "drop j (k_sg k1) = drop (n + j) (k_sg k)" using r by (simp add: add.commute)
  then show ?thesis using assms(2) r unfolding prepared_def b by auto
qed

lemma prep_sg_ok:
  assumes "filling U (ll_max ch) d m" "prep_sg E ch cnt d m k = (ok, d1, m1)"
  shows "mem_ok (desc_refs d1 + U) m1 \<and> desc_ok d1 \<and>
    (ok \<longrightarrow> (\<exists>n. prepared ch n k d1 \<and> alloc_sz d1 = alloc_sz d + sg_len32 (take n (k_sg k)) \<and>
       chunk_moves m1 (last_chunk d1) = chunk_moves m (last_chunk d) @ sg_moves (ch_dir ch) (k_addr k) (take n (k_sg k))))"
  using assms
proof (induction E ch cnt d m k rule: prep_sg.induct)
  case (1 E ch cnt d m k)
  have fl: "mem_ok (desc_refs d + U) m" "desc_ok d" "bursts_alloc (last_chunk d) \<le> ll_max ch" "chunk_list d \<noteq> []"
      "burst (last_chunk d) \<noteq> None" "\<not> lazy_mode d"
    using "1.prems"(1) by (simp_all add: filling_def)
  consider (empty) "k_remaining k = 0" | (short) "k_remaining k \<noteq> 0" "k_sg k = []"
    | (full) "k_remaining k \<noteq> 0" "k_sg k \<noteq> []" "bursts_alloc (last_chunk d) = ll_max ch"
    | (more) "k_remaining k \<noteq> 0" "k_sg k \<noteq> []" "bursts_alloc (last_chunk d) \<noteq> ll_max ch" by blast
  then show ?case
  proof cases
    case empty
    then have "d1 = d" "m1 = m" using "1.prems"(2) by (simp_all add: prep_sg.simps)
    moreover have "prepared ch 0 k d" using fl empty by (simp add: prepared_def)
    ultimately show ?thesis using fl by (intro conjI impI exI [of _ 0]) simp_all
  next
    case short
    then show ?thesis using "1.prems"(2) fl by (auto simp: prep_sg.simps)
  next
    case full
    then have e: "enter_lazy E ch cnt (last_chunk d) k d m = (d1, m1)" "ok"
      using "1.prems"(2) by (auto simp: prep_sg.simps split: prod.splits)
    have "chunk_moves m1 (last_chunk d) = chunk_moves m (last_chunk d)"
      using enter_lazy_ok [OF "1.prems"(1) full(3) _ e(1)] full(1) by (intro chunk_moves_cong) auto
    then show ?thesis using enter_lazy_ok [OF "1.prems"(1) full(3) _ e(1)] full(1)
      by (intro conjI impI exI [of _ 0]) simp_all
  next
    case more
    obtain ret c1 m2 accum k1 where f: "dw_edma_fill_sg_bursts (ch_dir ch) (ll_max ch) (p_atomic E) 64 (last_chunk d) m (alloc_sz d) k =
        (ret, c1, m2, accum, k1)" by (metis prod_cases5)
    let ?d = "(set_last_chunk c1 d)\<lparr>alloc_sz := accum\<rparr>"
    have fill: "filling U (ll_max ch) ?d m2" using filling_fill [OF "1.prems"(1) f] .
    have p: "mem_ok (chunk_bursts (last_chunk d) + (rest_refs d + U)) m" "chunk_ok (last_chunk d)"
      using fl desc_ok_last(1) desc_refs_last [OF fl(4)] by (simp_all add: union_assoc)
    note o = fill_sg_ok [OF p fl(5,3) f]
    show ?thesis
    proof (cases "ret \<le> 0")
      case True
      then have "\<not> ok" "d1 = ?d" "m1 = m2" using "1.prems"(2) more f by (auto simp: prep_sg.simps Let_def)
      then show ?thesis using fill by (simp add: filling_def)
    next
      case False
      then have rec: "prep_sg E ch cnt ?d m2 k1 = (ok, d1, m1)" using "1.prems"(2) more f by (subst (asm) prep_sg.simps) (simp add: Let_def)
      have ih: "mem_ok (desc_refs d1 + U) m1 \<and> desc_ok d1 \<and>
        (ok \<longrightarrow> (\<exists>n. prepared ch n k1 d1 \<and> alloc_sz d1 = alloc_sz ?d + sg_len32 (take n (k_sg k1)) \<and>
           chunk_moves m1 (last_chunk d1) = chunk_moves m2 (last_chunk ?d) @ sg_moves (ch_dir ch) (k_addr k1) (take n (k_sg k1))))"
        using "1.IH" [OF more f [symmetric] refl refl refl refl False fill rec] .
      have t: "took (ch_dir ch) (nat ret) k k1" "accum = alloc_sz d + sg_len32 (take (nat ret) (k_sg k))"
          "chunk_moves m2 c1 = chunk_moves m (last_chunk d) @ sg_moves (ch_dir ch) (k_addr k) (take (nat ret) (k_sg k))"
        using o False by simp_all
      have tk: "take (nat ret + n) (k_sg k) = take (nat ret) (k_sg k) @ take n (k_sg k1)" for n
        using t(1) by (simp add: took_def take_add)
      have a: "k_addr k1 = k_addr k + sg_bytes (take (nat ret) (k_sg k))" using t(1) by (simp add: took_def)
      have "\<exists>n. prepared ch n k d1 \<and> alloc_sz d1 = alloc_sz d + sg_len32 (take n (k_sg k)) \<and>
           chunk_moves m1 (last_chunk d1) = chunk_moves m (last_chunk d) @ sg_moves (ch_dir ch) (k_addr k) (take n (k_sg k))" if yes: "ok"
      proof -
        obtain n where n: "prepared ch n k1 d1" "alloc_sz d1 = accum + sg_len32 (take n (k_sg k1))"
            "chunk_moves m1 (last_chunk d1) = chunk_moves m2 c1 @ sg_moves (ch_dir ch) (k_addr k1) (take n (k_sg k1))"
          using ih yes by auto
        have "prepared ch (nat ret + n) k d1" using prepared_later [OF t(1) n(1)] .
        then show ?thesis using n(2,3) t(2,3) a by (intro exI [of _ "nat ret + n"]) (simp add: tk sg_moves_append add.assoc)
      qed
      then show ?thesis using ih by blast
    qed
  qed
qed

section \<open>Deferred releases are left alone\<close>

lemma cleanup_add_entry:
  "add_entry dir a h len s = (b, t) \<Longrightarrow> cleanup_chunks (f_mem t) = cleanup_chunks (f_mem s)"
  by (auto simp: add_entry_def Let_def dw_edma_extend_sg_burst_def dw_edma_init_sg_burst_def
      split: list.splits prod.splits option.splits if_splits dest: cleanup_of_alloc(1))

lemma cleanup_fill_loop: "fill_loop n dir a s = (r, t) \<Longrightarrow> cleanup_chunks (f_mem t) = cleanup_chunks (f_mem s)"
proof (induction n dir a s rule: fill_loop.induct)
  case (2 n dir a s)
  show ?case
  proof (cases "f_sg s")
    case (Cons e sg)
    obtain h len where e: "e = (h, len)" by fastforce
    obtain b s1 where a: "add_entry dir a h len s = (b, s1)" by fastforce
    show ?thesis
      using "2.IH" [OF Cons e [symmetric] _ _ a [symmetric]] "2.prems" Cons e a cleanup_add_entry [OF a]
      by (auto split: if_splits)
  qed (use "2.prems" in simp)
qed simp

lemma cleanup_fill_sg:
  "dw_edma_fill_sg_bursts dir ll a bm c m accum k = (r, c1, m1, accum1, k1) \<Longrightarrow> cleanup_chunks m1 = cleanup_chunks m"
  unfolding dw_edma_fill_sg_bursts_def Let_def
  by (auto split: if_splits prod.splits dest!: cleanup_fill_loop cleanup_of_alloc(2))

lemma cleanup_alloc_unlinked:
  "dw_edma_alloc_unlinked_chunk ch m = (r, m1) \<Longrightarrow> cleanup_chunks m1 = cleanup_chunks m"
  by (auto simp: dw_edma_alloc_unlinked_chunk_def dw_edma_alloc_chunk_for_chan_def kzalloc_def Let_def
      split: prod.splits option.splits if_splits)

lemma cleanup_shadow_prepare:
  "dw_edma_shadow_prepare_build E ch d m = (b, d1, m1) \<Longrightarrow> cleanup_chunks m1 = cleanup_chunks m"
  by (auto simp: dw_edma_shadow_prepare_build_def Let_def split: prod.splits option.splits if_splits
      dest: cleanup_alloc_unlinked)

lemma cleanup_enter_lazy: "enter_lazy E ch cnt c k d m = (d1, m1) \<Longrightarrow> cleanup_chunks m1 = cleanup_chunks m"
  unfolding enter_lazy_def Let_def
  by (auto split: prod.splits bool.splits if_splits dest: cleanup_shadow_prepare)

lemma cleanup_prep_sg: "prep_sg E ch cnt d m k = (b, d1, m1) \<Longrightarrow> cleanup_chunks m1 = cleanup_chunks m"
proof (induction E ch cnt d m k rule: prep_sg.induct)
  case (1 E ch cnt d m k)
  obtain ret c1 m2 accum k1 where f: "dw_edma_fill_sg_bursts (ch_dir ch) (ll_max ch) (p_atomic E) 64 (last_chunk d) m (alloc_sz d) k =
      (ret, c1, m2, accum, k1)" by (metis prod_cases5)
  show ?case
    using "1.prems" "1.IH" [OF _ _ _ f [symmetric] refl refl refl refl] f cleanup_fill_sg [OF f]
    by (subst (asm) (1) prep_sg.simps) (auto simp: Let_def split: if_splits prod.splits dest: cleanup_enter_lazy)
qed

section \<open>Properties\<close>

lemma alloc_start:
  assumes "mem_ok U m" "dw_edma_alloc_desc m = (Some d, m1)" "dw_edma_alloc_chunk a ch d m1 = (Some c, d1, m2)"
  shows "filling U ll d1 m2 \<and> burst_list (last_chunk d1) = [] \<and> alloc_sz d1 = 0 \<and> chunk_list d1 = [c] \<and> cb c \<and>
    host_region c = desc_buf ch \<and> ll_region c = ch_ll ch"
proof -
  have ok: "mem_ok (desc_refs d + U) m1" "desc_ok d" using alloc_desc_ok(1) [OF assms(1,2)] by auto
  note k = alloc_chunk_ok [OF ok assms(3)]
  have d: "chunk_list d = []" "chunk_anchor d = Some zero_chunk" "alloc_sz d = 0" "shadow_chunk d = None"
      "shadow_next_chunk d = None" "chunks_alloc d = 0" "\<not> lazy_mode d"
    using assms(2) by (auto simp: dw_edma_alloc_desc_def dw_edma_alloc_desc_from_pool_def dw_edma_alloc_desc_dynamic_def
        zero_desc_def split: if_splits prod.splits option.splits)
  obtain r0 m0 where f: "dw_edma_alloc_chunk_for_chan ch m1 = (r0, m0)" by fastforce
  then obtain c0 where c0: "r0 = Some c0" "burst c0 = None" "burst_list c0 = []" "host_region c0 = desc_buf ch"
    using alloc_chunk_for_chan_ok [OF ok(1) f] assms(3) by (auto simp: dw_edma_alloc_chunk_def)
  obtain b where b: "dw_edma_alloc_burst a (c0\<lparr>cb := True, ll_region := ch_ll ch\<rparr>) m0 = (Some b, c, m2)"
      "d1 = d\<lparr>chunks_alloc := 1, chunk_list := [c]\<rparr>"
    using assms(3) f c0 d by (auto simp: dw_edma_alloc_chunk_def Let_def split: prod.splits option.splits)
  have "c = c0\<lparr>cb := True, ll_region := ch_ll ch, bursts_alloc := 0, burst := Some b, burst_list := []\<rparr>"
    using b(1) c0 by (auto simp: dw_edma_alloc_burst_def split: prod.splits option.splits if_splits)
  then show ?thesis using k b(2) d c0 by (simp add: filling_def last_chunk_def)
qed

lemma settle_id [simp]: "settle_ok U id"
  by (simp add: settle_ok_def)

lemma truncate_simps [simp]:
  "ll_max (dw_edma_chan.truncate ch) = ll_max ch" "ch_dir (dw_edma_chan.truncate ch) = ch_dir ch"
  "ch_ll (dw_edma_chan.truncate ch) = ch_ll ch" "desc_buf (dw_edma_chan.truncate ch) = desc_buf ch"
  by (simp_all add: dw_edma_chan.defs)

text \<open>The start of a scatter-gather transfer on a channel.\<close>

definition sg_start :: "edma_chan \<Rightarrow> sg_list \<Rightarrow> nat \<Rightarrow> sg_cursor" where
  "sg_start ch sg n = \<lparr>k_sg = sg, k_remaining = n, k_addr = (if ch_dir ch = EDMA_DIR_WRITE then cfg_src_addr ch else cfg_dst_addr ch)\<rparr>"

lemma sg_transfer_ok:
  assumes "mem_ok (refs_of (cleanup_chunks m) + U) m" "\<forall>c \<in> set (cleanup_chunks m). chunk_ok c"
    and "dw_edma_device_prep_slave_sg E ch sg n dir m = (r, m1)"
  shows "case r of
      None \<Rightarrow> mem_ok (refs_of (cleanup_chunks m1) + U) m1
    | Some d \<Rightarrow> live U d m1 \<and>
        (\<exists>j. prepared (dw_edma_chan.truncate ch) j (sg_start ch sg n) d \<and> alloc_sz d = sg_len32 (take j sg) \<and>
           chunk_moves m1 (last_chunk d) = sg_moves (ch_dir ch) (k_addr (sg_start ch sg n)) (take j sg))"
proof (cases "configured ch \<and> \<not> (ch_dir ch = EDMA_DIR_READ \<and> 2 \<le> ch_id ch) \<and> direction_ok ch dir \<and> 1 \<le> n")
  case False
  then have "r = None" "m1 = m"
    using assms(3) by (auto simp: dw_edma_device_prep_slave_sg_def dw_edma_device_transfer_def split: if_splits)
  then show ?thesis using assms(1) by simp
next
  case True
  obtain r0 m0 where a: "dw_edma_alloc_desc m = (r0, m0)" by fastforce
  note ad = alloc_desc_ok [OF assms(1) a]
  show ?thesis
  proof (cases r0)
    case None
    then have "r = None" "m1 = m0"
      using assms(3) True a by (auto simp: dw_edma_device_prep_slave_sg_def dw_edma_device_transfer_def)
    then show ?thesis using ad None by simp
  next
    case (Some d)
    let ?b = "dw_edma_chan.truncate ch"
    obtain rc d1 m2 where c: "dw_edma_alloc_chunk (p_atomic E) ?b d m0 = (rc, d1, m2)" by (metis prod_cases3)
    have dk: "mem_ok (desc_refs d + (refs_of (cleanup_chunks m) + U)) m0" "desc_ok d" using ad Some by auto
    have cl: "cleanup_chunks m2 = cleanup_chunks m" using cleanup_of_alloc(3) [OF c] ad(2) by simp
    show ?thesis
    proof (cases rc)
      case None
      then have "r = None" "m1 = dw_edma_free_desc id d1 m2"
        using assms(3) True a Some c by (auto simp: dw_edma_device_prep_slave_sg_def dw_edma_device_transfer_def)
      moreover have "live U d1 m2" using alloc_chunk_ok [OF dk c] cl assms(2) by (simp add: live_def ac_simps)
      ultimately show ?thesis using free_desc_ok [of U d1 m2 id] by simp
    next
      case chunk: (Some x)
      have start: "filling (refs_of (cleanup_chunks m) + U) (ll_max ?b) d1 m2" "burst_list (last_chunk d1) = []" "alloc_sz d1 = 0"
        using alloc_start [of "refs_of (cleanup_chunks m) + U" m d m0 "p_atomic E" ?b x d1 m2] assms(1) a Some c chunk by auto
      obtain ok d2 m3 where p: "prep_sg E ?b n d1 m2 (sg_start ch sg n) = (ok, d2, m3)" by (metis prod_cases3)
      have pb: "prep_bursts E ch (XFER_SCATTER_GATHER sg n) d1 m2 = (ok, d2, m3)"
        using p by (simp add: prep_bursts_def sg_start_def Let_def)
      have l: "live U d2 m3"
        using prep_sg_ok [OF start(1) p] cleanup_prep_sg [OF p] cl assms(2) by (simp add: live_def ac_simps)
      show ?thesis
      proof (cases ok)
        case True
        then have e: "r = Some d2" "m1 = m3"
          using assms(3) \<open>configured ch \<and> _\<close> a Some c chunk pb
          by (auto simp: dw_edma_device_prep_slave_sg_def dw_edma_device_transfer_def)
        have "chunk_moves m2 (last_chunk d1) = []" using start(2) by (simp add: chunk_moves_def)
        then show ?thesis using e l prep_sg_ok [OF start(1) p] True start(3) by (auto simp: sg_start_def)
      next
        case False
        then have "r = None" "m1 = dw_edma_free_desc id d2 m3"
          using assms(3) \<open>configured ch \<and> _\<close> a Some c chunk pb
          by (auto simp: dw_edma_device_prep_slave_sg_def dw_edma_device_transfer_def)
        then show ?thesis using free_desc_ok [OF l, of id] by simp
      qed
    qed
  qed
qed

text \<open>
  Refilling the table.  The chunk that has been given back its bursts is filled from the saved
  position: it then moves the next entries, and the plan is the position after them.
\<close>

lemma refill_ok:
  assumes "mem_ok U m" "chunk_ok c" "chunk_bursts c = {#}"
    and "dw_edma_lazy_refill_chunk_prepare ch atomic d c m = ((ret, k1, accum), c1, m1)" "0 < ret"
    and "k = \<lparr>k_sg = sg_cur d, k_remaining = sg_remaining d, k_addr = addr_accum d\<rparr>"
  shows "mem_ok (chunk_bursts c1 + U) m1 \<and> chunk_ok c1 \<and> took (ch_dir ch) (nat ret) k k1 \<and> bursts_alloc c1 \<le> ll_max ch \<and>
    chunk_moves m1 c1 = sg_moves (ch_dir ch) (k_addr k) (take (nat ret) (k_sg k)) \<and>
    accum = alloc_sz d + sg_len32 (take (nat ret) (k_sg k)) \<and> cb c1 = (\<not> cb c) \<and> burst_list c1 \<noteq> [] \<and>
    r_sz (ll_region c1) = r_sz (ch_ll ch) + sg_len (take (nat ret) (k_sg k))"
proof -
  define c0 where "c0 = (dw_edma_reset_chunk_region ch c)\<lparr>cb := \<not> cb c\<rparr>"
  have c0: "chunk_ok c0" "chunk_bursts c0 = {#}" "burst c0 = None" "cb c0 = (\<not> cb c)" "ll_region c0 = ch_ll ch"
    using assms(2) by (simp_all add: c0_def dw_edma_reset_chunk_region_def chunk_ok_def chunk_bursts_def)
  have nz: "sg_cur d \<noteq> []" "sg_remaining d \<noteq> 0"
    using assms(4,5) by (auto simp: dw_edma_lazy_refill_chunk_prepare_def Let_def split: if_splits)
  obtain rb cb1 mb where b: "dw_edma_alloc_burst atomic c0 m = (rb, cb1, mb)" by (metis prod_cases3)
  have e0: "(dw_edma_reset_chunk_region ch c)\<lparr>cb := \<not> cb (dw_edma_reset_chunk_region ch c)\<rparr> = c0"
    by (simp add: c0_def dw_edma_reset_chunk_region_def)
  obtain h where h: "rb = Some h"
    using assms(4,5) nz b e0 by (cases rb) (auto simp: dw_edma_lazy_refill_chunk_prepare_def Let_def)
  have "mem_ok (chunk_bursts c0 + U) m" using assms(1) c0(2) by simp
  note ab = alloc_burst_ok [OF this c0(1) b] and ac = alloc_burst_cases [OF this b]
  have cb1: "cb1 = c0\<lparr>bursts_alloc := 0, burst := Some h, burst_list := []\<rparr>" using ac h c0(3) by auto
  obtain f c3 m2 ac2 k2 where f: "dw_edma_fill_sg_bursts (ch_dir ch) (ll_max ch) atomic (ll_max ch) cb1 mb (alloc_sz d) k =
      (f, c3, m2, ac2, k2)" by (metis prod_cases5)
  have r: "f = ret" "c3 = c1" "m2 = m1" "ac2 = accum" "k2 = k1"
    using assms(4,5,6) nz b h f e0
    by (auto simp: dw_edma_lazy_refill_chunk_prepare_def Let_def split: if_splits prod.splits)
  have "burst cb1 \<noteq> None" "bursts_alloc cb1 \<le> ll_max ch" "chunk_moves mb cb1 = []"
    using cb1 by (simp_all add: chunk_moves_def)
  note k = fill_sg_ok [OF ab(1,2) this(1,2) f [unfolded r]]
  show ?thesis using k assms(5) cb1 c0 \<open>chunk_moves mb cb1 = []\<close> by (simp add: same_chunk_def)
qed

text \<open>
  The rounds of a transfer that did not fit: each fills the table from the position that the previous one
  committed.  Between two rounds anything may happen to the memory that keeps its account.
\<close>

definition saved :: "dw_edma_desc \<Rightarrow> sg_cursor" where
  "saved d = \<lparr>k_sg = sg_cur d, k_remaining = sg_remaining d, k_addr = addr_accum d\<rparr>"

inductive lazy_run :: "dw_edma_chan \<Rightarrow> sg_cursor \<Rightarrow> (u64 \<times> u64) list \<Rightarrow> sg_cursor \<Rightarrow> bool" for ch :: dw_edma_chan where
  finished: "lazy_run ch k [] k"
| round: "mem_ok U m \<Longrightarrow> chunk_ok c \<Longrightarrow> chunk_bursts c = {#} \<Longrightarrow>
    dw_edma_lazy_refill_chunk_prepare ch atomic d c m = ((ret, k1, accum), c1, m1) \<Longrightarrow> 0 < ret \<Longrightarrow>
    lazy_run ch k1 ms k2 \<Longrightarrow> lazy_run ch (saved d) (chunk_moves m1 c1 @ ms) k2"

lemma took_trans:
  assumes "took dir a k k1" "took dir b k1 k2"
  shows "took dir (a + b) k k2"
proof -
  have "drop b (drop a (k_sg k)) = drop (a + b) (k_sg k)" by (simp add: add.commute)
  moreover have "a + b \<le> length (k_sg k)" "a + b \<le> k_remaining k" using assms by (auto simp: took_def)
  ultimately show ?thesis using assms by (simp add: took_def take_add add.assoc)
qed

lemma lazy_run_moves:
  "lazy_run ch k ms k2 \<Longrightarrow> \<exists>n. took (ch_dir ch) n k k2 \<and> ms = sg_moves (ch_dir ch) (k_addr k) (take n (k_sg k))"
proof (induction rule: lazy_run.induct)
  case (finished k)
  show ?case by (rule exI [of _ 0]) (simp add: took_def)
next
  case (round U m c atomic d ret k1 accum c1 m1 ms k2)
  note r = refill_ok [OF round.hyps(1-5) saved_def]
  then have t: "took (ch_dir ch) (nat ret) (saved d) k1" by blast
  obtain n where n: "took (ch_dir ch) n k1 k2" "ms = sg_moves (ch_dir ch) (k_addr k1) (take n (k_sg k1))"
    using round.IH by blast
  have "took (ch_dir ch) (nat ret + n) (saved d) k2" using took_trans [OF t n(1)] .
  moreover have "chunk_moves m1 c1 @ ms = sg_moves (ch_dir ch) (k_addr (saved d)) (take (nat ret + n) (k_sg (saved d)))"
    using r n(2) t by (simp add: took_def take_add sg_moves_append)
  ultimately show ?case by blast
qed


definition example_edma_chan :: edma_chan where
  "example_edma_chan = \<lparr>ch_id = 0, ch_dir = EDMA_DIR_READ, ll_max = 2,
     ch_ll = \<lparr>r_paddr = 0x80000, r_vaddr = Some 0, r_sz = 72\<rparr>,
     desc_buf = \<lparr>r_paddr = 0x40000, r_vaddr = Some 0x1000, r_sz = 1048576\<rparr>, desc_buf_is_buddy = False,
     configured = True, cfg_direction = DMA_DIR_OTHER, cfg_src_addr = 0, cfg_dst_addr = 0x8000\<rparr>"

definition example_prep_env :: prep_env where
  "example_prep_env = \<lparr>p_atomic = False, p_shadow_wq = False, p_shadow_wq_min_sg = 0, p_precopy_available = False,
     p_wq_present = True\<rparr>"

lemma example_pools_ok: "mem_ok (refs_of (cleanup_chunks example_pools) + {#}) example_pools" "cleanup_chunks example_pools = []"
  using mem_init_ok [OF example_mem_start example_pools_ready] by (simp_all add: dw_edma_mem_init_def Let_def)

lemma example_prep:
  "\<exists>d m. dw_edma_device_prep_slave_sg example_prep_env example_edma_chan [(0x1000, 2)] 1 DMA_MEM_TO_DEV example_pools = (Some d, m) \<and>
     \<not> lazy_mode d"
  by (simp add: dw_edma_device_prep_slave_sg_def dw_edma_device_transfer_def example_edma_chan_def example_prep_env_def
      direction_ok_def dw_edma_alloc_desc_def dw_edma_alloc_desc_from_pool_def dw_edma_mem_init_def Let_def
      dw_edma_alloc_chunk_def dw_edma_alloc_chunk_for_chan_def kzalloc_def example_mem_def zero_desc_def zero_chunk_def
      dw_edma_alloc_burst_def dw_edma_alloc_burst_from_pool_def prep_bursts_def dw_edma_chan.defs
      prep_sg.simps last_chunk_def dw_edma_fill_sg_bursts_def set_last_chunk_def add_entry_def dw_edma_last_data_burst_def
      dw_edma_can_merge_sg_burst_def dw_edma_init_sg_burst_def grow_region_def)


end
