(* ===== verification/Dx_EdmaLli.thy ===== *)
theory Dx_EdmaLli
  imports Dx_EdmaSg
begin

unbundle bit_operations_syntax

text \<open>
  The descriptor table of the DMA engine: \<^verbatim>\<open>dw_edma_v0_gen_lli\<close>, \<^verbatim>\<open>dw_edma_v0_gen_llp\<close> and
  \<^verbatim>\<open>dw_edma_v0_core_write_chunk\<close> of \<^verbatim>\<open>pci_deepx/dw-edma-v0-core.c\<close>.  The bursts of a chunk are merged where
  they continue each other and written, one element of 24 bytes each, to the staging buffer of the channel,
  followed by the link element.  The end of the theory shows what a reader of the table finds there.
\<close>

section \<open>Elements\<close>

text \<open>The stores to the staging buffer; \<open>writeq\<close> is one store of 64 bits or two of 32, with the same bytes.\<close>

definition writeq :: "u64 \<Rightarrow> nat \<Rightarrow> mmio \<Rightarrow> mmio" where
  "writeq v a h = writel (ucast (drop_bit 32 v)) (a + 4) (writel (ucast v) a h)"

definition readq :: "mmio \<Rightarrow> nat \<Rightarrow> u64" where
  "readq h a = ucast (readl h a) OR push_bit 32 (ucast (readl h (a + 4)))"

abbreviation (input) DW_EDMA_V0_CB :: u32 where "DW_EDMA_V0_CB \<equiv> 1"
abbreviation (input) DW_EDMA_V0_TCB :: u32 where "DW_EDMA_V0_TCB \<equiv> 2"
abbreviation (input) DW_EDMA_V0_LLP :: u32 where "DW_EDMA_V0_LLP \<equiv> 4"
abbreviation (input) DW_EDMA_V0_LIE :: u32 where "DW_EDMA_V0_LIE \<equiv> 8"
abbreviation (input) DW_EDMA_V0_RIE :: u32 where "DW_EDMA_V0_RIE \<equiv> 16"

definition dw_edma_v0_gen_lli :: "nat \<Rightarrow> dw_edma_chunk \<Rightarrow> dw_edma_burst \<Rightarrow> nat \<Rightarrow> int \<Rightarrow> mmio \<Rightarrow> mmio" where
  "dw_edma_v0_gen_lli lli c b idx remain h =
     (let control = (if cb c then DW_EDMA_V0_CB else 0);
          control = (if remain = 0 then control OR (DW_EDMA_V0_LIE OR DW_EDMA_V0_RIE) else control);
          a = lli + 24 * idx
      in writeq (dar b) (a + 16) (writeq (sar b) (a + 8) (writel (b_sz b) (a + 4) (writel control a h))))"

definition dw_edma_v0_gen_llp :: "nat \<Rightarrow> dw_edma_chunk \<Rightarrow> mmio \<Rightarrow> mmio" where
  "dw_edma_v0_gen_llp llp c h =
     (let control = DW_EDMA_V0_LLP OR DW_EDMA_V0_TCB;
          control = (if \<not> cb c then control OR DW_EDMA_V0_CB else control)
      in writeq (r_paddr (ll_region c)) (llp + 8) (writel control llp h))"

section \<open>The table\<close>

text \<open>The burst \<open>p\<close> takes over its successors as long as they continue it on the host's side.\<close>

definition continues :: "dw_edma_dir \<Rightarrow> dw_edma_burst \<Rightarrow> dw_edma_burst \<Rightarrow> bool" where
  "continues dir p c \<longleftrightarrow>
     (if dir = EDMA_DIR_WRITE then dar c = dar p + ucast (b_sz p) else sar c = sar p + ucast (b_sz p))"

fun merge_bursts :: "dw_edma_dir \<Rightarrow> ref \<Rightarrow> ref list \<Rightarrow> edma_mem \<Rightarrow> ref list \<times> edma_mem" where
  "merge_bursts dir p [] m = ([p], m)"
| "merge_bursts dir p (c # cs) m =
     (if continues dir (bursts m p) (bursts m c)
      then merge_bursts dir p cs
             (dw_edma_free_single_burst c
                (m\<lparr>bursts := (bursts m)(p := (bursts m p)\<lparr>b_sz := b_sz (bursts m p) + b_sz (bursts m c)\<rparr>)\<rparr>))
      else case merge_bursts dir c cs m of (bs, m1) \<Rightarrow> (p # bs, m1))"

fun gen_loop :: "nat \<Rightarrow> dw_edma_chunk \<Rightarrow> dw_edma_burst list \<Rightarrow> nat \<Rightarrow> int \<Rightarrow> mmio \<Rightarrow> nat \<times> mmio" where
  "gen_loop lli c [] i j h = (i, h)"
| "gen_loop lli c (b # bs) i j h = gen_loop lli c bs (Suc i) (j - 1) (dw_edma_v0_gen_lli lli c b i (j - 1) h)"

definition dw_edma_v0_core_write_chunk ::
  "dw_edma_dir \<Rightarrow> dw_edma_chunk \<Rightarrow> edma_mem \<Rightarrow> mmio \<Rightarrow> int \<times> dw_edma_chunk \<times> edma_mem \<times> mmio" where
  "dw_edma_v0_core_write_chunk dir c m h =
     (if r_vaddr (ll_region c) = None then (- EINVAL, c, m, h)
      else if burst c = None then (- EINVAL, c, m, h)
      else case burst_list c of
        [] \<Rightarrow> (- EINVAL, c, m, h)
      | p # rest \<Rightarrow>
          (case merge_bursts dir p rest m of (bs, m1) \<Rightarrow>
             let c1 = c\<lparr>burst_list := bs, bursts_alloc := bursts_alloc c - (length (burst_list c) - length bs)\<rparr>;
                 lli = (case r_vaddr (host_region c) of Some a \<Rightarrow> a | None \<Rightarrow> 0)
             in case gen_loop lli c1 (map (bursts m1) bs) 0 (int (bursts_alloc c1)) h of
                  (i, h1) \<Rightarrow> (0, c1, m1, dw_edma_v0_gen_llp (lli + 24 * i) c1 h1)))"

section \<open>What the bursts say\<close>

type_synonym burst_data = "u64 \<times> u64 \<times> u32"

definition burst_data :: "dw_edma_burst \<Rightarrow> burst_data" where
  "burst_data b = (sar b, dar b, b_sz b)"

definition chunk_data :: "edma_mem \<Rightarrow> dw_edma_chunk \<Rightarrow> burst_data list" where
  "chunk_data m c = map (\<lambda>r. burst_data (bursts m r)) (burst_list c)"

definition data_moves :: "burst_data \<Rightarrow> (u64 \<times> u64) list" where
  "data_moves = (\<lambda>(s, d, n). map (\<lambda>i. (s + of_nat i, d + of_nat i)) [0..<unat n])"

definition data_len :: "burst_data list \<Rightarrow> nat" where
  "data_len bs = sum_list (map (\<lambda>(s, d, n). unat n) bs)"

lemma data_len_simps [simp]:
  "data_len [] = 0" "data_len ((s, d, n) # bs) = unat n + data_len bs" "data_len (xs @ ys) = data_len xs + data_len ys"
  by (simp_all add: data_len_def)

lemma chunk_moves_data: "chunk_moves m c = concat (map data_moves (chunk_data m c))"
  by (simp add: chunk_moves_def chunk_data_def data_moves_def burst_data_def burst_moves_def comp_def)

lemma data_moves_len: "length (concat (map data_moves bs)) = data_len bs"
  by (induction bs) (auto simp: data_moves_def)

text \<open>The device's side of the bursts is one range, from \<open>s\<close> up to \<open>e\<close>.\<close>

fun linear :: "dw_edma_dir \<Rightarrow> u64 \<Rightarrow> burst_data list \<Rightarrow> u64 \<Rightarrow> bool" where
  "linear dir a [] e \<longleftrightarrow> a = e"
| "linear dir a ((s, d, n) # bs) e \<longleftrightarrow> (if dir = EDMA_DIR_WRITE then s else d) = a \<and> linear dir (a + ucast n) bs e"

lemma linear_append: "linear dir a (xs @ ys) e \<longleftrightarrow> (\<exists>t. linear dir a xs t \<and> linear dir t ys e)"
  by (induction xs arbitrary: a) (auto, blast+)

text \<open>The merge, on what the bursts say.\<close>

fun merge_data :: "dw_edma_dir \<Rightarrow> burst_data \<Rightarrow> burst_data list \<Rightarrow> burst_data list" where
  "merge_data dir p [] = [p]"
| "merge_data dir (s, d, n) ((t, e, k) # bs) =
     (if (if dir = EDMA_DIR_WRITE then e = d + ucast n else t = s + ucast n) then merge_data dir (s, d, n + k) bs
      else (s, d, n) # merge_data dir (t, e, k) bs)"

lemma upt_split: "[0..<a + b] = [0..<a] @ map (\<lambda>i. a + i) [0..<b]"
  unfolding upt_add_eq_append [OF le0] by (simp add: map_add_upt add.commute)

lemma data_moves_join:
  assumes "unat n + unat k < 2 ^ 32"
  shows "data_moves (s, d, n + k) = data_moves (s, d, n) @ data_moves (s + ucast n, d + ucast n, k)"
proof -
  have "unat (n + k) = unat n + unat k" using assms by (simp add: unat_word_ariths)
  then show ?thesis by (simp add: data_moves_def upt_split add.assoc)
qed

lemma ucast_sum: "unat n + unat k < 2 ^ 32 \<Longrightarrow> ucast (n + k :: u32) = (ucast n + ucast k :: u64)"
proof -
  assume "unat n + unat k < 2 ^ 32"
  then have "of_nat (unat (n + k)) = (of_nat (unat n + unat k) :: u64)" by (simp add: unat_word_ariths)
  then show ?thesis by simp
qed

lemma merge_data_moves:
  "linear dir a (p # bs) z \<Longrightarrow> data_len (p # bs) < 2 ^ 32 \<Longrightarrow>
    concat (map data_moves (merge_data dir p bs)) = concat (map data_moves (p # bs)) \<and> linear dir a (merge_data dir p bs) z"
proof (induction dir p bs arbitrary: a rule: merge_data.induct)
  case (2 dir s d n t e k bs)
  have sm: "unat n + unat k < 2 ^ 32" using "2.prems"(2) by simp
  show ?case
  proof (cases "if dir = EDMA_DIR_WRITE then e = d + ucast n else t = s + ucast n")
    case True
    then have te: "t = s + ucast n" "e = d + ucast n" using "2.prems"(1) by (auto split: if_splits)
    have "linear dir a ((s, d, n + k) # bs) z" "data_len ((s, d, n + k) # bs) < 2 ^ 32"
      using "2.prems" sm by (auto simp: ucast_sum add.assoc unat_word_ariths split: if_splits)
    then show ?thesis using "2.IH"(1) [OF True] True data_moves_join [OF sm] te by simp
  next
    case False
    have "linear dir (a + ucast n) ((t, e, k) # bs) z" "data_len ((t, e, k) # bs) < 2 ^ 32"
      using "2.prems" by simp_all
    then show ?thesis using "2.IH"(2) [OF False] False "2.prems"(1) by (auto split: if_splits)
  qed
qed simp

section \<open>The merged chunk\<close>

lemma burst_data_frame [simp]:
  "burst_data (b\<lparr>from_pool := x\<rparr>) = burst_data b"
  "burst_data (bursts (fix_from_pool b' m) r) = burst_data (bursts m r)"
  "burst_data (bursts (dw_edma_free_single_burst b' m) r) = burst_data (bursts m r)"
  by (auto simp: burst_data_def fix_from_pool_def dw_edma_free_single_burst_def Let_def push_free_def)

lemma merge_data_step:
  "merge_data dir (burst_data p) (burst_data c # bs) =
     (if continues dir p c then merge_data dir (sar p, dar p, b_sz p + b_sz c) bs else burst_data p # merge_data dir (burst_data c) bs)"
  by (simp add: burst_data_def continues_def)

lemma merge_bursts_data:
  "distinct (p # cs) \<Longrightarrow> merge_bursts dir p cs m = (bs, m1) \<Longrightarrow>
    map (\<lambda>r. burst_data (bursts m1 r)) bs =
      merge_data dir (burst_data (bursts m p)) (map (\<lambda>r. burst_data (bursts m r)) cs) \<and>
    set bs \<subseteq> set (p # cs) \<and> (\<forall>r. r \<notin> set (p # cs) \<longrightarrow> burst_data (bursts m1 r) = burst_data (bursts m r)) \<and>
    bs \<noteq> [] \<and> length bs \<le> length (p # cs)"
proof (induction dir p cs m arbitrary: bs m1 rule: merge_bursts.induct)
  case (2 dir p c cs m)
  let ?vp = "bursts m p" and ?vc = "bursts m c"
  show ?case
  proof (cases "continues dir ?vp ?vc")
    case True
    define m0 where "m0 = dw_edma_free_single_burst c (m\<lparr>bursts := (bursts m)(p := ?vp\<lparr>b_sz := b_sz ?vp + b_sz ?vc\<rparr>)\<rparr>)"
    have m0: "burst_data (bursts m0 r) = (if r = p then (sar ?vp, dar ?vp, b_sz ?vp + b_sz ?vc) else burst_data (bursts m r))" for r
      by (simp add: m0_def) (simp add: burst_data_def)
    have "merge_bursts dir p cs m0 = (bs, m1)" using "2.prems"(2) True by (simp add: m0_def Let_def)
    then have ih: "map (\<lambda>r. burst_data (bursts m1 r)) bs =
          merge_data dir (burst_data (bursts m0 p)) (map (\<lambda>r. burst_data (bursts m0 r)) cs)"
        "set bs \<subseteq> set (p # cs)" "\<forall>r. r \<notin> set (p # cs) \<longrightarrow> burst_data (bursts m1 r) = burst_data (bursts m0 r)"
        "bs \<noteq> []" "length bs \<le> length (p # cs)"
      using "2.IH"(1) [OF True, of bs m1] "2.prems"(1) by (auto simp: m0_def)
    have e: "map (\<lambda>r. burst_data (bursts m0 r)) cs = map (\<lambda>r. burst_data (bursts m r)) cs"
      using "2.prems"(1) m0 by auto
    have "\<forall>r. r \<notin> set (p # c # cs) \<longrightarrow> burst_data (bursts m1 r) = burst_data (bursts m r)" using ih(3) m0 by simp
    then show ?thesis using ih(1) [unfolded e] ih(2,4,5) m0 [of p] True by (auto simp: merge_data_step)
  next
    case False
    obtain bs1 m2 where r: "merge_bursts dir c cs m = (bs1, m2)" by fastforce
    then have e: "bs = p # bs1" "m1 = m2" using "2.prems"(2) False by (simp_all add: Let_def)
    have ih: "map (\<lambda>r. burst_data (bursts m2 r)) bs1 =
          merge_data dir (burst_data ?vc) (map (\<lambda>r. burst_data (bursts m r)) cs)"
        "set bs1 \<subseteq> set (c # cs)" "\<forall>r. r \<notin> set (c # cs) \<longrightarrow> burst_data (bursts m2 r) = burst_data (bursts m r)"
        "bs1 \<noteq> []" "length bs1 \<le> length (c # cs)"
      using "2.IH"(2) [OF False, of bs1 m2] "2.prems"(1) r by auto
    have "burst_data (bursts m2 p) = burst_data ?vp" using ih(3) "2.prems"(1) by simp
    then show ?thesis using ih False e by (auto simp: merge_data_step)
  qed
qed auto

lemma merge_bursts_ok:
  "mem_ok (mset (p # cs) + U) m \<Longrightarrow> \<forall>b \<in> set (p # cs). is_burst b \<Longrightarrow> merge_bursts dir p cs m = (bs, m1) \<Longrightarrow>
    mem_ok (mset bs + U) m1 \<and> cleanup_chunks m1 = cleanup_chunks m"
proof (induction dir p cs m arbitrary: bs m1 U rule: merge_bursts.induct)
  case (2 dir p c cs m)
  let ?vp = "bursts m p" and ?vc = "bursts m c"
  show ?case
  proof (cases "continues dir ?vp ?vc")
    case True
    define m0 where "m0 = m\<lparr>bursts := (bursts m)(p := ?vp\<lparr>b_sz := b_sz ?vp + b_sz ?vc\<rparr>)\<rparr>"
    have "mem_ok (add_mset c (mset (p # cs) + U)) m0" using "2.prems"(1) by (simp add: m0_def add_mset_commute)
    then have "mem_ok (mset (p # cs) + U) (dw_edma_free_single_burst c m0)"
      using free_single_burst_ok "2.prems"(2) by simp
    moreover have "merge_bursts dir p cs (dw_edma_free_single_burst c m0) = (bs, m1)"
      using "2.prems"(3) True by (simp add: m0_def Let_def)
    ultimately have "mem_ok (mset bs + U) m1 \<and> cleanup_chunks m1 = cleanup_chunks (dw_edma_free_single_burst c m0)"
      using "2.IH"(1) [OF True, of U bs m1] "2.prems"(2) by (simp add: m0_def)
    then show ?thesis by (simp add: m0_def)
  next
    case False
    obtain bs1 m2 where r: "merge_bursts dir c cs m = (bs1, m2)" by fastforce
    then have e: "bs = p # bs1" "m1 = m2" using "2.prems"(3) False by (simp_all add: Let_def)
    have "mem_ok (mset (c # cs) + add_mset p U) m" using "2.prems"(1) by (simp add: add_mset_commute)
    then have "mem_ok (mset bs1 + add_mset p U) m2 \<and> cleanup_chunks m2 = cleanup_chunks m"
      using "2.IH"(2) [OF False, of "add_mset p U" bs1 m2] "2.prems"(2) r by simp
    then show ?thesis using e by simp
  qed
qed auto

section \<open>Reading the table\<close>

definition lli_at :: "mmio \<Rightarrow> nat \<Rightarrow> u32 \<times> burst_data" where
  "lli_at h a = (readl h a, readq h (a + 8), readq h (a + 16), readl h (a + 4))"

lemma join_word64: "ucast (ucast v :: u32) OR push_bit 32 (ucast (ucast (drop_bit 32 v) :: u32)) = (v :: u64)"
  by (rule bit_word_eqI) (auto simp: bit_or_iff bit_ucast_iff bit_push_bit_iff bit_drop_bit_eq not_less)

lemma readq_writeq [simp]: "readq (writeq v a h) a = v"
  by (simp add: readq_def writeq_def readl_writel_other join_word64)

lemma read_writeq_other [simp]:
  "b + 4 \<le> a \<or> a + 8 \<le> b \<Longrightarrow> readl (writeq v a h) b = readl h b"
  "b + 8 \<le> a \<or> a + 8 \<le> b \<Longrightarrow> readq (writeq v a h) b = readq h b"
  "b + 8 \<le> a \<or> a + 4 \<le> b \<Longrightarrow> readq (writel w a h) b = readq h b"
  "x < a \<or> a + 8 \<le> x \<Longrightarrow> writeq v a h x = h x"
  by (auto simp: writeq_def readq_def readl_writel_other writel_other)

lemma readl_moved:
  assumes "\<And>i. i < 4 \<Longrightarrow> h (a + i) = h' (b + i)"
  shows "readl h a = readl h' b"
  using assms [of 0] assms [of 1] assms [of 2] assms [of 3] by (simp add: readl_def)

lemma lli_at_cong:
  assumes "\<And>i. i < 24 \<Longrightarrow> h (a + i) = h' (b + i)"
  shows "lli_at h a = lli_at h' b"
proof -
  have r: "readl h (a + k) = readl h' (b + k)" if "k + 4 \<le> 24" for k
    by (rule readl_moved) (use that assms [of "k + _"] in \<open>simp add: add.assoc\<close>)
  show ?thesis using r [of 0] r [of 4] r [of 8] r [of 12] r [of 16] r [of 20] by (simp add: lli_at_def readq_def add.assoc)
qed

definition lli_control :: "bool \<Rightarrow> bool \<Rightarrow> u32" where
  "lli_control cycle final = (if cycle then 1 else 0) OR (if final then 24 else 0)"

lemma gen_lli_at: "lli_at (dw_edma_v0_gen_lli lli c b idx remain h) (lli + 24 * idx) = (lli_control (cb c) (remain = 0), burst_data b)"
  by (simp add: lli_at_def dw_edma_v0_gen_lli_def Let_def burst_data_def readl_writel_other lli_control_def)

lemma gen_lli_other:
  "x < lli + 24 * idx \<or> lli + 24 * Suc idx \<le> x \<Longrightarrow> dw_edma_v0_gen_lli lli c b idx remain h x = h x"
  by (auto simp: dw_edma_v0_gen_lli_def Let_def writel_other)

lemma gen_loop_table:
  "gen_loop lli c bs i j h = (i1, h1) \<Longrightarrow>
    i1 = i + length bs \<and> (\<forall>x. x < lli + 24 * i \<or> lli + 24 * i1 \<le> x \<longrightarrow> h1 x = h x) \<and>
    (\<forall>k < length bs. lli_at h1 (lli + 24 * (i + k)) = (lli_control (cb c) (j = int (Suc k)), burst_data (bs ! k)))"
proof (induction lli c bs i j h rule: gen_loop.induct)
  case (2 lli c b bs i j h)
  let ?h = "dw_edma_v0_gen_lli lli c b i (j - 1) h"
  have "gen_loop lli c bs (Suc i) (j - 1) ?h = (i1, h1)" using "2.prems" by simp
  note hyp = "2.IH" [OF this]
  have ih: "i1 = Suc i + length bs" "\<And>x. x < lli + 24 * Suc i \<or> lli + 24 * i1 \<le> x \<Longrightarrow> h1 x = ?h x"
      "\<And>k. k < length bs \<Longrightarrow> lli_at h1 (lli + 24 * (Suc i + k)) = (lli_control (cb c) (j - 1 = int (Suc k)), burst_data (bs ! k))"
    using hyp by blast+
  have "lli_at h1 (lli + 24 * i) = lli_at ?h (lli + 24 * i)" by (rule lli_at_cong) (rule ih(2), simp)
  then have first: "lli_at h1 (lli + 24 * i) = (lli_control (cb c) (j = 1), burst_data b)"
    by (simp only: gen_lli_at) (simp add: algebra_simps)
  have "lli_at h1 (lli + 24 * (i + k)) = (lli_control (cb c) (j = int (Suc k)), burst_data ((b # bs) ! k))" if k: "k < length (b # bs)" for k
  proof (cases k)
    case (Suc k')
    have "(j - 1 = int (Suc k')) = (j = int (Suc (Suc k')))" by auto
    then show ?thesis using ih(3) [of k'] k Suc by simp
  qed (use first in simp)
  moreover have "h1 x = h x" if "x < lli + 24 * i \<or> lli + 24 * i1 \<le> x" for x
    using ih(1) ih(2) [of x] that gen_lli_other [of x lli i] by auto
  ultimately show ?case using ih(1) by simp
qed simp

text \<open>
  The consumer of a table starts at \<open>a\<close> with the cycle bit \<open>ccs\<close> and takes the elements that carry its cycle
  bit, up to the link element or one that belongs to the producer; \<open>n\<close> bounds the walk.
\<close>

fun walk :: "nat \<Rightarrow> mmio \<Rightarrow> nat \<Rightarrow> bool \<Rightarrow> (u32 \<times> burst_data) list" where
  "walk 0 h a ccs = []"
| "walk (Suc n) h a ccs =
     (if bit (fst (lli_at h a)) 0 \<noteq> ccs \<or> bit (fst (lli_at h a)) 2 then [] else lli_at h a # walk n h (a + 24) ccs)"

lemma lli_control_bits:
  "bit (lli_control cycle final) 0 = cycle" "\<not> bit (lli_control cycle final) 2"
  "bit (lli_control cycle final) 3 = final" "bit (lli_control cycle final) 4 = final"
  by (cases cycle; cases final; simp add: lli_control_def bit_simps)+

lemma walk_table:
  assumes "\<And>k. k < length es \<Longrightarrow> lli_at h (a + 24 * k) = es ! k \<and> bit (fst (es ! k)) 0 = ccs \<and> \<not> bit (fst (es ! k)) 2"
    and "bit (fst (lli_at h (a + 24 * length es))) 2" "length es < n"
  shows "walk n h a ccs = es"
  using assms
proof (induction es arbitrary: a n)
  case Nil
  then show ?case by (cases n) auto
next
  case (Cons e es)
  obtain n' where n: "n = Suc n'" using Cons.prems(3) by (cases n) auto
  have "walk n' h (a + 24) ccs = es"
    using Cons.IH [of "a + 24" n'] Cons.prems(1) [of "Suc _"] Cons.prems(2,3) n by (auto simp: add.assoc)
  then show ?case using n Cons.prems(1) [of 0] by simp
qed

text \<open>
  The table of a chunk whose bursts lie in one range of the device: what a consumer takes from the
  table, or from a copy of its \<open>bursts_alloc + 1\<close> elements anywhere else, moves the bytes of the chunk, the last
  element and no other raises the interrupts, and only the table has been written.
\<close>

definition table_of :: "dw_edma_chunk \<Rightarrow> edma_mem \<Rightarrow> nat \<Rightarrow> mmio \<Rightarrow> bool" where
  "table_of c m a h \<longleftrightarrow> (\<forall>h2 a2 n. (\<forall>i < 24 * (bursts_alloc c + 1). h2 (a2 + i) = h (a + i)) \<and> bursts_alloc c < n \<longrightarrow>
     walk n h2 a2 (cb c) = map2 (\<lambda>k d. (lli_control (cb c) (Suc k = bursts_alloc c), d)) [0..<bursts_alloc c] (chunk_data m c))"

lemma gen_llp_link: "bit (fst (lli_at (dw_edma_v0_gen_llp llp c h) llp)) 2"
  by (simp add: lli_at_def dw_edma_v0_gen_llp_def Let_def bit_simps)

lemma gen_llp_other: "x < llp \<or> llp + 16 \<le> x \<Longrightarrow> dw_edma_v0_gen_llp llp c h x = h x"
  by (auto simp: dw_edma_v0_gen_llp_def Let_def writel_other)

lemma table_written:
  assumes "gen_loop a c bs 0 (int (bursts_alloc c)) h = (i, h1)" "h2 = dw_edma_v0_gen_llp (a + 24 * i) c h1"
    and "map burst_data bs = chunk_data m c" "bursts_alloc c = length bs"
  shows "table_of c m a h2" "x < a \<or> a + 24 * bursts_alloc c + 16 \<le> x \<Longrightarrow> h2 x = h x"
proof -
  note g = gen_loop_table [OF assms(1)]
  have i: "i = length bs" using g by simp
  have len: "length (chunk_data m c) = length bs" using assms(3) by (metis length_map)
  let ?es = "map2 (\<lambda>k d. (lli_control (cb c) (Suc k = bursts_alloc c), d)) [0..<bursts_alloc c] (chunk_data m c)"
  have at: "lli_at h2 (a + 24 * k) = ?es ! k" if "k < length bs" for k
  proof -
    have "lli_at h2 (a + 24 * k) = lli_at h1 (a + 24 * k)"
      by (rule lli_at_cong) (use assms(2) i that gen_llp_other in auto)
    moreover have "burst_data (bs ! k) = chunk_data m c ! k" using assms(3) that by (metis nth_map)
    moreover have "(int (bursts_alloc c) = int (Suc k)) = (Suc k = bursts_alloc c)" by auto
    ultimately show ?thesis using g that len assms(4) by simp
  qed
  show "table_of c m a h2"
    unfolding table_of_def
  proof (intro allI impI, elim conjE)
    fix h3 a3 n
    assume eq: "\<forall>i < 24 * (bursts_alloc c + 1). h3 (a3 + i) = h2 (a + i)" and n: "bursts_alloc c < n"
    have mv: "lli_at h3 (a3 + 24 * k) = lli_at h2 (a + 24 * k)" if "k \<le> length bs" for k
      by (rule lli_at_cong) (use eq assms(4) that in \<open>auto simp: add.assoc\<close>)
    show "walk n h3 a3 (cb c) = ?es"
      by (rule walk_table) (use mv at n len assms(2,4) i gen_llp_link in \<open>auto simp: lli_control_bits\<close>)
  qed
  show "h2 x = h x" if "x < a \<or> a + 24 * bursts_alloc c + 16 \<le> x"
    using that g assms(2,4) i gen_llp_other [of x "a + 24 * i"] by auto
qed

lemma write_chunk_ok:
  assumes "mem_ok (chunk_bursts c + U) m" "chunk_ok c" "burst_list c \<noteq> []" "r_vaddr (ll_region c) \<noteq> None"
    and "r_vaddr (host_region c) = Some a" "linear dir s (chunk_data m c) e" "data_len (chunk_data m c) < 2 ^ 32"
    and "dw_edma_v0_core_write_chunk dir c m h = (r, c1, m1, h1)"
  shows "r = 0" "mem_ok (chunk_bursts c1 + U) m1" "chunk_ok c1" "cleanup_chunks m1 = cleanup_chunks m" "burst_list c1 \<noteq> []"
    "c1 = c\<lparr>burst_list := burst_list c1, bursts_alloc := bursts_alloc c1\<rparr>" "bursts_alloc c1 \<le> bursts_alloc c"
    "chunk_moves m1 c1 = chunk_moves m c" "table_of c1 m1 a h1"
    "\<And>x. x < a \<or> a + 24 * bursts_alloc c1 + 16 \<le> x \<Longrightarrow> h1 x = h x"
proof -
  obtain p rest where pr: "burst_list c = p # rest" using assms(3) by (cases "burst_list c") auto
  obtain hd where hd: "burst c = Some hd" using assms(2) pr by (auto simp: chunk_ok_def)
  obtain bs m2 where mg: "merge_bursts dir p rest m = (bs, m2)" by fastforce
  define c2 where "c2 = c\<lparr>burst_list := bs, bursts_alloc := bursts_alloc c - (length (burst_list c) - length bs)\<rparr>"
  obtain i h2 where gl: "gen_loop a c2 (map (bursts m2) bs) 0 (int (bursts_alloc c2)) h = (i, h2)" by fastforce
  obtain v where v: "r_vaddr (ll_region c) = Some v" using assms(4) by blast
  have e: "r = 0" "c1 = c2" "m1 = m2" "h1 = dw_edma_v0_gen_llp (a + 24 * i) c2 h2"
    using v assms(5,8) hd pr mg gl by (auto simp: dw_edma_v0_core_write_chunk_def c2_def Let_def split: prod.splits)
  have d: "distinct (p # rest)" using burst_list_distinct [OF assms(1)] hd pr by simp
  note md = merge_bursts_data [OF d mg]
  have alloc: "bursts_alloc c2 = length bs" using assms(2) md pr by (simp add: c2_def chunk_ok_def)
  have b: "\<forall>x \<in> set (p # rest). is_burst x" using assms(2) pr hd by (auto simp: chunk_ok_def chunk_bursts_def)
  have "mem_ok (mset (p # rest) + add_mset hd U) m" using assms(1) hd pr by (simp add: chunk_bursts_def)
  note mo = merge_bursts_ok [OF this b mg]
  show "r = 0" "burst_list c1 \<noteq> []" "bursts_alloc c1 \<le> bursts_alloc c" "cleanup_chunks m1 = cleanup_chunks m"
    using e md mo alloc assms(2) pr by (simp_all add: c2_def chunk_ok_def)
  show "mem_ok (chunk_bursts c1 + U) m1" using mo e hd by (simp add: c2_def chunk_bursts_def)
  show "chunk_ok c1" using assms(2) md b e alloc hd pr by (auto simp: c2_def chunk_ok_def chunk_bursts_def)
  show "c1 = c\<lparr>burst_list := burst_list c1, bursts_alloc := bursts_alloc c1\<rparr>" by (simp add: e(2) c2_def)
  have cd: "chunk_data m2 c2 = merge_data dir (burst_data (bursts m p)) (map (\<lambda>r. burst_data (bursts m r)) rest)"
    using md by (simp add: chunk_data_def c2_def)
  show "chunk_moves m1 c1 = chunk_moves m c"
    using merge_data_moves [of dir s "burst_data (bursts m p)" "map (\<lambda>r. burst_data (bursts m r)) rest" e] assms(6,7) pr
    by (simp add: chunk_moves_data e cd) (simp add: chunk_data_def)
  have "map burst_data (map (bursts m2) bs) = chunk_data m2 c2" by (simp add: chunk_data_def c2_def)
  note tw = table_written [OF gl e(4) this] 
  show "table_of c1 m1 a h1" using tw(1) alloc e by simp
  show "h1 x = h x" if "x < a \<or> a + 24 * bursts_alloc c1 + 16 \<le> x" for x using tw(2) alloc e that by simp
qed

section \<open>Prepared chunks lie in one range\<close>

lemma init_data:
  assumes "burst_list c = bl @ [b]" "b \<notin> set bl" "\<forall>r \<in> set bl. burst_data (bursts (f_mem s) r) = burst_data (bursts m r)"
    and "c = (if linked then f_chunk s else (f_chunk s)\<lparr>burst_list := burst_list (f_chunk s) @ [b],
      bursts_alloc := bursts_alloc (f_chunk s) + 1\<rparr>)"
    and "t = dw_edma_init_sg_burst dir b host dev len linked s"
  shows "chunk_data (f_mem t) (f_chunk t) =
    map (\<lambda>r. burst_data (bursts m r)) bl @ [if dir = EDMA_DIR_WRITE then (dev, host, len) else (host, dev, len)]"
proof -
  have "burst_list (f_chunk t) = bl @ [b]" using assms(1,4,5) by (simp add: dw_edma_init_sg_burst_def Let_def)
  moreover have "bursts (f_mem t) r = bursts (f_mem s) r" if "r \<in> set bl" for r
    using that assms(2,5) by (auto simp: dw_edma_init_sg_burst_def Let_def)
  moreover have "burst_data (bursts (f_mem t) b) = (if dir = EDMA_DIR_WRITE then (dev, host, len) else (host, dev, len))"
    using assms(5) by (simp add: dw_edma_init_sg_burst_def Let_def burst_data_def)
  ultimately show ?thesis using assms(3) by (auto simp: chunk_data_def)
qed

lemma add_entry_data:
  assumes "fill_ok U s" "add_entry dir atomic host len s = (added, t)"
  shows "(\<exists>bs l. added \<and> dw_edma_can_merge_sg_burst dir (Some l) host (f_addr s) len \<and>
      chunk_data (f_mem s) (f_chunk s) = bs @ [burst_data l] \<and>
      chunk_data (f_mem t) (f_chunk t) = bs @ [burst_data (l\<lparr>b_sz := b_sz l + len\<rparr>)]) \<or>
    added \<and> chunk_data (f_mem t) (f_chunk t) = chunk_data (f_mem s) (f_chunk s) @
      [if dir = EDMA_DIR_WRITE then (f_addr s, host, len) else (host, f_addr s, len)] \<or>
    \<not> added \<and> chunk_data (f_mem t) (f_chunk t) = chunk_data (f_mem s) (f_chunk s)"
proof -
  let ?c = "f_chunk s" and ?m = "f_mem s"
  define lst where "lst = dw_edma_last_data_burst ?c"
  have ok: "mem_ok (chunk_bursts ?c + (mset (f_batch s) + U)) ?m" "burst ?c \<noteq> None" "chunk_ok ?c"
    using assms(1) by (simp_all add: fill_ok_def ac_simps)
  have dist: "distinct (burst_list ?c)" using burst_list_distinct [OF ok(1,2)] .
  consider (extend) "dw_edma_can_merge_sg_burst dir (map_option (bursts ?m) lst) host (f_addr s) len"
    | (batch) b bs where "\<not> dw_edma_can_merge_sg_burst dir (map_option (bursts ?m) lst) host (f_addr s) len" "f_batch s = b # bs"
    | (alloc) "\<not> dw_edma_can_merge_sg_burst dir (map_option (bursts ?m) lst) host (f_addr s) len" "f_batch s = []"
    by (cases "f_batch s") blast+
  then show ?thesis
  proof cases
    case extend
    then obtain b where b: "lst = Some b" by (cases lst) (auto simp: dw_edma_can_merge_sg_burst_def)
    then have bl: "burst_list ?c = butlast (burst_list ?c) @ [b]"
      by (auto simp: lst_def dw_edma_last_data_burst_def split: if_splits)
    then have nb: "b \<notin> set (butlast (burst_list ?c))" using dist by (metis distinct_append distinct.simps(2) disjoint_iff list.set_intros(1))
    have t: "added" "t = dw_edma_extend_sg_burst b len s" using assms(2) extend b by (auto simp: add_entry_def Let_def lst_def)
    let ?l = "bursts ?m b" and ?bs = "map (\<lambda>r. burst_data (bursts ?m r)) (butlast (burst_list ?c))"
    have "chunk_data ?m ?c = ?bs @ [burst_data ?l]" by (subst (1) chunk_data_def, subst (1) bl) simp
    moreover have "burst_list (f_chunk t) = butlast (burst_list ?c) @ [b]"
        "bursts (f_mem t) = (bursts ?m)(b := ?l\<lparr>b_sz := b_sz ?l + len\<rparr>)"
      using t(2) bl by (simp_all add: dw_edma_extend_sg_burst_def Let_def)
    then have "chunk_data (f_mem t) (f_chunk t) = ?bs @ [burst_data (?l\<lparr>b_sz := b_sz ?l + len\<rparr>)]"
      using nb by (auto simp: chunk_data_def)
    ultimately show ?thesis using t(1) extend b by auto
  next
    case (batch b bs)
    have t: "added" "t = dw_edma_init_sg_burst dir b host (f_addr s) len False (s\<lparr>f_batch := bs\<rparr>)"
      using assms(2) batch by (auto simp: add_entry_def Let_def lst_def)
    have "b \<in># mset (f_batch s) + U" using batch(2) by simp
    then have "count (chunk_bursts ?c) b + count (mset (f_batch s) + U) b = 1" "0 < count (mset (f_batch s) + U) b"
      using mem_ok_in_use(4) [OF ok(1), of b] by auto
    then have "count (chunk_bursts ?c) b = 0" by linarith
    then have "b \<notin># chunk_bursts ?c" by (simp add: count_eq_zero_iff)
    then have nb: "b \<notin> set (burst_list ?c)" using ok(2) by (auto simp: chunk_bursts_def)
    then show ?thesis using t(1) init_data [OF _ nb _ refl t(2), of ?m] by (simp add: chunk_data_def)
  next
    case alloc
    obtain r c1 m1 where a: "dw_edma_alloc_burst atomic ?c ?m = (r, c1, m1)" by (metis prod_cases3)
    note cases = alloc_burst_cases [OF ok(1) a]
    show ?thesis
    proof (cases r)
      case None
      then have "\<not> added" "t = s\<lparr>f_chunk := c1, f_mem := m1\<rparr>" "c1 = ?c" "bursts m1 = bursts ?m"
        using assms(2) alloc a cases by (auto simp: add_entry_def Let_def lst_def)
      then show ?thesis by (simp add: chunk_data_def)
    next
      case (Some b)
      have t: "added" "t = dw_edma_init_sg_burst dir b host (f_addr s) len True (s\<lparr>f_chunk := c1, f_mem := m1\<rparr>)"
        using assms(2) alloc a Some by (auto simp: add_entry_def Let_def lst_def)
      have c1: "c1 = ?c\<lparr>bursts_alloc := bursts_alloc ?c + 1, burst_list := burst_list ?c @ [b]\<rparr>"
          "b \<notin># chunk_bursts ?c + (mset (f_batch s) + U)" "\<forall>x. x \<noteq> b \<longrightarrow> bursts m1 x = bursts ?m x"
        using cases Some ok(2) by auto
      have nb: "b \<notin> set (burst_list ?c)" using c1(2) ok(2) by (auto simp: chunk_bursts_def)
      then have "\<forall>r \<in> set (burst_list ?c). burst_data (bursts m1 r) = burst_data (bursts ?m r)" using c1(3) by metis
      then show ?thesis using t(1) c1(1) init_data [OF _ nb _ _ t(2), of c1 ?m] by (simp add: chunk_data_def)
    qed
  qed
qed

lemma merge_room: "dw_edma_can_merge_sg_burst dir (Some l) host dev len \<Longrightarrow> unat (b_sz l) + unat len < 2 ^ 32"
proof -
  assume "dw_edma_can_merge_sg_burst dir (Some l) host dev len"
  then have m: "\<not> U32_MAX - b_sz l < len" by (auto simp: dw_edma_can_merge_sg_burst_def Let_def split: if_splits)
  have "unat (U32_MAX - b_sz l) = 4294967295 - unat (b_sz l)"
    by (subst unat_sub) (simp_all add: word_order.extremum unsigned_minus_1_eq_mask mask_eq_exp_minus_1)
  moreover have "unat (b_sz l) < 2 ^ LENGTH(32)" by (rule unsigned_less)
  ultimately show ?thesis using m by (simp add: word_less_nat_alt)
qed

lemma add_entry_linear:
  assumes "fill_ok U s" "add_entry dir atomic host len s = (added, t)" "linear dir a (chunk_data (f_mem s) (f_chunk s)) (f_addr s)"
  shows "linear dir a (chunk_data (f_mem t) (f_chunk t)) (if added then f_addr s + ucast len else f_addr s)"
    "data_len (chunk_data (f_mem t) (f_chunk t)) = data_len (chunk_data (f_mem s) (f_chunk s)) + (if added then unat len else 0)"
proof -
  consider (extend) bs l where "added" "dw_edma_can_merge_sg_burst dir (Some l) host (f_addr s) len"
      "chunk_data (f_mem s) (f_chunk s) = bs @ [burst_data l]"
      "chunk_data (f_mem t) (f_chunk t) = bs @ [burst_data (l\<lparr>b_sz := b_sz l + len\<rparr>)]"
    | (new) "added" "chunk_data (f_mem t) (f_chunk t) = chunk_data (f_mem s) (f_chunk s) @
      [if dir = EDMA_DIR_WRITE then (f_addr s, host, len) else (host, f_addr s, len)]"
    | (same) "\<not> added" "chunk_data (f_mem t) (f_chunk t) = chunk_data (f_mem s) (f_chunk s)"
    using add_entry_data [OF assms(1,2)] by blast
  then have "linear dir a (chunk_data (f_mem t) (f_chunk t)) (if added then f_addr s + ucast len else f_addr s) \<and>
      data_len (chunk_data (f_mem t) (f_chunk t)) = data_len (chunk_data (f_mem s) (f_chunk s)) + (if added then unat len else 0)"
  proof cases
    case extend
    note room = merge_room [OF extend(2)]
    have "unat (b_sz l + len) = unat (b_sz l) + unat len" using room by (simp add: unat_word_ariths)
    then show ?thesis using extend assms(3) ucast_sum [OF room]
      by (auto simp: linear_append burst_data_def add.assoc split: if_splits)
  next
    case new
    then show ?thesis using assms(3) by (auto simp: linear_append)
  next
    case same
    then show ?thesis using assms(3) by simp
  qed
  then show "linear dir a (chunk_data (f_mem t) (f_chunk t)) (if added then f_addr s + ucast len else f_addr s)"
    "data_len (chunk_data (f_mem t) (f_chunk t)) = data_len (chunk_data (f_mem s) (f_chunk s)) + (if added then unat len else 0)"
    by simp_all
qed

lemma fill_loop_linear:
  "fill_ok U s \<Longrightarrow> fill_loop n dir atomic s = (ret, t) \<Longrightarrow> linear dir a (chunk_data (f_mem s) (f_chunk s)) (f_addr s) \<Longrightarrow>
    linear dir a (chunk_data (f_mem t) (f_chunk t)) (f_addr t)"
proof (induction n dir atomic s rule: fill_loop.induct)
  case (2 n dir atomic s)
  show ?case
  proof (cases "f_sg s")
    case (Cons e sg)
    obtain h len where e: "e = (h, len)" by fastforce
    obtain added s1 where ad: "add_entry dir atomic h len s = (added, s1)" by fastforce
    note ok = add_entry_ok [OF "2.prems"(1) ad] and lin = add_entry_linear(1) [OF "2.prems"(1) ad "2.prems"(3)]
    let ?n = "s1\<lparr>f_addr := f_addr s + ucast len, f_sg := sg, f_remaining := f_remaining s - 1, f_consumed := f_consumed s + 1\<rparr>"
    consider (stop) "t = s" | (full) "\<not> added" "t = s1"
      | (more) "f_remaining s \<noteq> 0" "\<not> (U64_MAX - ucast len < f_addr s \<or> U64_MAX - ucast len < h)" "added"
          "fill_loop n dir atomic ?n = (ret, t)"
      using "2.prems"(2) Cons e ad by (auto split: if_splits)
    then show ?thesis
    proof cases
      case more
      have "fill_ok U ?n" using ok by (simp add: fill_ok_def)
      moreover have "linear dir a (chunk_data (f_mem ?n) (f_chunk ?n)) (f_addr ?n)" using lin more(3) by simp
      ultimately show ?thesis
        using "2.IH" [OF Cons e [symmetric] more(1,2) ad [symmetric]] more(3,4) by simp
    qed (use "2.prems"(3) lin ok in auto)
  qed (use "2.prems" in simp)
qed simp

lemma free_batch_data [simp]: "chunk_data (dw_edma_free_burst_batch bs m) c = chunk_data m c"
proof -
  have "burst_data (bursts (snd (free_locked bs m dyn)) r) = burst_data (bursts m r)" for dyn r
    by (induction bs arbitrary: m dyn) (simp_all add: Let_def)
  then show ?thesis by (simp add: chunk_data_def dw_edma_free_burst_batch_def case_prod_beta)
qed

lemma fill_linear:
  assumes "mem_ok (chunk_bursts c + U) m" "chunk_ok c" "burst c \<noteq> None" "linear dir a (chunk_data m c) (k_addr k)"
    and "dw_edma_fill_sg_bursts dir ll atomic bm c m accum k = (ret, c1, m1, accum1, k1)" "0 \<le> ret"
  shows "linear dir a (chunk_data m1 c1) (k_addr k1)"
proof (cases "k_sg k = [] \<or> k_remaining k = 0 \<or> ll \<le> bursts_alloc c \<or> bm = 0")
  case True
  then show ?thesis using assms(4,5) by (auto simp: dw_edma_fill_sg_bursts_def)
next
  case False
  define need where "need = min (k_remaining k) (min (ll - bursts_alloc c) bm)"
  obtain batch mb where b: "dw_edma_alloc_burst_batch need m = (batch, mb)" by fastforce
  define s where "s = \<lparr>f_chunk = c, f_mem = mb, f_accum = accum, f_batch = batch, f_sg = k_sg k,
      f_remaining = k_remaining k, f_addr = k_addr k, f_consumed = 0\<rparr>"
  obtain r t where l: "fill_loop need dir atomic s = (r, t)" by fastforce
  note al = alloc_batch_ok [OF assms(1) b]
  have s0: "fill_ok U s" using al assms(2,3) by (simp add: fill_ok_def s_def ac_simps)
  have "x \<notin> set batch" if "x \<in> set (burst_list c)" for x using al that assms(3) by (auto simp: chunk_bursts_def)
  then have "chunk_data mb c = chunk_data m c" using al by (auto simp: chunk_data_def)
  then have "linear dir a (chunk_data (f_mem t) (f_chunk t)) (f_addr t)"
    using fill_loop_linear [OF s0 l, of a] assms(4) by (simp add: s_def)
  moreover have "c1 = f_chunk t \<and> m1 = dw_edma_free_burst_batch (f_batch t) (f_mem t) \<and> k_addr k1 = f_addr t"
    using assms(5,6) False b l fill_loop_ok [OF s0 l] unfolding dw_edma_fill_sg_bursts_def
    by (auto simp: Let_def need_def [symmetric] s_def [symmetric] split: if_splits)
  ultimately show ?thesis by simp
qed

lemma prep_sg_chunks: "prep_sg E ch cnt d m k = (r, d1, m1) \<Longrightarrow> chunk_list d \<noteq> [] \<Longrightarrow> chunk_list d1 \<noteq> []"
proof (induction E ch cnt d m k rule: prep_sg.induct)
  case (1 E ch cnt d m k)
  obtain ret c1 m2 accum k1 where f: "dw_edma_fill_sg_bursts (ch_dir ch) (ll_max ch) (p_atomic E) 64 (last_chunk d) m (alloc_sz d) k =
      (ret, c1, m2, accum, k1)" by (metis prod_cases5)
  have shadow: "chunk_list e1 = chunk_list e" if "dw_edma_shadow_prepare_build E ch e n = (b, e1, n1)" for e n b e1 n1
    using that by (auto simp: dw_edma_shadow_prepare_build_def Let_def split: prod.splits option.splits if_splits)
  have lazy: "chunk_list e1 = chunk_list d" if "enter_lazy E ch cnt c k d m = (e1, n1)" for c e1 n1
    using that unfolding enter_lazy_def fixed_lazy_def save_cursor_def Let_def
    by (auto split: prod.splits bool.splits if_splits dest: shadow)
  show ?case
    using "1.prems" "1.IH" [OF _ _ _ f [symmetric] refl refl refl refl] f
    by (subst (asm) (1) prep_sg.simps) (auto simp: Let_def set_last_chunk_def split: if_splits prod.splits dest: lazy)
qed

lemma same_chunk_trans: "same_chunk c d \<Longrightarrow> same_chunk d e \<Longrightarrow> same_chunk c e"
  by (simp add: same_chunk_def)

lemma prep_sg_linear:
  assumes "filling U (ll_max ch) d m" "prep_sg E ch cnt d m k = (True, d1, m1)"
    and "linear (ch_dir ch) a (chunk_data m (last_chunk d)) (k_addr k)"
  shows "(\<exists>e. linear (ch_dir ch) a (chunk_data m1 (last_chunk d1)) e) \<and> same_chunk (last_chunk d1) (last_chunk d) \<and>
    (burst_list (last_chunk d) \<noteq> [] \<or> 0 < k_remaining k \<and> 0 < ll_max ch \<longrightarrow> burst_list (last_chunk d1) \<noteq> [])"
  using assms
proof (induction E ch cnt d m k rule: prep_sg.induct)
  case (1 E ch cnt d m k)
  have fl: "mem_ok (desc_refs d + U) m" "desc_ok d" "bursts_alloc (last_chunk d) \<le> ll_max ch" "chunk_list d \<noteq> []"
      "burst (last_chunk d) \<noteq> None"
    using "1.prems"(1) by (simp_all add: filling_def)
  have p: "mem_ok (chunk_bursts (last_chunk d) + (rest_refs d + U)) m" "chunk_ok (last_chunk d)"
    using fl desc_ok_last(1) desc_refs_last [OF fl(4)] by (simp_all add: union_assoc)
  consider (empty) "k_remaining k = 0" | (full) "k_remaining k \<noteq> 0" "k_sg k \<noteq> []" "bursts_alloc (last_chunk d) = ll_max ch"
    | (more) "k_remaining k \<noteq> 0" "k_sg k \<noteq> []" "bursts_alloc (last_chunk d) \<noteq> ll_max ch"
    using "1.prems"(2) by (auto simp: prep_sg.simps split: if_splits)
  then show ?case
  proof cases
    case empty
    then have "d1 = d" "m1 = m" using "1.prems"(2) by (simp_all add: prep_sg.simps)
    then show ?thesis using empty "1.prems"(3) by (auto simp: same_chunk_def)
  next
    case full
    then have e: "enter_lazy E ch cnt (last_chunk d) k d m = (d1, m1)"
      using "1.prems"(2) by (auto simp: prep_sg.simps split: prod.splits)
    have "bursts m1 = bursts m" "last_chunk d1 = last_chunk d"
      using enter_lazy_ok [OF "1.prems"(1) full(3) _ e] full(1) by simp_all
    then show ?thesis using "1.prems"(3) full(3) p(2) by (auto simp: chunk_data_def same_chunk_def chunk_ok_def)
  next
    case more
    obtain ret c1 m2 accum k1 where f: "dw_edma_fill_sg_bursts (ch_dir ch) (ll_max ch) (p_atomic E) 64 (last_chunk d) m (alloc_sz d) k =
        (ret, c1, m2, accum, k1)" by (metis prod_cases5)
    let ?d = "(set_last_chunk c1 d)\<lparr>alloc_sz := accum\<rparr>"
    have pos: "\<not> ret \<le> 0" using "1.prems"(2) more f by (auto simp: prep_sg.simps Let_def split: if_splits)
    then have rec: "prep_sg E ch cnt ?d m2 k1 = (True, d1, m1)"
      using "1.prems"(2) more f by (subst (asm) prep_sg.simps) (simp add: Let_def)
    have lin: "linear (ch_dir ch) a (chunk_data m2 (last_chunk ?d)) (k_addr k1)"
      using fill_linear [OF p fl(5) "1.prems"(3) f] pos by simp
    have "same_chunk c1 (last_chunk d)" "burst_list c1 \<noteq> []" using fill_sg_ok [OF p fl(5,3) f] pos by auto
    then show ?thesis
      using "1.IH" [OF more f [symmetric] refl refl refl refl pos filling_fill [OF "1.prems"(1) f] rec lin]
      by (auto dest: same_chunk_trans)
  qed
qed

lemma sg_moves_length: "length (sg_moves dir addr sg) = sg_len sg"
  by (induction dir addr sg rule: sg_moves.induct) (simp_all add: entry_moves_def)

lemma sg_len_take: "j \<le> n \<Longrightarrow> sg_len (take j sg) \<le> sg_len (take n sg)"
proof -
  assume "j \<le> n"
  then have "take n sg = take j sg @ take (n - j) (drop j sg)" by (metis le_add_diff_inverse take_add)
  then show ?thesis by (simp add: sg_len_def)
qed

text \<open>The first chunk of a prepared transfer, with all that the table needs.\<close>

lemma prepared_chunk:
  assumes "mem_ok (refs_of (cleanup_chunks m) + U) m" "0 < ll_max ch"
    and "dw_edma_device_prep_slave_sg E ch sg n dir m = (Some d, m1)"
  obtains e where "linear (ch_dir ch) (k_addr (sg_start ch sg n)) (chunk_data m1 (last_chunk d)) e"
    "burst_list (last_chunk d) \<noteq> []" "host_region (last_chunk d) = desc_buf ch"
    "r_vaddr (ll_region (last_chunk d)) = r_vaddr (ch_ll ch)" "chunk_list d \<noteq> []"
proof -
  let ?b = "dw_edma_chan.truncate ch"
  obtain d0 m0 where a: "dw_edma_alloc_desc m = (Some d0, m0)"
    using assms(3) by (auto simp: dw_edma_device_prep_slave_sg_def dw_edma_device_transfer_def split: if_splits prod.splits option.splits)
  obtain c d1 m2 where c: "dw_edma_alloc_chunk (p_atomic E) ?b d0 m0 = (Some c, d1, m2)"
    using assms(3) a by (auto simp: dw_edma_device_prep_slave_sg_def dw_edma_device_transfer_def split: if_splits prod.splits option.splits)
  have p: "prep_sg E ?b n d1 m2 (sg_start ch sg n) = (True, d, m1)" and n: "1 \<le> n"
    using assms(3) a c
    by (auto simp: dw_edma_device_prep_slave_sg_def dw_edma_device_transfer_def prep_bursts_def sg_start_def Let_def
        split: if_splits prod.splits bool.splits)
  note st = alloc_start [OF assms(1) a c, of "ll_max ?b"]
  then have f: "filling (refs_of (cleanup_chunks m) + U) (ll_max ?b) d1 m2" "chunk_list d1 = [c]" "burst_list (last_chunk d1) = []"
      "host_region c = desc_buf ch" "ll_region c = ch_ll ch" by simp_all
  have "linear (ch_dir ?b) (k_addr (sg_start ch sg n)) (chunk_data m2 (last_chunk d1)) (k_addr (sg_start ch sg n))"
    using f(3) by (simp add: chunk_data_def)
  note q = prep_sg_linear [OF f(1) p this]
  have l: "last_chunk d1 = c" using f(2) by (simp add: last_chunk_def)
  have "k_remaining (sg_start ch sg n) = n" by (simp add: sg_start_def)
  moreover have "chunk_list d \<noteq> []" using prep_sg_chunks [OF p] f(2) by simp
  ultimately show thesis using q l f(4,5) n assms(2) that by (auto simp: same_chunk_def)
qed

section \<open>Properties\<close>

text \<open>
  (C11) From the scatter list to the table.  After a transfer has been prepared, writing its chunk succeeds,
  and whoever reads the table, or a copy of its elements, with the chunk's cycle bit moves exactly the bytes
  of the entries that the chunk holds, in order; these are all entries, or the position of the others
  is saved.  Exactly the last element raises the interrupts, and no byte outside the table is written.
\<close>

theorem table_faithful:
  assumes "mem_ok (refs_of (cleanup_chunks m) + U) m" "\<forall>c \<in> set (cleanup_chunks m). chunk_ok c"
    and "0 < ll_max ch" "r_vaddr (ch_ll ch) \<noteq> None" "r_vaddr (desc_buf ch) = Some a" "sg_len (take n sg) < 2 ^ 32"
    and "dw_edma_device_prep_slave_sg E ch sg n dir m = (Some d, m1)"
    and "dw_edma_v0_core_write_chunk (ch_dir ch) (last_chunk d) m1 h = (r, c, m2, h1)"
  shows "r = 0 \<and> (\<forall>x. x < a \<or> a + 24 * ll_max ch + 16 \<le> x \<longrightarrow> h1 x = h x) \<and>
    (\<exists>j \<le> n. (if lazy_mode d then sg_cur d = drop j sg \<and> sg_remaining d = n - j else j = n) \<and>
      (\<forall>h2 a2 N es. (\<forall>i < 24 * (bursts_alloc c + 1). h2 (a2 + i) = h1 (a + i)) \<and> ll_max ch < N \<and> es = walk N h2 a2 (cb c) \<longrightarrow>
         concat (map (data_moves \<circ> snd) es) = sg_moves (ch_dir ch) (k_addr (sg_start ch sg n)) (take j sg) \<and>
         es \<noteq> [] \<and> (\<forall>i < length es. bit (fst (es ! i)) 3 = (Suc i = length es) \<and> bit (fst (es ! i)) 4 = (Suc i = length es))))"
proof -
  let ?c = "last_chunk d" and ?k = "sg_start ch sg n"
  obtain j where j: "live U d m1" "prepared (dw_edma_chan.truncate ch) j ?k d"
      "chunk_moves m1 ?c = sg_moves (ch_dir ch) (k_addr ?k) (take j sg)"
    using sg_transfer_ok [OF assms(1,2,7)] by auto
  obtain e where e: "linear (ch_dir ch) (k_addr ?k) (chunk_data m1 ?c) e" "burst_list ?c \<noteq> []" "host_region ?c = desc_buf ch"
      "r_vaddr (ll_region ?c) = r_vaddr (ch_ll ch)" "chunk_list d \<noteq> []"
    using prepared_chunk [OF assms(1,3,7)] by metis
  have ok: "mem_ok (chunk_bursts ?c + (rest_refs d + refs_of (cleanup_chunks m1) + U)) m1" "chunk_ok ?c"
    using j(1) e(5) desc_ok_last(1) desc_refs_last [OF e(5)] by (simp_all add: live_def union_assoc)
  have jn: "j \<le> n" using j(2) by (simp add: prepared_def sg_start_def)
  have "data_len (chunk_data m1 ?c) = sg_len (take j sg)"
    using j(3) sg_moves_length data_moves_len by (metis chunk_moves_data)
  also have "\<dots> < 2 ^ 32" using sg_len_take [OF jn, of sg] assms(6) by simp
  finally have small: "data_len (chunk_data m1 ?c) < 2 ^ 32" .
  have v: "r_vaddr (ll_region ?c) \<noteq> None" "r_vaddr (host_region ?c) = Some a" using e assms(4,5) by simp_all
  note w = write_chunk_ok [OF ok e(2) v e(1) small assms(8)]
  have room: "bursts_alloc c \<le> ll_max ch" using w(7) j(2) by (simp add: prepared_def)
  let ?n = "bursts_alloc c"
  have len: "length (chunk_data m2 c) = ?n" "0 < ?n" using w(3,5) by (auto simp: chunk_data_def chunk_ok_def)
  have "concat (map (data_moves \<circ> snd) es) = sg_moves (ch_dir ch) (k_addr ?k) (take j sg) \<and> es \<noteq> [] \<and>
      (\<forall>i < length es. bit (fst (es ! i)) 3 = (Suc i = length es) \<and> bit (fst (es ! i)) 4 = (Suc i = length es))"
    if copy: "\<forall>i < 24 * (?n + 1). h2 (a2 + i) = h1 (a + i)" and N: "ll_max ch < N" and es: "es = walk N h2 a2 (cb c)" for h2 a2 N es
  proof -
    have f: "es = map2 (\<lambda>k d. (lli_control (cb c) (Suc k = ?n), d)) [0..<?n] (chunk_data m2 c)"
      using w(9) copy N es room unfolding table_of_def by simp
    have "map snd es = chunk_data m2 c" unfolding f using len(1) by (simp add: map2_map_map comp_def split_def)
    then have "concat (map (data_moves \<circ> snd) es) = chunk_moves m2 c" by (simp add: chunk_moves_data flip: map_map)
    moreover have "length es = ?n" "\<forall>i < ?n. fst (es ! i) = lli_control (cb c) (Suc i = ?n)" unfolding f using len by simp_all
    ultimately show ?thesis using w(8) j(3) len(2) by (auto simp: lli_control_bits)
  qed
  moreover have "if lazy_mode d then sg_cur d = drop j sg \<and> sg_remaining d = n - j else j = n"
    using j(2) by (auto simp: prepared_def sg_start_def)
  moreover have "\<forall>x. x < a \<or> a + 24 * ll_max ch + 16 \<le> x \<longrightarrow> h1 x = h x" using w(10) room by auto
  ultimately show ?thesis using w(1) jn by blast
qed

theorem table_faithful_witness:
  "\<exists>d m r c m2 h. dw_edma_device_prep_slave_sg example_prep_env example_edma_chan [(4096, 2)] 1 DMA_MEM_TO_DEV example_pools = (Some d, m) \<and>
     dw_edma_v0_core_write_chunk EDMA_DIR_READ (last_chunk d) m (\<lambda>_. 0) = (r, c, m2, h) \<and> r = 0 \<and>
     concat (map (data_moves \<circ> snd) (walk 3 h 4096 (cb c))) = [(4096, 32768), (4097, 32769)]"
proof -
  obtain d m where p: "dw_edma_device_prep_slave_sg example_prep_env example_edma_chan [(4096, 2)] 1 DMA_MEM_TO_DEV example_pools = (Some d, m)"
      "\<not> lazy_mode d"
    using example_prep by (elim exE conjE) (rule that, simp_all)
  obtain r c m2 h where w: "dw_edma_v0_core_write_chunk EDMA_DIR_READ (last_chunk d) m (\<lambda>_. 0) = (r, c, m2, h)" by (metis prod_cases4)
  have ch: "0 < ll_max example_edma_chan" "r_vaddr (ch_ll example_edma_chan) \<noteq> None"
      "r_vaddr (desc_buf example_edma_chan) = Some 4096" "sg_len (take 1 [(4096 :: u64, 2 :: u32)]) < 2 ^ 32"
      "ch_dir example_edma_chan = EDMA_DIR_READ" "ll_max example_edma_chan = 2"
    by (simp_all add: example_edma_chan_def)
  have "\<forall>c \<in> set (cleanup_chunks example_pools). chunk_ok c" using example_pools_ok(2) by simp
  note th = table_faithful [OF example_pools_ok(1) this ch(1-4) p(1), unfolded ch(5), OF w]
  have "sg_moves EDMA_DIR_READ (k_addr (sg_start example_edma_chan [(4096, 2)] 1)) [(4096, 2)] = [(4096, 32768), (4097, 32769)]"
    by (simp add: example_edma_chan_def sg_start_def entry_moves_def upt_conv_Cons)
  then show ?thesis using th p w ch(6) by (intro exI conjI) auto
qed

text \<open>
  The size of a merged burst is 32 bits wide and its merge is not checked: two bursts that the preparation
  kept apart because their sizes add up to 4 GiB are merged into one that moves nothing.
\<close>

lemma merge_wraps:
  "merge_data EDMA_DIR_WRITE (0x1000, 0x2000, 0x80000000) [(0x80001000, 0x80002000, 0x80000000)] = [(0x1000, 0x2000, 0)]"
  by simp

end
