(* ===== verification/Dx_EdmaV0.thy ===== *)
theory Dx_EdmaV0
  imports Dx_EdmaLli "HOL-Library.State_Monad"
begin

text \<open>
  The registers of the DMA engine and the code that drives them: \<^verbatim>\<open>pci_deepx/dw-edma-v0-core.c\<close>
  and \<^verbatim>\<open>include/dw-edma-v0-regs.h\<close>.  A routine is a state transformer over the device as one
  thread sees it; what the device, the interrupt handlers and the other threads do meanwhile is an arbitrary
  function that acts before every read of a register or of a shared flag.  Every store to a register
  and every change of a helper channel's ownership is an event of the trace.
\<close>

section \<open>Registers\<close>

text \<open>Offsets in \<^verbatim>\<open>struct dw_edma_v0_regs\<close>; the engine has a write and a read half.\<close>

definition rw :: "dw_edma_dir \<Rightarrow> nat \<Rightarrow> nat \<Rightarrow> nat" where
  "rw dir wr rd = (if dir = EDMA_DIR_WRITE then wr else rd)"

abbreviation (input) R_CTRL :: nat where "R_CTRL \<equiv> 8"
abbreviation (input) R_ENGINE_EN :: "dw_edma_dir \<Rightarrow> nat" where "R_ENGINE_EN dir \<equiv> rw dir 12 44"
abbreviation (input) R_DOORBELL :: "dw_edma_dir \<Rightarrow> nat" where "R_DOORBELL dir \<equiv> rw dir 16 48"
abbreviation (input) R_INT_STATUS :: "dw_edma_dir \<Rightarrow> nat" where "R_INT_STATUS dir \<equiv> rw dir 76 160"
abbreviation (input) R_INT_MASK :: "dw_edma_dir \<Rightarrow> nat" where "R_INT_MASK dir \<equiv> rw dir 84 168"
abbreviation (input) R_INT_CLEAR :: "dw_edma_dir \<Rightarrow> nat" where "R_INT_CLEAR dir \<equiv> rw dir 88 172"
abbreviation (input) R_ERR_STATUS :: "dw_edma_dir \<Rightarrow> nat" where "R_ERR_STATUS dir \<equiv> rw dir 92 180"
abbreviation (input) R_VIEWPORT :: nat where "R_VIEWPORT \<equiv> 252"

abbreviation (input) CH_CONTROL1 :: nat where "CH_CONTROL1 \<equiv> 0"
abbreviation (input) CH_CONTROL2 :: nat where "CH_CONTROL2 \<equiv> 4"
abbreviation (input) CH_TRANSFER_SIZE :: nat where "CH_TRANSFER_SIZE \<equiv> 8"
abbreviation (input) CH_SAR_LSB :: nat where "CH_SAR_LSB \<equiv> 12"
abbreviation (input) CH_SAR_MSB :: nat where "CH_SAR_MSB \<equiv> 16"
abbreviation (input) CH_DAR_LSB :: nat where "CH_DAR_LSB \<equiv> 20"
abbreviation (input) CH_DAR_MSB :: nat where "CH_DAR_MSB \<equiv> 24"
abbreviation (input) CH_LLP_LSB :: nat where "CH_LLP_LSB \<equiv> 28"
abbreviation (input) CH_LLP_MSB :: nat where "CH_LLP_MSB \<equiv> 32"

text \<open>A channel is known by its direction and number.\<close>

type_synonym chan_id = "dw_edma_dir \<times> nat"

definition ch_regs :: "bool \<Rightarrow> chan_id \<Rightarrow> nat" where
  "ch_regs legacy c = (if legacy then 256 else 512 + 512 * snd c + (if fst c = EDMA_DIR_WRITE then 0 else 256))"

section \<open>The device\<close>

text \<open>
  What others change while a routine runs: the registers, the permission to poll (\<open>dev_state\<close>, \<open>link_state\<close>
  and \<open>background_recovery_paused\<close>), the flags of the channels, whether the descriptor at hand has been
  cancelled, and what other threads hold of the helper channels (\<open>v_lock_taken\<close>: the spin lock for a moment;
  \<open>v_in_use\<close>: the flag \<open>ch_in_use\<close>).
\<close>

record edma_vol =
  v_regs :: mmio
  v_allowed :: bool
  v_hw_err :: "chan_id \<Rightarrow> bool"
  v_aborted :: "chan_id \<Rightarrow> bool"
  v_started :: "chan_id \<Rightarrow> bool"
  v_start_jiffies :: "chan_id \<Rightarrow> u64"
  v_busy :: "chan_id \<Rightarrow> bool"
  v_cancelled :: bool
  v_lock_taken :: "nat \<Rightarrow> bool"
  v_in_use :: "nat \<Rightarrow> bool"
  v_jiffies :: u64
  v_toggle :: u32

datatype event = Wr nat u32 | Acquire nat | Release nat | Sync u64 nat

text \<open>
  The device with what belongs to the routine: the staging buffer, the engine's memory, the trace,
  and the helper channels that it has marked as in use itself.
\<close>

record edma_dev =
  vol :: edma_vol
  host :: mmio
  emem :: edma_mem
  trace :: "event list"
  steps :: nat
  held :: "nat list"

record edma_cfg =
  c_env :: "nat \<Rightarrow> edma_vol \<Rightarrow> edma_vol"
  c_legacy :: bool
  c_wr_cnt :: nat
  c_rd_cnt :: nat
  c_atomic :: bool
  c_idle_jiffies :: u64

type_synonym 'a edma = "(edma_dev, 'a) state"

definition look :: "edma_cfg \<Rightarrow> (edma_vol \<Rightarrow> 'a) \<Rightarrow> 'a edma" where
  "look W f = State (\<lambda>s. let v = c_env W (steps s) (vol s) in (f v, s\<lparr>vol := v, steps := Suc (steps s)\<rparr>))"

definition change :: "(edma_vol \<Rightarrow> edma_vol) \<Rightarrow> unit edma" where
  "change f = State (\<lambda>s. ((), s\<lparr>vol := f (vol s)\<rparr>))"

definition emit :: "event \<Rightarrow> unit edma" where
  "emit e = State (\<lambda>s. ((), s\<lparr>trace := trace s @ [e]\<rparr>))"

definition GET_32 :: "edma_cfg \<Rightarrow> nat \<Rightarrow> u32 edma" where
  "GET_32 W a = look W (\<lambda>v. readl (v_regs v) a)"

definition SET_32 :: "nat \<Rightarrow> u32 \<Rightarrow> unit edma" where
  "SET_32 a x = do { change (\<lambda>v. v\<lparr>v_regs := writel x a (v_regs v)\<rparr>); emit (Wr a x) }"

text \<open>In the legacy layout the channel's registers are behind one viewport.\<close>

definition viewport_sel :: "chan_id \<Rightarrow> u32" where
  "viewport_sel c = (of_nat (snd c) AND 7) OR (if fst c = EDMA_DIR_READ then 0x80000000 else 0)"

definition SET_CH_32 :: "edma_cfg \<Rightarrow> chan_id \<Rightarrow> nat \<Rightarrow> u32 \<Rightarrow> unit edma" where
  "SET_CH_32 W c r x = do {
     (if c_legacy W then SET_32 R_VIEWPORT (viewport_sel c) else State_Monad.return ());
     SET_32 (ch_regs (c_legacy W) c + r) x }"

definition GET_CH_32 :: "edma_cfg \<Rightarrow> chan_id \<Rightarrow> nat \<Rightarrow> u32 edma" where
  "GET_CH_32 W c r = do {
     (if c_legacy W then SET_32 R_VIEWPORT (viewport_sel c) else State_Monad.return ());
     GET_32 W (ch_regs (c_legacy W) c + r) }"

section \<open>Status and interrupts\<close>

abbreviation (input) EDMA_V0_DONE_INT_MASK :: u32 where "EDMA_V0_DONE_INT_MASK \<equiv> 0xFF"
abbreviation (input) EDMA_V0_ABORT_INT_MASK :: u32 where "EDMA_V0_ABORT_INT_MASK \<equiv> 0xFF0000"
abbreviation (input) EDMA_V0_MAX_NR_CH :: u32 where "EDMA_V0_MAX_NR_CH \<equiv> 4"

definition done_bit :: "nat \<Rightarrow> u32" where
  "done_bit i = push_bit i 1 AND EDMA_V0_DONE_INT_MASK"

definition abort_bit :: "nat \<Rightarrow> u32" where
  "abort_bit i = push_bit 16 (push_bit i 1) AND EDMA_V0_ABORT_INT_MASK"

definition ch_cs :: "u32 \<Rightarrow> u32" where
  "ch_cs control1 = drop_bit 5 control1 AND 3"

definition dw_edma_v0_core_off :: "unit edma" where
  "dw_edma_v0_core_off = do {
     SET_32 (R_INT_MASK EDMA_DIR_WRITE) (EDMA_V0_DONE_INT_MASK OR EDMA_V0_ABORT_INT_MASK);
     SET_32 (R_INT_MASK EDMA_DIR_READ) (EDMA_V0_DONE_INT_MASK OR EDMA_V0_ABORT_INT_MASK);
     SET_32 (R_INT_CLEAR EDMA_DIR_WRITE) (EDMA_V0_DONE_INT_MASK OR EDMA_V0_ABORT_INT_MASK);
     SET_32 (R_INT_CLEAR EDMA_DIR_READ) (EDMA_V0_DONE_INT_MASK OR EDMA_V0_ABORT_INT_MASK);
     SET_32 (R_ENGINE_EN EDMA_DIR_WRITE) 0;
     SET_32 (R_ENGINE_EN EDMA_DIR_READ) 0 }"

definition dw_edma_v0_core_ch_count :: "edma_cfg \<Rightarrow> dw_edma_dir \<Rightarrow> u16 edma" where
  "dw_edma_v0_core_ch_count W dir = do {
     ctrl \<leftarrow> GET_32 W R_CTRL;
     let num_ch = (if dir = EDMA_DIR_WRITE then ctrl AND 0xF else drop_bit 16 ctrl AND 0xF);
     State_Monad.return (ucast (if num_ch > EDMA_V0_MAX_NR_CH then EDMA_V0_MAX_NR_CH else num_ch)) }"

datatype dma_status = DMA_COMPLETE | DMA_IN_PROGRESS | DMA_PAUSED | DMA_ERROR

definition dw_edma_v0_core_ch_status :: "edma_cfg \<Rightarrow> chan_id \<Rightarrow> dma_status edma" where
  "dw_edma_v0_core_ch_status W c = do {
     control1 \<leftarrow> GET_CH_32 W c CH_CONTROL1;
     let tmp = ch_cs control1;
     State_Monad.return
       (if tmp = 0 then DMA_COMPLETE else if tmp = 1 then DMA_IN_PROGRESS else if tmp = 3 then DMA_COMPLETE else DMA_ERROR) }"

definition dw_edma_v0_core_ch_status_raw :: "edma_cfg \<Rightarrow> chan_id \<Rightarrow> u32 edma" where
  "dw_edma_v0_core_ch_status_raw W c = do {
     control1 \<leftarrow> GET_CH_32 W c CH_CONTROL1;
     State_Monad.return (ch_cs control1) }"

definition dw_edma_v0_core_ch_status_checked :: "edma_cfg \<Rightarrow> chan_id \<Rightarrow> (int + u32) edma" where
  "dw_edma_v0_core_ch_status_checked W c = do {
     control1 \<leftarrow> GET_CH_32 W c CH_CONTROL1;
     State_Monad.return (if control1 = - 1 then Inl (- ENODEV) else Inr (ch_cs control1)) }"

definition dw_edma_v0_core_clear_done_int :: "chan_id \<Rightarrow> unit edma" where
  "dw_edma_v0_core_clear_done_int c = SET_32 (R_INT_CLEAR (fst c)) (done_bit (snd c))"

definition dw_edma_v0_core_clear_abort_int :: "chan_id \<Rightarrow> unit edma" where
  "dw_edma_v0_core_clear_abort_int c = SET_32 (R_INT_CLEAR (fst c)) (abort_bit (snd c))"

definition dw_edma_v0_core_mask_done_int :: "edma_cfg \<Rightarrow> chan_id \<Rightarrow> unit edma" where
  "dw_edma_v0_core_mask_done_int W c = do {
     tmp \<leftarrow> GET_32 W (R_INT_MASK (fst c));
     SET_32 (R_INT_MASK (fst c)) (tmp OR done_bit (snd c)) }"

definition dw_edma_v0_core_unmask_done_abort_int :: "edma_cfg \<Rightarrow> chan_id \<Rightarrow> unit edma" where
  "dw_edma_v0_core_unmask_done_abort_int W c = do {
     tmp \<leftarrow> GET_32 W (R_INT_MASK (fst c));
     SET_32 (R_INT_MASK (fst c)) (tmp AND NOT (done_bit (snd c)) AND NOT (abort_bit (snd c))) }"

definition dw_edma_v0_core_status_done_int :: "edma_cfg \<Rightarrow> dw_edma_dir \<Rightarrow> u32 edma" where
  "dw_edma_v0_core_status_done_int W dir = do {
     x \<leftarrow> GET_32 W (R_INT_STATUS dir);
     State_Monad.return (x AND EDMA_V0_DONE_INT_MASK) }"

definition dw_edma_v0_core_status_abort_int :: "edma_cfg \<Rightarrow> dw_edma_dir \<Rightarrow> u32 edma" where
  "dw_edma_v0_core_status_abort_int W dir = do {
     x \<leftarrow> GET_32 W (R_INT_STATUS dir);
     State_Monad.return (drop_bit 16 (x AND EDMA_V0_ABORT_INT_MASK)) }"

definition in_error :: "u32 \<Rightarrow> bool" where
  "in_error ch_control \<longleftrightarrow> ch_control AND (0x20 OR 0x40) = 0x40"

definition ack_error :: "edma_cfg \<Rightarrow> chan_id \<Rightarrow> u32 edma" where
  "ack_error W c = do {
     err_status \<leftarrow> GET_32 W (R_ERR_STATUS (fst c));
     dw_edma_v0_core_clear_abort_int c;
     dw_edma_v0_core_clear_done_int c;
     State_Monad.return err_status }"

definition dw_edma_v0_core_ch_recover_abort :: "edma_cfg \<Rightarrow> chan_id \<Rightarrow> u32 edma" where
  "dw_edma_v0_core_ch_recover_abort W c = do {
     ch_control \<leftarrow> GET_CH_32 W c CH_CONTROL1;
     if \<not> in_error ch_control then State_Monad.return 0 else ack_error W c }"

section \<open>Resetting the engine\<close>

definition signal_hw_err :: "chan_id \<Rightarrow> unit edma" where
  "signal_hw_err c = change (\<lambda>v. v\<lparr>v_hw_err := (v_hw_err v)(c := True)\<rparr>)"

fun notify_loop :: "edma_cfg \<Rightarrow> chan_id \<Rightarrow> chan_id list \<Rightarrow> unit edma" where
  "notify_loop W init [] = State_Monad.return ()"
| "notify_loop W init (p # ps) = do {
     busy \<leftarrow> (if p = init then State_Monad.return False else look W (\<lambda>v. v_busy v p));
     (if busy then signal_hw_err p else State_Monad.return ());
     notify_loop W init ps }"

definition chans_of :: "edma_cfg \<Rightarrow> dw_edma_dir \<Rightarrow> chan_id list" where
  "chans_of W dir = map (Pair dir) [0..<(if dir = EDMA_DIR_WRITE then c_wr_cnt W else c_rd_cnt W)]"

definition notify_peer_channels :: "edma_cfg \<Rightarrow> chan_id \<Rightarrow> unit edma" where
  "notify_peer_channels W init = notify_loop W init (chans_of W (fst init))"

definition engine_cycle_regs :: "edma_cfg \<Rightarrow> dw_edma_dir \<Rightarrow> unit edma" where
  "engine_cycle_regs W dir = do {
     SET_32 (R_ENGINE_EN dir) 0;
     look W (\<lambda>v. ());
     SET_32 (R_ENGINE_EN dir) 1;
     look W (\<lambda>v. ()) }"

definition dw_edma_v0_core_ch_soft_reset :: "edma_cfg \<Rightarrow> chan_id \<Rightarrow> int edma" where
  "dw_edma_v0_core_ch_soft_reset W c = do {
     ch_control \<leftarrow> GET_CH_32 W c CH_CONTROL1;
     if \<not> in_error ch_control then State_Monad.return 0
     else do {
       ack_error W c;
       ch_control \<leftarrow> GET_CH_32 W c CH_CONTROL1;
       if \<not> in_error ch_control then State_Monad.return 0
       else do {
         engine_cycle_regs W (fst c);
         notify_peer_channels W c;
         ch_control \<leftarrow> GET_CH_32 W c CH_CONTROL1;
         State_Monad.return (if ch_cs ch_control = 2 then - EIO else 0) } } }"

definition dw_edma_v0_core_engine_cycle :: "edma_cfg \<Rightarrow> chan_id \<Rightarrow> unit edma" where
  "dw_edma_v0_core_engine_cycle W c = do { engine_cycle_regs W (fst c); notify_peer_channels W c }"

section \<open>Waiting for a channel\<close>

definition dx_dma_mmio_poll_allowed :: "edma_cfg \<Rightarrow> bool edma" where
  "dx_dma_mmio_poll_allowed W = look W v_allowed"

text \<open>One look at a channel that must not be polled when the link is gone: an error, or its control register.\<close>

definition poll_control :: "edma_cfg \<Rightarrow> chan_id \<Rightarrow> (int + u32) edma" where
  "poll_control W c = do {
     ok \<leftarrow> dx_dma_mmio_poll_allowed W;
     if \<not> ok then State_Monad.return (Inl (- ENODEV))
     else do {
       ctl \<leftarrow> GET_CH_32 W c CH_CONTROL1;
       State_Monad.return (if ctl = - 1 then Inl (- ENODEV) else Inr ctl) } }"

text \<open>A busy channel that has changed its status: an error is acknowledged.\<close>

definition leave_busy :: "edma_cfg \<Rightarrow> chan_id \<Rightarrow> u32 \<Rightarrow> int edma" where
  "leave_busy W c ctl =
     (if ch_cs ctl = 2 then do { dw_edma_v0_core_ch_recover_abort W c; State_Monad.return (- EIO) }
      else State_Monad.return 0)"

primrec atomic_wait :: "nat \<Rightarrow> edma_cfg \<Rightarrow> chan_id \<Rightarrow> int edma" where
  "atomic_wait 0 W c = State_Monad.return (- EBUSY)"
| "atomic_wait (Suc n) W c = do {
     r \<leftarrow> poll_control W c;
     case r of
       Inl e \<Rightarrow> State_Monad.return e
     | Inr ctl \<Rightarrow>
         if ch_cs ctl \<noteq> 1 then leave_busy W c ctl
         else do { look W (\<lambda>v. ()); atomic_wait n W c } }"

text \<open>The loop of the sleeping variant: until the clock reaches the deadline; \<open>None\<close> when it never does.\<close>

definition busy_round :: "edma_cfg \<Rightarrow> chan_id \<Rightarrow> u64 \<Rightarrow> int option edma" where
  "busy_round W c timeout = do {
     now \<leftarrow> look W v_jiffies;
     if \<not> time_before now timeout then State_Monad.return (Some (- EBUSY))
     else do {
       r \<leftarrow> poll_control W c;
       case r of
         Inl e \<Rightarrow> State_Monad.return (Some e)
       | Inr ctl \<Rightarrow>
           if ctl AND (0x20 OR 0x40) \<noteq> 0x20 then do { e \<leftarrow> leave_busy W c ctl; State_Monad.return (Some e) }
           else do { look W (\<lambda>v. ()); State_Monad.return None } } }"

partial_function (option) busy_wait :: "edma_cfg \<Rightarrow> chan_id \<Rightarrow> u64 \<Rightarrow> edma_dev \<Rightarrow> (int \<times> edma_dev) option" where
  "busy_wait W c timeout s =
     (case run_state (busy_round W c timeout) s of
        (Some e, s1) \<Rightarrow> Some (e, s1)
      | (None, s1) \<Rightarrow> busy_wait W c timeout s1)"

definition dw_edma_v0_core_wait_channel_idle :: "edma_cfg \<Rightarrow> chan_id \<Rightarrow> int option edma" where
  "dw_edma_v0_core_wait_channel_idle W c = do {
     r \<leftarrow> poll_control W c;
     case r of
       Inl e \<Rightarrow> State_Monad.return (Some e)
     | Inr ctl \<Rightarrow>
         if in_error ctl then State_Monad.return (Some (- EIO))
         else if ctl AND (0x20 OR 0x40) = 0x20 OR 0x40 then State_Monad.return (Some 0)
         else if ctl AND (0x20 OR 0x40) \<noteq> 0x20 then State_Monad.return (Some 0)
         else if c_atomic W then do { e \<leftarrow> atomic_wait 500 W c; State_Monad.return (Some e) }
         else do {
           start \<leftarrow> look W v_jiffies;
           State (\<lambda>s. case busy_wait W c (start + c_idle_jiffies W) s of
                        Some (e, s1) \<Rightarrow> (Some e, s1)
                      | None \<Rightarrow> (None, s)) } }"

primrec idle_poll :: "nat \<Rightarrow> edma_cfg \<Rightarrow> chan_id \<Rightarrow> int edma" where
  "idle_poll 0 W c = State_Monad.return (- ETIMEDOUT)"
| "idle_poll (Suc n) W c = do {
     r \<leftarrow> poll_control W c;
     case r of
       Inl e \<Rightarrow> State_Monad.return e
     | Inr ctl \<Rightarrow>
         if ch_cs ctl = 0 \<or> ch_cs ctl = 3 then State_Monad.return 0
         else if ch_cs ctl = 2 then State_Monad.return (- EIO)
         else idle_poll n W c }"

abbreviation (input) DMA_POLL_TIMEOUT_US :: nat where "DMA_POLL_TIMEOUT_US \<equiv> 1000000"

text \<open>The callers pass \<open>EDMA_DIR_READ\<close> for \<open>is_write\<close>, which selects the read channels.\<close>

definition wait_for_dma_channel_idle :: "edma_cfg \<Rightarrow> nat \<Rightarrow> int edma" where
  "wait_for_dma_channel_idle W channel = idle_poll DMA_POLL_TIMEOUT_US W (EDMA_DIR_READ, channel)"

primrec done_poll :: "nat \<Rightarrow> edma_cfg \<Rightarrow> chan_id \<Rightarrow> int edma" where
  "done_poll 0 W c = State_Monad.return (- ETIMEDOUT)"
| "done_poll (Suc n) W c = do {
     r \<leftarrow> poll_control W c;
     case r of
       Inl e \<Rightarrow> State_Monad.return e
     | Inr ctl \<Rightarrow> do {
         xfer_size \<leftarrow> GET_CH_32 W c CH_TRANSFER_SIZE;
         if ch_cs ctl = 3 \<and> xfer_size = 0 then State_Monad.return 0
         else if ch_cs ctl = 2 \<and> xfer_size \<noteq> 0 then State_Monad.return (- EIO)
         else done_poll n W c } }"

definition dx_dma_polling_wait :: "edma_cfg \<Rightarrow> nat \<Rightarrow> dw_edma_dir \<Rightarrow> int edma" where
  "dx_dma_polling_wait W channel dir = done_poll DMA_POLL_TIMEOUT_US W (dir, channel)"

section \<open>Helper channels\<close>

definition dx_dma_try_acquire_chan_ownership :: "edma_cfg \<Rightarrow> nat \<Rightarrow> bool edma" where
  "dx_dma_try_acquire_chan_ownership W ch = do {
     busy \<leftarrow> look W (\<lambda>v. v_lock_taken v ch \<or> v_in_use v ch);
     s \<leftarrow> State_Monad.get;
     if busy \<or> ch \<in> set (held s) then State_Monad.return False
     else do { emit (Acquire ch); State (\<lambda>s. (True, s\<lparr>held := ch # held s\<rparr>)) } }"

definition dx_dma_release_chan_ownership :: "nat \<Rightarrow> unit edma" where
  "dx_dma_release_chan_ownership ch = do { emit (Release ch); State (\<lambda>s. ((), s\<lparr>held := removeAll ch (held s)\<rparr>)) }"

abbreviation (input) DX_READ_HELPER_CH_LAST :: nat where "DX_READ_HELPER_CH_LAST \<equiv> 3"

definition dx_dma_shadow_precopy_allowed :: "edma_cfg \<Rightarrow> bool edma" where
  "dx_dma_shadow_precopy_allowed W = do {
     ok \<leftarrow> dx_dma_mmio_poll_allowed W;
     State_Monad.return (ok \<and> DX_READ_HELPER_CH_LAST < c_rd_cnt W) }"

definition dx_dma_desc_helper_allowed :: "edma_cfg \<Rightarrow> bool edma" where
  "dx_dma_desc_helper_allowed W = do {
     ok \<leftarrow> dx_dma_mmio_poll_allowed W;
     State_Monad.return (ok \<and> DX_READ_HELPER_CH_LAST < c_rd_cnt W) }"

definition dw_edma_v0_core_shadow_precopy_available :: "edma_cfg \<Rightarrow> bool edma" where
  "dw_edma_v0_core_shadow_precopy_available W = dx_dma_shadow_precopy_allowed W"

text \<open>The order in which the two helpers are tried alternates.\<close>

definition helper_order :: "edma_cfg \<Rightarrow> (nat \<times> nat) edma" where
  "helper_order W = do {
     t \<leftarrow> look W v_toggle;
     change (\<lambda>v. v\<lparr>v_toggle := t + 1\<rparr>);
     State_Monad.return (if (t + 1) AND 1 \<noteq> 0 then (3, 2) else (2, 3)) }"

definition try_helpers :: "edma_cfg \<Rightarrow> nat \<times> nat \<Rightarrow> nat option edma" where
  "try_helpers W p = do {
     a \<leftarrow> dx_dma_try_acquire_chan_ownership W (fst p);
     if a then State_Monad.return (Some (fst p))
     else do {
       b \<leftarrow> dx_dma_try_acquire_chan_ownership W (snd p);
       State_Monad.return (if b then Some (snd p) else None) } }"

text \<open>
  The loops that acquire a helper: \<open>check\<close> is the test at the start of each round, which may end the loop
  with an error; when the rounds are over there is none.
\<close>

primrec acquire_loop :: "nat \<Rightarrow> edma_cfg \<Rightarrow> int option edma \<Rightarrow> nat \<times> nat \<Rightarrow> (int + nat) edma" where
  "acquire_loop 0 W check p = State_Monad.return (Inl (- EBUSY))"
| "acquire_loop (Suc n) W check p = do {
     e \<leftarrow> check;
     case e of
       Some r \<Rightarrow> State_Monad.return (Inl r)
     | None \<Rightarrow> do {
         h \<leftarrow> try_helpers W p;
         case h of
           Some ch \<Rightarrow> State_Monad.return (Inr ch)
         | None \<Rightarrow> do { look W (\<lambda>v. ()); acquire_loop n W check p } } }"

definition helper_check :: "edma_cfg \<Rightarrow> chan_id \<Rightarrow> int option edma" where
  "helper_check W c = do {
     ok \<leftarrow> dx_dma_desc_helper_allowed W;
     if \<not> ok then State_Monad.return (Some (- ENODEV))
     else do {
       bad \<leftarrow> look W (\<lambda>v. v_aborted v c \<or> v_hw_err v c);
       State_Monad.return (if bad then Some (- EIO) else None) } }"

text \<open>The copy of a table into the device: the helper's registers, its doorbell, and the wait for the end.\<close>

definition program_copy :: "edma_cfg \<Rightarrow> nat \<Rightarrow> dw_edma_chunk \<Rightarrow> unit edma" where
  "program_copy W channel ck = do {
     SET_CH_32 W (EDMA_DIR_READ, channel) CH_CONTROL1 0;
     SET_CH_32 W (EDMA_DIR_READ, channel) CH_CONTROL2 0;
     SET_CH_32 W (EDMA_DIR_READ, channel) CH_TRANSFER_SIZE (of_nat ((bursts_alloc ck + 1) * EDMA_LL_SZ));
     SET_CH_32 W (EDMA_DIR_READ, channel) CH_SAR_LSB (ucast (r_paddr (host_region ck)));
     SET_CH_32 W (EDMA_DIR_READ, channel) CH_SAR_MSB (ucast (drop_bit 32 (r_paddr (host_region ck))));
     SET_CH_32 W (EDMA_DIR_READ, channel) CH_DAR_LSB (ucast (r_paddr (ll_region ck)));
     SET_CH_32 W (EDMA_DIR_READ, channel) CH_DAR_MSB (ucast (drop_bit 32 (r_paddr (ll_region ck))));
     SET_32 (R_DOORBELL EDMA_DIR_READ) (of_nat channel AND 7) }"

definition copy_table :: "edma_cfg \<Rightarrow> nat \<Rightarrow> dw_edma_chunk \<Rightarrow> int edma" where
  "copy_table W channel ck = do {
     ret \<leftarrow> wait_for_dma_channel_idle W channel;
     if ret \<noteq> 0 then State_Monad.return ret
     else do { program_copy W channel ck; dx_dma_polling_wait W channel EDMA_DIR_READ } }"

definition dw_edma_v0_core_xfer_llm_desc :: "edma_cfg \<Rightarrow> chan_id \<Rightarrow> dw_edma_chunk \<Rightarrow> int edma" where
  "dw_edma_v0_core_xfer_llm_desc W c ck = do {
     helpers \<leftarrow> dx_dma_desc_helper_allowed W;
     if helpers then do {
       p \<leftarrow> helper_order W;
       h \<leftarrow> acquire_loop (if c_atomic W then 100 else 5000) W (helper_check W c) p;
       case h of
         Inl e \<Rightarrow> State_Monad.return e
       | Inr channel \<Rightarrow> do {
           ret \<leftarrow> copy_table W channel ck;
           dx_dma_release_chan_ownership channel;
           State_Monad.return ret } }
     else if fst c = EDMA_DIR_WRITE then State_Monad.return (- EBUSY)
     else copy_table W (snd c) ck }"

section \<open>Starting a chunk\<close>

abbreviation (input) DW_EDMA_V0_CCS :: u32 where "DW_EDMA_V0_CCS \<equiv> 0x100"
abbreviation (input) DW_EDMA_V0_LLE :: u32 where "DW_EDMA_V0_LLE \<equiv> 0x200"

definition ring_doorbell :: "edma_cfg \<Rightarrow> chan_id \<Rightarrow> unit edma" where
  "ring_doorbell W c = do {
     now \<leftarrow> look W v_jiffies;
     change (\<lambda>v. v\<lparr>v_start_jiffies := (v_start_jiffies v)(c := now), v_started := (v_started v)(c := True)\<rparr>);
     SET_32 (R_DOORBELL (fst c)) (of_nat (snd c) AND 7) }"

definition dw_edma_v0_xfer_llm :: "edma_cfg \<Rightarrow> chan_id \<Rightarrow> dw_edma_chunk \<Rightarrow> unit edma" where
  "dw_edma_v0_xfer_llm W c ck = do {
     dw_edma_v0_core_clear_done_int c;
     dw_edma_v0_core_unmask_done_abort_int W c;
     SET_CH_32 W c CH_CONTROL1 (if cb ck then DW_EDMA_V0_LLE OR DW_EDMA_V0_CCS else DW_EDMA_V0_LLE);
     SET_CH_32 W c CH_LLP_LSB (ucast (r_paddr (ll_region ck)));
     SET_CH_32 W c CH_LLP_MSB (ucast (drop_bit 32 (r_paddr (ll_region ck))));
     ring_doorbell W c }"

definition dw_edma_v0_xfer_llm_not :: "edma_cfg \<Rightarrow> chan_id \<Rightarrow> dw_edma_chunk \<Rightarrow> unit edma" where
  "dw_edma_v0_xfer_llm_not W c ck = do {
     s \<leftarrow> State_Monad.get;
     let child = bursts (emem s) (hd (burst_list ck));
     SET_CH_32 W c CH_CONTROL1 (DW_EDMA_V0_RIE OR DW_EDMA_V0_LIE);
     SET_CH_32 W c CH_TRANSFER_SIZE (b_sz child);
     SET_CH_32 W c CH_SAR_LSB (ucast (sar child));
     SET_CH_32 W c CH_SAR_MSB (ucast (drop_bit 32 (sar child)));
     SET_CH_32 W c CH_DAR_LSB (ucast (dar child));
     SET_CH_32 W c CH_DAR_MSB (ucast (drop_bit 32 (dar child)));
     ring_doorbell W c }"

definition dw_edma_v0_core_signal_hw_err :: "chan_id \<Rightarrow> unit edma" where
  "dw_edma_v0_core_signal_hw_err c = signal_hw_err c"

definition dw_edma_v0_core_cancel_prepared :: "edma_cfg \<Rightarrow> chan_id \<Rightarrow> bool \<Rightarrow> unit edma" where
  "dw_edma_v0_core_cancel_prepared W c is_llm =
     (if \<not> is_llm then State_Monad.return ()
      else do { dw_edma_v0_core_clear_done_int c; dw_edma_v0_core_unmask_done_abort_int W c })"

definition write_chunk_m :: "chan_id \<Rightarrow> dw_edma_chunk \<Rightarrow> (int \<times> dw_edma_chunk) edma" where
  "write_chunk_m c ck = State (\<lambda>s.
     case dw_edma_v0_core_write_chunk (fst c) ck (emem s) (host s) of
       (r, ck1, m, h) \<Rightarrow> ((r, ck1), s\<lparr>emem := m, host := h\<rparr>))"

definition sync_table :: "bool \<Rightarrow> dw_edma_chunk \<Rightarrow> unit edma" where
  "sync_table buddy ck =
     (if buddy then emit (Sync (r_paddr (host_region ck))
                            (min ((bursts_alloc ck + 1) * EDMA_LL_SZ + 16) (r_sz (host_region ck))))
      else State_Monad.return ())"

text \<open>The table of a chunk is written and copied into the device with the completion interrupt masked.\<close>

definition copy_written :: "edma_cfg \<Rightarrow> chan_id \<Rightarrow> bool \<Rightarrow> dw_edma_chunk \<Rightarrow> (int \<times> dw_edma_chunk) edma" where
  "copy_written W c buddy ck = do {
     sync_table buddy ck;
     ret \<leftarrow> dw_edma_v0_core_xfer_llm_desc W c ck;
     if ret \<noteq> 0 then do {
       (if ret \<noteq> - EBUSY then dw_edma_v0_core_signal_hw_err c else State_Monad.return ());
       dw_edma_v0_core_cancel_prepared W c True;
       State_Monad.return (ret, ck) }
     else State_Monad.return (0, ck) }"

definition prepare_llm :: "edma_cfg \<Rightarrow> chan_id \<Rightarrow> bool \<Rightarrow> dw_edma_chunk \<Rightarrow> (int \<times> dw_edma_chunk) edma" where
  "prepare_llm W c buddy ck = do {
     dw_edma_v0_core_mask_done_int W c;
     dw_edma_v0_core_clear_done_int c;
     (ret, ck1) \<leftarrow> write_chunk_m c ck;
     if ret \<noteq> 0 then do {
       dw_edma_v0_core_signal_hw_err c;
       dw_edma_v0_core_cancel_prepared W c True;
       State_Monad.return (ret, ck1) }
     else copy_written W c buddy ck1 }"

definition dw_edma_v0_core_prepare_start ::
  "edma_cfg \<Rightarrow> chan_id \<Rightarrow> bool \<Rightarrow> dw_edma_chunk \<Rightarrow> bool \<Rightarrow> bool \<Rightarrow> (int option \<times> dw_edma_chunk) edma" where
  "dw_edma_v0_core_prepare_start W c buddy ck first is_llm = do {
     (if first \<and> \<not> is_llm then dw_edma_v0_core_unmask_done_abort_int W c else State_Monad.return ());
     idle \<leftarrow> dw_edma_v0_core_wait_channel_idle W c;
     case idle of
       None \<Rightarrow> State_Monad.return (None, ck)
     | Some ret \<Rightarrow>
         if ret \<noteq> 0 then do { dw_edma_v0_core_signal_hw_err c; State_Monad.return (Some ret, ck) }
         else if \<not> is_llm then State_Monad.return (Some 0, ck)
         else do { (ret, ck1) \<leftarrow> prepare_llm W c buddy ck; State_Monad.return (Some ret, ck1) } }"

definition dw_edma_v0_core_launch_prepared :: "edma_cfg \<Rightarrow> chan_id \<Rightarrow> dw_edma_chunk \<Rightarrow> bool \<Rightarrow> unit edma" where
  "dw_edma_v0_core_launch_prepared W c ck is_llm =
     (if is_llm then dw_edma_v0_xfer_llm W c ck else dw_edma_v0_xfer_llm_not W c ck)"

definition dw_edma_v0_core_prebuild_chunk :: "chan_id \<Rightarrow> bool \<Rightarrow> dw_edma_chunk \<Rightarrow> (int \<times> dw_edma_chunk) edma" where
  "dw_edma_v0_core_prebuild_chunk c buddy ck = do {
     (ret, ck1) \<leftarrow> write_chunk_m c ck;
     if ret \<noteq> 0 then State_Monad.return (ret, ck1)
     else do { sync_table buddy ck1; State_Monad.return (0, ck1) } }"

abbreviation (input) EOPNOTSUPP :: int where "EOPNOTSUPP \<equiv> 95"

definition precopy_check :: "edma_cfg \<Rightarrow> chan_id \<Rightarrow> bool \<Rightarrow> int option edma" where
  "precopy_check W c with_desc = do {
     ok \<leftarrow> dx_dma_shadow_precopy_allowed W;
     if \<not> ok then State_Monad.return (Some (- ENODEV))
     else do {
       gone \<leftarrow> look W (\<lambda>v. with_desc \<and> v_cancelled v);
       if gone then State_Monad.return (Some (- ECANCELED))
       else do {
         bad \<leftarrow> look W (\<lambda>v. v_aborted v c \<or> v_hw_err v c);
         State_Monad.return (if bad then Some (- EIO) else None) } } }"

definition dw_edma_v0_core_precopy_lli :: "edma_cfg \<Rightarrow> chan_id \<Rightarrow> bool \<Rightarrow> dw_edma_chunk \<Rightarrow> int edma" where
  "dw_edma_v0_core_precopy_lli W c with_desc ck =
     (if fst c \<noteq> EDMA_DIR_WRITE then State_Monad.return (- EOPNOTSUPP)
      else do {
        ok \<leftarrow> dx_dma_shadow_precopy_allowed W;
        if \<not> ok then State_Monad.return (- ENODEV)
        else do {
          p \<leftarrow> helper_order W;
          h \<leftarrow> acquire_loop 5000 W (precopy_check W c with_desc) p;
          case h of
            Inl e \<Rightarrow> State_Monad.return e
          | Inr channel \<Rightarrow> do {
              e \<leftarrow> precopy_check W c with_desc;
              ret \<leftarrow> (case e of Some _ \<Rightarrow> State_Monad.return (- ECANCELED) | None \<Rightarrow> copy_table W channel ck);
              dx_dma_release_chan_ownership channel;
              State_Monad.return ret } } })"

definition dw_edma_v0_core_launch_precopied :: "edma_cfg \<Rightarrow> chan_id \<Rightarrow> dw_edma_chunk \<Rightarrow> int edma" where
  "dw_edma_v0_core_launch_precopied W c ck = do { dw_edma_v0_xfer_llm W c ck; State_Monad.return 0 }"

definition set_pwr_en :: "u32 \<Rightarrow> unit edma" where
  "set_pwr_en x = do {
     SET_32 0x168 x; SET_32 0x128 x; SET_32 0x16C x; SET_32 0x12C x;
     SET_32 0x170 x; SET_32 0x130 x; SET_32 0x174 x; SET_32 0x134 x }"

definition dw_edma_v0_core_engine_disable :: "chan_id \<Rightarrow> unit edma" where
  "dw_edma_v0_core_engine_disable c = do { set_pwr_en 0; SET_32 (R_ENGINE_EN (fst c)) 0 }"

definition dw_edma_v0_core_engine_enable :: "chan_id \<Rightarrow> unit edma" where
  "dw_edma_v0_core_engine_enable c = do { SET_32 (R_ENGINE_EN (fst c)) 1; set_pwr_en 1 }"

section \<open>What a routine leaves on the trace\<close>

text \<open>A routine that only appends events with a property and keeps the helpers it has.\<close>

definition appends :: "(event \<Rightarrow> bool) \<Rightarrow> 'a edma \<Rightarrow> bool" where
  "appends P m \<longleftrightarrow> (\<forall>s. \<exists>ts. trace (snd (run_state m s)) = trace s @ ts \<and> (\<forall>e \<in> set ts. P e) \<and>
     held (snd (run_state m s)) = held s)"

lemma appends_return [intro!]: "appends P (State_Monad.return x)"
  by (simp add: appends_def)

lemma appends_bind [intro!]:
  assumes "appends P m" "\<And>a. appends P (f a)"
  shows "appends P (State_Monad.bind m f)"
  unfolding appends_def
proof
  fix s
  obtain a s1 where m: "run_state m s = (a, s1)" by fastforce
  obtain t1 where t1: "trace s1 = trace s @ t1" "\<forall>e \<in> set t1. P e" "held s1 = held s"
    using assms(1) m unfolding appends_def by (metis snd_conv)
  obtain t2 where t2: "trace (snd (run_state (f a) s1)) = trace s1 @ t2" "\<forall>e \<in> set t2. P e"
      "held (snd (run_state (f a) s1)) = held s1"
    using assms(2) [of a] unfolding appends_def by blast
  show "\<exists>ts. trace (snd (run_state (State_Monad.bind m f) s)) = trace s @ ts \<and> (\<forall>e \<in> set ts. P e) \<and>
      held (snd (run_state (State_Monad.bind m f) s)) = held s"
    using m t1 t2 by (intro exI [of _ "t1 @ t2"]) auto
qed

lemma appends_look [intro!]: "appends P (look W f)"
  by (simp add: appends_def look_def Let_def)

lemma appends_change [intro!]: "appends P (change f)"
  by (simp add: appends_def change_def)

lemma appends_get [intro!]: "appends P State_Monad.get"
  by (simp add: appends_def)

lemma appends_emit [intro!]: "P e \<Longrightarrow> appends P (emit e)"
  by (simp add: appends_def emit_def)

lemma appends_if [intro!]: "(b \<Longrightarrow> appends P m) \<Longrightarrow> (\<not> b \<Longrightarrow> appends P n) \<Longrightarrow> appends P (if b then m else n)"
  by simp

lemma appends_case_sum [intro!]:
  "(\<And>a. appends P (f a)) \<Longrightarrow> (\<And>b. appends P (g b)) \<Longrightarrow> appends P (case_sum f g x)"
  by (cases x) simp_all

lemma appends_case_option [intro!]: "appends P m \<Longrightarrow> (\<And>b. appends P (g b)) \<Longrightarrow> appends P (case_option m g x)"
  by (cases x) simp_all

lemma appends_case_prod [intro!]: "(\<And>a b. appends P (f a b)) \<Longrightarrow> appends P (case_prod f x)"
  by (cases x) simp

lemma appends_mono: "appends P m \<Longrightarrow> (\<And>e. P e \<Longrightarrow> Q e) \<Longrightarrow> appends Q m"
  unfolding appends_def by blast

text \<open>The events of a store to the channels' registers, or to the interrupt registers, of a direction.\<close>

fun quiet :: "event \<Rightarrow> bool" where
  "quiet (Wr a x) \<longleftrightarrow> a \<noteq> 16 \<and> a \<noteq> 48 \<and> a \<noteq> 84 \<and> a \<noteq> 168"
| "quiet (Sync p n) \<longleftrightarrow> True"
| "quiet _ \<longleftrightarrow> False"

lemma appends_SET_32 [intro!]: "P (Wr a x) \<Longrightarrow> appends P (SET_32 a x)"
  unfolding SET_32_def by blast

lemma rw_simps [simp]: "rw EDMA_DIR_WRITE a b = a" "rw EDMA_DIR_READ a b = b"
  by (simp_all add: rw_def)

lemma ch_regs_high: "256 \<le> ch_regs l c"
  by (simp add: ch_regs_def)

lemma appends_SET_CH [intro!]: "appends quiet (SET_CH_32 W c r x)"
  unfolding SET_CH_32_def using ch_regs_high [of "c_legacy W" c] by (intro appends_bind appends_if appends_SET_32) auto

lemma appends_GET_CH [intro!]: "appends quiet (GET_CH_32 W c r)"
  unfolding GET_CH_32_def GET_32_def by (intro appends_bind appends_if appends_SET_32 appends_look) auto

lemma appends_clears [intro!]:
  "appends quiet (dw_edma_v0_core_clear_done_int c)" "appends quiet (dw_edma_v0_core_clear_abort_int c)"
  by (cases "fst c"; auto simp: dw_edma_v0_core_clear_done_int_def dw_edma_v0_core_clear_abort_int_def)+

lemma appends_recover [intro!]: "appends quiet (dw_edma_v0_core_ch_recover_abort W c)"
  unfolding dw_edma_v0_core_ch_recover_abort_def ack_error_def GET_32_def by blast

lemma appends_poll [intro!]: "appends quiet (poll_control W c)"
  unfolding poll_control_def dx_dma_mmio_poll_allowed_def by blast

lemma appends_leave [intro!]: "appends quiet (leave_busy W c ctl)"
  unfolding leave_busy_def by blast

lemma appends_atomic_wait [intro!]: "appends quiet (atomic_wait n W c)"
  by (induction n) (simp_all, blast+)

lemma appends_idle_poll [intro!]: "appends quiet (idle_poll n W c)"
  by (induction n) (simp_all, blast+)

lemma appends_done_poll [intro!]: "appends quiet (done_poll n W c)"
  by (induction n) (simp_all, blast+)

lemma appends_busy_round [intro!]: "appends quiet (busy_round W c timeout)"
  unfolding busy_round_def by blast

definition extends :: "(event \<Rightarrow> bool) \<Rightarrow> edma_dev \<Rightarrow> edma_dev \<Rightarrow> bool" where
  "extends P s t \<longleftrightarrow> (\<exists>ts. trace t = trace s @ ts \<and> (\<forall>e \<in> set ts. P e) \<and> held t = held s)"

lemma appends_extends: "appends P m \<longleftrightarrow> (\<forall>s. extends P s (snd (run_state m s)))"
  by (simp add: appends_def extends_def)

lemma extends_refl [simp]: "extends P s s"
  by (simp add: extends_def)

lemma extends_trans: "extends P s t \<Longrightarrow> extends P t u \<Longrightarrow> extends P s u"
  by (fastforce simp: extends_def)

lemma busy_wait_extends:
  assumes "busy_wait W c timeout s = Some p"
  shows "extends quiet s (snd p)"
proof (rule busy_wait.raw_induct [where P = "\<lambda>W c timeout s p. extends quiet s (snd p)", OF _ assms])
  fix loop W c timeout s p
  assume ih: "\<And>W c timeout s p. loop W c timeout s = Some p \<Longrightarrow> extends quiet s (snd p)"
    and r: "(case run_state (busy_round W c timeout) s of (None, s1) \<Rightarrow> loop W c timeout s1 | (Some e, s1) \<Rightarrow> Some (e, s1)) = Some p"
  have "extends quiet s (snd (run_state (busy_round W c timeout) s))"
    using appends_busy_round by (simp add: appends_extends)
  moreover obtain o1 s1 where b: "run_state (busy_round W c timeout) s = (o1, s1)" by fastforce
  ultimately have "extends quiet s s1" by simp
  then show "extends quiet s (snd p)" using r ih [of W c timeout s1 p] extends_trans [of quiet s s1] b by (cases o1) auto
qed

lemma appends_wait_idle [intro!]: "appends quiet (dw_edma_v0_core_wait_channel_idle W c)"
proof -
  have "appends quiet (State (\<lambda>s. case busy_wait W c T s of Some (e, s1) \<Rightarrow> (Some e, s1) | None \<Rightarrow> (None, s)))" for T
    using busy_wait_extends by (fastforce simp: appends_extends split: option.split prod.split)
  then show ?thesis unfolding dw_edma_v0_core_wait_channel_idle_def by blast
qed

lemma appends_waits [intro!]:
  "appends quiet (wait_for_dma_channel_idle W n)" "appends quiet (dx_dma_polling_wait W n dir)"
  by (simp_all add: wait_for_dma_channel_idle_def dx_dma_polling_wait_def appends_idle_poll appends_done_poll)

lemma appends_write_chunk [intro!]: "appends P (write_chunk_m c ck)"
  by (simp add: appends_def write_chunk_m_def split: prod.split)

lemma appends_sync [intro!]: "appends quiet (sync_table buddy ck)"
  unfolding sync_table_def by auto

section \<open>Helper channels are held while they copy\<close>

text \<open>What a trace leaves in the hands of the thread, and the doorbells that it rings.\<close>

fun after :: "nat set \<Rightarrow> event \<Rightarrow> nat set" where
  "after H (Acquire c) = insert c H"
| "after H (Release c) = H - {c}"
| "after H _ = H"

text \<open>
  A doorbell of a read channel is rung for a helper that is held, or for a channel in \<open>own\<close>; the doorbell of
  the write channels is not rung at all.
\<close>

fun rung_ok :: "nat set \<Rightarrow> nat set \<Rightarrow> event \<Rightarrow> bool" where
  "rung_ok own H (Wr a x) \<longleftrightarrow> a \<noteq> 16 \<and> (a = 48 \<longrightarrow> (\<exists>h \<in> H \<union> own. x = of_nat h AND 7))"
| "rung_ok own H (Acquire c) \<longleftrightarrow> c \<notin> H"
| "rung_ok own H _ \<longleftrightarrow> True"

fun guarded :: "nat set \<Rightarrow> nat set \<Rightarrow> event list \<Rightarrow> bool" where
  "guarded own H [] \<longleftrightarrow> True"
| "guarded own H (e # es) \<longleftrightarrow> rung_ok own H e \<and> guarded own (after H e) es"

lemma guarded_append: "guarded own H (xs @ ys) \<longleftrightarrow> guarded own H xs \<and> guarded own (fold (\<lambda>e H. after H e) xs H) ys"
  by (induction xs arbitrary: H) auto

lemma quiet_guarded: "\<forall>e \<in> set ts. quiet e \<Longrightarrow> guarded own H ts \<and> fold (\<lambda>e H. after H e) ts H = H"
proof (induction ts arbitrary: H)
  case (Cons e ts)
  then show ?case by (cases e) auto
qed simp

text \<open>A routine whose part of the trace is guarded.\<close>

definition keeps_guard :: "nat set \<Rightarrow> edma_dev \<Rightarrow> edma_dev \<Rightarrow> bool" where
  "keeps_guard own s t \<longleftrightarrow> (\<exists>ts. trace t = trace s @ ts \<and> guarded own (set (held s)) ts \<and>
     set (held t) = fold (\<lambda>e H. after H e) ts (set (held s)))"

lemma keeps_guard_trans: "keeps_guard own s t \<Longrightarrow> keeps_guard own t u \<Longrightarrow> keeps_guard own s u"
  unfolding keeps_guard_def by (elim exE conjE) (rule_tac x = "ts @ tsa" in exI, simp add: guarded_append)

lemma extends_guard: "extends quiet s t \<Longrightarrow> keeps_guard own s t"
  unfolding extends_def keeps_guard_def using quiet_guarded by fastforce

lemma extends_mask_guard: "extends (\<lambda>e. quiet e \<or> (\<exists>x. e = Wr 84 x \<or> e = Wr 168 x)) s t \<Longrightarrow> keeps_guard own s t"
proof -
  have "\<forall>e \<in> set ts. quiet e \<or> (\<exists>x. e = Wr 84 x \<or> e = Wr 168 x) \<Longrightarrow> guarded own H ts \<and> fold (\<lambda>e H. after H e) ts H = H" for ts H
  proof (induction ts arbitrary: H)
    case (Cons e ts)
    then show ?case by (cases e) auto
  qed simp
  then show "extends (\<lambda>e. quiet e \<or> (\<exists>x. e = Wr 84 x \<or> e = Wr 168 x)) s t \<Longrightarrow> keeps_guard own s t"
    unfolding extends_def keeps_guard_def by fastforce
qed

text \<open>Triples: from a state in which the thread holds \<open>H\<close>.\<close>

definition holds :: "nat set \<Rightarrow> nat set \<Rightarrow> 'a edma \<Rightarrow> ('a \<Rightarrow> nat set) \<Rightarrow> bool" where
  "holds own H m K \<longleftrightarrow> (\<forall>s. set (held s) = H \<longrightarrow>
     (case run_state m s of (a, t) \<Rightarrow> keeps_guard own s t \<and> set (held t) = K a))"

lemma holds_bind:
  assumes "holds own H m K" "\<And>a. holds own (K a) (f a) L"
  shows "holds own H (State_Monad.bind m f) L"
  unfolding holds_def
proof (intro allI impI)
  fix s :: edma_dev
  assume s: "set (held s) = H"
  obtain a t where m: "run_state m s = (a, t)" by fastforce
  have t: "keeps_guard own s t" "set (held t) = K a" using assms(1) s m unfolding holds_def by auto
  obtain b u where f: "run_state (f a) t = (b, u)" by fastforce
  have "keeps_guard own t u" "set (held u) = L b" using assms(2) [of a] t(2) f unfolding holds_def by auto
  then show "case run_state (State_Monad.bind m f) s of (b, u) \<Rightarrow> keeps_guard own s u \<and> set (held u) = L b"
    using keeps_guard_trans [OF t(1)] m f by simp
qed

lemma keeps_guard_refl: "keeps_guard own s s"
  by (simp add: keeps_guard_def)

lemma holds_return: "K x = H \<Longrightarrow> holds own H (State_Monad.return x) K"
  by (simp add: holds_def keeps_guard_refl)

lemma holds_appends:
  assumes "appends quiet m"
  shows "holds own H m (\<lambda>_. H)"
  unfolding holds_def
proof (intro allI impI)
  fix s :: edma_dev
  assume s: "set (held s) = H"
  obtain a t where m: "run_state m s = (a, t)" by fastforce
  then have "extends quiet s t" using assms by (metis appends_extends snd_conv)
  then show "case run_state m s of (a, t) \<Rightarrow> keeps_guard own s t \<and> set (held t) = H"
    using m s extends_guard by (auto simp: extends_def)
qed

lemma holds_if: "(b \<Longrightarrow> holds own H m K) \<Longrightarrow> (\<not> b \<Longrightarrow> holds own H n K) \<Longrightarrow> holds own H (if b then m else n) K"
  by simp

lemma holds_case_option:
  "(x = None \<Longrightarrow> holds own H m K) \<Longrightarrow> (\<And>y. x = Some y \<Longrightarrow> holds own H (f y) K) \<Longrightarrow> holds own H (case_option m f x) K"
  by (cases x) simp_all

lemma holds_case_sum:
  "(\<And>y. x = Inl y \<Longrightarrow> holds own H (f y) K) \<Longrightarrow> (\<And>y. x = Inr y \<Longrightarrow> holds own H (g y) K) \<Longrightarrow> holds own H (case_sum f g x) K"
  by (cases x) simp_all

lemma holds_pre: "H' = H \<Longrightarrow> holds own H m K \<Longrightarrow> holds own H' m K"
  by simp

lemma holds_acquire:
  "holds own H (dx_dma_try_acquire_chan_ownership W ch) (\<lambda>ok. if ok then insert ch H else H)"
proof -
  have "holds own H (do { s \<leftarrow> State_Monad.get; if busy \<or> ch \<in> set (held s) then State_Monad.return False
      else do { emit (Acquire ch); State (\<lambda>s. (True, s\<lparr>held := ch # held s\<rparr>)) } }) (\<lambda>ok. if ok then insert ch H else H)" for busy
    by (auto simp: holds_def emit_def keeps_guard_refl keeps_guard_def)
  then show ?thesis
    unfolding dx_dma_try_acquire_chan_ownership_def by (intro holds_bind [OF holds_appends [OF appends_look]])
qed

lemma holds_release: "holds own H (dx_dma_release_chan_ownership ch) (\<lambda>_. H - {ch})"
  by (auto simp: holds_def dx_dma_release_chan_ownership_def emit_def keeps_guard_def)

lemma holds_try_helpers:
  "holds own {} (try_helpers W p) (\<lambda>h. case h of None \<Rightarrow> {} | Some ch \<Rightarrow> {ch})"
  unfolding try_helpers_def
  by (intro holds_bind [OF holds_acquire] holds_if holds_bind [OF holds_pre [OF _ holds_acquire], where H = "{}"] holds_return) auto

lemma holds_acquire_loop:
  assumes "appends quiet check"
  shows "holds own {} (acquire_loop n W check p) (\<lambda>h. case h of Inl e \<Rightarrow> {} | Inr ch \<Rightarrow> {ch})"
proof (induction n)
  case 0
  show ?case by (simp add: holds_return)
next
  case (Suc n)
  show ?case
    unfolding acquire_loop.simps
    by (intro holds_bind [OF holds_appends [OF assms]] holds_case_option holds_return holds_bind [OF holds_try_helpers])
      (auto intro!: holds_return holds_bind [OF holds_appends [OF appends_look]] Suc split: option.split)
qed

lemma holds_with_helper:
  assumes "appends quiet check" "\<And>ch. holds own {ch} (g ch) (\<lambda>_. {})"
  shows "holds own {} (State_Monad.bind (acquire_loop n W check p)
    (\<lambda>h. case h of Inl e \<Rightarrow> State_Monad.return e | Inr ch \<Rightarrow> g ch)) (\<lambda>_. {})"
  by (rule holds_bind [OF holds_acquire_loop [OF assms(1)]]) (auto intro!: holds_return assms(2) split: sum.split)

lemma holds_doorbell:
  "h \<in> H \<union> own \<Longrightarrow> holds own H (SET_32 (R_DOORBELL EDMA_DIR_READ) (of_nat h AND 7)) (\<lambda>_. H)"
  by (auto simp: holds_def SET_32_def change_def emit_def keeps_guard_def)

lemma holds_copy_table:
  assumes "channel \<in> H \<union> own"
  shows "holds own H (copy_table W channel ck) (\<lambda>_. H)"
  unfolding copy_table_def program_copy_def
  by (intro holds_bind [OF holds_appends] holds_if holds_return holds_doorbell [OF assms] appends_waits appends_SET_CH
      holds_bind [where K = "\<lambda>_. H"] holds_appends refl)

lemma appends_helper_order [intro!]: "appends quiet (helper_order W)"
  unfolding helper_order_def by blast

lemma appends_checks [intro!]:
  "appends quiet (helper_check W c)" "appends quiet (precopy_check W c d)" "appends quiet (dx_dma_shadow_precopy_allowed W)"
  "appends quiet (dx_dma_desc_helper_allowed W)"
  unfolding helper_check_def precopy_check_def dx_dma_shadow_precopy_allowed_def dx_dma_desc_helper_allowed_def
    dx_dma_mmio_poll_allowed_def by blast+

text \<open>The channel that copies for itself when there are no helpers is a read channel.\<close>

definition own_of :: "chan_id \<Rightarrow> nat set" where
  "own_of c = (if fst c = EDMA_DIR_READ then {snd c} else {})"

lemma dir_not_write: "d \<noteq> EDMA_DIR_WRITE \<Longrightarrow> d = EDMA_DIR_READ"
  by (cases d) simp_all

lemma holds_xfer_llm_desc: "holds (own_of c) {} (dw_edma_v0_core_xfer_llm_desc W c ck) (\<lambda>_. {})"
proof -
  have rel: "holds (own_of c) {ch} (do { ret \<leftarrow> copy_table W ch ck; dx_dma_release_chan_ownership ch; State_Monad.return ret }) (\<lambda>_. {})" for ch
    by (intro holds_bind [OF holds_copy_table] holds_bind [OF holds_release] holds_return) auto
  show ?thesis
    unfolding dw_edma_v0_core_xfer_llm_desc_def
    by (intro holds_bind [OF holds_appends [OF appends_checks(4)]] holds_bind [OF holds_appends [OF appends_helper_order]] holds_if
        holds_with_helper appends_checks rel holds_return holds_copy_table) (auto simp: own_of_def dest: dir_not_write)
qed

lemma holds_precopy: "holds {} {} (dw_edma_v0_core_precopy_lli W c d ck) (\<lambda>_. {})"
proof -
  have rel: "holds {} {ch} (do { e \<leftarrow> precopy_check W c d;
      ret \<leftarrow> (case e of Some _ \<Rightarrow> State_Monad.return (- ECANCELED) | None \<Rightarrow> copy_table W ch ck);
      dx_dma_release_chan_ownership ch; State_Monad.return ret }) (\<lambda>_. {})" for ch
    by (intro holds_bind [OF holds_appends] appends_checks holds_bind [where K = "\<lambda>_. {ch}"] holds_case_option
        holds_copy_table holds_return holds_bind [OF holds_release]) auto
  show ?thesis
    unfolding dw_edma_v0_core_precopy_lli_def
    by (intro holds_bind [OF holds_appends [OF appends_checks(3)]] holds_bind [OF holds_appends [OF appends_helper_order]] holds_if
        holds_with_helper appends_checks rel holds_return) simp_all
qed

text \<open>The stores to the interrupt mask, which \<open>quiet\<close> leaves out.\<close>

fun unrung :: "event \<Rightarrow> bool" where
  "unrung (Wr a x) \<longleftrightarrow> a \<noteq> 16 \<and> a \<noteq> 48"
| "unrung (Sync p n) \<longleftrightarrow> True"
| "unrung _ \<longleftrightarrow> False"

lemma quiet_unrung: "quiet e \<Longrightarrow> unrung e"
  by (cases e) auto

lemma holds_unrung:
  assumes "appends unrung m"
  shows "holds own H m (\<lambda>_. H)"
  unfolding holds_def
proof (intro allI impI)
  fix s :: edma_dev
  assume s: "set (held s) = H"
  obtain a t where m: "run_state m s = (a, t)" by fastforce
  then obtain ts where ts: "trace t = trace s @ ts" "\<forall>e \<in> set ts. unrung e" "held t = held s"
    using assms unfolding appends_def by (metis snd_conv)
  have "guarded own G ts \<and> fold (\<lambda>e H. after H e) ts G = G" for G
    using ts(2)
  proof (induction ts arbitrary: G)
    case (Cons e ts)
    then show ?case by (cases e) auto
  qed simp
  then show "case run_state m s of (a, t) \<Rightarrow> keeps_guard own s t \<and> set (held t) = H"
    using m s ts by (auto simp: keeps_guard_def)
qed

lemma appends_masks [intro!]:
  "appends unrung (dw_edma_v0_core_mask_done_int W c)" "appends unrung (dw_edma_v0_core_unmask_done_abort_int W c)"
  by (cases "fst c"; auto simp: dw_edma_v0_core_mask_done_int_def dw_edma_v0_core_unmask_done_abort_int_def GET_32_def)+

lemma appends_signal [intro!]: "appends P (dw_edma_v0_core_signal_hw_err c)"
  by (auto simp: dw_edma_v0_core_signal_hw_err_def signal_hw_err_def)

lemma appends_cancel [intro!]: "appends unrung (dw_edma_v0_core_cancel_prepared W c b)"
  unfolding dw_edma_v0_core_cancel_prepared_def
  by (intro appends_if appends_return appends_bind appends_masks appends_mono [OF appends_clears(1)] quiet_unrung)

lemma holds_prepare_start:
  "holds (own_of c) {} (dw_edma_v0_core_prepare_start W c buddy ck first is_llm) (\<lambda>_. {})"
proof -
  note q = holds_appends [where H = "{}"] and u = holds_unrung [where H = "{}"]
  have tail: "holds (own_of c) {} (copy_written W c buddy ck1) (\<lambda>_. {})" for ck1
    unfolding copy_written_def
    by (intro holds_bind [OF q [OF appends_sync]] holds_bind [OF holds_xfer_llm_desc] holds_if
        u appends_bind appends_if appends_cancel appends_signal appends_return)
  have table: "holds (own_of c) {} (prepare_llm W c buddy ck) (\<lambda>_. {})"
    unfolding prepare_llm_def
    by (intro holds_bind [OF u [OF appends_masks(1)]] holds_bind [OF q [OF appends_clears(1)]] holds_bind [OF q [OF appends_write_chunk]])
      (auto intro!: holds_if tail u appends_bind appends_cancel appends_signal appends_return split: prod.split)
  have llm: "holds (own_of c) {} (do { (ret, ck1) \<leftarrow> prepare_llm W c buddy ck; State_Monad.return (Some ret, ck1) }) (\<lambda>_. {})"
    by (rule holds_bind [OF table]) (auto intro!: holds_return split: prod.split)
  show ?thesis
    unfolding dw_edma_v0_core_prepare_start_def
    by (intro holds_bind [OF u [OF appends_if [OF appends_masks(2) appends_return]]] holds_bind [OF q [OF appends_wait_idle]]
        holds_case_option holds_if llm u appends_bind appends_signal appends_return)
qed

section \<open>The interrupt mask\<close>

text \<open>The values that a trace stores to the interrupt mask of a direction.\<close>

fun masks :: "dw_edma_dir \<Rightarrow> event list \<Rightarrow> u32 list" where
  "masks dir [] = []"
| "masks dir (Wr a x # es) = (if a = R_INT_MASK dir then x # masks dir es else masks dir es)"
| "masks dir (e # es) = masks dir es"

lemma masks_append [simp]: "masks dir (xs @ ys) = masks dir xs @ masks dir ys"
  by (induction dir xs rule: masks.induct) simp_all

definition stores :: "dw_edma_dir \<Rightarrow> edma_dev \<Rightarrow> edma_dev \<Rightarrow> u32 list \<Rightarrow> bool" where
  "stores dir s t xs \<longleftrightarrow> (\<exists>ts. trace t = trace s @ ts \<and> masks dir ts = xs)"

lemma stores_refl [simp]: "stores dir s s []"
  by (simp add: stores_def)

lemma stores_trans: "stores dir s t xs \<Longrightarrow> stores dir t u ys \<Longrightarrow> stores dir s u (xs @ ys)"
  unfolding stores_def by (elim exE conjE) (rule_tac x = "ts @ tsa" in exI, simp)

lemma stores_quiet: "stores dir s t xs \<Longrightarrow> stores dir t u [] \<Longrightarrow> stores dir s u xs"
  using stores_trans by fastforce

definition maskless :: "dw_edma_dir \<Rightarrow> 'a edma \<Rightarrow> bool" where
  "maskless dir m \<longleftrightarrow> (\<forall>s. stores dir s (snd (run_state m s)) [])"

lemma maskless_appends: "appends quiet m \<Longrightarrow> maskless dir m"
proof -
  have "\<forall>e \<in> set ts. quiet e \<Longrightarrow> masks dir ts = []" for ts
    by (induction dir ts rule: masks.induct) (auto simp: rw_def)
  then show "appends quiet m \<Longrightarrow> maskless dir m" unfolding appends_def maskless_def stores_def by blast
qed

lemma maskless_bind:
  assumes "maskless dir m" "\<And>a. maskless dir (f a)"
  shows "maskless dir (State_Monad.bind m f)"
  unfolding maskless_def
proof
  fix s
  obtain a t where m: "run_state m s = (a, t)" by fastforce
  have "stores dir s t []" "stores dir t (snd (run_state (f a) t)) []"
    using assms m unfolding maskless_def by (metis snd_conv)+
  then show "stores dir s (snd (run_state (State_Monad.bind m f) s)) []" using m stores_trans by fastforce
qed

lemma maskless_case_sum:
  "(\<And>y. maskless dir (f y)) \<Longrightarrow> (\<And>y. maskless dir (g y)) \<Longrightarrow> maskless dir (case_sum f g x)"
  by (cases x) simp_all

lemma maskless_case_option:
  "maskless dir m \<Longrightarrow> (\<And>y. maskless dir (f y)) \<Longrightarrow> maskless dir (case_option m f x)"
  by (cases x) simp_all

lemma maskless_if: "maskless dir m \<Longrightarrow> maskless dir n \<Longrightarrow> maskless dir (if b then m else n)"
  by simp

lemma maskless_locks:
  "maskless dir (dx_dma_try_acquire_chan_ownership W ch)" "maskless dir (dx_dma_release_chan_ownership ch)"
proof -
  show "maskless dir (dx_dma_release_chan_ownership ch)"
    by (simp add: maskless_def stores_def dx_dma_release_chan_ownership_def emit_def)
  have "maskless dir (do { s \<leftarrow> State_Monad.get; if busy \<or> ch \<in> set (held s) then State_Monad.return False
      else do { emit (Acquire ch); State (\<lambda>s. (True, s\<lparr>held := ch # held s\<rparr>)) } })" for busy
    by (simp add: maskless_def stores_def emit_def)
  then show "maskless dir (dx_dma_try_acquire_chan_ownership W ch)"
    unfolding dx_dma_try_acquire_chan_ownership_def by (rule maskless_bind [OF maskless_appends [OF appends_look]])
qed

lemma maskless_acquire_loop: "appends quiet check \<Longrightarrow> maskless dir (acquire_loop n W check p)"
proof (induction n)
  case (Suc n)
  have "maskless dir (try_helpers W p)"
    unfolding try_helpers_def by (intro maskless_bind maskless_locks maskless_if maskless_appends [OF appends_return])
  then show ?case
    unfolding acquire_loop.simps
    by (intro maskless_bind maskless_case_option maskless_appends [OF Suc.prems] maskless_appends [OF appends_return]
        maskless_appends [OF appends_look] Suc.IH Suc.prems)
qed (simp add: maskless_appends [OF appends_return])

lemma maskless_copy_table: "maskless dir (copy_table W channel ck)"
proof -
  have "maskless dir (SET_32 (R_DOORBELL EDMA_DIR_READ) x)" for x
    by (cases dir; simp add: maskless_def stores_def SET_32_def change_def emit_def)
  then show ?thesis
    unfolding copy_table_def program_copy_def
    by (intro maskless_bind maskless_if maskless_appends [OF appends_waits(1)] maskless_appends [OF appends_waits(2)]
        maskless_appends [OF appends_return] maskless_appends [OF appends_SET_CH])
qed

lemma maskless_xfer_llm_desc: "maskless dir (dw_edma_v0_core_xfer_llm_desc W c ck)"
  unfolding dw_edma_v0_core_xfer_llm_desc_def
  by (intro maskless_bind maskless_if maskless_case_sum maskless_copy_table maskless_acquire_loop maskless_locks
      appends_checks maskless_appends [OF appends_checks(4)] maskless_appends [OF appends_helper_order]
      maskless_appends [OF appends_return])

lemma stores_mask:
  "run_state (dw_edma_v0_core_mask_done_int W c) s = (u, t) \<Longrightarrow> \<exists>x. stores (fst c) s t [x] \<and> x AND done_bit (snd c) = done_bit (snd c)"
  by (auto simp: dw_edma_v0_core_mask_done_int_def GET_32_def look_def SET_32_def change_def emit_def Let_def stores_def
      word_bw_comms intro!: exI [of _ "[_]"])

lemma cleared_bits: "(x AND NOT d AND NOT a) AND (d OR a) = (0 :: u32)"
  by (rule bit_word_eqI) (auto simp: bit_simps)

lemma stores_cancel:
  "run_state (dw_edma_v0_core_cancel_prepared W c True) s = (u, t) \<Longrightarrow>
    \<exists>x. stores (fst c) s t [x] \<and> x AND (done_bit (snd c) OR abort_bit (snd c)) = 0"
  by (cases "fst c")
    (auto simp: dw_edma_v0_core_cancel_prepared_def dw_edma_v0_core_clear_done_int_def dw_edma_v0_core_unmask_done_abort_int_def
      GET_32_def look_def SET_32_def change_def emit_def Let_def stores_def cleared_bits intro!: exI [of _ "[_, _]"])

lemma stores_maskless: "maskless dir m \<Longrightarrow> run_state m s = (a, t) \<Longrightarrow> stores dir s t []"
  unfolding maskless_def by (metis snd_conv)

lemma stores_signal: "run_state (dw_edma_v0_core_signal_hw_err c) s = (u, t) \<Longrightarrow> stores dir s t []"
  by (auto simp: dw_edma_v0_core_signal_hw_err_def signal_hw_err_def change_def stores_def)

definition left_unmasked :: "chan_id \<Rightarrow> edma_dev \<Rightarrow> edma_dev \<Rightarrow> bool" where
  "left_unmasked c s t \<longleftrightarrow> (\<exists>xs. stores (fst c) s t xs \<and> (xs = [] \<or> last xs AND (done_bit (snd c) OR abort_bit (snd c)) = 0))"

definition left_masked :: "chan_id \<Rightarrow> edma_dev \<Rightarrow> edma_dev \<Rightarrow> bool" where
  "left_masked c s t \<longleftrightarrow> (\<exists>xs. stores (fst c) s t xs \<and> xs \<noteq> [] \<and> last xs AND done_bit (snd c) = done_bit (snd c))"

lemma cancel_unmasks:
  assumes "stores (fst c) s t xs" "run_state (dw_edma_v0_core_cancel_prepared W c True) t = (u, v)"
  shows "left_unmasked c s v"
proof -
  obtain x where "stores (fst c) t v [x]" "x AND (done_bit (snd c) OR abort_bit (snd c)) = 0" using stores_cancel [OF assms(2)] by blast
  then show ?thesis using stores_trans [OF assms(1)] unfolding left_unmasked_def by (metis last_snoc)
qed

lemma copy_written_masks:
  assumes "stores (fst c) s0 s xs" "xs \<noteq> []" "last xs AND done_bit (snd c) = done_bit (snd c)"
    and "run_state (copy_written W c buddy ck) s = ((ret, ck1), t)"
  shows "if ret = 0 then left_masked c s0 t else left_unmasked c s0 t"
proof -
  obtain u1 s1 where y: "run_state (sync_table buddy ck) s = (u1, s1)" by (metis surj_pair)
  obtain r s2 where z: "run_state (dw_edma_v0_core_xfer_llm_desc W c ck) s1 = (r, s2)" by fastforce
  have "stores (fst c) s s1 []" "stores (fst c) s1 s2 []"
    using stores_maskless [OF maskless_appends [OF appends_sync] y] stores_maskless [OF maskless_xfer_llm_desc z] .
  then have n: "stores (fst c) s0 s2 xs" using stores_quiet [OF stores_quiet [OF assms(1)]] by blast
  show ?thesis
  proof (cases "r = 0")
    case True
    then have "ret = 0" "s2 = t" using assms(4) y z by (auto simp: copy_written_def)
    then show ?thesis using n assms(2,3) by (auto simp: left_masked_def)
  next
    case False
    obtain u3 s3 where g: "run_state (if r \<noteq> - EBUSY then dw_edma_v0_core_signal_hw_err c else State_Monad.return ()) s2 = (u3, s3)"
      by (metis surj_pair)
    obtain u4 s4 where h: "run_state (dw_edma_v0_core_cancel_prepared W c True) s3 = (u4, s4)" by (metis surj_pair)
    have "stores (fst c) s2 s3 []" using g stores_signal by (auto split: if_splits)
    then have "stores (fst c) s0 s3 xs" using stores_quiet [OF n] by blast
    moreover have "ret = r" "s4 = t" using assms(4) y z False g h by (auto simp: copy_written_def split: if_splits)
    ultimately show ?thesis using cancel_unmasks h False by auto
  qed
qed

lemma prepare_llm_masks:
  assumes "stores (fst c) s0 s []" "run_state (prepare_llm W c buddy ck) s = ((ret, ck1), t)"
  shows "if ret = 0 then left_masked c s0 t else left_unmasked c s0 t"
proof -
  obtain u1 s1 where m: "run_state (dw_edma_v0_core_mask_done_int W c) s = (u1, s1)" by (metis surj_pair)
  obtain u2 s2 where k: "run_state (dw_edma_v0_core_clear_done_int c) s1 = (u2, s2)" by (metis surj_pair)
  obtain r ck2 s3 where w: "run_state (write_chunk_m c ck) s2 = ((r, ck2), s3)" by (metis surj_pair)
  obtain x where x: "stores (fst c) s s1 [x]" "x AND done_bit (snd c) = done_bit (snd c)" using stores_mask [OF m] by blast
  have "stores (fst c) s1 s2 []" "stores (fst c) s2 s3 []"
    using stores_maskless [OF maskless_appends [OF appends_clears(1)] k] stores_maskless [OF maskless_appends [OF appends_write_chunk] w] .
  then have n: "stores (fst c) s0 s3 [x]"
    using stores_quiet [OF stores_quiet [OF stores_trans [OF assms(1) x(1)]]] by simp
  show ?thesis
  proof (cases "r = 0")
    case True
    then have "run_state (copy_written W c buddy ck2) s3 = ((ret, ck1), t)" using assms(2) m k w by (simp add: prepare_llm_def)
    then show ?thesis using copy_written_masks [OF n] x(2) by auto
  next
    case False
    obtain u4 s4 where g: "run_state (dw_edma_v0_core_signal_hw_err c) s3 = (u4, s4)" by (metis surj_pair)
    obtain u5 s5 where h: "run_state (dw_edma_v0_core_cancel_prepared W c True) s4 = (u5, s5)" by (metis surj_pair)
    have "ret = r" "s5 = t" using assms(2) m k w False g h by (auto simp: prepare_llm_def)
    then show ?thesis using cancel_unmasks [OF stores_trans [OF n stores_signal [OF g]] h] False by simp
  qed
qed

section \<open>The busy wait ends\<close>

text \<open>An environment in which the clock moves on at each point, never by a huge step.\<close>

definition clock_runs :: "edma_cfg \<Rightarrow> bool" where
  "clock_runs W \<longleftrightarrow> (\<forall>k v. 1 \<le> uint (v_jiffies (c_env W k v) - v_jiffies v) \<and> uint (v_jiffies (c_env W k v) - v_jiffies v) < 2 ^ 16)"

text \<open>A routine in which the clock moves on by at most \<open>k\<close> of these steps.\<close>

definition drifts :: "nat \<Rightarrow> 'a edma \<Rightarrow> bool" where
  "drifts k m \<longleftrightarrow> (\<forall>s. \<exists>d \<le> k * 65535. v_jiffies (vol (snd (run_state m s))) = v_jiffies (vol s) + of_nat d)"

lemma drifts_bind:
  assumes "drifts j m" "\<And>a. drifts k (f a)"
  shows "drifts (j + k) (State_Monad.bind m f)"
  unfolding drifts_def
proof
  fix s
  obtain a t where m: "run_state m s = (a, t)" by fastforce
  obtain d where d: "d \<le> j * 65535" "v_jiffies (vol t) = v_jiffies (vol s) + of_nat d"
    using assms(1) m unfolding drifts_def by (metis snd_conv)
  obtain e where e: "e \<le> k * 65535" "v_jiffies (vol (snd (run_state (f a) t))) = v_jiffies (vol t) + of_nat e"
    using assms(2) [of a] unfolding drifts_def by blast
  have "d + e \<le> (j + k) * 65535" using d(1) e(1) by (simp add: algebra_simps)
  then show "\<exists>d \<le> (j + k) * 65535. v_jiffies (vol (snd (run_state (State_Monad.bind m f) s))) = v_jiffies (vol s) + of_nat d"
    using m d e by (intro exI [of _ "d + e"]) (simp add: add.assoc)
qed

lemma drifts_mono: "drifts j m \<Longrightarrow> j \<le> k \<Longrightarrow> drifts k m"
  unfolding drifts_def by (meson le_trans mult_le_mono1)

lemma drifts_0:
  "drifts k (State_Monad.return x)" "drifts k (SET_32 a y)" "(\<And>v. v_jiffies (g v) = v_jiffies v) \<Longrightarrow> drifts k (change g)"
  by (auto simp: drifts_def SET_32_def change_def emit_def intro!: exI [of _ "0 :: nat"])

lemma clock_runs_step:
  assumes "clock_runs W"
  shows "\<exists>d. 1 \<le> d \<and> d \<le> 65535 \<and> v_jiffies (c_env W k v) = v_jiffies v + of_nat d"
proof -
  let ?x = "v_jiffies (c_env W k v) - v_jiffies v"
  have "1 \<le> uint ?x" "uint ?x < 2 ^ 16" using assms unfolding clock_runs_def by blast+
  then have "1 \<le> int (unat ?x)" "int (unat ?x) < 65536" by (simp_all only: uint_nat) simp_all
  then have "1 \<le> unat ?x" "unat ?x \<le> 65535" by linarith+
  moreover have "v_jiffies (c_env W k v) = v_jiffies v + of_nat (unat ?x)" by simp
  ultimately show ?thesis by blast
qed

lemma drifts_look:
  assumes "clock_runs W"
  shows "drifts 1 (look W f)"
  unfolding drifts_def look_def Let_def
proof
  fix s
  show "\<exists>d \<le> 1 * 65535. v_jiffies (vol (snd (run_state (State (\<lambda>s. (f (c_env W (steps s) (vol s)),
      s\<lparr>vol := c_env W (steps s) (vol s), steps := Suc (steps s)\<rparr>))) s))) = v_jiffies (vol s) + of_nat d"
    using clock_runs_step [OF assms, of "steps s" "vol s"] by auto
qed

lemma drifts_viewport: "drifts 0 (if b then SET_32 a x else State_Monad.return ())"
  by (simp add: drifts_0)

lemma drifts_GET_CH:
  assumes "clock_runs W"
  shows "drifts 1 (GET_CH_32 W c r)"
proof -
  have "drifts (0 + 1) (GET_CH_32 W c r)"
    unfolding GET_CH_32_def GET_32_def by (rule drifts_bind [OF drifts_viewport drifts_look [OF assms]])
  then show ?thesis by simp
qed

lemma drifts_if: "drifts k m \<Longrightarrow> drifts k n \<Longrightarrow> drifts k (if b then m else n)"
  by simp

lemma drifts_poll:
  assumes "clock_runs W"
  shows "drifts 2 (poll_control W c)"
proof -
  have r: "drifts (1 + 0) (do { ctl \<leftarrow> GET_CH_32 W c CH_CONTROL1; State_Monad.return (g ctl) })" for g :: "u32 \<Rightarrow> int + u32"
    by (rule drifts_bind [OF drifts_GET_CH [OF assms] drifts_0(1)])
  have "drifts (1 + 1) (poll_control W c)"
    unfolding poll_control_def dx_dma_mmio_poll_allowed_def
    by (rule drifts_bind [OF drifts_look [OF assms]], rule drifts_if [OF drifts_0(1)]) (use r in simp)
  then show ?thesis by (simp add: numeral_2_eq_2)
qed

lemma drifts_leave:
  assumes "clock_runs W"
  shows "drifts 2 (leave_busy W c ctl)"
proof -
  have "drifts (1 + (0 + (0 + 0))) (ack_error W c)"
    unfolding ack_error_def GET_32_def dw_edma_v0_core_clear_abort_int_def dw_edma_v0_core_clear_done_int_def
    by (intro drifts_bind drifts_look [OF assms] drifts_0)
  then have a: "drifts 1 (ack_error W c)" by simp
  have "drifts (1 + 1 + 0) (do { dw_edma_v0_core_ch_recover_abort W c; State_Monad.return (- EIO) })"
    unfolding dw_edma_v0_core_ch_recover_abort_def
    by (rule drifts_bind [OF drifts_bind [OF drifts_GET_CH [OF assms] drifts_if [OF drifts_0(1) a]] drifts_0(1)])
  then have "drifts 2 (do { dw_edma_v0_core_ch_recover_abort W c; State_Monad.return (- EIO) })" by (simp add: numeral_2_eq_2)
  then show ?thesis unfolding leave_busy_def by (rule drifts_if [OF _ drifts_0(1)])
qed

text \<open>The round after its look at the clock.\<close>

definition round_rest :: "edma_cfg \<Rightarrow> chan_id \<Rightarrow> u64 \<Rightarrow> u64 \<Rightarrow> int option edma" where
  "round_rest W c timeout now =
     (if \<not> time_before now timeout then State_Monad.return (Some (- EBUSY))
      else do {
        r \<leftarrow> poll_control W c;
        case r of
          Inl e \<Rightarrow> State_Monad.return (Some e)
        | Inr ctl \<Rightarrow>
            if ctl AND (0x20 OR 0x40) \<noteq> 0x20 then do { e \<leftarrow> leave_busy W c ctl; State_Monad.return (Some e) }
            else do { look W (\<lambda>v. ()); State_Monad.return None } })"

lemma drifts_case_sum: "(\<And>y. drifts k (f y)) \<Longrightarrow> (\<And>y. drifts k (g y)) \<Longrightarrow> drifts k (case_sum f g x)"
  by (cases x) simp_all

lemma drifts_rest:
  assumes "clock_runs W"
  shows "drifts 4 (round_rest W c timeout now)"
proof -
  have "drifts (1 + 0) (do { look W (\<lambda>v. ()); State_Monad.return (None :: int option) })"
    by (intro drifts_bind drifts_look [OF assms] drifts_0(1))
  then have l: "drifts 2 (do { look W (\<lambda>v. ()); State_Monad.return (None :: int option) })" by (rule drifts_mono) simp
  have "drifts (2 + 0) (do { e \<leftarrow> leave_busy W c ctl; State_Monad.return (Some e) })" for ctl
    by (intro drifts_bind drifts_leave [OF assms] drifts_0(1))
  then have v: "drifts 2 (do { e \<leftarrow> leave_busy W c ctl; State_Monad.return (Some e) })" for ctl by simp
  have "drifts (2 + 2) (round_rest W c timeout now)"
    unfolding round_rest_def by (intro drifts_if drifts_bind drifts_poll [OF assms] drifts_case_sum drifts_0(1) l v)
  then show ?thesis by simp
qed

definition round_clock :: "edma_cfg \<Rightarrow> edma_dev \<Rightarrow> u64" where
  "round_clock W s = v_jiffies (c_env W (steps s) (vol s))"

definition round_verdict :: "edma_cfg \<Rightarrow> chan_id \<Rightarrow> u64 \<Rightarrow> edma_dev \<Rightarrow> (int \<times> edma_dev) option" where
  "round_verdict W c timeout s = (case run_state (busy_round W c timeout) s of (Some e, t) \<Rightarrow> Some (e, t) | (None, t) \<Rightarrow> None)"

definition round_step :: "edma_cfg \<Rightarrow> chan_id \<Rightarrow> u64 \<Rightarrow> edma_dev \<Rightarrow> edma_dev" where
  "round_step W c timeout s = snd (run_state (busy_round W c timeout) s)"

lemma round_unfold:
  "run_state (busy_round W c timeout) s =
     run_state (round_rest W c timeout (round_clock W s)) (s\<lparr>vol := c_env W (steps s) (vol s), steps := Suc (steps s)\<rparr>)"
  by (simp add: busy_round_def round_rest_def look_def Let_def round_clock_def)

interpretation idle_wait: deadline_loop "busy_wait W c timeout" "round_step W c timeout" "round_verdict W c timeout"
    "round_clock W" timeout
  for W c timeout
proof
  show "busy_wait W c timeout s = (case round_verdict W c timeout s of None \<Rightarrow> busy_wait W c timeout (round_step W c timeout s)
      | Some r \<Rightarrow> Some r)" for s
    by (subst busy_wait.simps) (auto simp: round_verdict_def round_step_def split: prod.split option.split)
next
  show "round_verdict W c timeout s \<noteq> None" if "time_after_eq (round_clock W s) timeout" for s
    using that unfolding round_verdict_def round_unfold
    by (simp add: round_rest_def time_before_def time_after_def time_after_eq_def)
qed

lemma round_clock_moves:
  assumes "clock_runs W"
  shows "1 \<le> uint (round_clock W (round_step W c timeout s) - round_clock W s) \<and>
    uint (round_clock W (round_step W c timeout s) - round_clock W s) < 2 ^ 32"
proof -
  let ?s = "s\<lparr>vol := c_env W (steps s) (vol s), steps := Suc (steps s)\<rparr>" and ?t = "round_step W c timeout s"
  obtain d where d: "d \<le> 4 * 65535" "v_jiffies (vol ?t) = v_jiffies (vol ?s) + of_nat d"
    using drifts_rest [OF assms, of c timeout "round_clock W s"] unfolding drifts_def round_step_def round_unfold by blast
  obtain e where e: "1 \<le> e" "e \<le> 65535" "v_jiffies (c_env W (steps ?t) (vol ?t)) = v_jiffies (vol ?t) + of_nat e"
    using clock_runs_step [OF assms] by blast
  have eq: "round_clock W ?t - round_clock W s = of_nat (d + e)" using d(2) e(3) by (simp add: round_clock_def)
  have "d + e < 2 ^ LENGTH(64)" using d(1) e(2) by simp
  then have "unat (of_nat (d + e) :: u64) = d + e" by (simp only: unat_of_nat mod_less)
  then have "uint (round_clock W ?t - round_clock W s) = int (d + e)" unfolding eq uint_nat by (rule arg_cong)
  then show ?thesis using d(1) e(1,2) by simp
qed

lemma wait_idle_returns:
  assumes "clock_runs W"
  shows "fst (run_state (dw_edma_v0_core_wait_channel_idle W c) s) \<noteq> None"
proof -
  have "\<exists>p. busy_wait W c T s = Some p" for T s
    using idle_wait.terminates [where W = W and c = c and timeout = T and s = s] round_clock_moves [OF assms] by blast
  then show ?thesis
    unfolding dw_edma_v0_core_wait_channel_idle_def
    by (auto split: prod.splits sum.splits option.splits) (metis option.distinct(1))+
qed

section \<open>Properties\<close>


text \<open>A device on which nothing but the clock moves, with an empty table to prepare.\<close>

definition example_engine_cfg :: edma_cfg where
  "example_engine_cfg = \<lparr>c_env = (\<lambda>_ v. v\<lparr>v_jiffies := v_jiffies v + 1\<rparr>), c_legacy = False, c_wr_cnt = 4, c_rd_cnt = 4,
     c_atomic = False, c_idle_jiffies = 100\<rparr>"

definition example_engine :: edma_dev where
  "example_engine = \<lparr>vol = \<lparr>v_regs = (\<lambda>_. 0), v_allowed = True, v_hw_err = (\<lambda>_. False), v_aborted = (\<lambda>_. False),
       v_started = (\<lambda>_. False), v_start_jiffies = (\<lambda>_. 0), v_busy = (\<lambda>_. False), v_cancelled = False,
       v_lock_taken = (\<lambda>_. False), v_in_use = (\<lambda>_. False), v_jiffies = 7, v_toggle = 0\<rparr>,
     host = (\<lambda>_. 0), emem = example_pools, trace = [], steps = 0, held = []\<rparr>"

definition example_chunk :: dw_edma_chunk where
  "example_chunk = \<lparr>c_ref = None, burst = None, burst_list = [], bursts_alloc = 0, cb = True,
     ll_region = \<lparr>r_paddr = 0x100001000, r_vaddr = Some 0, r_sz = 4096\<rparr>,
     host_region = \<lparr>r_paddr = 0x2000, r_vaddr = Some 8192, r_sz = 4096\<rparr>\<rparr>"




end
