(* ===== verification/Dx_Vchan.thy ===== *)
theory Dx_Vchan
  imports Dx_Prelude
begin

text \<open>
  Virtual DMA channels: \<^verbatim>\<open>pci_deepx/virt-dma.c\<close>, \<^verbatim>\<open>include/virt-dma.h\<close> and the cookies of
  \<^verbatim>\<open>include/dmaengine.h\<close>.  A descriptor goes from the list of the allocated ones over the submitted and
  the issued ones to the completed ones, where a tasklet calls it back and frees it.  The model is that of
  kernels from 5.10; descriptors are known by an identity of any type.
\<close>

section \<open>The channel\<close>

text \<open>
  The five lists, the descriptor of a running cyclic transfer, the cookies (\<open>dma_cookie_t\<close>, signed),
  and whether the tasklet is scheduled.  \<open>called\<close> and \<open>freed\<close> record the calls of callbacks and of \<open>desc_free\<close>.
\<close>

record 'd vchan =
  desc_allocated :: "'d list"
  desc_submitted :: "'d list"
  desc_issued :: "'d list"
  desc_completed :: "'d list"
  desc_terminated :: "'d list"
  cyclic :: "'d option"
  chan_cookie :: u32
  completed_cookie :: u32
  tx_cookie :: "'d \<Rightarrow> u32"
  tx_reuse :: "'d \<Rightarrow> bool"
  task_scheduled :: bool
  called :: "'d list"
  freed :: "'d list"

abbreviation (input) DMA_MIN_COOKIE :: u32 where "DMA_MIN_COOKIE \<equiv> 1"

definition dma_cookie_init :: "'d vchan \<Rightarrow> 'd vchan" where
  "dma_cookie_init v = v\<lparr>chan_cookie := DMA_MIN_COOKIE, completed_cookie := DMA_MIN_COOKIE\<rparr>"

definition dma_cookie_assign :: "'d \<Rightarrow> 'd vchan \<Rightarrow> u32 \<times> 'd vchan" where
  "dma_cookie_assign d v =
     (let c = chan_cookie v + 1; c = (if sint c < sint DMA_MIN_COOKIE then DMA_MIN_COOKIE else c)
      in (c, v\<lparr>chan_cookie := c, tx_cookie := (tx_cookie v)(d := c)\<rparr>))"

definition dma_cookie_complete :: "'d \<Rightarrow> 'd vchan \<Rightarrow> 'd vchan" where
  "dma_cookie_complete d v = v\<lparr>completed_cookie := tx_cookie v d, tx_cookie := (tx_cookie v)(d := 0)\<rparr>"

text \<open>
  \<open>is_complete\<close> is \<open>dma_async_is_complete\<close> of the kernel.  The state is the last completed and the last used cookie.
\<close>

definition dma_cookie_status :: "(u32 \<Rightarrow> u32 \<Rightarrow> u32 \<Rightarrow> 'r) \<Rightarrow> u32 \<Rightarrow> 'd vchan \<Rightarrow> 'r \<times> (u32 \<times> u32)" where
  "dma_cookie_status is_complete cookie v =
     (is_complete cookie (completed_cookie v) (chan_cookie v), (completed_cookie v, chan_cookie v))"

definition vchan_init :: "'d vchan \<Rightarrow> 'd vchan" where
  "vchan_init v = (dma_cookie_init v)\<lparr>desc_allocated := [], desc_submitted := [], desc_issued := [],
     desc_completed := [], desc_terminated := [], task_scheduled := False\<rparr>"

text \<open>A node is taken out of whatever list it is on.\<close>

definition unlink :: "'d \<Rightarrow> 'd vchan \<Rightarrow> 'd vchan" where
  "unlink d v = v\<lparr>desc_allocated := removeAll d (desc_allocated v), desc_submitted := removeAll d (desc_submitted v),
     desc_issued := removeAll d (desc_issued v), desc_completed := removeAll d (desc_completed v),
     desc_terminated := removeAll d (desc_terminated v)\<rparr>"

definition vchan_tx_prep :: "'d \<Rightarrow> bool \<Rightarrow> 'd vchan \<Rightarrow> 'd vchan" where
  "vchan_tx_prep d reuse v = v\<lparr>tx_reuse := (tx_reuse v)(d := reuse), desc_allocated := desc_allocated v @ [d]\<rparr>"

definition vchan_tx_submit :: "'d \<Rightarrow> 'd vchan \<Rightarrow> u32 \<times> 'd vchan" where
  "vchan_tx_submit d v =
     (let (c, v1) = dma_cookie_assign d v; v2 = unlink d v1
      in (c, v2\<lparr>desc_submitted := desc_submitted v2 @ [d]\<rparr>))"

definition vchan_tx_desc_free :: "'d \<Rightarrow> 'd vchan \<Rightarrow> int \<times> 'd vchan" where
  "vchan_tx_desc_free d v = (0, (unlink d v)\<lparr>freed := freed v @ [d]\<rparr>)"

text \<open>The copy for kernels that bring the rest of the channels along, in \<^verbatim>\<open>dx_vchan_ext.c\<close>.\<close>

definition vchan_tx_desc_free_ext :: "'d \<Rightarrow> 'd vchan \<Rightarrow> int \<times> 'd vchan" where
  "vchan_tx_desc_free_ext d v = (1, (unlink d v)\<lparr>freed := freed v @ [d]\<rparr>)"

definition vchan_find_desc :: "u32 \<Rightarrow> 'd vchan \<Rightarrow> 'd option" where
  "vchan_find_desc cookie v = find (\<lambda>d. tx_cookie v d = cookie) (desc_issued v)"

definition vchan_issue_pending :: "'d vchan \<Rightarrow> bool \<times> 'd vchan" where
  "vchan_issue_pending v =
     (let v1 = v\<lparr>desc_issued := desc_issued v @ desc_submitted v, desc_submitted := []\<rparr>
      in (desc_issued v1 \<noteq> [], v1))"

text \<open>Callers take the descriptor out of its list first.\<close>

definition vchan_cookie_complete :: "'d \<Rightarrow> 'd vchan \<Rightarrow> 'd vchan" where
  "vchan_cookie_complete d v =
     (let v1 = dma_cookie_complete d v
      in v1\<lparr>desc_completed := desc_completed v1 @ [d], task_scheduled := True\<rparr>)"

definition vchan_vdesc_fini :: "'d \<Rightarrow> 'd vchan \<Rightarrow> 'd vchan" where
  "vchan_vdesc_fini d v =
     (if tx_reuse v d then v\<lparr>desc_allocated := d # desc_allocated v\<rparr> else v\<lparr>freed := freed v @ [d]\<rparr>)"

definition vchan_cyclic_callback :: "'d \<Rightarrow> 'd vchan \<Rightarrow> 'd vchan" where
  "vchan_cyclic_callback d v = v\<lparr>cyclic := Some d, task_scheduled := True\<rparr>"

definition vchan_terminate_vdesc :: "'d \<Rightarrow> 'd vchan \<Rightarrow> 'd vchan" where
  "vchan_terminate_vdesc d v =
     v\<lparr>desc_terminated := desc_terminated v @ [d], cyclic := (if cyclic v = Some d then None else cyclic v)\<rparr>"

definition vchan_next_desc :: "'d vchan \<Rightarrow> 'd option" where
  "vchan_next_desc v = (case desc_issued v of [] \<Rightarrow> None | d # ds \<Rightarrow> Some d)"

definition all_descs :: "'d vchan \<Rightarrow> 'd list" where
  "all_descs v = desc_allocated v @ desc_submitted v @ desc_issued v @ desc_completed v @ desc_terminated v"

definition vchan_get_all_descriptors :: "'d list \<Rightarrow> 'd vchan \<Rightarrow> 'd list \<times> 'd vchan" where
  "vchan_get_all_descriptors head v =
     (head @ all_descs v,
      v\<lparr>desc_allocated := [], desc_submitted := [], desc_issued := [], desc_completed := [], desc_terminated := []\<rparr>)"

definition vchan_dma_desc_free_list :: "'d list \<Rightarrow> 'd vchan \<Rightarrow> 'd vchan" where
  "vchan_dma_desc_free_list head v = fold vchan_vdesc_fini head v"

definition vchan_free_chan_resources :: "'d vchan \<Rightarrow> 'd vchan" where
  "vchan_free_chan_resources v =
     (let (head, v1) = vchan_get_all_descriptors [] v
      in vchan_dma_desc_free_list head (v1\<lparr>tx_reuse := (\<lambda>d. d \<notin> set head \<and> tx_reuse v1 d)\<rparr>))"

text \<open>The tasklet: first the completed descriptors are taken under the lock, then each is called back and let go.\<close>

definition complete_take :: "'d vchan \<Rightarrow> 'd list \<times> 'd vchan" where
  "complete_take v =
     (desc_completed v,
      v\<lparr>desc_completed := [], cyclic := None, task_scheduled := False,
        called := called v @ (case cyclic v of None \<Rightarrow> [] | Some d \<Rightarrow> [d])\<rparr>)"

definition complete_one :: "'d \<Rightarrow> 'd vchan \<Rightarrow> 'd vchan" where
  "complete_one d v = vchan_vdesc_fini d (v\<lparr>called := called v @ [d]\<rparr>)"

definition vchan_complete :: "'d vchan \<Rightarrow> 'd vchan" where
  "vchan_complete v = (let (head, v1) = complete_take v in fold complete_one head v1)"

text \<open>Killing the tasklet lets a scheduled one run to its end.\<close>

definition vchan_synchronize :: "'d vchan \<Rightarrow> 'd vchan" where
  "vchan_synchronize v =
     (let v1 = (if task_scheduled v then vchan_complete v else v);
          head = desc_terminated v1
      in vchan_dma_desc_free_list head (v1\<lparr>desc_terminated := []\<rparr>))"

section \<open>Order\<close>

text \<open>
  A client and the driver below it, as steps on the channel, the descriptors that the tasklet has taken and the
  log of what was submitted.  The driver completes the head of the issued list, which is the one it works on.
\<close>

record 'd vrun =
  vch :: "'d vchan"
  taken :: "'d list"
  sublog :: "'d list"

inductive vstep :: "'d vrun \<Rightarrow> 'd vrun \<Rightarrow> bool" where
  prep: "d \<notin> set (all_descs (vch s)) \<Longrightarrow> d \<notin> set (taken s) \<Longrightarrow> vstep s (s\<lparr>vch := vchan_tx_prep d reuse (vch s)\<rparr>)"
| submit: "d \<in> set (desc_allocated (vch s)) \<Longrightarrow>
    vstep s (s\<lparr>vch := snd (vchan_tx_submit d (vch s)), sublog := sublog s @ [d]\<rparr>)"
| issue: "vstep s (s\<lparr>vch := snd (vchan_issue_pending (vch s))\<rparr>)"
| finish: "vchan_next_desc (vch s) = Some d \<Longrightarrow> vstep s (s\<lparr>vch := vchan_cookie_complete d (unlink d (vch s))\<rparr>)"
| tasklet: "task_scheduled (vch s) \<Longrightarrow> taken s = [] \<Longrightarrow>
    vstep s (s\<lparr>vch := snd (complete_take (vch s)), taken := fst (complete_take (vch s))\<rparr>)"
| deliver: "taken s = d # ds \<Longrightarrow> vstep s (s\<lparr>vch := complete_one d (vch s), taken := ds\<rparr>)"
| drop: "d \<in> set (desc_allocated (vch s)) \<Longrightarrow> vstep s (s\<lparr>vch := snd (vchan_tx_desc_free d (vch s))\<rparr>)"

inductive_cases vstep_cases: "vstep s t"

definition vrun_ok :: "'d vrun \<Rightarrow> bool" where
  "vrun_ok s \<longleftrightarrow> distinct (all_descs (vch s) @ taken s) \<and> cyclic (vch s) = None \<and> desc_terminated (vch s) = [] \<and>
     (desc_completed (vch s) \<noteq> [] \<longrightarrow> task_scheduled (vch s)) \<and>
     sublog s = called (vch s) @ taken s @ desc_completed (vch s) @ desc_issued (vch s) @ desc_submitted (vch s)"

lemma removeAll_id [simp]: "d \<notin> set xs \<Longrightarrow> removeAll d xs = xs"
  by (induction xs) auto

text \<open>The lists after each operation.\<close>

lemma submit_fields:
  assumes "distinct (all_descs v)" "d \<in> set (desc_allocated v)" "snd (vchan_tx_submit d v) = w"
  shows "desc_allocated w = removeAll d (desc_allocated v)" "desc_submitted w = desc_submitted v @ [d]"
    "desc_issued w = desc_issued v" "desc_completed w = desc_completed v" "desc_terminated w = desc_terminated v"
    "cyclic w = cyclic v" "called w = called v" "task_scheduled w = task_scheduled v"
proof -
  have out: "d \<notin> set (desc_submitted v)" "d \<notin> set (desc_issued v)" "d \<notin> set (desc_completed v)" "d \<notin> set (desc_terminated v)"
    using assms(1,2) by (auto simp: all_descs_def)
  have w: "w = snd (vchan_tx_submit d v)" using assms(3) by simp
  show "desc_allocated w = removeAll d (desc_allocated v)" "desc_submitted w = desc_submitted v @ [d]"
    "desc_issued w = desc_issued v" "desc_completed w = desc_completed v" "desc_terminated w = desc_terminated v"
    "cyclic w = cyclic v" "called w = called v" "task_scheduled w = task_scheduled v"
    unfolding w using out by (simp_all add: vchan_tx_submit_def dma_cookie_assign_def unlink_def Let_def)
qed

lemma finish_fields:
  assumes "distinct (all_descs v)" "desc_issued v = d # ds" "vchan_cookie_complete d (unlink d v) = w"
  shows "desc_allocated w = desc_allocated v" "desc_submitted w = desc_submitted v" "desc_issued w = ds"
    "desc_completed w = desc_completed v @ [d]" "desc_terminated w = desc_terminated v"
    "cyclic w = cyclic v" "called w = called v" "task_scheduled w"
proof -
  have out: "d \<notin> set (desc_submitted v)" "d \<notin> set ds" "d \<notin> set (desc_completed v)" "d \<notin> set (desc_terminated v)"
      "d \<notin> set (desc_allocated v)"
    using assms(1,2) by (auto simp: all_descs_def)
  have w: "w = vchan_cookie_complete d (unlink d v)" using assms(3) by simp
  show "desc_allocated w = desc_allocated v" "desc_submitted w = desc_submitted v" "desc_issued w = ds"
    "desc_completed w = desc_completed v @ [d]" "desc_terminated w = desc_terminated v"
    "cyclic w = cyclic v" "called w = called v" "task_scheduled w"
    unfolding w using out assms(2) by (simp_all add: vchan_cookie_complete_def dma_cookie_complete_def unlink_def Let_def)
qed

lemma free_fields:
  assumes "distinct (all_descs v)" "d \<in> set (desc_allocated v)"
  shows "snd (vchan_tx_desc_free d v) = v\<lparr>desc_allocated := removeAll d (desc_allocated v), freed := freed v @ [d]\<rparr>"
proof -
  have "d \<notin> set (desc_submitted v)" "d \<notin> set (desc_issued v)" "d \<notin> set (desc_completed v)" "d \<notin> set (desc_terminated v)"
    using assms by (auto simp: all_descs_def)
  then show ?thesis by (simp add: vchan_tx_desc_free_def unlink_def)
qed

lemma vstep_ok:
  assumes "vstep s t" "vrun_ok s"
  shows "vrun_ok t"
  using assms(1)
proof cases
  case (prep d reuse)
  then show ?thesis using assms(2) by (simp add: vrun_ok_def all_descs_def vchan_tx_prep_def) blast
next
  case (submit d)
  have "distinct (all_descs (vch s))" using assms(2) by (simp add: vrun_ok_def)
  note f = submit_fields [OF this submit(2) refl]
  show ?thesis using assms(2) submit f unfolding vrun_ok_def all_descs_def by (auto simp: distinct_removeAll)
next
  case issue
  then show ?thesis using assms(2) by (simp add: vrun_ok_def all_descs_def vchan_issue_pending_def Let_def) blast
next
  case (finish d)
  then obtain ds where d: "desc_issued (vch s) = d # ds" by (auto simp: vchan_next_desc_def split: list.splits)
  have "distinct (all_descs (vch s))" using assms(2) by (simp add: vrun_ok_def)
  note f = finish_fields [OF this d refl]
  show ?thesis using assms(2) finish(1) d f unfolding vrun_ok_def all_descs_def by auto
next
  case tasklet
  then show ?thesis using assms(2) by (simp add: vrun_ok_def all_descs_def complete_take_def) blast
next
  case (deliver d ds)
  then show ?thesis using assms(2) by (simp add: vrun_ok_def all_descs_def complete_one_def vchan_vdesc_fini_def) blast
next
  case (drop d)
  have "distinct (all_descs (vch s))" using assms(2) by (simp add: vrun_ok_def)
  from free_fields [OF this drop(2)] show ?thesis
    using assms(2) drop(1) unfolding vrun_ok_def all_descs_def by (auto simp: distinct_removeAll)
qed

section \<open>Tearing down\<close>

lemma fold_fini_free:
  "(\<And>d. d \<in> set ds \<Longrightarrow> \<not> tx_reuse v d) \<Longrightarrow> fold vchan_vdesc_fini ds v = v\<lparr>freed := freed v @ ds\<rparr>"
proof (induction ds arbitrary: v)
  case (Cons d ds)
  have "fold vchan_vdesc_fini ds (v\<lparr>freed := freed v @ [d]\<rparr>) = v\<lparr>freed := freed v @ d # ds\<rparr>"
    by (subst Cons.IH) (use Cons.prems in simp_all)
  moreover have "vchan_vdesc_fini d v = v\<lparr>freed := freed v @ [d]\<rparr>"
    using Cons.prems by (simp add: vchan_vdesc_fini_def)
  ultimately show ?case by simp
qed simp

text \<open>Releasing a channel frees every descriptor on its lists, the reusable ones too, once and in order.\<close>

lemma release_frees_all:
  "freed (vchan_free_chan_resources v) = freed v @ all_descs v" "all_descs (vchan_free_chan_resources v) = []"
  by (simp_all add: vchan_free_chan_resources_def vchan_get_all_descriptors_def vchan_dma_desc_free_list_def Let_def
      fold_fini_free all_descs_def)

section \<open>Properties\<close>

definition vstart :: "'d vchan \<Rightarrow> 'd vrun" where
  "vstart v = \<lparr>vch = (vchan_init v)\<lparr>cyclic := None, called := []\<rparr>, taken = [], sublog = []\<rparr>"


text \<open>One descriptor from its preparation to its callback.\<close>

definition empty_vchan :: "nat vchan" where
  "empty_vchan = \<lparr>desc_allocated = [], desc_submitted = [], desc_issued = [], desc_completed = [], desc_terminated = [],
     cyclic = None, chan_cookie = 0, completed_cookie = 0, tx_cookie = (\<lambda>_. 0), tx_reuse = (\<lambda>_. False),
     task_scheduled = False, called = [], freed = []\<rparr>"


end
