(* ===== verification/Dx_EdmaChan.thy ===== *)
theory Dx_EdmaChan
  imports Dx_EdmaV0 Dx_Vchan
begin

text \<open>
  The engine of one DMA channel: the second half of \<^verbatim>\<open>pci_deepx/dw-edma-core.c\<close>.  Client calls, the
  interrupt handlers and three work items share the channel under \<open>vc.lock\<close>; the model has one function for
  each section of code under the lock, or between two such sections, so that an interleaving of
  threads is a sequence of these functions.  What a section reads of the device (the state of the channel, whether
  the link allows a launch, the result of a copy) is an argument.
\<close>

section \<open>The channel\<close>

datatype dw_edma_request = EDMA_REQ_NONE | EDMA_REQ_STOP | EDMA_REQ_PAUSE
datatype dw_edma_status = EDMA_ST_IDLE | EDMA_ST_PAUSE | EDMA_ST_BUSY

text \<open>
  Where a work item is between two sections, with the local variables that it still needs.  A chunk that is linked in its
  descriptor is known by its reference; the plan of a refill is a position in the list and a sum.
\<close>

datatype launch_pc = L_off | L_taken ref ref bool | L_prepared ref ref int

datatype lazy_pc = Z_off | Z_claimed dw_edma_chunk | Z_prepared dw_edma_chunk int "sg_cursor \<times> u32"

datatype shadow_pc =
    S_off | S_fill dw_edma_chunk | S_built dw_edma_chunk "dw_edma_chunk option" | S_ready dw_edma_chunk
  | S_steal dw_edma_chunk | S_stolen dw_edma_chunk | S_recheck dw_edma_chunk
  | S_copy dw_edma_chunk "dw_edma_chunk option" | S_swap dw_edma_chunk "dw_edma_chunk option" | S_giveup

text \<open>
  \<open>x_pending\<close> is \<open>pending_launch_chunk\<close> with the descriptor it belongs to; \<open>_q\<close>: the work item is queued; \<open>x_wq\<close>:
  the work queue exists; \<open>x_bells\<close> records every doorbell for data, with the value that \<open>xfer_started\<close> had.
\<close>

record dchan =
  x_base :: dw_edma_chan
  x_llm :: bool
  x_vc :: "ref vchan"
  x_desc :: "ref \<Rightarrow> dw_edma_desc"
  x_mem :: edma_mem
  x_host :: mmio
  x_conf :: bool
  x_req :: dw_edma_request
  x_stat :: dw_edma_status
  x_aborted :: bool
  x_hw_err :: bool
  x_started :: bool
  x_pending :: "(ref \<times> ref) option"
  x_first :: bool
  x_launch_q :: bool
  x_launch :: launch_pc
  x_shadow_q :: "ref \<Rightarrow> bool"
  x_shadow :: "ref \<Rightarrow> shadow_pc"
  x_lazy_q :: "ref \<Rightarrow> bool"
  x_lazy :: "ref \<Rightarrow> lazy_pc"
  x_down :: bool
  x_wq :: bool
  x_bells :: "(ref \<times> dw_edma_chunk \<times> bool) list"

definition upd_desc :: "ref \<Rightarrow> (dw_edma_desc \<Rightarrow> dw_edma_desc) \<Rightarrow> dchan \<Rightarrow> dchan" where
  "upd_desc d f s = s\<lparr>x_desc := (x_desc s)(d := f (x_desc s d))\<rparr>"

definition complete_desc :: "ref \<Rightarrow> dchan \<Rightarrow> dchan" where
  "complete_desc d s = s\<lparr>x_vc := vchan_cookie_complete d (unlink d (x_vc s))\<rparr>"

definition bell :: "ref \<Rightarrow> dw_edma_chunk \<Rightarrow> dchan \<Rightarrow> dchan" where
  "bell d c s = s\<lparr>x_started := True, x_bells := x_bells s @ [(d, c, x_started s)]\<rparr>"

section \<open>Starting a chunk\<close>

text \<open>Every chunk that is linked has a reference, so the last of the three tests for an unusable chunk stands for none of the code.\<close>

definition dw_edma_start_transfer :: "dchan \<Rightarrow> dchan" where
  "dw_edma_start_transfer s =
     (if x_down s \<or> \<not> x_wq s then s\<lparr>x_hw_err := True, x_stat := EDMA_ST_IDLE\<rparr>
      else case vchan_next_desc (x_vc s) of
        None \<Rightarrow> s
      | Some d \<Rightarrow>
          (case chunk_list (x_desc s d) of
             [] \<Rightarrow> complete_desc d (s\<lparr>x_aborted := True, x_stat := EDMA_ST_IDLE\<rparr>)
           | c # cs \<Rightarrow>
               if burst c = None \<or> burst_list c = [] \<or> c_ref c = None
               then complete_desc d (s\<lparr>x_aborted := True, x_stat := EDMA_ST_IDLE\<rparr>)
               else s\<lparr>x_pending := Some (d, the (c_ref c)), x_first := (xfer_sz (x_desc s d) = 0), x_launch_q := True\<rparr>))"

text \<open>The launch worker.  \<open>allowed\<close> is the answer of \<open>dw_edma_shadow_launch_allowed\<close>.\<close>

definition launch_refused :: "bool \<Rightarrow> dchan \<Rightarrow> bool" where
  "launch_refused allowed s \<longleftrightarrow>
     \<not> allowed \<or> x_aborted s \<or> x_hw_err s \<or> x_req s = EDMA_REQ_STOP \<or> x_stat s \<noteq> EDMA_ST_BUSY"

definition launch_take :: "bool \<Rightarrow> dchan \<Rightarrow> dchan" where
  "launch_take allowed s =
     (let s1 = s\<lparr>x_launch_q := False, x_pending := None\<rparr> in
      case x_pending s of
        None \<Rightarrow> s1
      | Some (d, r) \<Rightarrow> if launch_refused allowed s then s1 else s1\<lparr>x_launch := L_taken d r (x_first s)\<rparr>)"

text \<open>
  The preparation outside the lock: \<open>idle\<close> is the result of the wait for the channel and \<open>copied\<close> that of the
  copy of the table; in between the table is written.
\<close>

definition prepare_outcome ::
  "bool \<Rightarrow> int \<Rightarrow> int \<Rightarrow> dw_edma_dir \<Rightarrow> dw_edma_chunk \<Rightarrow> edma_mem \<Rightarrow> mmio \<Rightarrow> int \<times> dw_edma_chunk \<times> edma_mem \<times> mmio" where
  "prepare_outcome llm idle copied dir c m h =
     (if idle \<noteq> 0 then (idle, c, m, h)
      else if \<not> llm then (0, c, m, h)
      else case dw_edma_v0_core_write_chunk dir c m h of
        (r, c1, m1, h1) \<Rightarrow> if r \<noteq> 0 then (r, c1, m1, h1) else (copied, c1, m1, h1))"

definition prepare_hw_err :: "int \<Rightarrow> int \<Rightarrow> bool" where
  "prepare_hw_err idle ret \<longleftrightarrow> idle \<noteq> 0 \<or> (ret \<noteq> 0 \<and> ret \<noteq> - EBUSY)"

definition launch_prepare :: "int \<Rightarrow> int \<Rightarrow> dchan \<Rightarrow> dchan" where
  "launch_prepare idle copied s =
     (case x_launch s of
        L_taken d r first \<Rightarrow>
          (case find (\<lambda>c. c_ref c = Some r) (chunk_list (x_desc s d)) of
             None \<Rightarrow> s\<lparr>x_launch := L_prepared d r (- EINVAL)\<rparr>
           | Some c \<Rightarrow>
               (case prepare_outcome (x_llm s) idle copied (ch_dir (x_base s)) c (x_mem s) (x_host s) of
                  (ret, c1, m, h) \<Rightarrow>
                    (upd_desc d (\<lambda>D. D\<lparr>chunk_list := map (\<lambda>b. if c_ref b = Some r then c1 else b) (chunk_list D)\<rparr>) s)
                      \<lparr>x_mem := m, x_host := h, x_hw_err := (x_hw_err s \<or> prepare_hw_err idle ret), x_launch := L_prepared d r ret\<rparr>))
      | _ \<Rightarrow> s)"

definition launch_finish :: "bool \<Rightarrow> dchan \<Rightarrow> dchan" where
  "launch_finish allowed s =
     (case x_launch s of
        L_prepared d r ret \<Rightarrow>
          let s1 = s\<lparr>x_launch := L_off\<rparr> in
          if ret \<noteq> 0 then (if ret = - EBUSY then s1\<lparr>x_hw_err := True\<rparr> else s1)
          else if launch_refused allowed s then s1
          else (case vchan_next_desc (x_vc s) of
            None \<Rightarrow> s1\<lparr>x_hw_err := True\<rparr>
          | Some e \<Rightarrow>
              (case chunk_list (x_desc s e) of
                 [] \<Rightarrow> s1\<lparr>x_hw_err := True\<rparr>
               | c # cs \<Rightarrow>
                   if c_ref c \<noteq> Some r then s1\<lparr>x_hw_err := True\<rparr>
                   else
                     let s2 = bell e c s1 in
                     if lazy_mode (x_desc s e) \<and> sh_state (x_desc s e) = SHADOW_BUILDING then
                       (if x_wq s then s2\<lparr>x_shadow_q := (x_shadow_q s2)(e := True)\<rparr>
                        else (upd_desc e (\<lambda>D. D\<lparr>lazy_mode := False, sh_state := SHADOW_IDLE\<rparr>) s2)\<lparr>x_hw_err := True\<rparr>)
                     else s2))
      | _ \<Rightarrow> s)"

section \<open>Completion\<close>

definition lazy_error :: "ref \<Rightarrow> dchan \<Rightarrow> dchan" where
  "lazy_error d s = (upd_desc d (\<lambda>D. D\<lparr>lazy_mode := False\<rparr>) s)\<lparr>x_hw_err := True\<rparr>"

definition cancelled :: "shadow_state \<Rightarrow> shadow_state" where
  "cancelled st = (if st = SHADOW_BUILDING \<or> st = SHADOW_ISR_PENDING \<or> st = SHADOW_READY then SHADOW_CANCELLED else st)"

definition dw_edma_defer_lazy_done_locked :: "ref \<Rightarrow> dchan \<Rightarrow> bool \<times> dchan" where
  "dw_edma_defer_lazy_done_locked d s =
     (let D = x_desc s d in
      if \<not> lazy_mode D then (False, s)
      else if x_req s = EDMA_REQ_STOP
      then (False, upd_desc d (\<lambda>D. D\<lparr>sh_state := cancelled (sh_state D), lazy_mode := False\<rparr>) s)
      else case sh_state D of
        SHADOW_READY \<Rightarrow> (True, let s1 = upd_desc d (\<lambda>D. D\<lparr>sh_state := SHADOW_ISR_PENDING\<rparr>) s
           in if x_wq s then s1\<lparr>x_shadow_q := (x_shadow_q s1)(d := True)\<rparr> else lazy_error d s1)
      | SHADOW_BUILDING \<Rightarrow> (True, let s1 = upd_desc d (\<lambda>D. D\<lparr>sh_state := SHADOW_ISR_PENDING\<rparr>) s
           in if x_wq s then s1\<lparr>x_shadow_q := (x_shadow_q s1)(d := True)\<rparr> else lazy_error d s1)
      | SHADOW_IDLE \<Rightarrow>
          if 0 < sg_remaining D
          then (True, let s1 = upd_desc d (\<lambda>D. D\<lparr>lz_state := LAZY_REFILL_PENDING\<rparr>) s
             in if lazy_work_initialized D \<and> x_wq s then s1\<lparr>x_lazy_q := (x_lazy_q s1)(d := True)\<rparr> else lazy_error d s1)
          else (False, s)
      | _ \<Rightarrow> (False, (upd_desc d (\<lambda>D. D\<lparr>lazy_mode := False\<rparr>) s)\<lparr>x_aborted := True\<rparr>))"

text \<open>What is left when the chunk has been taken out of its descriptor.\<close>

definition settle_request :: "ref \<Rightarrow> dchan \<Rightarrow> dchan" where
  "settle_request d s =
     (case x_req s of
        EDMA_REQ_NONE \<Rightarrow>
          if chunks_alloc (x_desc s d) \<noteq> 0 then dw_edma_start_transfer (s\<lparr>x_stat := EDMA_ST_BUSY\<rparr>)
          else (complete_desc d s)\<lparr>x_stat := EDMA_ST_IDLE\<rparr>
      | EDMA_REQ_STOP \<Rightarrow>
          (complete_desc d (upd_desc d (\<lambda>D. D\<lparr>sh_state :=
              (if sh_state D = SHADOW_BUILDING \<or> sh_state D = SHADOW_ISR_PENDING then SHADOW_CANCELLED
               else if sh_state D = SHADOW_READY then SHADOW_IDLE else sh_state D)\<rparr>) s))
            \<lparr>x_req := EDMA_REQ_NONE, x_stat := EDMA_ST_IDLE\<rparr>
      | EDMA_REQ_PAUSE \<Rightarrow> s\<lparr>x_req := EDMA_REQ_NONE, x_stat := EDMA_ST_PAUSE\<rparr>)"

text \<open>The first chunk of a descriptor is given up.\<close>

definition drop_chunk :: "ref \<Rightarrow> dchan \<Rightarrow> dchan" where
  "drop_chunk d s =
     (case chunk_list (x_desc s d) of
        [] \<Rightarrow> s
      | c # cs \<Rightarrow>
          (case dw_edma_free_burst c (x_mem s) of (c1, m) \<Rightarrow>
             (upd_desc d (\<lambda>D. D\<lparr>chunk_list := cs, chunks_alloc := chunks_alloc D - 1\<rparr>) s)
               \<lparr>x_mem := dw_edma_defer_chunk_free c1 m\<rparr>))"

definition dw_edma_complete_done_locked :: "dchan \<Rightarrow> dchan" where
  "dw_edma_complete_done_locked s =
     (let s0 = s\<lparr>x_started := False\<rparr> in
      case vchan_next_desc (x_vc s) of
        None \<Rightarrow> s0
      | Some d \<Rightarrow>
          (case chunk_list (x_desc s d) of
             [] \<Rightarrow> settle_request d s0
           | c # cs \<Rightarrow>
               let s1 = upd_desc d (\<lambda>D. D\<lparr>xfer_sz := xfer_sz D + of_nat (r_sz (ll_region c))\<rparr>) s0 in
               (case dw_edma_defer_lazy_done_locked d s1 of
                  (True, s2) \<Rightarrow> s2
                | (False, s2) \<Rightarrow> settle_request d (drop_chunk d s2))))"

definition dw_edma_done_interrupt :: "dchan \<Rightarrow> bool \<times> dchan" where
  "dw_edma_done_interrupt s = (if \<not> x_started s then (False, s) else (True, dw_edma_complete_done_locked s))"

text \<open>
  The replay of a completion that was missed: \<open>alive\<close> tells whether device and link may be used, \<open>early\<close> whether the
  transfer was started within this tick, \<open>cs\<close> what the channel reads as.
\<close>

definition dw_edma_process_done_if_stopped :: "bool \<Rightarrow> bool \<Rightarrow> int + u32 \<Rightarrow> dchan \<Rightarrow> int \<times> dchan" where
  "dw_edma_process_done_if_stopped alive early cs s =
     (if \<not> alive then (- ENODEV, s)
      else if \<not> x_started s then (- EAGAIN, s)
      else if early then (- EAGAIN, s)
      else case cs of
        Inl e \<Rightarrow> (- EAGAIN, s\<lparr>x_hw_err := True\<rparr>)
      | Inr st \<Rightarrow> if st \<noteq> 3 then (- EAGAIN, s) else (0, dw_edma_complete_done_locked s))"

definition dw_edma_abort_interrupt :: "dchan \<Rightarrow> dchan" where
  "dw_edma_abort_interrupt s =
     (let s1 = s\<lparr>x_aborted := True\<rparr>;
          s2 = (case vchan_next_desc (x_vc s1) of
                  None \<Rightarrow> s1
                | Some d \<Rightarrow> complete_desc d (upd_desc d (\<lambda>D. D\<lparr>sh_state :=
                    (if sh_state D = SHADOW_BUILDING \<or> sh_state D = SHADOW_ISR_PENDING then SHADOW_CANCELLED else sh_state D)\<rparr>) s1))
      in s2\<lparr>x_req := EDMA_REQ_NONE, x_stat := EDMA_ST_IDLE\<rparr>)"

definition dw_edma_shadow_transfer_active :: "dchan \<Rightarrow> bool" where
  "dw_edma_shadow_transfer_active s =
     (case vchan_next_desc (x_vc s) of
        None \<Rightarrow> False
      | Some d \<Rightarrow>
          let D = x_desc s d in
          if \<not> lazy_mode D then False
          else if x_started s then True
          else if lz_state D = LAZY_REFILL_PENDING \<or> lz_state D = LAZY_REFILL_PREPARING then True
          else (case sh_state D of
                  SHADOW_BUILDING \<Rightarrow> True | SHADOW_READY \<Rightarrow> True | SHADOW_ISR_PENDING \<Rightarrow> True
                | SHADOW_IDLE \<Rightarrow> shadow_has_more D
                | SHADOW_CANCELLED \<Rightarrow> False))"

section \<open>The refill worker\<close>

text \<open>The first section; \<open>ret\<close> is the result of the wait for the channel to stop.\<close>

definition lazy_claim :: "int \<Rightarrow> ref \<Rightarrow> dchan \<Rightarrow> dchan" where
  "lazy_claim ret d s0 =
     (let s = s0\<lparr>x_lazy_q := (x_lazy_q s0)(d := False)\<rparr> in
      if lz_state (x_desc s d) \<noteq> LAZY_REFILL_PENDING then s
      else
        let s1 = upd_desc d (\<lambda>D. D\<lparr>lz_state := LAZY_REFILL_IDLE\<rparr>) s in
        if vchan_next_desc (x_vc s) \<noteq> Some d then s1
        else if ret \<noteq> 0 \<or> chunk_list (x_desc s d) = [] \<or> \<not> lazy_mode (x_desc s d) then lazy_error d s1
        else if x_req s = EDMA_REQ_STOP then
          (complete_desc d (drop_chunk d (upd_desc d (\<lambda>D. D\<lparr>lazy_mode := False\<rparr>) s1)))
            \<lparr>x_req := EDMA_REQ_NONE, x_stat := EDMA_ST_IDLE\<rparr>
        else if x_req s \<noteq> EDMA_REQ_NONE \<or> sg_remaining (x_desc s d) = 0 then lazy_error d s1
        else (upd_desc d (\<lambda>D. D\<lparr>chunk_list := tl (chunk_list D), chunks_alloc := chunks_alloc D - 1,
                lz_state := LAZY_REFILL_PREPARING\<rparr>) s1)
               \<lparr>x_lazy := (x_lazy s1)(d := Z_claimed (hd (chunk_list (x_desc s d))))\<rparr>)"

definition lazy_prepare :: "int \<Rightarrow> int \<Rightarrow> ref \<Rightarrow> dchan \<Rightarrow> dchan" where
  "lazy_prepare idle copied d s =
     (case x_lazy s d of
        Z_claimed c \<Rightarrow>
          (case dw_edma_free_burst c (x_mem s) of (c1, m1) \<Rightarrow>
             (case dw_edma_lazy_refill_chunk_prepare (x_base s) False (x_desc s d) c1 m1 of
                ((filled, k, sz), c2, m2) \<Rightarrow>
                  if filled = 0
                  then s\<lparr>x_mem := m2, x_lazy := (x_lazy s)(d := Z_prepared c2 (- ENOMEM) (k, sz))\<rparr>
                  else (case prepare_outcome (x_llm s) idle copied (ch_dir (x_base s)) c2 m2 (x_host s) of
                    (ret, c3, m3, h) \<Rightarrow>
                      s\<lparr>x_mem := m3, x_host := h, x_hw_err := (x_hw_err s \<or> prepare_hw_err idle ret),
                        x_lazy := (x_lazy s)(d := Z_prepared c3 ret (k, sz))\<rparr>)))
      | _ \<Rightarrow> s)"

definition lazy_commit :: "ref \<Rightarrow> dchan \<Rightarrow> dchan" where
  "lazy_commit d s0 =
     (case x_lazy s0 d of
        Z_prepared c ret (k, sz) \<Rightarrow>
          let s = s0\<lparr>x_lazy := (x_lazy s0)(d := Z_off)\<rparr>;
              idle = upd_desc d (\<lambda>D. D\<lparr>lz_state := LAZY_REFILL_IDLE\<rparr>);
              put_off = (\<lambda>t. t\<lparr>x_mem := dw_edma_defer_chunk_free c (x_mem t)\<rparr>);
              unlinked = (\<lambda>t. t\<lparr>x_mem := dw_edma_free_unlinked_chunk (Some c) (x_mem t)\<rparr>)
          in
          if vchan_next_desc (x_vc s) \<noteq> Some d then unlinked (idle s)
          else if lz_state (x_desc s d) \<noteq> LAZY_REFILL_PREPARING then unlinked s
          else if ret \<noteq> 0 then put_off (lazy_error d (idle s))
          else if x_req s = EDMA_REQ_STOP then
            (complete_desc d (put_off (upd_desc d (\<lambda>D. D\<lparr>lazy_mode := False, lz_state := LAZY_REFILL_IDLE\<rparr>) s)))
              \<lparr>x_req := EDMA_REQ_NONE, x_stat := EDMA_ST_IDLE\<rparr>
          else if x_req s \<noteq> EDMA_REQ_NONE \<or> \<not> lazy_mode (x_desc s d) \<or> x_aborted s \<or> x_hw_err s then put_off (idle s)
          else
            bell d c ((upd_desc d (\<lambda>D. D\<lparr>sg_cur := k_sg k, sg_remaining := k_remaining k, addr_accum := k_addr k, alloc_sz := sz,
                lazy_mode := (lazy_mode D \<and> k_remaining k \<noteq> 0), chunk_list := c # chunk_list D,
                chunks_alloc := chunks_alloc D + 1, lz_state := LAZY_REFILL_IDLE\<rparr>) s)
              \<lparr>x_stat := EDMA_ST_BUSY\<rparr>)
      | _ \<Rightarrow> s0)"

section \<open>The shadow worker\<close>

definition set_shadow :: "ref \<Rightarrow> shadow_pc \<Rightarrow> dchan \<Rightarrow> dchan" where
  "set_shadow d pc s = s\<lparr>x_shadow := (x_shadow s)(d := pc)\<rparr>"

definition shadow_enter :: "ref \<Rightarrow> dchan \<Rightarrow> dchan" where
  "shadow_enter d s0 =
     (let s = s0\<lparr>x_shadow_q := (x_shadow_q s0)(d := False)\<rparr>; D = x_desc s d in
      case shadow_chunk D of
        None \<Rightarrow> s\<lparr>x_hw_err := True\<rparr>
      | Some c \<Rightarrow>
          if sh_state D = SHADOW_ISR_PENDING \<and> burst c \<noteq> None \<and> bursts_alloc c \<noteq> 0
          then set_shadow d (S_copy c (shadow_next_chunk D)) (upd_desc d (\<lambda>D. D\<lparr>shadow_next_chunk := None\<rparr>) s)
          else set_shadow d (S_fill c) s)"

text \<open>A build that fails: the chunk is freed, and the transfer ends with an error unless it is being given up anyway.\<close>

definition shadow_fail :: "ref \<Rightarrow> dw_edma_chunk \<Rightarrow> dchan \<Rightarrow> dchan" where
  "shadow_fail d c s =
     (let fatal = (sh_state (x_desc s d) \<noteq> SHADOW_CANCELLED \<and> \<not> x_aborted s \<and> x_req s = EDMA_REQ_NONE)
      in set_shadow d S_off
          ((upd_desc d (\<lambda>D. D\<lparr>shadow_chunk := None, sh_state := SHADOW_IDLE, lazy_mode := (lazy_mode D \<and> \<not> fatal)\<rparr>) s)
            \<lparr>x_mem := dw_edma_free_unlinked_chunk (Some c) (x_mem s), x_hw_err := (x_hw_err s \<or> fatal)\<rparr>))"

definition shadow_fill :: "ref \<Rightarrow> dchan \<Rightarrow> dchan" where
  "shadow_fill d s =
     (case x_shadow s d of
        S_fill c \<Rightarrow>
          (case dw_edma_shadow_fill_chunk (x_base s) False (x_desc s d) c (x_mem s) of
             (filled, D1, c1, m1) \<Rightarrow>
               let s1 = (upd_desc d (\<lambda>_. D1\<lparr>shadow_chunk := Some c1\<rparr>) s)\<lparr>x_mem := m1\<rparr> in
               if filled = 0 then shadow_fail d c1 s1
               else (case dw_edma_v0_core_write_chunk (ch_dir (x_base s)) c1 m1 (x_host s) of
                 (r, c2, m2, h) \<Rightarrow>
                   let s2 = (upd_desc d (\<lambda>D. D\<lparr>shadow_chunk := Some c2\<rparr>) s1)\<lparr>x_mem := m2, x_host := h\<rparr> in
                   if r \<noteq> 0 then shadow_fail d c2 s2
                   else (case (if shadow_has_more D1 then dw_edma_alloc_unlinked_chunk (x_base s) m2 else (None, m2)) of
                     (nxt, m3) \<Rightarrow> set_shadow d (S_built c2 nxt) (s2\<lparr>x_mem := m3\<rparr>))))
      | _ \<Rightarrow> s)"

definition shadow_publish :: "ref \<Rightarrow> dchan \<Rightarrow> dchan" where
  "shadow_publish d s =
     (case x_shadow s d of
        S_built c nxt \<Rightarrow>
          (case sh_state (x_desc s d) of
             SHADOW_BUILDING \<Rightarrow>
               set_shadow d (S_ready c) (upd_desc d (\<lambda>D. D\<lparr>sh_state := SHADOW_READY, shadow_next_chunk := nxt\<rparr>) s)
           | SHADOW_ISR_PENDING \<Rightarrow> set_shadow d (S_copy c nxt) s
           | _ \<Rightarrow> set_shadow d S_off ((upd_desc d (\<lambda>D. D\<lparr>sh_state := SHADOW_IDLE\<rparr>) s)
               \<lparr>x_mem := dw_edma_free_unlinked_chunk nxt (x_mem s)\<rparr>))
      | _ \<Rightarrow> s)"

text \<open>
  When the channel has stopped without a completion the worker takes the completion over.  Test, store and the
  section that follows are separate, since an interrupt may come between them; \<open>cs\<close> is the state of the channel.
\<close>

definition shadow_test :: "u32 \<Rightarrow> ref \<Rightarrow> dchan \<Rightarrow> dchan" where
  "shadow_test cs d s =
     (case x_shadow s d of
        S_ready c \<Rightarrow> set_shadow d (if x_started s \<and> cs = 3 then S_steal c else S_recheck c) s
      | _ \<Rightarrow> s)"

definition shadow_steal :: "ref \<Rightarrow> dchan \<Rightarrow> dchan" where
  "shadow_steal d s =
     (case x_shadow s d of S_steal c \<Rightarrow> set_shadow d (S_stolen c) (s\<lparr>x_started := False\<rparr>) | _ \<Rightarrow> s)"

definition same_object :: "dw_edma_chunk option \<Rightarrow> dw_edma_chunk \<Rightarrow> bool" where
  "same_object co c \<longleftrightarrow> (case co of None \<Rightarrow> False | Some b \<Rightarrow> c_ref b = c_ref c)"

definition shadow_handoff :: "ref \<Rightarrow> dchan \<Rightarrow> dchan" where
  "shadow_handoff d s =
     (case x_shadow s d of
        S_stolen c \<Rightarrow>
          let D = x_desc s d in
          if lazy_mode D \<and> sh_state D = SHADOW_READY \<and> same_object (shadow_chunk D) c \<and> chunk_list D \<noteq> []
          then set_shadow d (S_copy c (shadow_next_chunk D))
                 (upd_desc d (\<lambda>D. D\<lparr>xfer_sz := xfer_sz D + of_nat (r_sz (ll_region (hd (chunk_list D)))),
                    sh_state := SHADOW_ISR_PENDING, shadow_next_chunk := None\<rparr>) s)
          else set_shadow d (S_recheck c) s
      | _ \<Rightarrow> s)"

definition shadow_recheck :: "ref \<Rightarrow> dchan \<Rightarrow> dchan" where
  "shadow_recheck d s =
     (case x_shadow s d of
        S_recheck c \<Rightarrow>
          let D = x_desc s d in
          if lazy_mode D \<and> sh_state D = SHADOW_ISR_PENDING \<and> same_object (shadow_chunk D) c
          then set_shadow d (S_copy c (shadow_next_chunk D)) (upd_desc d (\<lambda>D. D\<lparr>shadow_next_chunk := None\<rparr>) s)
          else set_shadow d S_off s
      | _ \<Rightarrow> s)"

text \<open>\<open>ret\<close> is the result of \<open>dw_edma_v0_core_precopy_lli\<close>.\<close>

definition shadow_copied :: "int \<Rightarrow> ref \<Rightarrow> dchan \<Rightarrow> dchan" where
  "shadow_copied ret d s =
     (case x_shadow s d of
        S_copy c nxt \<Rightarrow>
          if ret = 0 then set_shadow d (S_swap c nxt) s
          else
            let gone = (ret = - ECANCELED \<and> (sh_state (x_desc s d) = SHADOW_CANCELLED \<or> x_aborted s \<or> x_req s \<noteq> EDMA_REQ_NONE))
            in set_shadow d S_off
                ((upd_desc d (\<lambda>D. D\<lparr>shadow_chunk := None, shadow_next_chunk := None, lazy_mode := False, sh_state := SHADOW_IDLE\<rparr>) s)
                  \<lparr>x_mem := dw_edma_free_unlinked_chunk nxt (dw_edma_free_unlinked_chunk (Some c) (x_mem s)),
                   x_hw_err := (x_hw_err s \<or> \<not> gone)\<rparr>)
      | _ \<Rightarrow> s)"

text \<open>The swap of the chunks, the doorbell and the next build, in one section.\<close>

definition swap_chunks :: "ref \<Rightarrow> dw_edma_chunk \<Rightarrow> dchan \<Rightarrow> dchan" where
  "swap_chunks d c s =
     (let s1 = drop_chunk d (upd_desc d (\<lambda>D. D\<lparr>shadow_chunk := None, alloc_sz := alloc_sz D + shadow_alloc_sz D, shadow_alloc_sz := 0\<rparr>) s)
      in (upd_desc d (\<lambda>D. D\<lparr>chunk_list := c # chunk_list D, chunks_alloc := chunks_alloc D + 1, sh_state := SHADOW_IDLE,
            shadow_expected_cb := \<not> cb c\<rparr>) s1)\<lparr>x_stat := EDMA_ST_BUSY\<rparr>)"

definition shadow_swap :: "bool \<Rightarrow> ref \<Rightarrow> dchan \<Rightarrow> dchan" where
  "shadow_swap allowed d s =
     (case x_shadow s d of
        S_swap c nxt \<Rightarrow>
          let free_next = (\<lambda>t. t\<lparr>x_mem := dw_edma_free_unlinked_chunk nxt (x_mem t)\<rparr>) in
          if sh_state (x_desc s d) = SHADOW_CANCELLED \<or> x_aborted s \<or> x_req s \<noteq> EDMA_REQ_NONE
          then set_shadow d S_off (free_next (upd_desc d (\<lambda>D. D\<lparr>sh_state := SHADOW_IDLE\<rparr>) s))
          else
            let s1 = swap_chunks d c s in
            if \<not> allowed then set_shadow d S_off (free_next (lazy_error d s1))
            else
              let more = shadow_has_more (x_desc s d);
                  s2 = (if more then s1
                        else upd_desc d (\<lambda>D. D\<lparr>lazy_mode := False, sg_remaining := 0, shadow_next_remaining := 0\<rparr>) s1);
                  s3 = bell d c s2
              in (case nxt of
                    Some n \<Rightarrow>
                      if more then
                        let n1 = n\<lparr>cb := shadow_expected_cb (x_desc s3 d)\<rparr> in
                        if x_wq s then
                          set_shadow d S_off ((upd_desc d (\<lambda>D. D\<lparr>shadow_chunk := Some n1, shadow_next_chunk := None,
                              shadow_alloc_sz := 0, sh_state := SHADOW_BUILDING\<rparr>) s3)\<lparr>x_shadow_q := (x_shadow_q s3)(d := True)\<rparr>)
                        else set_shadow d S_off (lazy_error d
                          ((upd_desc d (\<lambda>D. D\<lparr>shadow_chunk := None, shadow_next_chunk := None, shadow_alloc_sz := 0, sh_state := SHADOW_IDLE\<rparr>) s3)
                             \<lparr>x_mem := dw_edma_free_unlinked_chunk (Some n1) (x_mem s3)\<rparr>))
                      else set_shadow d S_off (free_next s3)
                  | None \<Rightarrow> set_shadow d (if more then S_giveup else S_off) s3)
      | _ \<Rightarrow> s)"

text \<open>No chunk for the next build: after the section the transfer is marked as aborted.\<close>

definition shadow_giveup :: "ref \<Rightarrow> dchan \<Rightarrow> dchan" where
  "shadow_giveup d s =
     (case x_shadow s d of
        S_giveup \<Rightarrow> set_shadow d S_off ((upd_desc d (\<lambda>D. D\<lparr>lazy_mode := False\<rparr>) s)\<lparr>x_aborted := True\<rparr>)
      | _ \<Rightarrow> s)"

section \<open>The calls of a client\<close>

abbreviation (input) EPERM :: int where "EPERM \<equiv> 1"

definition chan_device_config :: "dchan \<Rightarrow> dchan" where
  "chan_device_config s = s\<lparr>x_conf := True, x_aborted := False, x_started := False\<rparr>"

definition dw_edma_device_pause :: "dchan \<Rightarrow> int \<times> dchan" where
  "dw_edma_device_pause s =
     (if \<not> x_conf s then (- EPERM, s)
      else if x_stat s \<noteq> EDMA_ST_BUSY then (- EPERM, s)
      else if x_req s \<noteq> EDMA_REQ_NONE then (- EPERM, s)
      else (0, s\<lparr>x_req := EDMA_REQ_PAUSE\<rparr>))"

definition dw_edma_device_resume :: "dchan \<Rightarrow> int \<times> dchan" where
  "dw_edma_device_resume s =
     (if \<not> x_conf s then (- EPERM, s)
      else if x_stat s \<noteq> EDMA_ST_PAUSE then (- EPERM, s)
      else if x_req s \<noteq> EDMA_REQ_NONE then (- EPERM, s)
      else (0, dw_edma_start_transfer (s\<lparr>x_stat := EDMA_ST_BUSY\<rparr>)))"

definition dw_edma_device_issue_pending :: "dchan \<Rightarrow> dchan" where
  "dw_edma_device_issue_pending s =
     (if \<not> x_down s \<and> x_conf s \<and> x_req s = EDMA_REQ_NONE \<and> x_stat s = EDMA_ST_IDLE then
        (case vchan_issue_pending (x_vc s) of (some, v) \<Rightarrow>
           let s1 = s\<lparr>x_vc := v\<rparr> in
           if some then dw_edma_start_transfer (s1\<lparr>x_stat := EDMA_ST_BUSY\<rparr>) else s1)
      else s)"

text \<open>
  The locked part of \<open>dw_edma_device_terminate_all\<close>, after the launch worker has been cancelled: the result, whether
  the descriptors are to be drained, and those taken already.  \<open>cs\<close> is the state of the channel and \<open>reset\<close> the
  result of its reset.
\<close>

definition terminate_locked :: "u32 \<Rightarrow> int \<Rightarrow> dchan \<Rightarrow> bool \<times> ref list \<times> dchan" where
  "terminate_locked cs reset s0 =
     (let s = s0\<lparr>x_pending := None, x_launch_q := False\<rparr> in
      if \<not> x_conf s then (False, [], s)
      else if x_stat s = EDMA_ST_PAUSE \<or> x_stat s = EDMA_ST_IDLE then (True, [], s\<lparr>x_stat := EDMA_ST_IDLE, x_conf := False\<rparr>)
      else if cs = 0 \<or> cs = 3 then (True, [], s\<lparr>x_stat := EDMA_ST_IDLE, x_conf := False\<rparr>)
      else if x_req s = EDMA_REQ_STOP then
        (let v = x_vc s in
         (True, desc_allocated v @ desc_submitted v @ desc_issued v @ desc_completed v,
          s\<lparr>x_hw_err := (x_hw_err s \<or> (cs = 2 \<and> reset \<noteq> 0)),
            x_vc := v\<lparr>desc_allocated := [], desc_submitted := [], desc_issued := [], desc_completed := []\<rparr>,
            x_req := EDMA_REQ_NONE, x_stat := EDMA_ST_IDLE, x_conf := False\<rparr>))
      else (False, [], s\<lparr>x_req := EDMA_REQ_STOP\<rparr>))"

text \<open>Freeing descriptors waits for their workers; \<open>settle\<close> is what these still do.\<close>

definition release_desc ::
  "(dw_edma_desc \<times> edma_mem \<Rightarrow> dw_edma_desc \<times> edma_mem) \<Rightarrow> ref \<Rightarrow> dchan \<Rightarrow> dchan" where
  "release_desc settle d s =
     s\<lparr>x_mem := dw_edma_free_desc settle (x_desc s d) (x_mem s), x_desc := (x_desc s)(d := zero_desc d),
       x_shadow_q := (x_shadow_q s)(d := False), x_lazy_q := (x_lazy_q s)(d := False),
       x_shadow := (x_shadow s)(d := S_off), x_lazy := (x_lazy s)(d := Z_off)\<rparr>"

text \<open>The tasklet of the channel, when it is scheduled: callbacks, and the release of what is not kept for reuse.\<close>

definition run_tasklet :: "(dw_edma_desc \<times> edma_mem \<Rightarrow> dw_edma_desc \<times> edma_mem) \<Rightarrow> dchan \<Rightarrow> dchan" where
  "run_tasklet settle s =
     (if task_scheduled (x_vc s)
      then (fold (release_desc settle) (filter (\<lambda>d. \<not> tx_reuse (x_vc s) d) (desc_completed (x_vc s))) s)\<lparr>x_vc := vchan_complete (x_vc s)\<rparr>
      else s)"

definition drain_all :: "(dw_edma_desc \<times> edma_mem \<Rightarrow> dw_edma_desc \<times> edma_mem) \<Rightarrow> ref list \<Rightarrow> dchan \<Rightarrow> dchan" where
  "drain_all settle head s =
     (let (all, v) = vchan_get_all_descriptors head (x_vc s);
          s1 = fold (release_desc settle) (filter (\<lambda>d. \<not> tx_reuse v d) all) s
      in s1\<lparr>x_vc := vchan_dma_desc_free_list all v\<rparr>)"

definition dw_edma_device_terminate_all ::
  "(dw_edma_desc \<times> edma_mem \<Rightarrow> dw_edma_desc \<times> edma_mem) \<Rightarrow> u32 \<Rightarrow> int \<Rightarrow> dchan \<Rightarrow> int \<times> dchan" where
  "dw_edma_device_terminate_all settle cs reset s =
     (case terminate_locked cs reset s of
        (False, _, s1) \<Rightarrow> (0, s1)
      | (True, head, s1) \<Rightarrow>
          let s2 = run_tasklet settle s1
          in (0, drain_all settle head (s2\<lparr>x_vc := vchan_synchronize (x_vc s2)\<rparr>)))"

definition dw_edma_device_tx_status ::
  "(u32 \<Rightarrow> u32 \<Rightarrow> u32 \<Rightarrow> dma_status) \<Rightarrow> u32 \<Rightarrow> bool \<Rightarrow> dchan \<Rightarrow> dma_status \<times> u32" where
  "dw_edma_device_tx_status is_complete cookie with_state s =
     (let ret = fst (dma_cookie_status is_complete cookie (x_vc s)) in
      if ret = DMA_COMPLETE then (ret, 0)
      else
        let ret1 = (if ret = DMA_IN_PROGRESS \<and> x_stat s = EDMA_ST_PAUSE then DMA_PAUSED else ret) in
        if \<not> with_state then (ret1, 0)
        else case vchan_find_desc cookie (x_vc s) of
          None \<Rightarrow> (ret1, 0)
        | Some d \<Rightarrow> (ret1, alloc_sz (x_desc s d) - xfer_sz (x_desc s d)))"

definition dw_edma_alloc_chan_resources :: "dchan \<Rightarrow> int" where
  "dw_edma_alloc_chan_resources s =
     (if ch_dir (x_base s) = EDMA_DIR_READ \<and> 2 \<le> ch_id (x_base s) then - EBUSY
      else if x_stat s \<noteq> EDMA_ST_IDLE then - EBUSY else 0)"

end
