(* ===== verification/Dx_EdmaRun.thy ===== *)
theory Dx_EdmaRun
  imports Dx_EdmaChan
begin

text \<open>
  The threads of a DMA channel together: every interleaving of the sections of \<open>Dx_EdmaChan\<close>, and what
  holds in all of them.  A doorbell is rung only when no transfer is under way, because at every moment at most one
  party (the device, the launch worker, a refill worker or a shadow worker) has the channel.
\<close>

section \<open>Interleavings\<close>

text \<open>The work items of a descriptor are neither queued nor running.\<close>

definition at_rest :: "ref \<Rightarrow> dchan \<Rightarrow> bool" where
  "at_rest d s \<longleftrightarrow> \<not> x_shadow_q s d \<and> x_shadow s d = S_off \<and> \<not> x_lazy_q s d \<and> x_lazy s d = Z_off"

definition fresh_desc :: "dw_edma_desc \<Rightarrow> bool" where
  "fresh_desc D \<longleftrightarrow> lz_state D = LAZY_REFILL_IDLE \<and> (sh_state D = SHADOW_IDLE \<or> sh_state D = SHADOW_BUILDING)"

text \<open>A client configures the channel between transfers: nothing of the last one is queued or running on a work queue.\<close>

definition settled :: "dchan \<Rightarrow> bool" where
  "settled s \<longleftrightarrow> x_pending s = None \<and> x_launch s = L_off \<and>
     (\<forall>d. at_rest d s \<and> lz_state (x_desc s d) = LAZY_REFILL_IDLE \<and> sh_state (x_desc s d) \<noteq> SHADOW_ISR_PENDING)"

text \<open>
  One section of one thread.  A work item starts when it is queued and not running; \<open>fault\<close> is an error flag
  set by a neighbour or cleared by the transfer thread; a descriptor is released when its workers are at rest, for
  which \<open>cancel_work_sync\<close> waits.
\<close>

inductive cstep :: "dchan \<Rightarrow> dchan \<Rightarrow> bool" where
  prepare: "d \<notin> set (all_descs (x_vc s)) \<Longrightarrow> at_rest d s \<Longrightarrow> fresh_desc D \<Longrightarrow>
    cstep s (s\<lparr>x_desc := (x_desc s)(d := D), x_mem := m, x_vc := vchan_tx_prep d False (x_vc s)\<rparr>)"
| submit: "d \<in> set (desc_allocated (x_vc s)) \<Longrightarrow> d \<notin> set (desc_issued (x_vc s)) \<Longrightarrow> cstep s (s\<lparr>x_vc := snd (vchan_tx_submit d (x_vc s))\<rparr>)"
| issue: "cstep s (dw_edma_device_issue_pending s)"
| config: "settled s \<Longrightarrow> cstep s (chan_device_config s)"
| pause: "cstep s (snd (dw_edma_device_pause s))"
| resume: "cstep s (snd (dw_edma_device_resume s))"
| terminate: "cstep s (snd (snd (terminate_locked cs reset s)))"
| drain: "\<not> x_conf s \<Longrightarrow> cstep s (s\<lparr>x_vc := snd (vchan_get_all_descriptors [] (x_vc s))\<rparr>)"
| release: "d \<notin> set (desc_issued (x_vc s)) \<Longrightarrow> at_rest d s \<Longrightarrow> cstep s (release_desc settle d s)"
| tasklet: "cstep s (s\<lparr>x_vc := snd (complete_take (x_vc s))\<rparr>)"
| deliver: "d \<notin> set (all_descs (x_vc s)) \<Longrightarrow> cstep s (s\<lparr>x_vc := complete_one d (x_vc s)\<rparr>)"
| fault: "cstep s (s\<lparr>x_hw_err := e\<rparr>)"
| remove: "cstep s (s\<lparr>x_down := True, x_wq := wq\<rparr>)"
| finish: "cstep s (snd (dw_edma_done_interrupt s))"
| replay: "cstep s (snd (dw_edma_process_done_if_stopped alive early cst s))"
| abort: "cstep s (dw_edma_abort_interrupt s)"
| launch1: "x_launch_q s \<Longrightarrow> x_launch s = L_off \<Longrightarrow> cstep s (launch_take allowed s)"
| launch2: "cstep s (launch_prepare idle copied s)"
| launch3: "cstep s (launch_finish allowed s)"
| lazy1: "x_lazy_q s d \<Longrightarrow> x_lazy s d = Z_off \<Longrightarrow> cstep s (lazy_claim ret d s)"
| lazy2: "cstep s (lazy_prepare idle copied d s)"
| lazy3: "cstep s (lazy_commit d s)"
| shadow1: "x_shadow_q s d \<Longrightarrow> x_shadow s d = S_off \<Longrightarrow> cstep s (shadow_enter d s)"
| shadow2: "cstep s (shadow_fill d s)"
| shadow3: "cstep s (shadow_publish d s)"
| shadow4: "cstep s (shadow_test cs d s)"
| shadow5: "cstep s (shadow_steal d s)"
| shadow6: "cstep s (shadow_handoff d s)"
| shadow7: "cstep s (shadow_recheck d s)"
| shadow8: "cstep s (shadow_copied ret d s)"
| shadow9: "cstep s (shadow_swap allowed d s)"
| shadow10: "cstep s (shadow_giveup d s)"

section \<open>Who has the channel\<close>

datatype owner = Nobody | Device | Staged | Launcher | Refill ref | Shadow ref

fun copying :: "shadow_pc \<Rightarrow> bool" where
  "copying (S_copy _ _) = True"
| "copying (S_swap _ _) = True"
| "copying _ = False"

fun stealing :: "shadow_pc \<Rightarrow> bool" where
  "stealing (S_steal _) = True"
| "stealing _ = False"

fun stolen :: "shadow_pc \<Rightarrow> bool" where
  "stolen (S_stolen _) = True"
| "stolen _ = False"

definition armed :: "dw_edma_desc \<Rightarrow> bool" where
  "armed D \<longleftrightarrow> lazy_mode D \<and> sh_state D = SHADOW_READY"

text \<open>A descriptor that its shadow worker builds for: it is the one the channel works on, or the channel is being torn down.\<close>

definition building :: "dchan \<Rightarrow> ref \<Rightarrow> bool" where
  "building s d \<longleftrightarrow> (x_shadow_q s d \<or> x_shadow s d \<noteq> S_off) \<and>
     (lazy_mode (x_desc s d) \<and> (sh_state (x_desc s d) = SHADOW_BUILDING \<or> sh_state (x_desc s d) = SHADOW_READY) \<or>
      sh_state (x_desc s d) = SHADOW_ISR_PENDING \<or> copying (x_shadow s d))"

definition claims :: "owner \<Rightarrow> dchan \<Rightarrow> ref \<Rightarrow> bool" where
  "claims ow s d \<longleftrightarrow>
     (lz_state (x_desc s d) \<noteq> LAZY_REFILL_IDLE \<longrightarrow> ow = Refill d) \<and>
     (sh_state (x_desc s d) = SHADOW_ISR_PENDING \<longrightarrow> ow = Shadow d) \<and>
     (copying (x_shadow s d) \<longrightarrow> ow = Shadow d) \<and>
     (stolen (x_shadow s d) \<and> armed (x_desc s d) \<longrightarrow> ow = Shadow d) \<and>
     (stealing (x_shadow s d) \<and> armed (x_desc s d) \<longrightarrow> ow = Device) \<and>
     (building s d \<longrightarrow> vchan_next_desc (x_vc s) = Some d \<or> vchan_next_desc (x_vc s) = None \<and> \<not> x_conf s)"

definition loaded :: "dchan \<Rightarrow> bool" where
  "loaded s \<longleftrightarrow> (\<forall>d. x_started s \<and> vchan_next_desc (x_vc s) = Some d \<longrightarrow> chunk_list (x_desc s d) \<noteq> [])"

definition solo :: "dchan \<Rightarrow> bool" where
  "solo s \<longleftrightarrow> (\<forall>d e. building s d \<and> building s e \<longrightarrow> d = e)"

definition owned :: "owner \<Rightarrow> dchan \<Rightarrow> bool" where
  "owned ow s \<longleftrightarrow>
     (x_started s \<longrightarrow> ow = Device) \<and> (x_pending s \<noteq> None \<longrightarrow> ow = Staged) \<and> (x_launch s \<noteq> L_off \<longrightarrow> ow = Launcher) \<and>
     (x_stat s = EDMA_ST_PAUSE \<or> x_stat s = EDMA_ST_IDLE \<and> x_conf s \<longrightarrow> ow = Nobody) \<and> loaded s \<and> solo s \<and> (\<forall>d. claims ow s d)"

definition chan_ok :: "dchan \<Rightarrow> bool" where
  "chan_ok s \<longleftrightarrow> (\<forall>b\<in>set (x_bells s). \<not> snd (snd b)) \<and> (\<not> x_aborted s \<longrightarrow> (\<exists>ow. owned ow s))"

lemma owned_first:
  assumes "owned ow s" "vchan_next_desc (x_vc s) = Some d" "e \<noteq> d"
  shows "\<not> building s e"
  using assms unfolding owned_def claims_def by auto

lemma owned_armed:
  assumes "owned ow s" "stealing (x_shadow s e)" "armed (x_desc s e)" "vchan_next_desc (x_vc s) = Some d"
  shows "e = d"
proof -
  have "building s e" using assms(2,3) by (cases "x_shadow s e") (auto simp: building_def armed_def)
  then show ?thesis using owned_first [OF assms(1,4)] by auto
qed

section \<open>Every step keeps the discipline\<close>

lemma next_of_complete: "vchan_next_desc (vchan_cookie_complete d v) = vchan_next_desc v"
  by (simp add: vchan_next_desc_def vchan_cookie_complete_def dma_cookie_complete_def Let_def)

lemma complete_desc_simps [simp]:
  "x_started (complete_desc d s) = x_started s" "x_pending (complete_desc d s) = x_pending s"
  "x_launch (complete_desc d s) = x_launch s" "x_stat (complete_desc d s) = x_stat s" "x_conf (complete_desc d s) = x_conf s"
  "x_shadow (complete_desc d s) = x_shadow s" "x_shadow_q (complete_desc d s) = x_shadow_q s"
  "x_desc (complete_desc d s) = x_desc s" "x_bells (complete_desc d s) = x_bells s" "x_aborted (complete_desc d s) = x_aborted s"
  "x_req (complete_desc d s) = x_req s"
  by (simp_all add: complete_desc_def)

lemma upd_desc_simps [simp]:
  "x_started (upd_desc d f s) = x_started s" "x_pending (upd_desc d f s) = x_pending s"
  "x_launch (upd_desc d f s) = x_launch s" "x_stat (upd_desc d f s) = x_stat s" "x_conf (upd_desc d f s) = x_conf s"
  "x_shadow (upd_desc d f s) = x_shadow s" "x_shadow_q (upd_desc d f s) = x_shadow_q s"
  "x_desc (upd_desc d f s) = (x_desc s)(d := f (x_desc s d))" "x_bells (upd_desc d f s) = x_bells s"
  "x_aborted (upd_desc d f s) = x_aborted s" "x_vc (upd_desc d f s) = x_vc s" "x_req (upd_desc d f s) = x_req s"
  "x_wq (upd_desc d f s) = x_wq s" "x_mem (upd_desc d f s) = x_mem s" "x_down (upd_desc d f s) = x_down s"
  "x_hw_err (upd_desc d f s) = x_hw_err s"
  by (simp_all add: upd_desc_def)

text \<open>A descriptor that nothing is built for can be completed.\<close>

lemma complete_owned:
  assumes "owned ow s" "vchan_next_desc (x_vc s) = Some d" "\<not> building s d" "\<not> x_started s"
  shows "owned ow (complete_desc d s)"
proof -
  have "\<not> building s e" for e using owned_first [OF assms(1,2)] assms(3) by (cases "e = d") auto
  then have "\<not> building (complete_desc d s) e" for e by (simp add: building_def)
  then show ?thesis using assms(1,4) by (simp add: owned_def claims_def loaded_def solo_def)
qed

lemma start_transfer_ok:
  assumes "owned Nobody s" "x_stat s = EDMA_ST_BUSY"
  shows "\<not> x_aborted (dw_edma_start_transfer s) \<longrightarrow> (\<exists>ow. owned ow (dw_edma_start_transfer s))"
proof (cases "x_down s \<or> \<not> x_wq s")
  case True
  then have "owned Nobody (dw_edma_start_transfer s)"
    using assms by (simp add: dw_edma_start_transfer_def owned_def claims_def building_def loaded_def solo_def)
  then show ?thesis by blast
next
  case False
  have "owned Staged (s\<lparr>x_pending := p, x_first := b, x_launch_q := q\<rparr>)" for p b q
    using assms by (auto simp: owned_def claims_def building_def loaded_def solo_def)
  then show ?thesis using False assms
    by (auto simp: dw_edma_start_transfer_def Let_def split: option.splits list.splits)
qed

lemma start_transfer_bells [simp]: "x_bells (dw_edma_start_transfer s) = x_bells s"
  by (auto simp: dw_edma_start_transfer_def Let_def split: option.splits list.splits)

lemma owned_relax:
  assumes "owned Nobody s"
    and "x_started t = x_started s" "x_pending t = x_pending s" "x_launch t = x_launch s"
      "x_conf t = x_conf s" "vchan_next_desc (x_vc t) = vchan_next_desc (x_vc s)" "x_shadow t = x_shadow s"
      "x_shadow_q t = x_shadow_q s" "x_desc t = x_desc s"
  shows "owned Nobody t"
  using assms by (simp add: owned_def claims_def building_def loaded_def solo_def)

text \<open>A step that takes claims away keeps the owner.\<close>

lemma owned_weaken:
  assumes "owned ow s"
    and "x_started t \<longrightarrow> x_started s" "x_pending t \<noteq> None \<longrightarrow> x_pending s \<noteq> None" "x_launch t \<noteq> L_off \<longrightarrow> x_launch s \<noteq> L_off"
      "x_stat t = x_stat s \<or> x_stat t = EDMA_ST_BUSY \<or> \<not> x_conf t \<and> x_stat t = EDMA_ST_IDLE" "x_conf t \<longrightarrow> x_conf s"
      "vchan_next_desc (x_vc t) = vchan_next_desc (x_vc s)"
    and "\<And>e. copying (x_shadow t e) \<Longrightarrow> copying (x_shadow s e)" "\<And>e. stolen (x_shadow t e) \<Longrightarrow> stolen (x_shadow s e)"
      "\<And>e. stealing (x_shadow t e) \<Longrightarrow> stealing (x_shadow s e)"
      "\<And>e. lz_state (x_desc t e) \<noteq> LAZY_REFILL_IDLE \<Longrightarrow> lz_state (x_desc s e) \<noteq> LAZY_REFILL_IDLE"
      "\<And>e. sh_state (x_desc t e) = SHADOW_ISR_PENDING \<Longrightarrow> sh_state (x_desc s e) = SHADOW_ISR_PENDING"
      "\<And>e. armed (x_desc t e) \<Longrightarrow> armed (x_desc s e)" "\<And>e. building t e \<Longrightarrow> building s e"
      "\<And>e. x_started t \<Longrightarrow> chunk_list (x_desc s e) \<noteq> [] \<Longrightarrow> chunk_list (x_desc t e) \<noteq> []"
  shows "owned ow t"
proof -
  have all: "claims ow t e" for e
  proof -
    have "claims ow s e" using assms(1) by (simp add: owned_def)
    then show ?thesis unfolding claims_def using assms(6,7) assms(8-14) [of e] by (intro conjI) metis+
  qed
  have "x_started t \<longrightarrow> ow = Device" "x_pending t \<noteq> None \<longrightarrow> ow = Staged" "x_launch t \<noteq> L_off \<longrightarrow> ow = Launcher"
    using assms(1-4) by (auto simp: owned_def)
  moreover have "x_stat t = EDMA_ST_PAUSE \<or> x_stat t = EDMA_ST_IDLE \<and> x_conf t \<longrightarrow> ow = Nobody"
    using assms(1,5,6) by (auto simp: owned_def)
  moreover have "loaded t" using assms(1,2,7) assms(15) by (auto simp: owned_def loaded_def)
  moreover have "solo t" using assms(1) assms(14) unfolding owned_def solo_def by blast
  ultimately show ?thesis using all by (simp add: owned_def)
qed

lemma settle_ok:
  assumes o: "owned Nobody s" and n: "vchan_next_desc (x_vc s) = Some d" and b: "\<not> building s d" and ns: "\<not> x_started s"
  shows "\<not> x_aborted (settle_request d s) \<longrightarrow> (\<exists>ow. owned ow (settle_request d s))"
proof (cases "x_req s")
  case EDMA_REQ_NONE
  have "owned Nobody (s\<lparr>x_stat := EDMA_ST_BUSY\<rparr>)" by (rule owned_relax [OF o]) simp_all
  moreover have "owned Nobody ((complete_desc d s)\<lparr>x_stat := EDMA_ST_IDLE\<rparr>)"
    by (rule owned_relax [OF complete_owned [OF o n b ns]]) simp_all
  ultimately show ?thesis using start_transfer_ok EDMA_REQ_NONE by (auto simp: settle_request_def)
next
  case EDMA_REQ_STOP
  define t where "t = upd_desc d (\<lambda>D. D\<lparr>sh_state :=
              (if sh_state D = SHADOW_BUILDING \<or> sh_state D = SHADOW_ISR_PENDING then SHADOW_CANCELLED
               else if sh_state D = SHADOW_READY then SHADOW_IDLE else sh_state D)\<rparr>) s"
  have "building t e \<Longrightarrow> building s e" for e by (auto simp: t_def building_def split: if_splits)
  moreover have "owned Nobody t"
    by (rule owned_weaken [OF o]) (auto simp: t_def armed_def building_def split: if_splits)
  ultimately have "owned Nobody (complete_desc d t)" using b n ns by (intro complete_owned) (auto simp: t_def)
  then have "owned Nobody ((complete_desc d t)\<lparr>x_req := EDMA_REQ_NONE, x_stat := EDMA_ST_IDLE\<rparr>)"
    by (rule owned_relax) simp_all
  then show ?thesis using EDMA_REQ_STOP by (auto simp: settle_request_def t_def)
next
  case EDMA_REQ_PAUSE
  have "owned Nobody (s\<lparr>x_req := EDMA_REQ_NONE, x_stat := EDMA_ST_PAUSE\<rparr>)" by (rule owned_relax [OF o]) simp_all
  then show ?thesis using EDMA_REQ_PAUSE by (auto simp: settle_request_def)
qed

lemma settle_bells [simp]: "x_bells (settle_request d s) = x_bells s"
  by (auto simp: settle_request_def split: dw_edma_request.splits)

lemma start_transfer_aborted: "x_aborted s \<Longrightarrow> x_aborted (dw_edma_start_transfer s)"
  by (auto simp: dw_edma_start_transfer_def Let_def split: option.splits list.splits)

lemma settle_aborted: "x_aborted s \<Longrightarrow> x_aborted (settle_request d s)"
  by (auto simp: settle_request_def start_transfer_aborted split: dw_edma_request.splits)

lemma drop_chunk_simps [simp]:
  "x_started (drop_chunk d s) = x_started s" "x_pending (drop_chunk d s) = x_pending s"
  "x_launch (drop_chunk d s) = x_launch s" "x_stat (drop_chunk d s) = x_stat s" "x_conf (drop_chunk d s) = x_conf s"
  "x_shadow (drop_chunk d s) = x_shadow s" "x_shadow_q (drop_chunk d s) = x_shadow_q s"
  "x_bells (drop_chunk d s) = x_bells s" "x_aborted (drop_chunk d s) = x_aborted s" "x_vc (drop_chunk d s) = x_vc s"
  "x_req (drop_chunk d s) = x_req s" "x_wq (drop_chunk d s) = x_wq s"
  "lz_state (x_desc (drop_chunk d s) e) = lz_state (x_desc s e)"
  "sh_state (x_desc (drop_chunk d s) e) = sh_state (x_desc s e)"
  "lazy_mode (x_desc (drop_chunk d s) e) = lazy_mode (x_desc s e)"
  by (auto simp: drop_chunk_def split: list.splits prod.splits)

text \<open>After a completion the channel is free again, unless a worker may still take the completion over.\<close>

lemma device_lets_go:
  assumes "owned Device s" "\<not> x_started s" "vchan_next_desc (x_vc s) = Some d" "\<not> (stealing (x_shadow s d) \<and> armed (x_desc s d))"
  shows "owned Nobody s"
proof -
  have "\<not> (stealing (x_shadow s e) \<and> armed (x_desc s e))" for e
    using owned_armed [OF assms(1) _ _ assms(3)] assms(4) by blast
  then show ?thesis using assms(1,2) unfolding owned_def claims_def loaded_def by auto
qed

lemma cancel_owned:
  assumes "owned ow s" "x_conf t = x_conf s" "x_started t = x_started s" "x_pending t = x_pending s" "x_launch t = x_launch s"
    "x_stat t = x_stat s" "x_vc t = x_vc s" "x_shadow t = x_shadow s" "x_shadow_q t = x_shadow_q s"
    "x_desc t = (x_desc s)(d := (x_desc s d)\<lparr>sh_state := st, lazy_mode := False\<rparr>)" "st \<noteq> SHADOW_ISR_PENDING"
  shows "owned ow t"
  by (rule owned_weaken [OF assms(1)]) (use assms in \<open>auto simp: armed_def building_def split: if_splits\<close>)

lemma deferred_to_shadow:
  assumes "owned Device s" "\<not> x_started s" "vchan_next_desc (x_vc s) = Some d" "\<And>e. e \<noteq> d \<Longrightarrow> Q e = x_shadow_q s e"
  shows "owned (Shadow d) ((upd_desc d (\<lambda>D. D\<lparr>sh_state := SHADOW_ISR_PENDING\<rparr>) s)\<lparr>x_shadow_q := Q\<rparr>)"
proof -
  let ?t = "(upd_desc d (\<lambda>D. D\<lparr>sh_state := SHADOW_ISR_PENDING\<rparr>) s)\<lparr>x_shadow_q := Q\<rparr>"
  have "claims (Shadow d) ?t e" for e
  proof (cases "e = d")
    case True
    then show ?thesis using assms unfolding owned_def claims_def by (auto simp: armed_def)
  next
    case False
    have "\<not> (stealing (x_shadow s e) \<and> armed (x_desc s e))" using owned_armed [OF assms(1) _ _ assms(3)] False by blast
    then show ?thesis using False assms unfolding owned_def claims_def by (auto simp: building_def)
  qed
  moreover have "building ?t e \<Longrightarrow> e = d" for e using owned_first [OF assms(1,3)] assms by (auto simp: building_def split: if_splits)
  then have "solo ?t" by (auto simp: solo_def)
  ultimately show ?thesis using assms(1,2) unfolding owned_def loaded_def by auto
qed

lemma deferred_to_refill:
  assumes "owned Device s" "\<not> x_started s" "vchan_next_desc (x_vc s) = Some d" "sh_state (x_desc s d) = SHADOW_IDLE"
  shows "owned (Refill d) ((upd_desc d (\<lambda>D. D\<lparr>lz_state := LAZY_REFILL_PENDING\<rparr>) s)\<lparr>x_lazy_q := Q\<rparr>)"
proof -
  let ?t = "(upd_desc d (\<lambda>D. D\<lparr>lz_state := LAZY_REFILL_PENDING\<rparr>) s)\<lparr>x_lazy_q := Q\<rparr>"
  have "claims (Refill d) ?t e" for e
  proof (cases "e = d")
    case True
    then show ?thesis using assms unfolding owned_def claims_def by (auto simp: armed_def building_def)
  next
    case False
    have "\<not> (stealing (x_shadow s e) \<and> armed (x_desc s e))" using owned_armed [OF assms(1) _ _ assms(3)] False by blast
    then show ?thesis using False assms unfolding owned_def claims_def by (auto simp: building_def)
  qed
  moreover have "building ?t e \<Longrightarrow> e = d" for e using owned_first [OF assms(1,3)] assms by (auto simp: building_def split: if_splits)
  then have "solo ?t" by (auto simp: solo_def)
  ultimately show ?thesis using assms(1,2) unfolding owned_def loaded_def by auto
qed

lemma lazy_error_owned:
  assumes "owned ow s"
  shows "owned ow (lazy_error d s)"
proof -
  have "claims ow (lazy_error d s) e" for e
    using assms unfolding owned_def claims_def
    by (cases "e = d") (auto simp: lazy_error_def armed_def building_def)
  moreover have "building (lazy_error d s) e \<Longrightarrow> building s e" for e by (auto simp: building_def lazy_error_def split: if_splits)
  then have "solo (lazy_error d s)" using assms unfolding owned_def solo_def by blast
  ultimately show ?thesis using assms by (simp add: owned_def lazy_error_def loaded_def)
qed

lemma lazy_error_simps [simp]:
  "x_bells (lazy_error d s) = x_bells s" "x_aborted (lazy_error d s) = x_aborted s"
  by (simp_all add: lazy_error_def)

lemmas defer_simps = dw_edma_defer_lazy_done_locked_def Let_def

lemma defer_ok:
  assumes o: "owned Device s" and ns: "\<not> x_started s" and n: "vchan_next_desc (x_vc s) = Some d"
    and r: "dw_edma_defer_lazy_done_locked d s = (b, t)" and a: "\<not> x_aborted t"
  shows "if b then \<exists>ow. owned ow t else owned Nobody t \<and> vchan_next_desc (x_vc t) = Some d \<and> \<not> building t d"
proof -
  let ?D = "x_desc s d"
  have nosh: "sh_state ?D \<noteq> SHADOW_ISR_PENDING" "\<not> copying (x_shadow s d)"
    using o by (auto simp: owned_def claims_def)
  consider (eager) "\<not> lazy_mode ?D" | (stop) "lazy_mode ?D" "x_req s = EDMA_REQ_STOP"
    | (shadow) "lazy_mode ?D" "x_req s \<noteq> EDMA_REQ_STOP" "sh_state ?D = SHADOW_READY \<or> sh_state ?D = SHADOW_BUILDING"
    | (refill) "lazy_mode ?D" "x_req s \<noteq> EDMA_REQ_STOP" "sh_state ?D = SHADOW_IDLE" "0 < sg_remaining ?D"
    | (last) "lazy_mode ?D" "x_req s \<noteq> EDMA_REQ_STOP" "sh_state ?D = SHADOW_IDLE" "sg_remaining ?D = 0"
    | (lost) "lazy_mode ?D" "x_req s \<noteq> EDMA_REQ_STOP" "sh_state ?D = SHADOW_CANCELLED"
    using nosh by (cases "sh_state ?D") auto
  then show ?thesis
  proof cases
    case eager
    then have "owned Nobody s" "\<not> building s d"
      using device_lets_go [OF o ns n] nosh by (auto simp: armed_def building_def)
    then show ?thesis using eager r n by (auto simp: defer_simps)
  next
    case stop
    then have t: "\<not> b" "t = upd_desc d (\<lambda>D. D\<lparr>sh_state := cancelled (sh_state D), lazy_mode := False\<rparr>) s"
      using r by (auto simp: defer_simps)
    have "owned Device t"
      by (rule cancel_owned [OF o, of _ d "cancelled (sh_state ?D)"]) (use nosh in \<open>auto simp: t cancelled_def\<close>)
    then have "owned Nobody t" by (rule device_lets_go) (use ns n in \<open>auto simp: t armed_def\<close>)
    then show ?thesis using t n nosh by (simp add: building_def cancelled_def)
  next
    case shadow
    define s1 where "s1 = upd_desc d (\<lambda>D. D\<lparr>sh_state := SHADOW_ISR_PENDING\<rparr>) s"
    have "owned (Shadow d) (s1\<lparr>x_shadow_q := (x_shadow_q s1)(d := True)\<rparr>)" "owned (Shadow d) (lazy_error d s1)"
      using deferred_to_shadow [OF o ns n, of "(x_shadow_q s)(d := True)"] deferred_to_shadow [OF o ns n, of "x_shadow_q s"]
      by (auto intro!: lazy_error_owned simp: upd_desc_def s1_def)
    then have "b \<and> owned (Shadow d) t" using r shadow by (auto simp: defer_simps s1_def)
    then show ?thesis by auto
  next
    case refill
    define s1 where "s1 = upd_desc d (\<lambda>D. D\<lparr>lz_state := LAZY_REFILL_PENDING\<rparr>) s"
    have "owned (Refill d) (s1\<lparr>x_lazy_q := Q\<rparr>)" for Q
      unfolding s1_def by (rule deferred_to_refill [OF o ns n refill(3)])
    from this [of "(x_lazy_q s1)(d := True)"] this [of "x_lazy_q s1"] lazy_error_owned [of "Refill d" s1 d]
    have "b \<and> owned (Refill d) t" using r refill by (auto simp: defer_simps s1_def)
    then show ?thesis by auto
  next
    case last
    have "owned Nobody s" "\<not> building s d"
      using device_lets_go [OF o ns n] last(3) nosh by (auto simp: armed_def building_def)
    then show ?thesis using last r n by (auto simp: defer_simps)
  next
    case lost
    then show ?thesis using r a by (auto simp: defer_simps)
  qed
qed

lemma defer_frame:
  assumes "dw_edma_defer_lazy_done_locked d s = (b, t)"
  shows "x_bells t = x_bells s" "x_started t = x_started s" "x_aborted s \<Longrightarrow> x_aborted t"
  using assms by (auto simp: defer_simps lazy_error_def split: if_splits shadow_state.splits)

lemma complete_done_ok:
  assumes ok: "chan_ok s" and st: "x_started s"
  shows "chan_ok (dw_edma_complete_done_locked s)"
proof (cases "vchan_next_desc (x_vc s)")
  case None
  then have t: "dw_edma_complete_done_locked s = s\<lparr>x_started := False\<rparr>"
    by (simp add: dw_edma_complete_done_locked_def)
  have "owned ow (s\<lparr>x_started := False\<rparr>)" if "owned ow s" for ow
    by (rule owned_weaken [OF that]) (auto simp: building_def)
  then show ?thesis using ok by (auto simp: chan_ok_def t)
next
  case (Some d)
  define s0 where "s0 = s\<lparr>x_started := False\<rparr>"
  have dev: "owned Device s0" if "\<not> x_aborted s"
  proof -
    have "\<exists>ow. owned ow s" using ok that by (simp add: chan_ok_def)
    then obtain ow where "owned ow s" ..
    moreover from this have "ow = Device" using st by (simp add: owned_def)
    ultimately have "owned Device s" by simp
    then show ?thesis by (rule owned_weaken) (auto simp: s0_def building_def)
  qed
  show ?thesis
  proof (cases "chunk_list (x_desc s d)")
    case Nil
    then have t: "dw_edma_complete_done_locked s = settle_request d s0"
      using Some by (simp add: dw_edma_complete_done_locked_def s0_def)
    have "x_aborted s"
    proof (rule ccontr)
      assume "\<not> x_aborted s"
      then have "\<exists>ow. owned ow s" using ok by (simp add: chan_ok_def)
      then show False using st Some Nil by (auto simp: owned_def loaded_def)
    qed
    then have "x_aborted (settle_request d s0)" by (simp add: settle_aborted s0_def)
    then show ?thesis using ok by (simp add: chan_ok_def t s0_def)
  next
    case (Cons c cs)
    define s1 where "s1 = upd_desc d (\<lambda>D. D\<lparr>xfer_sz := xfer_sz D + of_nat (r_sz (ll_region c))\<rparr>) s0"
    obtain b s2 where r: "dw_edma_defer_lazy_done_locked d s1 = (b, s2)" by fastforce
    have t: "dw_edma_complete_done_locked s = (if b then s2 else settle_request d (drop_chunk d s2))"
      using Some Cons r by (simp add: dw_edma_complete_done_locked_def s0_def s1_def Let_def split: bool.splits)
    have d: "if b then \<exists>ow. owned ow s2 else owned Nobody s2 \<and> vchan_next_desc (x_vc s2) = Some d \<and> \<not> building s2 d"
      if a: "\<not> x_aborted s2"
    proof (rule defer_ok [OF _ _ _ r a])
      have "\<not> x_aborted s" using a defer_frame(3) [OF r] by (auto simp: s1_def s0_def)
      from dev [OF this] show "owned Device s1"
        by (rule owned_weaken) (auto simp: s1_def armed_def building_def split: if_splits)
    qed (use Some in \<open>simp_all add: s1_def s0_def\<close>)
    have f: "x_bells s2 = x_bells s" "\<not> x_started s2" using defer_frame [OF r] by (simp_all add: s1_def s0_def)
    show ?thesis
    proof (cases b)
      case True
      then show ?thesis using d ok f by (simp add: chan_ok_def t)
    next
      case False
      have "\<exists>ow. owned ow (settle_request d (drop_chunk d s2))" if a: "\<not> x_aborted (settle_request d (drop_chunk d s2))"
      proof -
        have "\<not> x_aborted s2" using a settle_aborted [of "drop_chunk d s2" d] by auto
        from d [OF this] have g: "owned Nobody s2" "vchan_next_desc (x_vc s2) = Some d" "\<not> building s2 d" using False by auto
        have "owned Nobody (drop_chunk d s2)"
          by (rule owned_weaken [OF g(1)]) (use f in \<open>auto simp: armed_def building_def\<close>)
        then show ?thesis using settle_ok [of "drop_chunk d s2" d] g f a by (auto simp: building_def)
      qed
      then show ?thesis using ok f False by (simp add: chan_ok_def t)
    qed
  qed
qed

lemma done_ok: "chan_ok s \<Longrightarrow> chan_ok (snd (dw_edma_done_interrupt s))"
  by (simp add: dw_edma_done_interrupt_def complete_done_ok)

lemma hw_err_ok: "chan_ok (s\<lparr>x_hw_err := e\<rparr>) = chan_ok s"
  by (simp add: chan_ok_def owned_def loaded_def claims_def building_def solo_def)

lemma replay_ok: "chan_ok s \<Longrightarrow> chan_ok (snd (dw_edma_process_done_if_stopped alive early cst s))"
  by (auto simp: dw_edma_process_done_if_stopped_def complete_done_ok hw_err_ok split: sum.splits)

lemma abort_ok: "chan_ok s \<Longrightarrow> chan_ok (dw_edma_abort_interrupt s)"
  by (auto simp: dw_edma_abort_interrupt_def chan_ok_def Let_def split: option.splits)

section \<open>Client calls\<close>

lemma issue_ok:
  assumes "chan_ok s"
  shows "chan_ok (dw_edma_device_issue_pending s)"
proof (cases "\<not> x_down s \<and> x_conf s \<and> x_req s = EDMA_REQ_NONE \<and> x_stat s = EDMA_ST_IDLE")
  case True
  obtain some v where v: "vchan_issue_pending (x_vc s) = (some, v)" by fastforce
  have o: "owned Nobody (s\<lparr>x_vc := v, x_stat := st\<rparr>)" if "\<not> x_aborted s" for st
  proof -
    have "\<exists>ow. owned ow s" using assms that by (simp add: chan_ok_def)
    then have n: "owned Nobody s" using True by (auto simp: owned_def)
    have "vchan_next_desc v = Some d" if "vchan_next_desc (x_vc s) = Some d" for d
      using v that by (auto simp: vchan_issue_pending_def vchan_next_desc_def Let_def split: list.splits)
    then show ?thesis using n True by (auto simp: owned_def loaded_def claims_def building_def solo_def)
  qed
  have o1: "owned Nobody (s\<lparr>x_vc := v\<rparr>)" if "\<not> x_aborted s" by (rule owned_relax [OF o [OF that]]) simp_all
  from start_transfer_ok [OF o] o1 show ?thesis
    using assms True v start_transfer_aborted [of "s\<lparr>x_vc := v, x_stat := EDMA_ST_BUSY\<rparr>"]
    by (auto simp: dw_edma_device_issue_pending_def chan_ok_def Let_def)
qed (auto simp: dw_edma_device_issue_pending_def assms)

lemma resume_ok:
  assumes "chan_ok s"
  shows "chan_ok (snd (dw_edma_device_resume s))"
proof (cases "x_conf s \<and> x_stat s = EDMA_ST_PAUSE \<and> x_req s = EDMA_REQ_NONE")
  case True
  have "owned Nobody (s\<lparr>x_stat := EDMA_ST_BUSY\<rparr>)" if "\<not> x_aborted s"
  proof -
    have "\<exists>ow. owned ow s" using assms that by (simp add: chan_ok_def)
    then have "owned Nobody s" using True by (auto simp: owned_def)
    then show ?thesis by (rule owned_relax) simp_all
  qed
  from start_transfer_ok [OF this] show ?thesis
    using assms True start_transfer_aborted [of "s\<lparr>x_stat := EDMA_ST_BUSY\<rparr>"]
    by (auto simp: dw_edma_device_resume_def chan_ok_def)
qed (auto simp: dw_edma_device_resume_def assms)

lemma chan_ok_weaken:
  assumes "chan_ok s" "x_bells t = x_bells s" "x_aborted s \<longrightarrow> x_aborted t" "\<And>ow. owned ow s \<Longrightarrow> owned ow t"
  shows "chan_ok t"
  using assms by (auto simp: chan_ok_def)

lemma req_ok: "chan_ok (s\<lparr>x_req := q\<rparr>) = chan_ok s"
  by (simp add: chan_ok_def owned_def loaded_def claims_def building_def solo_def)

lemma pause_ok: "chan_ok s \<Longrightarrow> chan_ok (snd (dw_edma_device_pause s))"
  by (auto simp: dw_edma_device_pause_def req_ok)

lemma config_ok:
  assumes "chan_ok s" "settled s"
  shows "chan_ok (chan_device_config s)"
proof -
  have "owned Nobody (chan_device_config s)"
    using assms(2) by (simp add: owned_def loaded_def claims_def building_def solo_def chan_device_config_def settled_def at_rest_def)
  then show ?thesis using assms(1) by (auto simp: chan_ok_def chan_device_config_def)
qed

text \<open>A channel that is torn down has nothing left to build for.\<close>

lemma emptied_owned:
  assumes "owned ow s" "\<not> x_conf t" "x_stat t \<noteq> EDMA_ST_PAUSE \<or> x_stat t = x_stat s" "desc_issued (x_vc t) = []" "x_started t = x_started s" "x_launch t = x_launch s"
    "x_pending t = None \<or> x_pending t = x_pending s" "x_shadow t = x_shadow s" "x_shadow_q t = x_shadow_q s" "x_desc t = x_desc s"
  shows "owned ow t"
proof -
  have "building t = building s" using assms by (simp add: building_def fun_eq_iff)
  then show ?thesis using assms by (auto simp: owned_def loaded_def claims_def solo_def vchan_next_desc_def)
qed

lemma terminate_ok: "chan_ok s \<Longrightarrow> chan_ok (snd (snd (terminate_locked cs reset s)))"
proof (erule chan_ok_weaken)
  fix ow assume o: "owned ow s"
  let ?t = "snd (snd (terminate_locked cs reset s))"
  show "owned ow ?t"
  proof (cases "desc_issued (x_vc ?t) = [] \<and> \<not> x_conf ?t")
    case True
    show ?thesis by (rule emptied_owned [OF o]) (use True in \<open>auto simp: terminate_locked_def Let_def\<close>)
  next
    case False
    show ?thesis
      by (rule owned_weaken [OF o]) (use False in \<open>auto simp: terminate_locked_def Let_def building_def split: if_splits\<close>)
  qed
qed (auto simp: terminate_locked_def Let_def)

lemma next_cong: "desc_issued v = desc_issued w \<Longrightarrow> vchan_next_desc v = vchan_next_desc w"
  by (simp add: vchan_next_desc_def)

lemma issued_same:
  "desc_issued (vchan_tx_prep d r v) = desc_issued v" "desc_issued (snd (complete_take v)) = desc_issued v"
  "desc_issued (complete_one d v) = desc_issued v"
  "d \<notin> set (desc_issued v) \<Longrightarrow> desc_issued (snd (vchan_tx_submit d v)) = desc_issued v"
  by (simp_all add: vchan_tx_prep_def complete_take_def complete_one_def vchan_vdesc_fini_def vchan_tx_submit_def
      dma_cookie_assign_def unlink_def Let_def)

lemma lists_ok:
  assumes "chan_ok s" "desc_issued v = desc_issued (x_vc s)"
  shows "chan_ok (s\<lparr>x_vc := v\<rparr>)"
  using assms(1)
proof (rule chan_ok_weaken)
  show "owned ow (s\<lparr>x_vc := v\<rparr>)" if "owned ow s" for ow
    by (rule owned_weaken [OF that]) (use assms(2) in \<open>auto simp: building_def intro: next_cong\<close>)
qed simp_all

lemma drain_ok:
  assumes "chan_ok s" "\<not> x_conf s"
  shows "chan_ok (s\<lparr>x_vc := snd (vchan_get_all_descriptors [] (x_vc s))\<rparr>)"
  using assms(1)
proof (rule chan_ok_weaken)
  show "owned ow (s\<lparr>x_vc := snd (vchan_get_all_descriptors [] (x_vc s))\<rparr>)" if "owned ow s" for ow
    by (rule emptied_owned [OF that]) (use assms(2) in \<open>auto simp: vchan_get_all_descriptors_def\<close>)
qed simp_all

text \<open>A descriptor without workers may be replaced when the channel does not work on it.\<close>

lemma replace_ok:
  assumes "chan_ok s" "at_rest d s" "d \<notin> set (desc_issued (x_vc s))" "fresh_desc D"
    and t: "x_desc t = (x_desc s)(d := D)" "desc_issued (x_vc t) = desc_issued (x_vc s)"
      "\<And>e. x_shadow t e = x_shadow s e" "\<And>e. x_shadow_q t e = x_shadow_q s e" "x_bells t = x_bells s" "x_aborted t = x_aborted s"
      "x_started t = x_started s" "x_pending t = x_pending s" "x_launch t = x_launch s" "x_stat t = x_stat s" "x_conf t = x_conf s"
  shows "chan_ok t"
  using assms(1)
proof (rule chan_ok_weaken)
  fix ow assume o: "owned ow s"
  have nx: "vchan_next_desc (x_vc t) = vchan_next_desc (x_vc s)" by (rule next_cong [OF t(2)])
  have nd: "vchan_next_desc (x_vc s) \<noteq> Some d" using assms(3) by (auto simp: vchan_next_desc_def split: list.splits)
  have "claims ow t e" for e
  proof (cases "e = d")
    case True
    then show ?thesis using assms(2,4) t(1,3,4) by (auto simp: claims_def building_def at_rest_def fresh_desc_def armed_def)
  next
    case False
    then show ?thesis using o nx t by (simp add: owned_def claims_def building_def)
  qed
  moreover have "building t e \<Longrightarrow> building s e" for e
    using assms(2) t by (cases "e = d") (simp_all add: building_def at_rest_def)
  then have "solo t" using o unfolding owned_def solo_def by blast
  ultimately show "owned ow t" using o t nx nd by (simp add: owned_def loaded_def)
qed (use t in simp_all)

lemma release_ok:
  assumes "chan_ok s" "at_rest d s" "d \<notin> set (desc_issued (x_vc s))"
  shows "chan_ok (release_desc settle d s)"
  by (rule replace_ok [OF assms, of "zero_desc d"])
    (use assms(2) in \<open>auto simp: release_desc_def fresh_desc_def zero_desc_def at_rest_def\<close>)

lemma prepare_ok:
  assumes "chan_ok s" "at_rest d s" "d \<notin> set (all_descs (x_vc s))" "fresh_desc D"
  shows "chan_ok (s\<lparr>x_desc := (x_desc s)(d := D), x_mem := m, x_vc := vchan_tx_prep d False (x_vc s)\<rparr>)"
  by (rule replace_ok [OF assms(1,2) _ assms(4)]) (use assms(3) in \<open>auto simp: all_descs_def issued_same\<close>)

lemma remove_ok: "chan_ok s \<Longrightarrow> chan_ok (s\<lparr>x_down := b, x_wq := w\<rparr>)"
  by (simp add: chan_ok_def owned_def loaded_def claims_def building_def solo_def)

section \<open>The launch worker\<close>

lemma launch_take_ok:
  assumes "chan_ok s" "x_launch s = L_off"
  shows "chan_ok (launch_take allowed s)"
proof (cases "x_pending s = None \<or> launch_refused allowed s")
  case True
  have t: "launch_take allowed s = s\<lparr>x_launch_q := False, x_pending := None\<rparr>"
    using True by (auto simp: launch_take_def Let_def split: option.splits)
  have "owned ow s \<Longrightarrow> owned ow (launch_take allowed s)" for ow
    by (erule owned_weaken) (auto simp: t building_def)
  then show ?thesis using assms(1) by (auto simp: chan_ok_def t)
next
  case False
  then obtain d r where p: "x_pending s = Some (d, r)" by auto
  have t: "launch_take allowed s = s\<lparr>x_launch_q := False, x_pending := None, x_launch := L_taken d r (x_first s)\<rparr>"
    using False p by (simp add: launch_take_def Let_def)
  have "\<exists>ow. owned ow (launch_take allowed s)" if "owned ow s" for ow
  proof -
    have "owned Staged s" using that p by (auto simp: owned_def)
    then have "owned Launcher (launch_take allowed s)" using p by (auto simp: t owned_def loaded_def claims_def building_def solo_def)
    then show ?thesis ..
  qed
  then show ?thesis using assms(1) by (auto simp: chan_ok_def t)
qed

lemma launch_prepare_ok:
  assumes "chan_ok s"
  shows "chan_ok (launch_prepare idle copied s)"
  using assms
proof (rule chan_ok_weaken)
  show "owned ow (launch_prepare idle copied s)" if "owned ow s" for ow
    by (rule owned_weaken [OF that])
      (auto simp: launch_prepare_def armed_def building_def split: launch_pc.splits option.splits prod.splits if_splits)
qed (auto simp: launch_prepare_def split: launch_pc.splits option.splits prod.splits)

text \<open>The owner that rings the doorbell gives the channel to the device.\<close>

lemma bell_ok:
  assumes "owned ow s" "\<not> x_started s" "\<forall>b\<in>set (x_bells s). \<not> snd (snd b)"
    and "x_pending s = None" "x_launch s = L_off" "x_stat s = EDMA_ST_BUSY \<or> \<not> x_conf s \<and> x_stat s = EDMA_ST_IDLE"
    and "\<And>e. lz_state (x_desc s e) = LAZY_REFILL_IDLE \<and> sh_state (x_desc s e) \<noteq> SHADOW_ISR_PENDING \<and> \<not> copying (x_shadow s e) \<and>
           \<not> (stolen (x_shadow s e) \<and> armed (x_desc s e))"
    and "\<And>e. vchan_next_desc (x_vc s) = Some e \<Longrightarrow> chunk_list (x_desc s e) \<noteq> []"
  shows "chan_ok (bell d c s)"
proof -
  have "owned Device (bell d c s)"
    using assms by (auto simp: owned_def loaded_def claims_def building_def solo_def bell_def)
  then show ?thesis using assms(2,3) by (auto simp: chan_ok_def bell_def)
qed

lemma queue_shadow_ok:
  assumes "chan_ok s" "vchan_next_desc (x_vc s) = Some d \<or>
    vchan_next_desc (x_vc s) = None \<and> \<not> x_conf s \<and> (\<forall>e. building s e \<longrightarrow> e = d)"
  shows "chan_ok (s\<lparr>x_shadow_q := (x_shadow_q s)(d := True)\<rparr>)"
proof -
  have "owned ow (s\<lparr>x_shadow_q := (x_shadow_q s)(d := True)\<rparr>)" if o: "owned ow s" for ow
  proof -
    have "claims ow (s\<lparr>x_shadow_q := (x_shadow_q s)(d := True)\<rparr>) e" for e
      using o assms(2) by (cases "e = d") (auto simp: owned_def claims_def building_def)
    moreover have "building (s\<lparr>x_shadow_q := (x_shadow_q s)(d := True)\<rparr>) e \<Longrightarrow> e = d" for e
      using owned_first [OF o, of d] assms(2) by (cases "e = d") (auto simp: building_def)
    then have "solo (s\<lparr>x_shadow_q := (x_shadow_q s)(d := True)\<rparr>)" by (auto simp: solo_def)
    ultimately show ?thesis using o by (simp add: owned_def loaded_def)
  qed
  then show ?thesis using assms(1) by (auto simp: chan_ok_def)
qed

lemma unlazy_ok:
  assumes "chan_ok s"
  shows "chan_ok (upd_desc d (\<lambda>D. D\<lparr>lazy_mode := False, sh_state := SHADOW_IDLE\<rparr>) s)"
proof -
  have "owned ow (upd_desc d (\<lambda>D. D\<lparr>lazy_mode := False, sh_state := SHADOW_IDLE\<rparr>) s)" if "owned ow s" for ow
    by (rule owned_weaken [OF that]) (auto simp: armed_def building_def split: if_splits)
  then show ?thesis using assms by (auto simp: chan_ok_def)
qed

lemma bell_simps [simp]:
  "x_vc (bell d c s) = x_vc s" "x_conf (bell d c s) = x_conf s" "x_shadow (bell d c s) = x_shadow s" "x_desc (bell d c s) = x_desc s"
  "x_wq (bell d c s) = x_wq s" "x_shadow_q (bell d c s) = x_shadow_q s" "x_mem (bell d c s) = x_mem s" "x_aborted (bell d c s) = x_aborted s"
  by (simp_all add: bell_def)

lemma launch_bell_ok:
  assumes "chan_ok s" "\<not> x_aborted s" "x_launch s \<noteq> L_off" "x_stat s = EDMA_ST_BUSY" "vchan_next_desc (x_vc s) = Some d"
    "chunk_list (x_desc s d) \<noteq> []"
  shows "chan_ok (bell d c (s\<lparr>x_launch := L_off\<rparr>))"
proof -
  have "\<exists>ow. owned ow s" using assms(1,2) by (simp add: chan_ok_def)
  then have o: "owned Launcher s" using assms(3) by (auto simp: owned_def)
  then have "owned Launcher (s\<lparr>x_launch := L_off\<rparr>)" by (rule owned_weaken) (auto simp: building_def)
  then show ?thesis
    by (rule bell_ok) (use o assms in \<open>auto simp: owned_def claims_def chan_ok_def simp del: not_None_eq\<close>)
qed

lemma launch_finish_ok:
  assumes "chan_ok s"
  shows "chan_ok (launch_finish allowed s)"
proof (cases "x_launch s")
  case (L_prepared d r ret)
  define s1 where "s1 = s\<lparr>x_launch := L_off\<rparr>"
  have s1: "chan_ok s1"
  proof -
    have "owned ow s1" if "owned ow s" for ow
      by (rule owned_weaken [OF that]) (auto simp: s1_def building_def)
    then show ?thesis using assms by (auto simp: chan_ok_def s1_def)
  qed
  then have err: "chan_ok (s1\<lparr>x_hw_err := True\<rparr>)" by (simp add: hw_err_ok)
  show ?thesis
  proof (cases "ret \<noteq> 0 \<or> launch_refused allowed s")
    case True
    then show ?thesis using L_prepared s1 err by (auto simp: launch_finish_def s1_def Let_def)
  next
    case False
    have b: "chan_ok (bell e c s1)" if "vchan_next_desc (x_vc s) = Some e" "chunk_list (x_desc s e) = c # cs" for e c cs
      unfolding s1_def by (rule launch_bell_ok) (use that False L_prepared assms in \<open>auto simp: launch_refused_def\<close>)
    have q: "chan_ok ((bell e c s1)\<lparr>x_shadow_q := (x_shadow_q s1)(e := True)\<rparr>)"
      if "vchan_next_desc (x_vc s) = Some e" "chunk_list (x_desc s e) = c # cs" for e c cs
      using queue_shadow_ok [OF b [OF that], of e] that by (simp add: s1_def)
    have u: "chan_ok ((upd_desc e (\<lambda>D. D\<lparr>lazy_mode := False, sh_state := SHADOW_IDLE\<rparr>) (bell e c s1))\<lparr>x_hw_err := True\<rparr>)"
      if "vchan_next_desc (x_vc s) = Some e" "chunk_list (x_desc s e) = c # cs" for e c cs
      using unlazy_ok [OF b [OF that]] by (simp add: hw_err_ok)
    show ?thesis using L_prepared False err b q u
      by (auto simp: launch_finish_def s1_def Let_def split: option.splits list.splits)
  qed
qed (auto simp: launch_finish_def assms)

section \<open>The refill worker\<close>

text \<open>Where a refill ends without a doorbell the channel is free.\<close>

lemma refill_owner:
  assumes "chan_ok s" "\<not> x_aborted s" "lz_state (x_desc s d) \<noteq> LAZY_REFILL_IDLE"
  shows "owned (Refill d) s"
  using assms unfolding chan_ok_def owned_def claims_def by blast

lemma refill_ends:
  assumes "owned (Refill d) s" "lz_state (x_desc s d) = LAZY_REFILL_IDLE"
  shows "owned Nobody s"
proof -
  have "claims Nobody s e" for e using assms by (cases "e = d") (auto simp: owned_def claims_def)
  then show ?thesis using assms(1) by (auto simp: owned_def)
qed

lemma refill_stops:
  assumes "owned (Refill d) s" "vchan_next_desc (x_vc s) = Some d"
    and "x_desc t = (x_desc s)(d := D)" "\<not> lazy_mode D" "lz_state D = LAZY_REFILL_IDLE" "sh_state D = sh_state (x_desc s d)"
    and "x_started t = x_started s" "x_pending t = x_pending s" "x_launch t = x_launch s" "x_conf t = x_conf s"
      "x_shadow t = x_shadow s" "x_shadow_q t = x_shadow_q s" "x_vc t = x_vc s"
  shows "owned Nobody ((complete_desc d t)\<lparr>x_req := q, x_stat := EDMA_ST_IDLE\<rparr>)"
proof -
  have i: "sh_state (x_desc s d) \<noteq> SHADOW_ISR_PENDING" "\<not> copying (x_shadow s d)" "\<not> x_started s"
    using assms(1) by (auto simp: owned_def claims_def)
  have "owned (Refill d) (t\<lparr>x_stat := x_stat s\<rparr>)"
    by (rule owned_weaken [OF assms(1)])
      (use assms i in \<open>auto simp: armed_def building_def split: if_splits\<close>)
  then have "owned Nobody (t\<lparr>x_stat := x_stat s\<rparr>)" by (rule refill_ends) (simp add: assms)
  then have "owned Nobody t" by (rule owned_relax) simp_all
  then have "owned Nobody (complete_desc d t)"
    by (rule complete_owned) (use assms i in \<open>auto simp: building_def\<close>)
  then show ?thesis by (rule owned_relax) simp_all
qed

lemma drop_chunk_desc: "x_desc (drop_chunk d s) = (x_desc s)(d := x_desc (drop_chunk d s) d)"
  by (auto simp: drop_chunk_def split: list.splits prod.splits)

lemma lazy_claim_frame [simp]:
  "x_bells (lazy_claim ret d s) = x_bells s" "x_aborted (lazy_claim ret d s) = x_aborted s"
  by (auto simp: lazy_claim_def Let_def)

lemma lazy_claim_owned:
  assumes "chan_ok s" "\<not> x_aborted s"
  shows "\<exists>ow. owned ow (lazy_claim ret d s)"
proof (cases "lz_state (x_desc s d) = LAZY_REFILL_PENDING")
  case False
  have "\<exists>ow. owned ow s" using assms by (simp add: chan_ok_def)
  then obtain ow where o: "owned ow s" ..
  have "owned ow (lazy_claim ret d s)"
    by (rule owned_weaken [OF o]) (use False in \<open>auto simp: lazy_claim_def Let_def building_def\<close>)
  then show ?thesis ..
next
  case True
  define s1 where "s1 = upd_desc d (\<lambda>D. D\<lparr>lz_state := LAZY_REFILL_IDLE\<rparr>) (s\<lparr>x_lazy_q := (x_lazy_q s)(d := False)\<rparr>)"
  have o: "owned (Refill d) s" using refill_owner [OF assms] True by simp
  have o1: "owned (Refill d) s1"
    by (rule owned_weaken [OF o]) (auto simp: s1_def armed_def building_def split: if_splits)
  have e: "owned (Refill d) (lazy_error d s1)" by (rule lazy_error_owned [OF o1])
  define s2 where "s2 = drop_chunk d (upd_desc d (\<lambda>D. D\<lparr>lazy_mode := False\<rparr>) s1)"
  have stop: "owned Nobody ((complete_desc d s2)\<lparr>x_req := EDMA_REQ_NONE, x_stat := EDMA_ST_IDLE\<rparr>)"
    if "vchan_next_desc (x_vc s) = Some d"
    by (rule refill_stops [OF o1, of _ "x_desc s2 d"])
      (use that in \<open>auto simp: s2_def s1_def intro: trans [OF drop_chunk_desc]\<close>)
  have take: "owned (Refill d) ((upd_desc d (\<lambda>D. D\<lparr>chunk_list := tl (chunk_list D), chunks_alloc := chunks_alloc D - 1,
      lz_state := LAZY_REFILL_PREPARING\<rparr>) s1)\<lparr>x_lazy := Z\<rparr>)" for Z
    by (rule owned_weaken [OF o]) (use True o in \<open>auto simp: s1_def armed_def building_def owned_def split: if_splits\<close>)
  show ?thesis
    using True o1 e stop take
    by (simp add: lazy_claim_def Let_def s1_def [symmetric] s2_def [symmetric]) (auto simp: s1_def)
qed

lemma lazy_claim_ok: "chan_ok s \<Longrightarrow> chan_ok (lazy_claim ret d s)"
  using lazy_claim_owned by (simp add: chan_ok_def)

lemma lazy_prepare_ok:
  assumes "chan_ok s"
  shows "chan_ok (lazy_prepare idle copied d s)"
  using assms
proof (rule chan_ok_weaken)
  show "owned ow (lazy_prepare idle copied d s)" if "owned ow s" for ow
    by (rule owned_weaken [OF that])
      (auto simp: lazy_prepare_def building_def split: lazy_pc.splits prod.splits if_splits)
qed (auto simp: lazy_prepare_def split: lazy_pc.splits prod.splits if_splits)

lemma mem_owned [simp]: "owned ow (s\<lparr>x_mem := m\<rparr>) = owned ow s"
  by (simp add: owned_def loaded_def claims_def building_def solo_def)

lemma mem_ok [simp]: "chan_ok (s\<lparr>x_mem := m\<rparr>) = chan_ok s"
  by (simp add: chan_ok_def)

lemma lazy_owned [simp]: "owned ow (s\<lparr>x_lazy := z\<rparr>) = owned ow s"
  by (simp add: owned_def loaded_def claims_def building_def solo_def)

lemma lazy_bell_ok:
  assumes "chan_ok s" "\<not> x_aborted s" "lz_state (x_desc s d) \<noteq> LAZY_REFILL_IDLE" "vchan_next_desc (x_vc s) = Some d"
    and t: "x_desc t = (x_desc s)(d := D)" "lz_state D = LAZY_REFILL_IDLE" "sh_state D = sh_state (x_desc s d)"
      "lazy_mode D \<longrightarrow> lazy_mode (x_desc s d)" "chunk_list D \<noteq> []" "x_stat t = EDMA_ST_BUSY"
      "x_started t = x_started s" "x_pending t = x_pending s" "x_launch t = x_launch s" "x_conf t = x_conf s"
      "x_shadow t = x_shadow s" "x_shadow_q t = x_shadow_q s" "x_vc t = x_vc s" "x_bells t = x_bells s"
  shows "chan_ok (bell d c t)"
proof -
  have o: "owned (Refill d) s" using refill_owner assms by simp
  have i: "sh_state (x_desc s d) \<noteq> SHADOW_ISR_PENDING" using o by (auto simp: owned_def claims_def)
  have "owned (Refill d) t"
    by (rule owned_weaken [OF o]) (use t i in \<open>auto simp: armed_def building_def split: if_splits\<close>)
  then show ?thesis
  proof (rule bell_ok)
    have "claims (Refill d) s e" for e using o by (simp add: owned_def)
    then show "lz_state (x_desc t e) = LAZY_REFILL_IDLE \<and> sh_state (x_desc t e) \<noteq> SHADOW_ISR_PENDING \<and> \<not> copying (x_shadow t e) \<and>
           \<not> (stolen (x_shadow t e) \<and> armed (x_desc t e))" for e
      using t i by (cases "e = d") (auto simp: claims_def armed_def)
  qed (use assms o in \<open>auto simp: owned_def chan_ok_def simp del: not_None_eq\<close>)
qed

lemma lazy_commit_ok:
  assumes "chan_ok s0"
  shows "chan_ok (lazy_commit d s0)"
proof (cases "x_lazy s0 d")
  case (Z_prepared c ret p)
  obtain k sz where p: "p = (k, sz)" by fastforce
  define s where "s = s0\<lparr>x_lazy := (x_lazy s0)(d := Z_off)\<rparr>"
  have ok: "chan_ok s" using assms by (simp add: chan_ok_def s_def)
  define s1 where "s1 = upd_desc d (\<lambda>D. D\<lparr>lz_state := LAZY_REFILL_IDLE\<rparr>) s"
  have s1: "owned ow s \<Longrightarrow> owned ow s1" for ow
    by (erule owned_weaken) (auto simp: s1_def armed_def building_def split: if_splits)
  have ok1: "chan_ok s1" using s1 ok by (auto simp: chan_ok_def s1_def)
  have oke: "chan_ok (lazy_error d s1)" using lazy_error_owned ok1 by (auto simp: chan_ok_def)
  define s2 where "s2 = (upd_desc d (\<lambda>D. D\<lparr>lazy_mode := False, lz_state := LAZY_REFILL_IDLE\<rparr>) s)\<lparr>x_mem := dw_edma_defer_chunk_free c (x_mem s)\<rparr>"
  have stop: "chan_ok ((complete_desc d s2)\<lparr>x_req := EDMA_REQ_NONE, x_stat := EDMA_ST_IDLE\<rparr>)"
    if "vchan_next_desc (x_vc s) = Some d" "lz_state (x_desc s d) = LAZY_REFILL_PREPARING"
  proof -
    have "owned Nobody ((complete_desc d s2)\<lparr>x_req := EDMA_REQ_NONE, x_stat := EDMA_ST_IDLE\<rparr>)" if "\<not> x_aborted s"
      by (rule refill_stops [OF refill_owner [OF ok that], where D = "x_desc s2 d"]) (use \<open>lz_state _ = _\<close> \<open>_ = Some d\<close> in \<open>auto simp: s2_def\<close>)
    then show ?thesis using ok by (auto simp: chan_ok_def s2_def)
  qed
  show ?thesis
  proof (cases "vchan_next_desc (x_vc s) = Some d \<and> lz_state (x_desc s d) = LAZY_REFILL_PREPARING \<and> ret = 0 \<and> x_req s = EDMA_REQ_NONE \<and>
      lazy_mode (x_desc s d) \<and> \<not> x_aborted s \<and> \<not> x_hw_err s")
    case True
    define t where "t = (upd_desc d (\<lambda>D. D\<lparr>sg_cur := k_sg k, sg_remaining := k_remaining k, addr_accum := k_addr k, alloc_sz := sz,
        lazy_mode := (lazy_mode D \<and> k_remaining k \<noteq> 0), chunk_list := c # chunk_list D,
        chunks_alloc := chunks_alloc D + 1, lz_state := LAZY_REFILL_IDLE\<rparr>) s)\<lparr>x_stat := EDMA_ST_BUSY\<rparr>"
    have "chan_ok (bell d c t)"
      by (rule lazy_bell_ok [OF ok, where D = "x_desc t d"]) (use True in \<open>auto simp: t_def\<close>)
    moreover have "lazy_commit d s0 = bell d c t"
      using True by (simp add: lazy_commit_def Z_prepared p s_def [symmetric] Let_def t_def)
    ultimately show ?thesis by simp
  next
    case False
    have "lazy_commit d s0 \<in> {s1\<lparr>x_mem := dw_edma_free_unlinked_chunk (Some c) (x_mem s1)\<rparr>, s\<lparr>x_mem := dw_edma_free_unlinked_chunk (Some c) (x_mem s)\<rparr>,
      (lazy_error d s1)\<lparr>x_mem := dw_edma_defer_chunk_free c (x_mem (lazy_error d s1))\<rparr>, s1\<lparr>x_mem := dw_edma_defer_chunk_free c (x_mem s1)\<rparr>} \<or>
      lazy_commit d s0 = (complete_desc d s2)\<lparr>x_req := EDMA_REQ_NONE, x_stat := EDMA_ST_IDLE\<rparr> \<and>
        vchan_next_desc (x_vc s) = Some d \<and> lz_state (x_desc s d) = LAZY_REFILL_PREPARING"
      using False by (simp add: lazy_commit_def Z_prepared p s_def [symmetric] s1_def [symmetric] Let_def) (auto simp: s2_def)
    then show ?thesis using ok ok1 oke stop by (elim disjE) auto
  qed
qed (simp_all add: lazy_commit_def assms)

section \<open>The shadow worker\<close>

lemma set_shadow_simps [simp]:
  "x_started (set_shadow d p s) = x_started s" "x_pending (set_shadow d p s) = x_pending s"
  "x_launch (set_shadow d p s) = x_launch s" "x_stat (set_shadow d p s) = x_stat s" "x_conf (set_shadow d p s) = x_conf s"
  "x_shadow (set_shadow d p s) = (x_shadow s)(d := p)" "x_shadow_q (set_shadow d p s) = x_shadow_q s"
  "x_desc (set_shadow d p s) = x_desc s" "x_bells (set_shadow d p s) = x_bells s" "x_aborted (set_shadow d p s) = x_aborted s"
  "x_vc (set_shadow d p s) = x_vc s" "x_req (set_shadow d p s) = x_req s" "x_mem (set_shadow d p s) = x_mem s" "x_wq (set_shadow d p s) = x_wq s"
  by (simp_all add: set_shadow_def)

text \<open>
  A step of the worker on one descriptor that changes nothing of the others: the owner stays when the worker takes no
  new claim.
\<close>

lemma shadow_step_ok:
  assumes "chan_ok s" "x_bells t = x_bells s" "x_aborted s \<longrightarrow> x_aborted t"
    and eq: "x_started t \<longrightarrow> x_started s" "x_pending t = x_pending s" "x_launch t = x_launch s" "x_stat t = x_stat s" "x_conf t = x_conf s"
      "x_vc t = x_vc s"
    and ot: "\<And>e. e \<noteq> d \<Longrightarrow> x_desc t e = x_desc s e \<and> x_shadow t e = x_shadow s e \<and> x_shadow_q t e = x_shadow_q s e"
    and ch: "x_started t \<longrightarrow> chunk_list (x_desc s d) \<noteq> [] \<longrightarrow> chunk_list (x_desc t d) \<noteq> []"
    and bd: "building t d \<Longrightarrow> building s d"
    and cl: "\<And>ow. owned ow s \<Longrightarrow> claims ow s d \<Longrightarrow> claims ow t d"
  shows "chan_ok t"
  using assms(1-3)
proof (rule chan_ok_weaken)
  fix ow assume o: "owned ow s"
  have "claims ow t e" for e
  proof (cases "e = d")
    case True
    have "claims ow s d" using o by (simp add: owned_def)
    then show ?thesis using cl [OF o] True by simp
  next
    case False
    have "claims ow s e" using o by (simp add: owned_def)
    then show ?thesis using ot [OF False] eq by (simp add: claims_def building_def)
  qed
  moreover have "loaded t" unfolding loaded_def
  proof (intro allI impI)
    fix e assume a: "x_started t \<and> vchan_next_desc (x_vc t) = Some e"
    then have "chunk_list (x_desc s e) \<noteq> []" using o eq by (simp add: owned_def loaded_def)
    then show "chunk_list (x_desc t e) \<noteq> []" using a ch ot [of e] by (cases "e = d") auto
  qed
  moreover have "building t e \<Longrightarrow> building s e" for e using bd ot [of e] by (cases "e = d") (simp_all add: building_def)
  then have "solo t" using o unfolding owned_def solo_def by blast
  ultimately show "owned ow t" using o eq by (simp add: owned_def)
qed

lemmas claim_defs = claims_def building_def armed_def

lemma shadow_enter_ok:
  assumes "chan_ok s" "x_shadow_q s d" "x_shadow s d = S_off"
  shows "chan_ok (shadow_enter d s)"
  by (rule shadow_step_ok [OF assms(1), where d = d])
    (use assms(2,3) in \<open>auto simp: shadow_enter_def Let_def claim_defs split: option.splits\<close>)

lemma fill_keeps:
  assumes "dw_edma_shadow_fill_chunk ch a D c m = (n, D1, c1, m1)"
  shows "lz_state D1 = lz_state D" "sh_state D1 = sh_state D" "lazy_mode D1 = lazy_mode D" "chunk_list D1 = chunk_list D"
  using assms by (auto simp: dw_edma_shadow_fill_chunk_def Let_def split: if_splits prod.splits option.splits)

lemma shadow_fail_ok:
  assumes "chan_ok s"
  shows "chan_ok (shadow_fail d c s)"
  by (rule shadow_step_ok [OF assms(1), where d = d]) (auto simp: shadow_fail_def Let_def claim_defs)

lemma shadow_publish_ok:
  assumes "chan_ok s"
  shows "chan_ok (shadow_publish d s)"
  by (rule shadow_step_ok [OF assms(1), where d = d])
    (auto simp: shadow_publish_def claim_defs split: shadow_pc.splits shadow_state.splits)

lemma shadow_test_ok:
  assumes "chan_ok s"
  shows "chan_ok (shadow_test cs d s)"
  by (rule shadow_step_ok [OF assms(1), where d = d])
    (auto simp: shadow_test_def claim_defs owned_def split: shadow_pc.splits if_splits)

lemma shadow_recheck_ok:
  assumes "chan_ok s"
  shows "chan_ok (shadow_recheck d s)"
  by (rule shadow_step_ok [OF assms(1), where d = d])
    (auto simp: shadow_recheck_def claim_defs Let_def split: shadow_pc.splits)

lemma shadow_copied_ok:
  assumes "chan_ok s"
  shows "chan_ok (shadow_copied ret d s)"
  by (rule shadow_step_ok [OF assms(1), where d = d])
    (auto simp: shadow_copied_def claim_defs Let_def split: shadow_pc.splits)

lemma shadow_handoff_ok:
  assumes "chan_ok s"
  shows "chan_ok (shadow_handoff d s)"
  by (rule shadow_step_ok [OF assms(1), where d = d])
    (auto simp: shadow_handoff_def claim_defs Let_def split: shadow_pc.splits if_splits)

lemma shadow_giveup_ok: "chan_ok s \<Longrightarrow> chan_ok (shadow_giveup d s)"
  by (auto simp: shadow_giveup_def chan_ok_def split: shadow_pc.splits)

lemma refit_ok:
  assumes "chan_ok s" "lz_state D = lz_state (x_desc s d)" "sh_state D = sh_state (x_desc s d)" "lazy_mode D = lazy_mode (x_desc s d)"
    "chunk_list D = chunk_list (x_desc s d)"
  shows "chan_ok ((upd_desc d (\<lambda>_. D) s)\<lparr>x_mem := m, x_host := h\<rparr>)"
  by (rule shadow_step_ok [OF assms(1), where d = d]) (use assms(2-) in \<open>auto simp: claim_defs\<close>)

lemma shadow_fill_ok:
  assumes "chan_ok s"
  shows "chan_ok (shadow_fill d s)"
proof (cases "x_shadow s d")
  case (S_fill c)
  obtain n D1 c1 m1 where f: "dw_edma_shadow_fill_chunk (x_base s) False (x_desc s d) c (x_mem s) = (n, D1, c1, m1)"
    by (metis prod_cases4)
  obtain r c2 m2 h where w: "dw_edma_v0_core_write_chunk (ch_dir (x_base s)) c1 m1 (x_host s) = (r, c2, m2, h)"
    by (metis prod_cases4)
  obtain nxt m3 where a: "(if shadow_has_more D1 then dw_edma_alloc_unlinked_chunk (x_base s) m2 else (None, m2)) = (nxt, m3)"
    by fastforce
  note k = fill_keeps [OF f]
  define s1 where "s1 = (upd_desc d (\<lambda>_. D1\<lparr>shadow_chunk := Some c1\<rparr>) s)\<lparr>x_mem := m1\<rparr>"
  define s2 where "s2 = (upd_desc d (\<lambda>D. D\<lparr>shadow_chunk := Some c2\<rparr>) s1)\<lparr>x_mem := m2, x_host := h\<rparr>"
  have s1: "chan_ok s1"
    using refit_ok [OF assms, where D = "D1\<lparr>shadow_chunk := Some c1\<rparr>" and d = d and m = m1 and h = "x_host s"] k by (simp add: s1_def upd_desc_def)
  have s2: "chan_ok s2"
    using refit_ok [OF s1, where D = "(x_desc s1 d)\<lparr>shadow_chunk := Some c2\<rparr>" and d = d and m = m2 and h = h] by (simp add: s2_def upd_desc_def)
  have on: "x_shadow s2 d = S_fill c" using S_fill by (simp add: s2_def s1_def)
  have "chan_ok (set_shadow d (S_built c2 nxt) s2)"
    by (rule shadow_step_ok [OF s2, where d = d]) (use on in \<open>auto simp: claim_defs\<close>)
  then have "chan_ok (set_shadow d (S_built c2 nxt) (s2\<lparr>x_mem := m3\<rparr>))" by (simp add: chan_ok_def set_shadow_def owned_def loaded_def claims_def building_def solo_def)
  then show ?thesis using shadow_fail_ok [OF s1] shadow_fail_ok [OF s2]
    by (simp add: shadow_fill_def S_fill f w a Let_def s1_def s2_def)
qed (simp_all add: shadow_fill_def assms)

text \<open>Only the worker of the descriptor at the head can be about to take a completion over.\<close>

lemma solo_armed:
  assumes "owned ow s" "stealing (x_shadow s d)" "armed (x_desc s d)" "stealing (x_shadow s e)" "armed (x_desc s e)"
  shows "e = d"
proof -
  have "building s d" "building s e" using assms by (auto simp: building_def armed_def)
  then show ?thesis using assms(1) by (auto simp: owned_def solo_def)
qed

lemma shadow_steal_ok:
  assumes "chan_ok s"
  shows "chan_ok (shadow_steal d s)"
proof (cases "\<exists>c. x_shadow s d = S_steal c \<and> armed (x_desc s d)")
  case True
  then obtain c where st: "x_shadow s d = S_steal c" and ar: "armed (x_desc s d)" by auto
  let ?t = "set_shadow d (S_stolen c) (s\<lparr>x_started := False\<rparr>)"
  have "owned (Shadow d) ?t" if o: "owned ow s" for ow
  proof -
    have ow: "ow = Device" using o st ar by (auto simp: owned_def claims_def)
    have "claims (Shadow d) ?t e" for e
    proof (cases "e = d")
      case True
      then show ?thesis using o st ar ow by (auto simp: owned_def claim_defs)
    next
      case False
      then have "\<not> (stealing (x_shadow s e) \<and> armed (x_desc s e))" using solo_armed [OF o, of d e] st ar by auto
      then show ?thesis using o ow False by (auto simp: owned_def claims_def building_def)
    qed
    moreover have "building ?t e = building s e" for e using st by (simp add: building_def)
    then have "solo ?t" using o by (simp add: owned_def solo_def)
    ultimately show ?thesis using o ow by (auto simp: owned_def loaded_def)
  qed
  then show ?thesis using assms st by (auto simp: shadow_steal_def chan_ok_def)
next
  case False
  show ?thesis
    by (rule shadow_step_ok [OF assms(1), where d = d])
      (use False in \<open>auto simp: shadow_steal_def claim_defs split: shadow_pc.splits\<close>)
qed

lemma bell_set_shadow: "set_shadow d p (bell e c s) = bell e c (set_shadow d p s)"
  by (simp add: set_shadow_def bell_def)

lemma bell_upd_desc: "upd_desc d f (bell e c s) = bell e c (upd_desc d f s)"
  by (simp add: upd_desc_def bell_def)

text \<open>What the swap leaves: the worker gives the channel to the device.\<close>

lemma shadow_owner:
  assumes "chan_ok s" "\<not> x_aborted s" "copying (x_shadow s d)"
  shows "owned (Shadow d) s" "vchan_next_desc (x_vc s) = Some d \<or> vchan_next_desc (x_vc s) = None \<and> \<not> x_conf s"
    "building s e \<Longrightarrow> e = d"
proof -
  have "\<exists>ow. owned ow s" using assms(1,2) by (simp add: chan_ok_def)
  then show o: "owned (Shadow d) s" using assms(3) by (auto simp: owned_def claims_def)
  have b: "building s d" using assms(3) by (auto simp: building_def)
  show "vchan_next_desc (x_vc s) = Some d \<or> vchan_next_desc (x_vc s) = None \<and> \<not> x_conf s"
    using o b by (simp add: owned_def claims_def)
  show "e = d" if "building s e" using o b that by (simp add: owned_def solo_def)
qed

lemma swap_bell_ok:
  assumes ok: "chan_ok s" "\<not> x_aborted s" "copying (x_shadow s d)"
    and t: "x_desc t = (x_desc s)(d := D)" "x_shadow t = (x_shadow s)(d := p)" "p = S_off \<or> p = S_giveup" "sh_state D = SHADOW_IDLE"
      "lz_state D = lz_state (x_desc s d)" "chunk_list D \<noteq> []" "x_stat t = EDMA_ST_BUSY" "x_shadow_q t = x_shadow_q s"
      "x_started t = x_started s" "x_pending t = x_pending s" "x_launch t = x_launch s" "x_conf t = x_conf s"
      "x_vc t = x_vc s" "x_bells t = x_bells s"
  shows "chan_ok (bell d c t)"
proof -
  note o = shadow_owner [OF ok]
  have "owned (Shadow d) t"
    by (rule owned_weaken [OF o(1)]) (use t in \<open>auto simp: armed_def building_def split: if_splits\<close>)
  then show ?thesis
  proof (rule bell_ok)
    have "claims (Shadow d) s e" for e using o(1) by (simp add: owned_def)
    then show "lz_state (x_desc t e) = LAZY_REFILL_IDLE \<and> sh_state (x_desc t e) \<noteq> SHADOW_ISR_PENDING \<and> \<not> copying (x_shadow t e) \<and>
           \<not> (stolen (x_shadow t e) \<and> armed (x_desc t e))" for e
      using t(1-5) by (cases "e = d") (auto simp: claims_def armed_def)
  qed (use o ok t in \<open>auto simp: owned_def chan_ok_def simp del: not_None_eq\<close>)
qed

lemma rebuild_ok:
  assumes "chan_ok s" "x_shadow s d = S_off" "vchan_next_desc (x_vc s) = Some d \<or>
      vchan_next_desc (x_vc s) = None \<and> \<not> x_conf s \<and> (\<forall>e. building s e \<longrightarrow> e = d)"
    and "lz_state D = lz_state (x_desc s d)" "sh_state D = SHADOW_BUILDING" "chunk_list D = chunk_list (x_desc s d)"
  shows "chan_ok ((upd_desc d (\<lambda>_. D) s)\<lparr>x_shadow_q := (x_shadow_q s)(d := True)\<rparr>)"
proof -
  let ?t = "(upd_desc d (\<lambda>_. D) s)\<lparr>x_shadow_q := (x_shadow_q s)(d := True)\<rparr>"
  have "owned ow ?t" if o: "owned ow s" for ow
  proof -
    have "claims ow s e" for e using o by (simp add: owned_def)
    then have "claims ow ?t e" for e
      using assms(2-6) by (cases "e = d") (auto simp: claim_defs)
    moreover have "building ?t e \<Longrightarrow> e = d" for e
      using owned_first [OF o, of d] assms(3) by (cases "e = d") (auto simp: building_def)
    then have "solo ?t" by (auto simp: solo_def)
    ultimately show ?thesis using o assms(6) by (auto simp: owned_def loaded_def)
  qed
  then show ?thesis using assms(1) by (auto simp: chan_ok_def)
qed

lemma swap_chunks_frame [simp]:
  "x_started (swap_chunks d c s) = x_started s" "x_pending (swap_chunks d c s) = x_pending s"
  "x_launch (swap_chunks d c s) = x_launch s" "x_stat (swap_chunks d c s) = EDMA_ST_BUSY" "x_conf (swap_chunks d c s) = x_conf s"
  "x_shadow (swap_chunks d c s) = x_shadow s" "x_shadow_q (swap_chunks d c s) = x_shadow_q s" "x_vc (swap_chunks d c s) = x_vc s"
  "x_bells (swap_chunks d c s) = x_bells s" "x_aborted (swap_chunks d c s) = x_aborted s"
  "sh_state (x_desc (swap_chunks d c s) d) = SHADOW_IDLE" "chunk_list (x_desc (swap_chunks d c s) d) \<noteq> []"
  "lz_state (x_desc (swap_chunks d c s) d) = lz_state (x_desc s d)"
  by (simp_all add: swap_chunks_def Let_def)

lemma swap_chunks_desc: "x_desc (swap_chunks d c s) = (x_desc s)(d := x_desc (swap_chunks d c s) d)"
  by (simp add: swap_chunks_def Let_def, subst drop_chunk_desc, simp)

lemma swap_chunks_other [simp]: "e \<noteq> d \<Longrightarrow> x_desc (swap_chunks d c s) e = x_desc s e"
  by (subst swap_chunks_desc) simp

lemma shadow_gone_ok:
  assumes "chan_ok s"
  shows "chan_ok (set_shadow d S_off ((upd_desc d (\<lambda>D. D\<lparr>sh_state := SHADOW_IDLE\<rparr>) s)\<lparr>x_mem := m\<rparr>))"
  by (rule shadow_step_ok [OF assms, where d = d]) (auto simp: claim_defs)

lemma swap_refused_ok:
  assumes "chan_ok s" "copying (x_shadow s d)"
  shows "chan_ok (set_shadow d S_off ((lazy_error d (swap_chunks d c s))\<lparr>x_mem := m\<rparr>))"
  using assms(1)
proof (rule chan_ok_weaken)
  fix ow assume o: "owned ow s"
  have "building s d" using assms(2) by (auto simp: building_def)
  then show "owned ow (set_shadow d S_off ((lazy_error d (swap_chunks d c s))\<lparr>x_mem := m\<rparr>))"
    by (intro owned_weaken [OF o]) (auto simp: lazy_error_def armed_def building_def split: if_splits)
qed (simp_all add: lazy_error_def)

text \<open>The swap that rings: alone, with the next build queued, or with the next build lost.\<close>

lemma swap_rings_ok:
  assumes ok: "chan_ok s" "\<not> x_aborted s" "copying (x_shadow s d)"
    and t: "t = swap_chunks d c s \<or> t = upd_desc d (\<lambda>D. D\<lparr>lazy_mode := False, sg_remaining := 0, shadow_next_remaining := 0\<rparr>) (swap_chunks d c s)"
  shows "p = S_off \<or> p = S_giveup \<Longrightarrow> chan_ok (set_shadow d p ((bell d c t)\<lparr>x_mem := m\<rparr>))"
    and "chan_ok (set_shadow d S_off ((upd_desc d (\<lambda>D. D\<lparr>shadow_chunk := sc, shadow_next_chunk := None,
      shadow_alloc_sz := 0, sh_state := SHADOW_BUILDING\<rparr>) (bell d c t))\<lparr>x_shadow_q := (x_shadow_q (bell d c t))(d := True)\<rparr>))"
    and "chan_ok (set_shadow d S_off (lazy_error d ((upd_desc d (\<lambda>D. D\<lparr>shadow_chunk := None, shadow_next_chunk := None,
      shadow_alloc_sz := 0, sh_state := SHADOW_IDLE\<rparr>) (bell d c t))\<lparr>x_mem := m\<rparr>)))"
proof -
  have t1: "x_desc t = (x_desc s)(d := x_desc t d)" "sh_state (x_desc t d) = SHADOW_IDLE" "lz_state (x_desc t d) = lz_state (x_desc s d)"
    "chunk_list (x_desc t d) \<noteq> []" "x_stat t = EDMA_ST_BUSY" "x_shadow_q t = x_shadow_q s" "x_shadow t = x_shadow s"
    "x_started t = x_started s" "x_pending t = x_pending s" "x_launch t = x_launch s" "x_conf t = x_conf s" "x_vc t = x_vc s"
    "x_bells t = x_bells s"
    using t by (auto intro: trans [OF swap_chunks_desc])
  have ot: "e \<noteq> d \<Longrightarrow> x_desc t e = x_desc s e" for e using fun_cong [OF t1(1), of e] by simp
  have b: "chan_ok (bell d c ((set_shadow d p t)\<lparr>x_mem := m\<rparr>))" if "p = S_off \<or> p = S_giveup" for p m
    by (rule swap_bell_ok [OF ok, where D = "x_desc t d" and p = p]) (use t1(2-) that in \<open>simp_all add: fun_eq_iff ot\<close>)
  have "set_shadow d p ((bell d c t)\<lparr>x_mem := m\<rparr>) = bell d c ((set_shadow d p t)\<lparr>x_mem := m\<rparr>)" for p m
    by (simp add: set_shadow_def bell_def)
  then show "chan_ok (set_shadow d p ((bell d c t)\<lparr>x_mem := m\<rparr>))" if "p = S_off \<or> p = S_giveup"
    using b [OF that] by simp
  define u where "u = bell d c (set_shadow d S_off t)"
  have u: "chan_ok u" using b [of S_off "x_mem t"] by (simp add: u_def set_shadow_def)
  define D where "D = (x_desc t d)\<lparr>shadow_chunk := sc, shadow_next_chunk := None, shadow_alloc_sz := 0, sh_state := SHADOW_BUILDING\<rparr>"
  have bu: "building u e \<Longrightarrow> e = d" for e
    using t1(2,6,7) ot shadow_owner(3) [OF ok, of e] by (cases "e = d") (auto simp: u_def building_def)
  have uf: "x_vc u = x_vc s" "x_conf u = x_conf s" "x_shadow u d = S_off" "x_desc u d = x_desc t d"
    using t1(11,12) by (simp_all add: u_def)
  have "chan_ok ((upd_desc d (\<lambda>_. D) u)\<lparr>x_shadow_q := (x_shadow_q u)(d := True)\<rparr>)"
    by (rule rebuild_ok [OF u]) (use uf shadow_owner(2) [OF ok] bu in \<open>auto simp: D_def\<close>)
  then show "chan_ok (set_shadow d S_off ((upd_desc d (\<lambda>D. D\<lparr>shadow_chunk := sc, shadow_next_chunk := None,
      shadow_alloc_sz := 0, sh_state := SHADOW_BUILDING\<rparr>) (bell d c t))\<lparr>x_shadow_q := (x_shadow_q (bell d c t))(d := True)\<rparr>))"
    by (rule back_subst [of chan_ok]) (simp add: u_def D_def upd_desc_def bell_def set_shadow_def)
  define w where "w = set_shadow d S_off (lazy_error d ((upd_desc d (\<lambda>D. D\<lparr>shadow_chunk := None, shadow_next_chunk := None,
      shadow_alloc_sz := 0, sh_state := SHADOW_IDLE\<rparr>) t)\<lparr>x_mem := m\<rparr>))"
  have "chan_ok (bell d c w)"
    by (rule swap_bell_ok [OF ok, where D = "x_desc w d" and p = S_off]) (use t1(2-) in \<open>simp_all add: w_def lazy_error_def fun_eq_iff ot\<close>)
  then show "chan_ok (set_shadow d S_off (lazy_error d ((upd_desc d (\<lambda>D. D\<lparr>shadow_chunk := None, shadow_next_chunk := None,
      shadow_alloc_sz := 0, sh_state := SHADOW_IDLE\<rparr>) (bell d c t))\<lparr>x_mem := m\<rparr>)))"
    by (rule back_subst [of chan_ok]) (simp add: w_def upd_desc_def bell_def set_shadow_def lazy_error_def)
qed

lemma shadow_swap_ok:
  assumes ok: "chan_ok s"
  shows "chan_ok (shadow_swap allowed d s)"
proof (cases "\<exists>c nxt. x_shadow s d = S_swap c nxt")
  case False
  then show ?thesis using ok by (cases "x_shadow s d") (simp_all add: shadow_swap_def)
next
  case True
  then obtain c nxt where sw: "x_shadow s d = S_swap c nxt" by auto
  then have cp: "copying (x_shadow s d)" by simp
  consider (gone) "sh_state (x_desc s d) = SHADOW_CANCELLED \<or> x_aborted s \<or> x_req s \<noteq> EDMA_REQ_NONE"
    | (refused) "\<not> (sh_state (x_desc s d) = SHADOW_CANCELLED \<or> x_aborted s \<or> x_req s \<noteq> EDMA_REQ_NONE)" "\<not> allowed"
    | (rings) "\<not> (sh_state (x_desc s d) = SHADOW_CANCELLED \<or> x_aborted s \<or> x_req s \<noteq> EDMA_REQ_NONE)" "allowed"
    by blast
  then show ?thesis
  proof cases
    case gone
    then show ?thesis using shadow_gone_ok [OF ok] by (simp add: shadow_swap_def sw Let_def)
  next
    case refused
    then show ?thesis using swap_refused_ok [OF ok cp] by (simp add: shadow_swap_def sw Let_def)
  next
    case rings
    then have na: "\<not> x_aborted s" by simp
    define more where "more = shadow_has_more (x_desc s d)"
    define s2 where "s2 = (if more then swap_chunks d c s
       else upd_desc d (\<lambda>D. D\<lparr>lazy_mode := False, sg_remaining := 0, shadow_next_remaining := 0\<rparr>) (swap_chunks d c s))"
    have "s2 = swap_chunks d c s \<or> s2 = upd_desc d (\<lambda>D. D\<lparr>lazy_mode := False, sg_remaining := 0, shadow_next_remaining := 0\<rparr>) (swap_chunks d c s)"
      by (simp add: s2_def)
    note r = swap_rings_ok [OF ok na cp this]
    have e: "shadow_swap allowed d s = (case nxt of
        Some n \<Rightarrow>
          if more then
            let n1 = n\<lparr>cb := shadow_expected_cb (x_desc (bell d c s2) d)\<rparr> in
            if x_wq s then
              set_shadow d S_off ((upd_desc d (\<lambda>D. D\<lparr>shadow_chunk := Some n1, shadow_next_chunk := None,
                  shadow_alloc_sz := 0, sh_state := SHADOW_BUILDING\<rparr>) (bell d c s2))\<lparr>x_shadow_q := (x_shadow_q (bell d c s2))(d := True)\<rparr>)
            else set_shadow d S_off (lazy_error d
              ((upd_desc d (\<lambda>D. D\<lparr>shadow_chunk := None, shadow_next_chunk := None, shadow_alloc_sz := 0, sh_state := SHADOW_IDLE\<rparr>) (bell d c s2))
                 \<lparr>x_mem := dw_edma_free_unlinked_chunk (Some n1) (x_mem (bell d c s2))\<rparr>))
          else set_shadow d S_off ((bell d c s2)\<lparr>x_mem := dw_edma_free_unlinked_chunk nxt (x_mem (bell d c s2))\<rparr>)
      | None \<Rightarrow> set_shadow d (if more then S_giveup else S_off) (bell d c s2))"
      using rings unfolding shadow_swap_def sw s2_def more_def Let_def by (simp split: option.splits)
    have r1: "chan_ok (set_shadow d p (bell d c s2))" if "p = S_off \<or> p = S_giveup" for p
      using r(1) [OF that, of "x_mem (bell d c s2)"] by (simp del: bell_simps)
    show ?thesis unfolding e Let_def using r(1) [of S_off] r1 r(2,3) by (auto split: option.splits)
  qed
qed

section \<open>No doorbell during a transfer\<close>

lemma cstep_ok:
  assumes "cstep s t" "chan_ok s"
  shows "chan_ok t"
  using assms
proof (induction rule: cstep.induct)
  case (submit d s)
  then show ?case by (intro lists_ok) (simp_all add: issued_same)
next
  case (tasklet s)
  then show ?case by (intro lists_ok) (simp_all add: issued_same)
next
  case (deliver d s)
  then show ?case by (intro lists_ok) (simp_all add: issued_same)
qed (simp_all add: prepare_ok issue_ok config_ok pause_ok resume_ok terminate_ok drain_ok release_ok hw_err_ok remove_ok done_ok
  replay_ok abort_ok launch_take_ok launch_prepare_ok launch_finish_ok lazy_claim_ok lazy_prepare_ok lazy_commit_ok shadow_enter_ok
  shadow_fill_ok shadow_publish_ok shadow_test_ok shadow_steal_ok shadow_handoff_ok shadow_recheck_ok shadow_copied_ok
  shadow_swap_ok shadow_giveup_ok)

text \<open>The channel as \<^verbatim>\<open>dw_edma_channel_setup\<close> leaves it.\<close>

definition chan_init :: "dw_edma_chan \<Rightarrow> bool \<Rightarrow> edma_mem \<Rightarrow> mmio \<Rightarrow> ref vchan \<Rightarrow> dchan" where
  "chan_init base llm m h v = \<lparr>x_base = base, x_llm = llm, x_vc = vchan_init v, x_desc = zero_desc, x_mem = m, x_host = h,
     x_conf = False, x_req = EDMA_REQ_NONE, x_stat = EDMA_ST_IDLE, x_aborted = False, x_hw_err = False, x_started = False,
     x_pending = None, x_first = False, x_launch_q = False, x_launch = L_off, x_shadow_q = (\<lambda>_. False), x_shadow = (\<lambda>_. S_off),
     x_lazy_q = (\<lambda>_. False), x_lazy = (\<lambda>_. Z_off), x_down = False, x_wq = True, x_bells = []\<rparr>"

lemma init_ok: "chan_ok (chan_init base llm m h v)"
proof -
  have "owned Nobody (chan_init base llm m h v)"
    by (simp add: owned_def loaded_def solo_def claim_defs chan_init_def zero_desc_def)
  then show ?thesis by (auto simp: chan_ok_def chan_init_def)
qed

lemma reachable_ok: "cstep\<^sup>*\<^sup>* (chan_init base llm m h v) s \<Longrightarrow> chan_ok s"
  by (induction rule: rtranclp_induct) (auto intro: init_ok cstep_ok)

end
