(* ===== verification/Dx_EdmaDrain.thy ===== *)
theory Dx_EdmaDrain
  imports Dx_EdmaRun
begin

text \<open>
  What the engine of a DMA channel achieves: in every interleaving no doorbell is rung during a transfer, and on an
  undisturbed channel a descriptor is worked off chunk by chunk until it is completed.  The last section states
  three situations in which the engine does not do what it means to.
\<close>

section \<open>No doorbell during a transfer\<close>



section \<open>A transfer runs to its end\<close>

text \<open>One chunk served by a device that is well: the launch worker runs, and the completion interrupt comes.\<close>

definition serve :: "dchan \<Rightarrow> dchan" where
  "serve s = snd (dw_edma_done_interrupt (launch_finish True (launch_prepare 0 0 (launch_take True s))))"

definition ready_chunk :: "dw_edma_chunk \<Rightarrow> bool" where
  "ready_chunk c \<longleftrightarrow> burst c \<noteq> None \<and> burst_list c \<noteq> [] \<and> c_ref c \<noteq> None \<and> r_vaddr (ll_region c) \<noteq> None"

text \<open>An undisturbed channel, and a descriptor with the chunks still to do, the first of them staged.\<close>

definition undisturbed :: "dchan \<Rightarrow> bool" where
  "undisturbed s \<longleftrightarrow> \<not> x_down s \<and> x_wq s \<and> \<not> x_aborted s \<and> \<not> x_hw_err s \<and> x_req s = EDMA_REQ_NONE \<and> x_launch s = L_off \<and> \<not> x_started s"

definition has_chunks :: "ref \<Rightarrow> dw_edma_chunk list \<Rightarrow> dchan \<Rightarrow> bool" where
  "has_chunks d cs s \<longleftrightarrow> \<not> lazy_mode (x_desc s d) \<and> chunk_list (x_desc s d) = cs \<and> chunks_alloc (x_desc s d) = length cs \<and>
     (\<forall>c\<in>set cs. ready_chunk c) \<and> distinct (map c_ref cs)"

definition staged :: "ref \<Rightarrow> dw_edma_chunk list \<Rightarrow> dchan \<Rightarrow> bool" where
  "staged d cs s \<longleftrightarrow> undisturbed s \<and> has_chunks d cs s \<and> cs \<noteq> [] \<and> desc_issued (x_vc s) = [d] \<and> x_stat s = EDMA_ST_BUSY \<and>
     x_pending s = Some (d, the (c_ref (hd cs))) \<and> x_launch_q s \<and> d \<notin> set (desc_completed (x_vc s))"

lemma write_ready:
  assumes "ready_chunk c" "dw_edma_v0_core_write_chunk dir c m h = (r, c1, m1, h1)"
  shows "r = 0" "c_ref c1 = c_ref c" "ll_region c1 = ll_region c"
  using assms by (auto simp: ready_chunk_def dw_edma_v0_core_write_chunk_def Let_def split: list.splits prod.splits)

lemma prepare_ready:
  assumes "ready_chunk c" "prepare_outcome llm 0 0 dir c m h = (r, c1, m1, h1)"
  shows "r = 0" "c_ref c1 = c_ref c"
  using assms write_ready [OF assms(1)]
  by (auto simp: prepare_outcome_def split: if_splits prod.splits)

text \<open>Up to the doorbell.\<close>

lemma launch_staged:
  assumes "staged d (c # cs) s"
  obtains c1 m h where "launch_finish True (launch_prepare 0 0 (launch_take True s)) =
     bell d c1 ((upd_desc d (\<lambda>D. D\<lparr>chunk_list := c1 # cs\<rparr>) (s\<lparr>x_launch_q := False, x_pending := None\<rparr>))\<lparr>x_mem := m, x_host := h\<rparr>)"
    "c_ref c1 = c_ref c"
proof -
  have st: "undisturbed s" "has_chunks d (c # cs) s" "vchan_next_desc (x_vc s) = Some d" "x_stat s = EDMA_ST_BUSY"
    "x_pending s = Some (d, the (c_ref c))"
    using assms by (auto simp: staged_def vchan_next_desc_def)
  have rc: "ready_chunk c" using st(2) by (simp add: has_chunks_def)
  have df: "c_ref b \<noteq> c_ref c" if "b \<in> set cs" for b
  proof -
    have "c_ref c \<notin> c_ref ` set cs" using st(2) by (simp add: has_chunks_def)
    then show ?thesis using that by (metis imageI)
  qed
  from rc obtain r where r: "c_ref c = Some r" by (auto simp: ready_chunk_def)
  define s1 where "s1 = s\<lparr>x_launch_q := False, x_pending := None, x_launch := L_taken d r (x_first s)\<rparr>"
  have 1: "launch_take True s = s1"
    using st r by (simp add: launch_take_def launch_refused_def undisturbed_def s1_def Let_def)
  obtain z c1 m h where p: "prepare_outcome (x_llm s) 0 0 (ch_dir (x_base s)) c (x_mem s) (x_host s) = (z, c1, m, h)"
    by (metis prod_cases4)
  note q = prepare_ready [OF rc p]
  have same: "map (\<lambda>b. if c_ref b = Some r then c1 else b) (c # cs) = c1 # cs"
    using df r by (auto simp: map_idI)
  define s2 where "s2 = (upd_desc d (\<lambda>D. D\<lparr>chunk_list := c1 # cs\<rparr>) s1)\<lparr>x_mem := m, x_host := h, x_launch := L_prepared d r 0\<rparr>"
  have 2: "launch_prepare 0 0 s1 = s2"
    using st p q(1) r same by (simp add: launch_prepare_def s1_def s2_def has_chunks_def prepare_hw_err_def undisturbed_def upd_desc_def)
  have "launch_finish True s2 = bell d c1 (s2\<lparr>x_launch := L_off\<rparr>)"
    using st q(2) r by (simp add: launch_finish_def s2_def s1_def launch_refused_def undisturbed_def has_chunks_def upd_desc_def Let_def)
  then have "launch_finish True (launch_prepare 0 0 (launch_take True s)) = bell d c1 (s2\<lparr>x_launch := L_off\<rparr>)" by (simp add: 1 2)
  moreover have "s2\<lparr>x_launch := L_off\<rparr> = (upd_desc d (\<lambda>D. D\<lparr>chunk_list := c1 # cs\<rparr>) (s\<lparr>x_launch_q := False, x_pending := None\<rparr>))\<lparr>x_mem := m, x_host := h\<rparr>"
    using st(1) by (simp add: s2_def s1_def upd_desc_def undisturbed_def)
  ultimately show ?thesis using that q(2) by simp
qed

text \<open>From the doorbell to the next chunk, or to the completion of the descriptor.\<close>

definition finished :: "ref \<Rightarrow> dchan \<Rightarrow> dchan \<Rightarrow> bool" where
  "finished d s t \<longleftrightarrow> desc_completed (x_vc t) = desc_completed (x_vc s) @ [d] \<and> desc_issued (x_vc t) = [] \<and>
     task_scheduled (x_vc t) \<and> x_stat t = EDMA_ST_IDLE \<and> undisturbed t \<and> x_pending t = None \<and> chunk_list (x_desc t d) = []"

lemma drop_chunk_lists:
  assumes "chunk_list (x_desc s d) = c # cs"
  shows "chunk_list (x_desc (drop_chunk d s) d) = cs" "chunks_alloc (x_desc (drop_chunk d s) d) = chunks_alloc (x_desc s d) - 1"
    "x_down (drop_chunk d s) = x_down s" "x_hw_err (drop_chunk d s) = x_hw_err s"
  using assms by (auto simp: drop_chunk_def split: prod.splits)

lemma settle_chunks:
  assumes "undisturbed s" "has_chunks d cs s" "desc_issued (x_vc s) = [d]" "x_stat s = EDMA_ST_BUSY" "x_pending s = None"
    "d \<notin> set (desc_completed (x_vc s))"
  shows "cs \<noteq> [] \<Longrightarrow> staged d cs (settle_request d s) \<and> x_vc (settle_request d s) = x_vc s"
    and "cs = [] \<Longrightarrow> finished d s (settle_request d s)"
proof -
  show "staged d cs (settle_request d s) \<and> x_vc (settle_request d s) = x_vc s" if ne: "cs \<noteq> []"
  proof -
    obtain c cs' where cs: "cs = c # cs'" using ne by (cases cs) auto
    then have rc: "ready_chunk c" using assms(2) by (simp add: has_chunks_def)
    have "settle_request d s = s\<lparr>x_pending := Some (d, the (c_ref c)), x_first := (xfer_sz (x_desc s d) = 0), x_launch_q := True\<rparr>"
      using assms cs rc by (simp add: settle_request_def undisturbed_def has_chunks_def dw_edma_start_transfer_def vchan_next_desc_def
          ready_chunk_def del: not_None_eq)
    then show ?thesis using assms cs by (simp add: staged_def undisturbed_def has_chunks_def)
  qed
  show "finished d s (settle_request d s)" if "cs = []"
    using assms that
    by (simp add: settle_request_def undisturbed_def has_chunks_def finished_def complete_desc_def vchan_cookie_complete_def
        dma_cookie_complete_def unlink_def Let_def)
qed

lemma serve_one:
  assumes "staged d (c # cs) s"
  shows "\<exists>c1. x_bells (serve s) = x_bells s @ [(d, c1, False)] \<and> c_ref c1 = c_ref c"
    and "cs \<noteq> [] \<Longrightarrow> staged d cs (serve s) \<and> x_vc (serve s) = x_vc s" and "cs = [] \<Longrightarrow> finished d s (serve s)"
proof -
  obtain c1 m h where l: "launch_finish True (launch_prepare 0 0 (launch_take True s)) =
     bell d c1 ((upd_desc d (\<lambda>D. D\<lparr>chunk_list := c1 # cs\<rparr>) (s\<lparr>x_launch_q := False, x_pending := None\<rparr>))\<lparr>x_mem := m, x_host := h\<rparr>)"
    and c1: "c_ref c1 = c_ref c" using launch_staged [OF assms] by blast
  define u where "u = bell d c1 ((upd_desc d (\<lambda>D. D\<lparr>chunk_list := c1 # cs\<rparr>) (s\<lparr>x_launch_q := False, x_pending := None\<rparr>))\<lparr>x_mem := m, x_host := h\<rparr>)"
  define w where "w = drop_chunk d (upd_desc d (\<lambda>D. D\<lparr>xfer_sz := xfer_sz D + of_nat (r_sz (ll_region c1))\<rparr>) (u\<lparr>x_started := False\<rparr>))"
  have st: "undisturbed s" "has_chunks d (c # cs) s" "desc_issued (x_vc s) = [d]" "x_stat s = EDMA_ST_BUSY" "d \<notin> set (desc_completed (x_vc s))"
    using assms by (auto simp: staged_def)
  have e: "serve s = settle_request d w"
    using st by (simp add: serve_def l u_def [symmetric]) (simp add: dw_edma_done_interrupt_def dw_edma_complete_done_locked_def
        vchan_next_desc_def u_def w_def bell_def has_chunks_def dw_edma_defer_lazy_done_locked_def Let_def)
  have w: "undisturbed w" "has_chunks d cs w" "x_vc w = x_vc s" "x_stat w = EDMA_ST_BUSY" "x_pending w = None"
    "x_bells w = x_bells s @ [(d, c1, False)]"
    using st by (simp_all add: w_def u_def bell_def undisturbed_def has_chunks_def drop_chunk_lists)
  show "\<exists>c1. x_bells (serve s) = x_bells s @ [(d, c1, False)] \<and> c_ref c1 = c_ref c"
    using w(6) c1 by (auto simp: e)
  from settle_chunks [OF w(1,2) _ w(4,5)] st w(3)
  show "cs \<noteq> [] \<Longrightarrow> staged d cs (serve s) \<and> x_vc (serve s) = x_vc s" "cs = [] \<Longrightarrow> finished d s (serve s)"
    by (simp_all add: e finished_def)
qed

lemma serve_all:
  assumes "staged d cs s"
  shows "map (\<lambda>(e, c, r). (e, c_ref c, r)) (x_bells ((serve ^^ length cs) s)) =
      map (\<lambda>(e, c, r). (e, c_ref c, r)) (x_bells s) @ map (\<lambda>c. (d, c_ref c, False)) cs"
    and "finished d s ((serve ^^ length cs) s)"
  using assms
proof (induction cs arbitrary: s)
  case Nil
  { case 1 then show ?case by (simp add: staged_def) }
  { case 2 then show ?case by (simp add: staged_def) }
next
  case (Cons c cs)
  have step: "(serve ^^ length (c # cs)) s = (serve ^^ length cs) (serve s)" for s by (simp add: funpow_swap1)
  {
    case 1
    from serve_one [OF this] Cons.IH(1) [of "serve s"] show ?case unfolding step by (cases "cs = []") auto
  }
  {
    case 2
    from serve_one [OF this] Cons.IH(2) [of "serve s"] show ?case unfolding step by (cases "cs = []") (auto simp: finished_def)
  }
qed

lemma issue_stages:
  assumes "undisturbed s" "x_conf s" "x_stat s = EDMA_ST_IDLE" "desc_issued (x_vc s) = []" "desc_submitted (x_vc s) = [d]"
    "d \<notin> set (desc_completed (x_vc s))" "has_chunks d cs s" "cs \<noteq> []"
  shows "staged d cs (dw_edma_device_issue_pending s)" "x_bells (dw_edma_device_issue_pending s) = x_bells s"
    "desc_completed (x_vc (dw_edma_device_issue_pending s)) = desc_completed (x_vc s)"
proof -
  obtain c cs' where cs: "cs = c # cs'" using assms(8) by (cases cs) auto
  then have rc: "ready_chunk c" using assms(7) by (simp add: has_chunks_def)
  have "dw_edma_device_issue_pending s = s\<lparr>x_vc := (x_vc s)\<lparr>desc_issued := [d], desc_submitted := []\<rparr>, x_stat := EDMA_ST_BUSY,
      x_pending := Some (d, the (c_ref c)), x_first := (xfer_sz (x_desc s d) = 0), x_launch_q := True\<rparr>"
    using assms cs rc by (simp add: dw_edma_device_issue_pending_def vchan_issue_pending_def undisturbed_def has_chunks_def
        dw_edma_start_transfer_def vchan_next_desc_def ready_chunk_def Let_def del: not_None_eq)
  then show "staged d cs (dw_edma_device_issue_pending s)" "x_bells (dw_edma_device_issue_pending s) = x_bells s"
    "desc_completed (x_vc (dw_edma_device_issue_pending s)) = desc_completed (x_vc s)"
    using assms cs by (simp_all add: staged_def undisturbed_def has_chunks_def)
qed


section \<open>Where the engine does not do what it means to\<close>

text \<open>
  The second call of terminate_all finds the channel stopped and takes the path for a lost interrupt, which clears
  status and configuration but not the request: no later transfer is ever started.
\<close>

lemma stop_request_sticks:
  assumes "x_conf s" "x_stat s = EDMA_ST_BUSY" "x_req s = EDMA_REQ_NONE"
    and "s1 = snd (snd (terminate_locked 1 reset s))" and "s2 = snd (snd (terminate_locked 3 reset s1))"
  shows "x_stat (chan_device_config s2) = EDMA_ST_IDLE \<and> x_conf (chan_device_config s2) \<and>
    dw_edma_device_issue_pending (chan_device_config s2) = chan_device_config s2"
  using assms by (simp add: terminate_locked_def chan_device_config_def dw_edma_device_issue_pending_def Let_def)

text \<open>terminate_all on a channel whose shadow worker has copied a table: the worker rings the doorbell all the same.\<close>

lemma doorbell_after_terminate:
  assumes "x_conf s" "x_stat s = EDMA_ST_BUSY" "x_req s = EDMA_REQ_NONE" "\<not> x_aborted s"
    and "x_shadow s d = S_swap c nxt" "sh_state (x_desc s d) = SHADOW_ISR_PENDING"
    and "t = snd (snd (terminate_locked 3 reset s))"
  shows "\<not> x_conf t \<and> x_stat t = EDMA_ST_IDLE \<and> x_bells (shadow_swap True d t) = x_bells s @ [(d, c, x_started s)] \<and>
    x_stat (shadow_swap True d t) = EDMA_ST_BUSY"
proof -
  have t: "t = s\<lparr>x_pending := None, x_launch_q := False, x_stat := EDMA_ST_IDLE, x_conf := False\<rparr>"
    using assms by (simp add: terminate_locked_def Let_def)
  have "x_bells (shadow_swap True d t) = x_bells t @ [(d, c, x_started t)]" "x_stat (shadow_swap True d t) = EDMA_ST_BUSY"
    using assms(3-6) by (auto simp: t shadow_swap_def Let_def lazy_error_def bell_def split: option.splits)
  then show ?thesis by (simp add: t)
qed

text \<open>
  A completion that arrives while the last chunk is being built queues the worker again although it is running.  The
  running pass launches the chunk, and the second pass finds no chunk and reports an error for the transfer in flight.
\<close>

lemma spurious_error:
  assumes "x_started s" "vchan_next_desc (x_vc s) = Some d" "chunk_list (x_desc s d) = b # bs" "lazy_mode (x_desc s d)" "x_wq s"
    and "x_req s = EDMA_REQ_NONE" "\<not> x_aborted s" "\<not> x_hw_err s" "sh_state (x_desc s d) = SHADOW_BUILDING"
    and "x_shadow s d = S_built c None" "\<not> shadow_has_more (x_desc s d)"
    and "t = shadow_swap True d (shadow_copied 0 d (shadow_publish d (snd (dw_edma_done_interrupt s))))"
  shows "x_bells t = x_bells s @ [(d, c, False)] \<and> x_started t \<and> \<not> x_hw_err t \<and> x_shadow t d = S_off \<and> x_shadow_q t d \<and>
    x_hw_err (shadow_enter d t)"
proof -
  define s1 where "s1 = snd (dw_edma_done_interrupt s)"
  have s1: "x_shadow s1 = x_shadow s" "sh_state (x_desc s1 d) = SHADOW_ISR_PENDING" "x_shadow_q s1 d" "\<not> x_started s1" "x_bells s1 = x_bells s"
    "x_req s1 = EDMA_REQ_NONE" "\<not> x_aborted s1" "\<not> x_hw_err s1" "\<not> shadow_has_more (x_desc s1 d)"
    using assms by (simp_all add: s1_def dw_edma_done_interrupt_def dw_edma_complete_done_locked_def dw_edma_defer_lazy_done_locked_def Let_def upd_desc_def)
  have s2: "shadow_copied 0 d (shadow_publish d s1) = set_shadow d (S_swap c None) s1"
    using s1 assms(10) by (simp add: shadow_publish_def shadow_copied_def set_shadow_def)
  have fields: "x_shadow_q (swap_chunks d c u) = x_shadow_q u" "x_hw_err (swap_chunks d c u) = x_hw_err u"
    "shadow_chunk (x_desc (swap_chunks d c u) d) = None" for u
    by (simp_all add: swap_chunks_def drop_chunk_def Let_def split: list.splits prod.splits)
  define t' where "t' = bell d c (upd_desc d (\<lambda>D. D\<lparr>lazy_mode := False, sg_remaining := 0, shadow_next_remaining := 0\<rparr>)
      (swap_chunks d c (set_shadow d (S_swap c None) s1)))"
  have t: "t = set_shadow d S_off t'"
    using s1 s2 by (simp add: assms(12) s1_def [symmetric] t'_def shadow_swap_def Let_def)
  have "x_bells t' = x_bells s @ [(d, c, False)]" "x_started t'" "\<not> x_hw_err t'" "x_shadow_q t' d" "shadow_chunk (x_desc t' d) = None"
    using s1 fields by (simp_all add: t'_def bell_def) (simp add: set_shadow_def)
  then show ?thesis by (simp add: t shadow_enter_def Let_def set_shadow_def)
qed

text \<open>A descriptor of two chunks on an idle channel.\<close>

definition example_part :: "nat \<Rightarrow> dw_edma_chunk" where
  "example_part i = example_chunk\<lparr>c_ref := Some (Heap i), burst := Some (Pool 0), burst_list := [Pool i]\<rparr>"

definition example_dchan :: dchan where
  "example_dchan = (chan_init (dw_edma_chan.truncate example_edma_chan) True example_mem (\<lambda>_. 0)
      \<lparr>desc_allocated = [], desc_submitted = [], desc_issued = [], desc_completed = [], desc_terminated = [], cyclic = None,
        chan_cookie = 0, completed_cookie = 0, tx_cookie = (\<lambda>_. 0), tx_reuse = (\<lambda>_. False), task_scheduled = False,
        called = [], freed = []\<rparr>)"

definition example_transfer :: dchan where
  "example_transfer = example_dchan\<lparr>x_conf := True,
     x_desc := (x_desc example_dchan)(Desc 0 := (zero_desc (Desc 0))\<lparr>chunk_list := [example_part 1, example_part 2], chunks_alloc := 2\<rparr>),
     x_vc := (x_vc example_dchan)\<lparr>desc_submitted := [Desc 0]\<rparr>\<rparr>"



end
