(* ===== verification/Dx_EdmaThread.thy ===== *)
theory Dx_EdmaThread
  imports Dx_EdmaDrain Dx_Mmio
begin

text \<open>
  The thread that runs one transfer: \<^verbatim>\<open>pci_deepx/dw-edma-thread.c\<close>.  It is the client of the channel engine: it
  takes the channel, maps the scatter list, prepares, submits and issues a descriptor, waits for the callback with a
  deadline that every sign of progress moves on, works out what a wait without result means, and cleans up.
  Interrupts, workers and other threads act on the channel at each scheduling point.
\<close>

section \<open>The state of a transfer\<close>

text \<open>The calls whose balance matters: mapping and unmapping a list, freeing the table, an event for user space.\<close>

datatype thread_event = Mapped nat bool | Unmapped nat bool | Table_freed | Channel_failed nat

text \<open>
  \<open>t_src\<close>, \<open>t_dst\<close>: the configuration of the channel; \<open>t_done\<close>: the callback has run; \<open>t_idle\<close>: \<open>info->done\<close>;
  \<open>t_isr\<close>, \<open>t_replay\<close>, \<open>t_seen\<close>: the counters of progress; \<open>t_cs\<close>: what the state of the channel reads as; \<open>t_in_use\<close>:
  the channel has an owner; \<open>t_wq\<close>: the wait queue of the thread is published; \<open>t_result\<close>: \<open>cb->result\<close>, a \<open>char\<close>.
\<close>

record xio = io +
  t_chan :: dchan
  t_src :: u64
  t_dst :: u64
  t_lie :: bool
  t_done :: bool
  t_idle :: bool
  t_epoch :: int
  t_live :: bool
  t_isr :: u64
  t_replay :: u64
  t_seen :: u64
  t_cs :: u32
  t_in_use :: bool
  t_wq :: bool
  t_result :: u8
  t_log :: "thread_event list"

text \<open>The request: \<open>cb_sg\<close> is the list of the table, with its addresses when it is mapped already.\<close>

record io_cb =
  cb_write :: bool
  cb_npu_run :: bool
  cb_ep_addr :: u64
  cb_is_llm :: bool
  cb_pre_mapped :: bool
  cb_sg :: sg_list

text \<open>
  The surroundings: the other threads, the clock rate, the module parameter, whether \<open>char\<close> is signed, what
  \<open>dma_map_sg\<close> makes of a list (the empty list is its failure), how workers end when a descriptor is freed, how a
  reset of the channel ends, and \<open>dma_async_is_complete\<close> of the kernel.
\<close>

record tworld =
  tw_env :: "nat \<Rightarrow> xio \<Rightarrow> xio"
  tw_hz :: nat
  tw_timeout :: u32
  tw_signed :: bool
  tw_map :: "nat \<Rightarrow> sg_list \<Rightarrow> sg_list"
  tw_settle :: "dw_edma_desc \<times> edma_mem \<Rightarrow> dw_edma_desc \<times> edma_mem"
  tw_reset :: "nat \<Rightarrow> int"
  tw_complete :: "u32 \<Rightarrow> u32 \<Rightarrow> u32 \<Rightarrow> dma_status"
  tw_prep :: prep_env

abbreviation (input) hw_err :: "xio \<Rightarrow> bool" where "hw_err s \<equiv> x_hw_err (t_chan s)"

definition on_chan :: "(dchan \<Rightarrow> dchan) \<Rightarrow> xio \<Rightarrow> xio" where
  "on_chan f s = s\<lparr>t_chan := f (t_chan s)\<rparr>"

definition set_result :: "int \<Rightarrow> xio \<Rightarrow> xio" where
  "set_result r s = s\<lparr>t_result := word_of_int r\<rparr>"

definition result_of :: "tworld \<Rightarrow> xio \<Rightarrow> int" where
  "result_of W s = (if tw_signed W then sint (t_result s) else uint (t_result s))"

definition log_event :: "thread_event \<Rightarrow> xio \<Rightarrow> xio" where
  "log_event ev s = s\<lparr>t_log := t_log s @ [ev]\<rparr>"

text \<open>
  The call waits for workers, so that others may act before it takes the lock.  It runs a scheduled tasklet when it
  drains the channel; a callback of this channel is the callback of this thread.
\<close>

definition calls_back :: "dchan \<Rightarrow> bool" where
  "calls_back c \<longleftrightarrow> task_scheduled (x_vc c) \<and> desc_completed (x_vc c) \<noteq> []"

definition terminate_all :: "tworld \<Rightarrow> xio \<Rightarrow> xio" where
  "terminate_all W s =
     (let s1 = yield (tw_env W) s;
          (drained, _, c) = terminate_locked (t_cs s1) (tw_reset W (tick s1)) (t_chan s1)
      in on_chan (\<lambda>c. snd (dw_edma_device_terminate_all (tw_settle W) (t_cs s1) (tw_reset W (tick s1)) c))
           (s1\<lparr>t_done := (t_done s1 \<or> drained \<and> calls_back c)\<rparr>))"

definition tx_status :: "tworld \<Rightarrow> u32 \<Rightarrow> xio \<Rightarrow> dma_status" where
  "tx_status W cookie s = fst (dw_edma_device_tx_status (tw_complete W) cookie False (t_chan s))"

datatype fail_action = DW_EDMA_FAIL_NO_HW_TOUCH | DW_EDMA_FAIL_TERMINATE_ONCE | DW_EDMA_FAIL_TERMINATE_TWICE

definition dw_edma_finalize_failed_transfer :: "tworld \<Rightarrow> int \<Rightarrow> fail_action \<Rightarrow> xio \<Rightarrow> xio" where
  "dw_edma_finalize_failed_transfer W err action s =
     set_result (if err = 0 then - EIO else err)
       (case action of
          DW_EDMA_FAIL_TERMINATE_TWICE \<Rightarrow> terminate_all W (terminate_all W s)
        | DW_EDMA_FAIL_TERMINATE_ONCE \<Rightarrow> terminate_all W s
        | DW_EDMA_FAIL_NO_HW_TOUCH \<Rightarrow> s)"

definition dw_edma_run_chan_lock :: "dchan \<Rightarrow> nat option" where
  "dw_edma_run_chan_lock c = (if 8 \<le> ch_id (x_base c) then None else Some (ch_id (x_base c)))"

section \<open>Waiting\<close>

text \<open>
  \<open>wait_event_timeout\<close> and its interruptible form, until \<open>deadline\<close>; the positive results, of which only the sign
  is looked at, are all \<open>1\<close>.
\<close>

definition woken :: "xio \<Rightarrow> bool" where
  "woken s \<longleftrightarrow> t_done s \<or> hw_err s"

partial_function (option) wait_woken :: "tworld \<Rightarrow> bool \<Rightarrow> u64 \<Rightarrow> xio \<Rightarrow> (int \<times> xio) option" where
  "wait_woken W intr deadline s =
     (if woken s then Some (1, s)
      else if intr \<and> sigpend s then Some (- ERESTARTSYS, s)
      else if time_after_eq (jiffies s) deadline then Some (0, s)
      else wait_woken W intr deadline (yield (tw_env W) s))"

definition progress :: "xio \<Rightarrow> u64 \<times> u64 \<times> u64" where
  "progress s = (t_isr s, t_replay s, t_seen s)"

definition at_least_one :: "u64 \<Rightarrow> u64" where
  "at_least_one x = (if x = 0 then 1 else x)"

partial_function (option) wait_loop ::
  "tworld \<Rightarrow> u64 \<Rightarrow> u64 \<Rightarrow> int \<Rightarrow> bool \<Rightarrow> u64 \<times> u64 \<times> u64 \<Rightarrow> u64 \<Rightarrow> xio \<Rightarrow> (int \<times> xio) option" where
  "wait_loop W window nap epoch intr seen deadline s =
     (let dl = (if progress s \<noteq> seen then jiffies s + window else deadline) in
      if time_after_eq (jiffies s) dl then Some (0, s)
      else case wait_woken W intr (jiffies s + min nap (at_least_one (dl - jiffies s))) s of
        None \<Rightarrow> None
      | Some (r, s1) \<Rightarrow>
          if intr \<and> r = - ERESTARTSYS then Some (r, s1)
          else if woken s1 then Some (if r \<noteq> 0 then r else 1, s1)
          else if t_epoch s1 \<noteq> epoch then Some (0, s1)
          else wait_loop W window nap epoch intr (progress s) dl s1)"

definition dw_edma_wait_done :: "tworld \<Rightarrow> int \<Rightarrow> bool \<Rightarrow> xio \<Rightarrow> (int \<times> xio) option" where
  "dw_edma_wait_done W epoch intr s =
     (let window = at_least_one (msecs_to_jiffies (tw_hz W) (tw_timeout W));
          nap = at_least_one (msecs_to_jiffies (tw_hz W) 50)
      in wait_loop W window nap epoch intr (progress s) (jiffies s + window) s)"

section \<open>A wait without result\<close>

text \<open>The stages answer \<open>0\<close> for a completed transfer, \<open>1\<close> to go on with the next stage, and an error otherwise.\<close>

definition dw_edma_check_done :: "int \<Rightarrow> xio \<Rightarrow> int" where
  "dw_edma_check_done epoch s = (if t_epoch s \<noteq> epoch \<or> hw_err s then - EIO else if t_done s then 0 else 1)"

definition dw_edma_rewait_done :: "tworld \<Rightarrow> int \<Rightarrow> u32 \<Rightarrow> bool \<Rightarrow> xio \<Rightarrow> (int \<times> xio) option" where
  "dw_edma_rewait_done W epoch ms intr s =
     (case wait_woken W intr (jiffies s + msecs_to_jiffies (tw_hz W) ms) s of
        None \<Rightarrow> None
      | Some (_, s1) \<Rightarrow> Some (dw_edma_check_done epoch s1, s1))"

text \<open>\<open>tasklet_kill\<close>: a tasklet that is scheduled runs now.\<close>

definition flush_tasklet :: "tworld \<Rightarrow> xio \<Rightarrow> xio" where
  "flush_tasklet W s =
     (let s1 = yield (tw_env W) s
      in on_chan (run_tasklet (tw_settle W)) (s1\<lparr>t_done := (t_done s1 \<or> calls_back (t_chan s1))\<rparr>))"

definition dw_edma_try_late_callback_recovery :: "tworld \<Rightarrow> u32 \<Rightarrow> int \<Rightarrow> xio \<Rightarrow> (int \<times> xio) option" where
  "dw_edma_try_late_callback_recovery W cookie epoch s =
     (if tx_status W cookie s \<noteq> DMA_COMPLETE then Some (1, s)
      else case dw_edma_rewait_done W epoch 100 False (on_chan (\<lambda>c. c\<lparr>x_vc := (x_vc c)\<lparr>task_scheduled := True\<rparr>\<rparr>) s) of
        None \<Rightarrow> None
      | Some (rc, s1) \<Rightarrow>
          if rc \<le> 0 then Some (rc, s1)
          else
            let s2 = flush_tasklet W s1; rc2 = dw_edma_check_done epoch s2
            in if rc2 \<le> 0 then Some (rc2, s2) else Some (- EIO, s2))"

definition dw_edma_grace_rewait :: "tworld \<Rightarrow> int \<Rightarrow> xio \<Rightarrow> (int \<times> xio) option" where
  "dw_edma_grace_rewait W epoch s = dw_edma_rewait_done W epoch (tw_timeout W) True s"

definition channel_failed :: "xio \<Rightarrow> xio" where
  "channel_failed s = log_event (Channel_failed (ch_id (x_base (t_chan s)))) s"

definition dw_edma_recover_cs2_error :: "tworld \<Rightarrow> u32 \<Rightarrow> xio \<Rightarrow> int \<times> xio" where
  "dw_edma_recover_cs2_error W cs s =
     (if cs \<noteq> 2 then (1, s)
      else
        let s1 = terminate_all W (terminate_all W s)
        in if t_cs s1 = 0 \<or> t_cs s1 = 3 then (- EIO, s1) else (- EIO, channel_failed s1))"

definition dw_edma_stuck_graceful_then_force :: "tworld \<Rightarrow> int \<Rightarrow> xio \<Rightarrow> (int \<times> xio) option" where
  "dw_edma_stuck_graceful_then_force W epoch s =
     (case dw_edma_rewait_done W epoch (tw_timeout W) False (terminate_all W s) of
        None \<Rightarrow> None
      | Some (rc, s1) \<Rightarrow>
          if rc \<le> 0 then Some (if rc = 0 then - EIO else rc, s1)
          else Some (- ETIMEDOUT, channel_failed (terminate_all W s1)))"

definition dw_edma_handle_wait_timeout :: "tworld \<Rightarrow> u32 \<Rightarrow> int \<Rightarrow> xio \<Rightarrow> (int \<times> xio) option" where
  "dw_edma_handle_wait_timeout W cookie epoch s =
     (case dw_edma_try_late_callback_recovery W cookie epoch s of
        None \<Rightarrow> None
      | Some (rc, s1) \<Rightarrow>
          if rc \<noteq> 1 then Some (rc, s1)
          else case dw_edma_grace_rewait W epoch s1 of
            None \<Rightarrow> None
          | Some (rc2, s2) \<Rightarrow>
              if rc2 \<noteq> 1 then Some (rc2, s2)
              else case dw_edma_recover_cs2_error W (t_cs s2) s2 of
                (rc3, s3) \<Rightarrow> if rc3 \<noteq> 1 then Some (rc3, s3) else dw_edma_stuck_graceful_then_force W epoch s3)"

text \<open>
  After a signal the thread keeps waiting, without being interruptible, until two windows in a row have passed without
  progress: the result tells whether it gave up.
\<close>

definition settled_wait :: "int \<Rightarrow> xio \<Rightarrow> bool" where
  "settled_wait epoch s \<longleftrightarrow> woken s \<or> t_epoch s \<noteq> epoch"

partial_function (option) drain_loop :: "tworld \<Rightarrow> int \<Rightarrow> nat \<Rightarrow> xio \<Rightarrow> (bool \<times> xio) option" where
  "drain_loop W epoch stalls s =
     (if settled_wait epoch s then Some (False, s)
      else case dw_edma_wait_done W epoch False s of
        None \<Rightarrow> None
      | Some (r, s1) \<Rightarrow>
          if settled_wait epoch s1 then Some (False, s1)
          else if 0 < r then drain_loop W epoch 0 s1
          else if 2 \<le> Suc stalls then Some (True, s1)
          else drain_loop W epoch (Suc stalls) s1)"

section \<open>Running a transfer\<close>

text \<open>The two labels at the end of the function.\<close>

definition err_alloc_descs :: "tworld \<Rightarrow> bool \<Rightarrow> xio \<Rightarrow> int \<times> xio" where
  "err_alloc_descs W mine s =
     (let s1 = (log_event Table_freed s)\<lparr>t_in_use := (t_in_use s \<and> \<not> mine), t_wq := False, t_idle := True\<rparr>
      in (result_of W s1, s1))"

definition err_stats :: "tworld \<Rightarrow> io_cb \<Rightarrow> bool \<Rightarrow> xio \<Rightarrow> int \<times> xio" where
  "err_stats W rq failed s =
     (let s1 = (if failed \<and> t_result s = 0 then set_result (- EIO) s else s);
          n = length (cb_sg rq)
      in err_alloc_descs W True (if \<not> cb_pre_mapped rq \<and> 0 < n then log_event (Unmapped n (cb_write rq)) s1 else s1))"

text \<open>The checks when the wait is over.\<close>

definition final_checks :: "tworld \<Rightarrow> io_cb \<Rightarrow> u32 \<Rightarrow> int \<Rightarrow> bool \<Rightarrow> xio \<Rightarrow> int \<times> xio" where
  "final_checks W rq cookie epoch failed s =
     (if t_epoch s \<noteq> epoch \<or> hw_err s then err_stats W rq failed (set_result (- EIO) s)
      else if t_result s \<noteq> 0 then err_stats W rq failed s
      else if x_aborted (t_chan s) then
        err_stats W rq failed (dw_edma_finalize_failed_transfer W (- EIO) DW_EDMA_FAIL_TERMINATE_TWICE
          (on_chan (\<lambda>c. c\<lparr>x_aborted := False\<rparr>) s))
      else if tx_status W cookie s \<noteq> DMA_COMPLETE then
        err_stats W rq True (dw_edma_finalize_failed_transfer W (- EIO) DW_EDMA_FAIL_TERMINATE_ONCE s)
      else err_stats W rq failed (set_result 0 s))"

text \<open>What is done with the result of the wait.\<close>

definition after_wait :: "tworld \<Rightarrow> io_cb \<Rightarrow> u32 \<Rightarrow> int \<Rightarrow> int \<Rightarrow> xio \<Rightarrow> (int \<times> xio) option" where
  "after_wait W rq cookie epoch ret s =
     (if t_epoch s \<noteq> epoch then Some (err_stats W rq False (set_result (- EIO) s))
      else if hw_err s then
        Some (final_checks W rq cookie epoch False
          (dw_edma_finalize_failed_transfer W (- EIO) DW_EDMA_FAIL_TERMINATE_TWICE s))
      else if ret = - ERESTARTSYS then
        (case drain_loop W epoch 0 s of
           None \<Rightarrow> None
         | Some (True, s1) \<Rightarrow>
             Some (err_stats W rq False
               (set_result (- EIO) (dw_edma_finalize_failed_transfer W (- EIO) DW_EDMA_FAIL_TERMINATE_TWICE s1)))
         | Some (False, s1) \<Rightarrow>
             if t_epoch s1 \<noteq> epoch \<or> hw_err s1 then Some (err_stats W rq False (set_result (- EIO) s1))
             else Some (final_checks W rq cookie epoch False (set_result 0 s1)))
      else if \<not> t_done s then
        (case dw_edma_handle_wait_timeout W cookie epoch s of
           None \<Rightarrow> None
         | Some (rc, s1) \<Rightarrow>
             if rc \<noteq> 0
             then Some (final_checks W rq cookie epoch True (dw_edma_finalize_failed_transfer W rc DW_EDMA_FAIL_NO_HW_TOUCH s1))
             else Some (final_checks W rq cookie epoch False s1))
      else Some (final_checks W rq cookie epoch False s))"

text \<open>From the preparation of the descriptor to the end; \<open>sg\<close> is the list as it is mapped.\<close>

definition prep_descriptor :: "tworld \<Rightarrow> io_cb \<Rightarrow> sg_list \<Rightarrow> xio \<Rightarrow> dw_edma_desc option \<times> xio" where
  "prep_descriptor W rq sg s =
     (let c = t_chan s;
          ch = dw_edma_chan.extend (x_base c) (edma_chan.fields (x_conf c) DMA_DIR_OTHER (t_src s) (t_dst s));
          dir = (if cb_write rq then DMA_MEM_TO_DEV else DMA_DEV_TO_MEM)
      in case dw_edma_device_prep_slave_sg (tw_prep W) ch sg (length sg) dir (x_mem c) of
           (None, m) \<Rightarrow> (None, s\<lparr>t_chan := c\<lparr>x_mem := m\<rparr>\<rparr>)
         | (Some D, m) \<Rightarrow>
             (Some D, s\<lparr>t_chan := c\<lparr>x_mem := m, x_desc := (x_desc c)(d_ref D := D), x_vc := vchan_tx_prep (d_ref D) False (x_vc c)\<rparr>\<rparr>))"

definition submit_and_wait :: "tworld \<Rightarrow> io_cb \<Rightarrow> int \<Rightarrow> sg_list \<Rightarrow> xio \<Rightarrow> (int \<times> xio) option" where
  "submit_and_wait W rq epoch sg s =
     (case prep_descriptor W rq sg s of
        (None, s1) \<Rightarrow> Some (err_stats W rq True s1)
      | (Some D, s1) \<Rightarrow>
          let s2 = on_chan (\<lambda>c. c\<lparr>x_hw_err := False, x_aborted := False\<rparr>) (s1\<lparr>t_done := False\<rparr>);
              (cookie, v) = vchan_tx_submit (d_ref D) (x_vc (t_chan s2));
              s3 = on_chan (\<lambda>c. c\<lparr>x_vc := v\<rparr>) s2
          in if sint cookie < 0 then Some (err_stats W rq True s3)
             else case dw_edma_wait_done W epoch True (on_chan dw_edma_device_issue_pending (s3\<lparr>t_wq := True\<rparr>)) of
               None \<Rightarrow> None
             | Some (ret, s4) \<Rightarrow> after_wait W rq cookie epoch ret s4)"

definition configure :: "io_cb \<Rightarrow> sg_list \<Rightarrow> xio \<Rightarrow> xio" where
  "configure rq sg s =
     (let first = (case sg of [] \<Rightarrow> 0 | (a, _) # _ \<Rightarrow> a);
          s1 = (if cb_write rq then s\<lparr>t_src := first, t_dst := cb_ep_addr rq\<rparr> else s\<lparr>t_src := cb_ep_addr rq, t_dst := first\<rparr>)
      in on_chan (\<lambda>c. chan_device_config (c\<lparr>x_llm := (cb_is_llm rq \<and> length sg \<noteq> 1)\<rparr>)) s1)"

definition mapped_list :: "tworld \<Rightarrow> io_cb \<Rightarrow> xio \<Rightarrow> sg_list" where
  "mapped_list W rq s = (if cb_pre_mapped rq then cb_sg rq else tw_map W (tick s) (cb_sg rq))"

definition take_channel :: "io_cb \<Rightarrow> xio \<Rightarrow> xio" where
  "take_channel rq s = s\<lparr>t_idle := False, t_lie := cb_npu_run rq, t_in_use := True\<rparr>"

definition dw_edma_sg_process :: "tworld \<Rightarrow> io_cb \<Rightarrow> xio \<Rightarrow> (int \<times> xio) option" where
  "dw_edma_sg_process W rq s =
     (if dw_edma_run_chan_lock (t_chan s) = None \<or> t_in_use s
      then Some (err_alloc_descs W False (set_result (- EBUSY) (s\<lparr>t_idle := False, t_lie := cb_npu_run rq\<rparr>)))
      else
        let s1 = take_channel rq s; sg = mapped_list W rq s1 in
        if \<not> cb_pre_mapped rq \<and> sg = [] then Some (err_alloc_descs W True s1)
        else
          let s2 = (if cb_pre_mapped rq then s1 else log_event (Mapped (length (cb_sg rq)) (cb_write rq)) s1);
              s3 = configure rq sg s2
          in if \<not> t_live s3 then Some (err_stats W rq False (set_result (- EIO) s3))
             else submit_and_wait W rq (t_epoch s3) sg s3)"

text \<open>The entry: \<open>chan\<close> tells whether the caller has a channel, \<open>dev_n\<close> is the number of the device.\<close>

definition dw_edma_run :: "tworld \<Rightarrow> io_cb \<Rightarrow> bool \<Rightarrow> int \<Rightarrow> xio \<Rightarrow> (int \<times> xio) option" where
  "dw_edma_run W rq chan dev_n s =
     (if dev_n < 0 \<or> 64 \<le> dev_n then Some (- EINVAL, s)
      else if \<not> t_idle s then Some (- EBUSY, s)
      else if \<not> chan then Some (- 1, s)
      else dw_edma_sg_process W rq s)"

definition dw_edma_thread_init :: "int \<Rightarrow> xio \<Rightarrow> int \<times> xio" where
  "dw_edma_thread_init dev_n s = (if dev_n < 0 \<or> 64 \<le> dev_n then (- EINVAL, s) else (0, s\<lparr>t_idle := True\<rparr>))"

text \<open>The saturating sums of the log messages.\<close>

definition dx_dma_addr_end :: "u64 \<Rightarrow> u64 \<Rightarrow> u64" where
  "dx_dma_addr_end start len = (if len = 0 then start else if - 1 - (len - 1) < start then - 1 else start + len - 1)"

definition dx_dma_addr_add :: "u64 \<Rightarrow> u64 \<Rightarrow> u64" where
  "dx_dma_addr_add start off = (if - 1 - off < start then - 1 else start + off)"

lemma top_minus: "uint (- 1 - b :: u64) = 2 ^ 64 - 1 - uint b"
proof -
  have b: "0 \<le> uint b" "uint b < 2 ^ LENGTH(64)" by simp_all (rule unsigned_less [of b, simplified])
  have "uint (- 1 - b) = (2 ^ 64 - 1 - uint b) mod 2 ^ 64" by (simp add: uint_word_ariths)
  also have "\<dots> = 2 ^ 64 - 1 - uint b" using b(2) order_less_le_trans [OF _ b(1), of "- 1"] by (intro mod_pos_pos_trivial) simp_all
  finally show ?thesis .
qed

lemma dx_dma_addr_add_saturates: "uint (dx_dma_addr_add a b) = min (2 ^ 64 - 1) (uint a + uint b)"
proof -
  have "- 1 - b < a \<longleftrightarrow> 2 ^ 64 - 1 < uint a + uint b" using top_minus [of b] by (simp add: word_less_def) linarith
  moreover have "uint (a + b) = uint a + uint b" if "uint a + uint b < 2 ^ 64"
    using that by (simp add: uint_word_ariths)
  ultimately show ?thesis by (auto simp: dx_dma_addr_add_def unsigned_minus_1_eq_mask mask_eq_exp_minus_1)
qed

lemma dx_dma_addr_end_saturates: "len \<noteq> 0 \<Longrightarrow> uint (dx_dma_addr_end start len) = min (2 ^ 64 - 1) (uint start + uint (len - 1))"
  using dx_dma_addr_add_saturates [of start "len - 1"] by (simp add: dx_dma_addr_end_def dx_dma_addr_add_def add_diff_eq split: if_splits)

section \<open>Which channel\<close>

text \<open>A channel is known by the number of its device and its name; \<open>decimal\<close> prints a number.\<close>

fun decimal :: "nat \<Rightarrow> string" where
  "decimal n = (if n < 10 then [char_of (48 + n)] else decimal (n div 10) @ [char_of (48 + n mod 10)])"

declare decimal.simps [simp del]

definition dw_edma_ch_filter_optimized :: "int \<Rightarrow> string \<Rightarrow> int \<times> string \<Rightarrow> bool" where
  "dw_edma_ch_filter_optimized dev name c \<longleftrightarrow> fst c = dev \<and> snd c = name"

text \<open>\<open>request\<close> is \<open>dma_request_channel\<close> of the kernel, which looks for a free channel that passes the filter.\<close>

definition dw_edma_dma_allocation ::
  "((int \<times> string \<Rightarrow> bool) \<Rightarrow> 'c option) \<Rightarrow> int \<Rightarrow> int \<Rightarrow> 'c option \<Rightarrow> int \<times> 'c option" where
  "dw_edma_dma_allocation request dev npu slot =
     (if npu < 0 \<or> 4 \<le> npu \<or> dev < 0 then (- EINVAL, slot)
      else if slot \<noteq> None then (0, slot)
      else case request (dw_edma_ch_filter_optimized dev (''dma'' @ decimal (nat dev) @ ''chan'' @ decimal (nat npu))) of
        Some c \<Rightarrow> (0, Some c)
      | None \<Rightarrow> (- ENODEV, None))"

section \<open>Sleeping\<close>

interpretation woken_sleep: sleeping_loop "wait_woken W intr dl" "yield (tw_env W)"
  for W intr dl
proof
  show "\<exists>k. snd p = (yield (tw_env W) ^^ k) s" if "wait_woken W intr dl s = Some p" for s p
    by (rule wait_woken.raw_induct [where P = "\<lambda>W intr dl s p. \<exists>k. snd p = (yield (tw_env W) ^^ k) s", OF _ that])
       (auto split: option.splits if_splits intro: iterate_now iterate_later)
qed

lemma iterate_trans: "\<exists>k. t = (f ^^ k) s \<Longrightarrow> \<exists>k. u = (f ^^ k) t \<Longrightarrow> \<exists>k. u = ((f :: 'a \<Rightarrow> 'a) ^^ k) s"
  by (metis funpow_add o_apply)

interpretation loop_sleep: sleeping_loop "wait_loop W window nap epoch intr seen dl" "yield (tw_env W)"
  for W window nap epoch intr seen dl
proof
  show "\<exists>k. snd p = (yield (tw_env W) ^^ k) s" if "wait_loop W window nap epoch intr seen dl s = Some p" for s p
  proof (rule wait_loop.raw_induct [where P = "\<lambda>W window nap epoch intr seen dl s p. \<exists>k. snd p = (yield (tw_env W) ^^ k) s", OF _ that])
    fix loop W window nap epoch intr seen deadline s y
    assume IH: "\<And>W window nap epoch intr seen deadline s y. loop W window nap epoch intr seen deadline s = Some y \<Longrightarrow>
        \<exists>k. snd y = (yield (tw_env W) ^^ k) s"
      and e: "(let dl = if progress s \<noteq> seen then jiffies s + window else deadline
       in if time_after_eq (jiffies s) dl then Some (0, s)
          else case wait_woken W intr (jiffies s + min nap (at_least_one (dl - jiffies s))) s of None \<Rightarrow> None
               | Some (r, s1) \<Rightarrow>
                   if intr \<and> r = - ERESTARTSYS then Some (r, s1)
                   else if woken s1 then Some (if r \<noteq> 0 then r else 1, s1)
                   else if t_epoch s1 \<noteq> epoch then Some (0, s1) else loop W window nap epoch intr (progress s) dl s1) = Some y"
    then show "\<exists>k. snd y = (yield (tw_env W) ^^ k) s"
      by (auto simp: Let_def split: option.splits if_splits intro: iterate_now dest!: woken_sleep.ends IH) (auto intro: iterate_trans)
  qed
qed

interpretation wait_sleep: sleeping_loop "dw_edma_wait_done W epoch intr" "yield (tw_env W)"
  for W epoch intr
  by unfold_locales (auto simp: dw_edma_wait_done_def Let_def dest: loop_sleep.ends)

interpretation drain_sleep: sleeping_loop "drain_loop W epoch n" "yield (tw_env W)"
  for W epoch n
proof
  show "\<exists>k. snd p = (yield (tw_env W) ^^ k) s" if "drain_loop W epoch n s = Some p" for s p
  proof (rule drain_loop.raw_induct [where P = "\<lambda>W epoch n s p. \<exists>k. snd p = (yield (tw_env W) ^^ k) s", OF _ that])
    fix loop W epoch stalls s y
    assume IH: "\<And>W epoch stalls s y. loop W epoch stalls s = Some y \<Longrightarrow> \<exists>k. snd y = (yield (tw_env W) ^^ k) s"
      and "(if settled_wait epoch s then Some (False, s)
        else case dw_edma_wait_done W epoch False s of None \<Rightarrow> None
             | Some (r, s1) \<Rightarrow>
                 if settled_wait epoch s1 then Some (False, s1)
                 else if 0 < r then loop W epoch 0 s1
                      else if 2 \<le> Suc stalls then Some (True, s1) else loop W epoch (Suc stalls) s1) = Some y"
    then show "\<exists>k. snd y = (yield (tw_env W) ^^ k) s"
      by (auto split: option.splits if_splits intro: iterate_now dest!: wait_sleep.ends IH) (auto intro: iterate_trans)
  qed
qed

section \<open>Success means success\<close>

text \<open>What the thread has seen, all at one moment, when it reports success.\<close>

definition completed_ok :: "tworld \<Rightarrow> u32 \<Rightarrow> int \<Rightarrow> xio \<Rightarrow> bool" where
  "completed_ok W cookie epoch s \<longleftrightarrow> t_done s \<and> tx_status W cookie s = DMA_COMPLETE \<and> \<not> hw_err s \<and> \<not> x_aborted (t_chan s) \<and> t_epoch s = epoch"

lemma set_result_simps [simp]:
  "t_result (set_result r s) = word_of_int r" "t_done (set_result r s) = t_done s" "t_epoch (set_result r s) = t_epoch s"
  "t_chan (set_result r s) = t_chan s" "tx_status W c (set_result r s) = tx_status W c s" "t_log (set_result r s) = t_log s"
  by (simp_all add: set_result_def tx_status_def)

lemma result_zero: "result_of W s = 0 \<longleftrightarrow> t_result s = 0"
  by (auto simp: result_of_def signed_eq_0_iff unsigned_eq_0_iff)

lemma errno_char [simp]: "(word_of_int (- 5) :: u8) \<noteq> 0" "(word_of_int (- 16) :: u8) \<noteq> 0"
  by simp_all

lemma alloc_result [simp]: "fst (err_alloc_descs W m s) = 0 \<longleftrightarrow> t_result s = 0"
  by (simp add: err_alloc_descs_def Let_def result_zero log_event_def)

lemma stats_result [simp]: "fst (err_stats W rq failed s) = 0 \<longleftrightarrow> \<not> failed \<and> t_result s = 0"
  by (auto simp: err_stats_def Let_def log_event_def)

lemma finalize_result [simp]:
  "t_result (dw_edma_finalize_failed_transfer W err act s) = word_of_int (if err = 0 then - EIO else err)"
  by (simp add: dw_edma_finalize_failed_transfer_def)

lemma alloc_nonzero: "t_result u \<noteq> 0 \<Longrightarrow> err_alloc_descs W b u \<noteq> (0, t)"
  using alloc_result [of W b u] by (metis fst_conv)

lemma stats_nonzero: "err_stats W rq True u \<noteq> (0, t)" "t_result u \<noteq> 0 \<Longrightarrow> err_stats W rq b u \<noteq> (0, t)"
  using stats_result [of W rq True u] stats_result [of W rq b u] by (metis fst_conv)+

lemma stats_completed: "completed_ok W cookie epoch (snd (err_stats W' rq b u)) = completed_ok W cookie epoch u"
  by (simp add: completed_ok_def err_stats_def err_alloc_descs_def set_result_def log_event_def tx_status_def Let_def)

lemma final_checks_ok:
  assumes "final_checks W rq cookie epoch failed s = (0, t)" "t_done s"
  shows "completed_ok W cookie epoch t"
proof -
  have "t_epoch s = epoch" "\<not> hw_err s" "\<not> x_aborted (t_chan s)" "tx_status W cookie s = DMA_COMPLETE"
    "err_stats W rq failed (set_result 0 s) = (0, t)"
    using assms(1) stats_nonzero by (auto simp: final_checks_def split: if_splits)
  then show ?thesis using assms(2) stats_completed [of W cookie epoch W rq failed "set_result 0 s"] by (simp add: completed_ok_def)
qed

lemma check_done_0: "dw_edma_check_done epoch s = 0 \<Longrightarrow> t_done s"
  by (simp add: dw_edma_check_done_def split: if_splits)

lemma rewait_0: "dw_edma_rewait_done W epoch ms intr s = Some (0, t) \<Longrightarrow> t_done t"
  by (auto simp: dw_edma_rewait_done_def check_done_0 split: option.splits)

lemma late_0: "dw_edma_try_late_callback_recovery W cookie epoch s = Some (0, t) \<Longrightarrow> t_done t"
  by (auto simp: dw_edma_try_late_callback_recovery_def Let_def split: option.splits if_splits dest: rewait_0 check_done_0)

lemma handle_0:
  assumes "dw_edma_handle_wait_timeout W cookie epoch s = Some (0, t)"
  shows "t_done t"
proof -
  have "fst (dw_edma_recover_cs2_error W cs u) \<noteq> 0" for cs u
    by (simp add: dw_edma_recover_cs2_error_def Let_def)
  moreover have "dw_edma_stuck_graceful_then_force W epoch u \<noteq> Some (0, t)" for u
    by (auto simp: dw_edma_stuck_graceful_then_force_def split: option.splits)
  ultimately show ?thesis using assms
    by (auto simp: dw_edma_handle_wait_timeout_def dw_edma_grace_rewait_def
        split: option.splits prod.splits if_splits dest: late_0 rewait_0) (metis fst_conv)+
qed

lemma drain_woken: "drain_loop W epoch n s = Some (False, t) \<Longrightarrow> settled_wait epoch t"
proof -
  have "\<not> fst p \<longrightarrow> settled_wait epoch (snd p)" if "drain_loop W epoch n s = Some p" for p
    by (rule drain_loop.raw_induct [where P = "\<lambda>W epoch n s p. \<not> fst p \<longrightarrow> settled_wait epoch (snd p)", OF _ that])
       (auto split: option.splits if_splits)
  then show "drain_loop W epoch n s = Some (False, t) \<Longrightarrow> settled_wait epoch t" by auto
qed

lemma after_wait_ok:
  assumes "after_wait W rq cookie epoch ret s = Some (0, t)"
  shows "completed_ok W cookie epoch t"
proof -
  note f = final_checks_ok [of W rq cookie epoch _ _ t] and e = stats_nonzero(2) [of _ W rq _ t]
  have g: "final_checks W rq cookie epoch b u \<noteq> (0, t)" if "t_result u \<noteq> 0" for b u
    using that e by (auto simp: final_checks_def)
  consider "t_epoch s \<noteq> epoch" | "t_epoch s = epoch" "hw_err s" | "t_epoch s = epoch" "\<not> hw_err s" "ret = - ERESTARTSYS"
    | "t_epoch s = epoch" "\<not> hw_err s" "ret \<noteq> - ERESTARTSYS" "\<not> t_done s" | "t_epoch s = epoch" "\<not> hw_err s" "ret \<noteq> - ERESTARTSYS" "t_done s" by blast
  then show ?thesis
  proof cases
    case 1
    then show ?thesis using assms e by (auto simp: after_wait_def)
  next
    case 2
    then show ?thesis using assms g by (auto simp: after_wait_def)
  next
    case 3
    then show ?thesis using assms e f
      by (auto simp: after_wait_def settled_wait_def woken_def split: option.splits bool.splits if_splits dest!: drain_woken)
  next
    case 4
    then obtain rc s1 where h: "dw_edma_handle_wait_timeout W cookie epoch s = Some (rc, s1)"
      using assms by (auto simp: after_wait_def split: option.splits)
    have "final_checks W rq cookie epoch True u \<noteq> (0, t)" for u using stats_nonzero(1) by (auto simp: final_checks_def)
    then have "rc = 0" using assms 4 h by (auto simp: after_wait_def split: if_splits)
    then show ?thesis using assms 4 h f handle_0 by (auto simp: after_wait_def)
  next
    case 5
    then show ?thesis using assms f by (auto simp: after_wait_def)
  qed
qed

text \<open>The ways a transfer can go.\<close>

lemma sg_process_cases:
  assumes "dw_edma_sg_process W rq s = Some p"
  obtains (busy) u where "p = err_alloc_descs W False (set_result (- EBUSY) u)" "t_log u = t_log s" "t_in_use u = t_in_use s"
  | (unmapped) "p = err_alloc_descs W True (take_channel rq s)" "\<not> cb_pre_mapped rq" "mapped_list W rq (take_channel rq s) = []" "\<not> t_in_use s"
  | (dead) u where "p = err_stats W rq False (set_result (- EIO) u)"
      "t_log u = t_log s @ (if cb_pre_mapped rq then [] else [Mapped (length (cb_sg rq)) (cb_write rq)])"
      "\<not> t_in_use s" "cb_pre_mapped rq \<or> tw_map W (tick s) (cb_sg rq) \<noteq> []"
  | (run) sg u where "submit_and_wait W rq (t_epoch s) sg u = Some p" "x_vc (t_chan u) = x_vc (t_chan s)"
      "t_log u = t_log s @ (if cb_pre_mapped rq then [] else [Mapped (length (cb_sg rq)) (cb_write rq)])"
      "\<not> t_in_use s" "cb_pre_mapped rq \<or> tw_map W (tick s) (cb_sg rq) \<noteq> []"
proof -
  define s1 where "s1 = take_channel rq s"
  define sg where "sg = mapped_list W rq s1"
  define u where "u = configure rq sg (if cb_pre_mapped rq then s1 else log_event (Mapped (length (cb_sg rq)) (cb_write rq)) s1)"
  have u: "t_epoch u = t_epoch s" "t_log u = t_log s @ (if cb_pre_mapped rq then [] else [Mapped (length (cb_sg rq)) (cb_write rq)])"
    "x_vc (t_chan u) = x_vc (t_chan s)"
    by (simp_all add: u_def s1_def take_channel_def configure_def on_chan_def log_event_def chan_device_config_def Let_def)
  have r: "dw_edma_sg_process W rq s =
      (if dw_edma_run_chan_lock (t_chan s) = None \<or> t_in_use s
       then Some (err_alloc_descs W False (set_result (- EBUSY) (s\<lparr>t_idle := False, t_lie := cb_npu_run rq\<rparr>)))
       else if \<not> cb_pre_mapped rq \<and> sg = [] then Some (err_alloc_descs W True s1)
       else if \<not> t_live u then Some (err_stats W rq False (set_result (- EIO) u))
       else submit_and_wait W rq (t_epoch s) sg u)"
    unfolding dw_edma_sg_process_def Let_def s1_def [symmetric] sg_def [symmetric] u_def [symmetric] u(1) by simp
  show ?thesis
  proof (cases "dw_edma_run_chan_lock (t_chan s) = None \<or> t_in_use s")
    case True
    then show ?thesis using assms r busy [of "s\<lparr>t_idle := False, t_lie := cb_npu_run rq\<rparr>"] by simp
  next
    case f1: False
    have m: "cb_pre_mapped rq \<or> tw_map W (tick s) (cb_sg rq) \<noteq> []" if "\<not> (\<not> cb_pre_mapped rq \<and> sg = [])"
      using that by (auto simp: sg_def s1_def mapped_list_def take_channel_def)
    show ?thesis
    proof (cases "\<not> cb_pre_mapped rq \<and> sg = []")
      case True
      then show ?thesis using assms r f1 unmapped by (simp add: s1_def sg_def)
    next
      case f2: False
      show ?thesis
      proof (cases "t_live u")
        case True
        then show ?thesis using assms r f1 f2 run [of sg u] u(2,3) m by simp
      next
        case False
        then show ?thesis using assms r f1 f2 dead [of u] u(2) m by simp
      qed
    qed
  qed
qed

lemma prep_cookie: "prep_descriptor W rq sg s = (r, t) \<Longrightarrow> chan_cookie (x_vc (t_chan t)) = chan_cookie (x_vc (t_chan s))"
  by (auto simp: prep_descriptor_def Let_def vchan_tx_prep_def split: prod.splits option.splits)

lemma submit_cookie: "fst (vchan_tx_submit d v) = fst (dma_cookie_assign e w)" if "chan_cookie v = chan_cookie w"
  using that by (simp add: vchan_tx_submit_def dma_cookie_assign_def Let_def)

lemma submit_ok:
  assumes "submit_and_wait W rq epoch sg s = Some (0, t)"
  shows "completed_ok W (fst (dma_cookie_assign d (x_vc (t_chan s)))) epoch t"
proof -
  obtain o1 s1 where p: "prep_descriptor W rq sg s = (o1, s1)" by fastforce
  show ?thesis
  proof (cases o1)
    case None
    then show ?thesis using assms p stats_nonzero by (simp add: submit_and_wait_def)
  next
    case (Some D)
    define s2 where "s2 = on_chan (\<lambda>c. c\<lparr>x_hw_err := False, x_aborted := False\<rparr>) (s1\<lparr>t_done := False\<rparr>)"
    obtain cookie v where c: "vchan_tx_submit (d_ref D) (x_vc (t_chan s2)) = (cookie, v)" by fastforce
    define s3 where "s3 = on_chan (\<lambda>c. c\<lparr>x_vc := v\<rparr>) s2"
    have e: "submit_and_wait W rq epoch sg s = (if sint cookie < 0 then Some (err_stats W rq True s3)
        else case dw_edma_wait_done W epoch True (on_chan dw_edma_device_issue_pending (s3\<lparr>t_wq := True\<rparr>)) of
               None \<Rightarrow> None
             | Some (ret, s4) \<Rightarrow> after_wait W rq cookie epoch ret s4)"
      using p Some c by (simp add: submit_and_wait_def s2_def [symmetric] s3_def [symmetric] Let_def)
    have "\<not> sint cookie < 0" using assms stats_nonzero unfolding e by auto
    then obtain ret s4 where "after_wait W rq cookie epoch ret s4 = Some (0, t)"
      using assms unfolding e by (auto split: option.splits)
    moreover have "cookie = fst (dma_cookie_assign d (x_vc (t_chan s)))"
      using submit_cookie [of "x_vc (t_chan s2)" "x_vc (t_chan s)" "d_ref D" d] c prep_cookie [OF p] by (simp add: s2_def on_chan_def)
    ultimately show ?thesis using after_wait_ok by blast
  qed
qed

text \<open>
  (C20) A transfer that reports success: when the thread returns, the callback has come, the engine holds the cookie of
  this transfer for complete, and neither an error nor an abort nor a recovery has touched the channel; the only other
  way to a zero is that the list could not be mapped at all, with the caller's own zero left in place.
\<close>

theorem transfer_success_sound:
  assumes "dw_edma_sg_process W rq s = Some (0, t)"
  shows "completed_ok W (fst (dma_cookie_assign d (x_vc (t_chan s)))) (t_epoch s) t \<or>
    \<not> cb_pre_mapped rq \<and> tw_map W (tick s) (cb_sg rq) = [] \<and> t_result s = 0"
  using assms
proof (cases rule: sg_process_cases)
  case (busy u)
  then show ?thesis using alloc_nonzero [of "set_result (- EBUSY) u" W False t] by simp
next
  case unmapped
  then have "t_result (take_channel rq s) = 0" using alloc_nonzero by metis
  then show ?thesis using unmapped by (simp add: take_channel_def mapped_list_def)
next
  case (dead u)
  then show ?thesis using stats_nonzero(2) [of "set_result (- EIO) u" W rq False t] by simp
next
  case (run sg u)
  then show ?thesis using submit_ok [of W rq "t_epoch s" sg u t d] by (simp add: dma_cookie_assign_def Let_def)
qed

section \<open>Every transfer ends\<close>

text \<open>
  Time as an unbounded number: the clock and a deadline at \<open>x\<close> and \<open>y\<close> ticks after a start \<open>c\<close> compare like \<open>x\<close> and
  \<open>y\<close>, as long as they are not half the range apart.
\<close>

definition at_time :: "u64 \<Rightarrow> int \<Rightarrow> u64" where
  "at_time c x = c + word_of_int x"

lemma at_time_add: "at_time c x + w = at_time c (x + uint w)"
  by (simp add: at_time_def)

lemma at_time_diff: "at_time c y - at_time c x = word_of_int (y - x)"
  by (simp add: at_time_def)

lemma at_time_after:
  assumes "x < y + 2 ^ 62" "y < x + 2 ^ 62"
  shows "time_after_eq (at_time c x) (at_time c y) \<longleftrightarrow> y \<le> x"
proof -
  have "sint (at_time c x - at_time c y) = x - y" unfolding at_time_diff using assms by (intro sint_word_of_int64) simp_all
  then show ?thesis by (simp add: time_after_eq_def)
qed

lemma yield_time:
  assumes "clock_ok E" "jiffies s = at_time c x"
  obtains x' where "jiffies (yield E s) = at_time c x'" "x < x'" "x' < x + 2 ^ 32"
proof -
  let ?d = "uint (jiffies (yield E s) - jiffies s)"
  have "jiffies (yield E s) = at_time c (x + ?d)" using assms(2) by (simp add: at_time_def)
  then show thesis using that clock_ok_yield [OF assms(1), of s] by simp
qed

text \<open>A wait with a deadline returns, and not much after it.\<close>

lemma wait_woken_returns:
  assumes clk: "clock_ok (tw_env W)"
  shows "jiffies s = at_time c x \<Longrightarrow> x < y + 2 ^ 32 \<Longrightarrow> y < x + 2 ^ 60 \<Longrightarrow>
    \<exists>r k x'. wait_woken W intr (at_time c y) s = Some (r, (yield (tw_env W) ^^ k) s) \<and>
      jiffies ((yield (tw_env W) ^^ k) s) = at_time c x' \<and> x' < y + 2 ^ 32 \<and>
      (if k = 0 then x' = x \<and> (woken s \<or> intr \<and> r = - ERESTARTSYS \<or> y \<le> x) else x < x')"
proof (induction "nat (y - x)" arbitrary: x s rule: less_induct)
  case less
  have cmp: "time_after_eq (jiffies s) (at_time c y) \<longleftrightarrow> y \<le> x" using less.prems by (simp add: at_time_after)
  show ?case
  proof (cases "woken s \<or> intr \<and> sigpend s \<or> y \<le> x")
    case True
    then have "\<exists>r. wait_woken W intr (at_time c y) s = Some (r, s) \<and> (woken s \<or> intr \<and> r = - ERESTARTSYS \<or> y \<le> x)"
      using cmp by (subst wait_woken.simps) auto
    then obtain r where "wait_woken W intr (at_time c y) s = Some (r, s)" "woken s \<or> intr \<and> r = - ERESTARTSYS \<or> y \<le> x" by blast
    then show ?thesis using less.prems by (intro exI [of _ r] exI [of _ 0] exI [of _ x]) simp
  next
    case False
    obtain x1 where x1: "jiffies (yield (tw_env W) s) = at_time c x1" "x < x1" "x1 < x + 2 ^ 32"
      using yield_time [OF clk less.prems(1)] .
    obtain r k x' where r: "wait_woken W intr (at_time c y) (yield (tw_env W) s) = Some (r, (yield (tw_env W) ^^ k) (yield (tw_env W) s))"
        "jiffies ((yield (tw_env W) ^^ k) (yield (tw_env W) s)) = at_time c x'" "x' < y + 2 ^ 32"
        "if k = 0 then x' = x1 \<and> (woken (yield (tw_env W) s) \<or> intr \<and> r = - ERESTARTSYS \<or> y \<le> x1) else x1 < x'"
    proof -
      have "nat (y - x1) < nat (y - x)" "x1 < y + 2 ^ 32" "y < x1 + 2 ^ 60" using x1 less.prems False by simp_all
      from less.hyps [OF this(1) x1(1) this(2,3)] show thesis using that by blast
    qed
    then have "x < x'" using x1 by (simp split: if_splits)
    have "wait_woken W intr (at_time c y) s = Some (r, (yield (tw_env W) ^^ Suc k) s)"
      using False cmp r(1) by (subst wait_woken.simps) (auto simp: funpow_swap1)
    then show ?thesis using r \<open>x < x'\<close> by (intro exI [of _ r] exI [of _ "Suc k"] exI [of _ x']) (simp add: funpow_swap1)
  qed
qed

text \<open>One round of the loop.\<close>

lemma wait_round:
  assumes clk: "clock_ok (tw_env W)" and bnd: "0 < uint window" "uint window < 2 ^ 59" "0 < uint nap"
    and t: "jiffies s = at_time c x" "x < y + 2 ^ 32" "y \<le> x + uint window"
    and y': "y' = (if progress s \<noteq> seen then x + uint window else y)"
  obtains (stop) p where "wait_loop W window nap epoch intr seen (at_time c y) s = Some p"
  | (go) k x' where "0 < k" "wait_loop W window nap epoch intr seen (at_time c y) s =
        wait_loop W window nap epoch intr (progress s) (at_time c y') ((yield (tw_env W) ^^ k) s)"
      "jiffies ((yield (tw_env W) ^^ k) s) = at_time c x'" "x < x'" "x' < y' + 2 ^ 32" "y' \<le> x' + uint window" "x < y'"
proof (cases "y' \<le> x")
  define dl where "dl = (if progress s \<noteq> seen then jiffies s + window else at_time c y)"
  have dl: "dl = at_time c y'" by (simp add: dl_def y' t(1) at_time_add)
  have y2: "x < y' + 2 ^ 32" "y' \<le> x + uint window" using t y' bnd by (auto split: if_splits)
  have cmp: "time_after_eq (jiffies s) dl \<longleftrightarrow> y' \<le> x" using y2 bnd by (simp add: dl t(1) at_time_after)
  {
    case True
    then have "wait_loop W window nap epoch intr seen (at_time c y) s = Some (0, s)"
      using cmp by (subst wait_loop.simps) (simp add: Let_def dl_def [symmetric])
    then show thesis by (rule stop)
  next
    case False
    define w where "w = min nap (at_least_one (dl - jiffies s))"
    have "uint (dl - jiffies s) = y' - x"
      using False y2 bnd mod_pos_pos_trivial [of "y' - x" "2 ^ 64"] by (simp only: dl t(1) at_time_diff uint_word_of_int) simp
    then have w: "0 < uint w" "x + uint w \<le> y'"
      using False bnd by (auto simp: w_def at_least_one_def min_def word_le_def)
    have idl: "jiffies s + w = at_time c (x + uint w)" by (simp add: t(1) at_time_add)
    obtain r k x' where r: "wait_woken W intr (jiffies s + w) s = Some (r, (yield (tw_env W) ^^ k) s)"
        "jiffies ((yield (tw_env W) ^^ k) s) = at_time c x'" "x' < x + uint w + 2 ^ 32"
        "if k = 0 then x' = x \<and> (woken s \<or> intr \<and> r = - ERESTARTSYS \<or> x + uint w \<le> x) else x < x'"
    proof -
      have "x < x + uint w + 2 ^ 32" "x + uint w < x + 2 ^ 60" using w y2 bnd by simp_all
      from wait_woken_returns [OF clk t(1) this, of intr] show thesis using that unfolding idl by blast
    qed
    have e: "wait_loop W window nap epoch intr seen (at_time c y) s =
       (let s1 = (yield (tw_env W) ^^ k) s
        in if intr \<and> r = - ERESTARTSYS then Some (r, s1)
          else if woken s1 then Some (if r \<noteq> 0 then r else 1, s1)
          else if t_epoch s1 \<noteq> epoch then Some (0, s1)
          else wait_loop W window nap epoch intr (progress s) dl s1)"
      using False cmp r(1) by (subst wait_loop.simps) (simp add: Let_def dl_def [symmetric] w_def)
    show thesis
    proof (cases "(intr \<and> r = - ERESTARTSYS) \<or> woken ((yield (tw_env W) ^^ k) s) \<or> t_epoch ((yield (tw_env W) ^^ k) s) \<noteq> epoch")
      case True
      then have "\<exists>p. wait_loop W window nap epoch intr seen (at_time c y) s = Some p" unfolding e by (auto simp: Let_def)
      then show thesis using stop by blast
    next
      case f: False
      then have "0 < k" using r(4) w(1) by (auto intro: ccontr)
      moreover have "wait_loop W window nap epoch intr seen (at_time c y) s =
          wait_loop W window nap epoch intr (progress s) (at_time c y') ((yield (tw_env W) ^^ k) s)"
        unfolding e using f dl by (auto simp: Let_def)
      ultimately show thesis using go [of k x'] r w False y2 by simp
    qed
  }
qed

text \<open>The surroundings stop making progress at some time: a transfer has finitely many completions.\<close>

definition progress_ends :: "nat \<Rightarrow> tworld \<Rightarrow> bool" where
  "progress_ends N W \<longleftrightarrow> (\<forall>k \<ge> N. \<forall>s. progress (tw_env W k s) = progress s)"

lemma progress_still:
  assumes "progress_ends N W" "N \<le> tick s"
  shows "progress ((yield (tw_env W) ^^ k) s) = progress s"
proof (induction k)
  case (Suc k)
  have "progress (yield E u) = progress (E (tick u) u)" for E and u :: xio by (simp add: progress_def yield_def)
  then show ?case using Suc assms by (simp add: progress_ends_def tick_yields)
qed simp

lemma wait_loop_still:
  assumes clk: "clock_ok (tw_env W)" and bnd: "0 < uint window" "uint window < 2 ^ 59" "0 < uint nap"
    and still: "progress_ends N W"
  shows "jiffies s = at_time c x \<Longrightarrow> x < y + 2 ^ 32 \<Longrightarrow> y \<le> x + uint window \<Longrightarrow> N \<le> tick s \<Longrightarrow> progress s = seen \<Longrightarrow>
    \<exists>p. wait_loop W window nap epoch intr seen (at_time c y) s = Some p"
proof (induction "nat (y - x)" arbitrary: x s rule: less_induct)
  case less
  show ?case
  proof (rule wait_round [OF clk bnd less.prems(1-3) refl, where seen = seen and epoch = epoch and intr = intr])
    fix k x' assume k: "wait_loop W window nap epoch intr seen (at_time c y) s = wait_loop W window nap epoch intr (progress s)
        (at_time c (if progress s \<noteq> seen then x + uint window else y)) ((yield (tw_env W) ^^ k) s)"
      "jiffies ((yield (tw_env W) ^^ k) s) = at_time c x'" "x < x'"
      "x' < (if progress s \<noteq> seen then x + uint window else y) + 2 ^ 32"
      "(if progress s \<noteq> seen then x + uint window else y) \<le> x' + uint window"
      "x < (if progress s \<noteq> seen then x + uint window else y)"
    then show ?thesis
      using less.hyps [of x' "(yield (tw_env W) ^^ k) s"] less.prems(4,5) progress_still [OF still less.prems(4)]
      by (simp add: tick_yields)
  qed blast
qed

lemma wait_loop_returns:
  assumes clk: "clock_ok (tw_env W)" and bnd: "0 < uint window" "uint window < 2 ^ 59" "0 < uint nap"
    and still: "progress_ends N W"
  shows "jiffies s = at_time c x \<Longrightarrow> x < y + 2 ^ 32 \<Longrightarrow> y \<le> x + uint window \<Longrightarrow>
    \<exists>p. wait_loop W window nap epoch intr seen (at_time c y) s = Some p"
proof (induction "N - tick s" arbitrary: x y seen s rule: less_induct)
  case less
  let ?y = "if progress s \<noteq> seen then x + uint window else y"
  show ?case
  proof (rule wait_round [OF clk bnd less.prems refl, where seen = seen and epoch = epoch and intr = intr])
    fix k x' assume k: "0 < k" "wait_loop W window nap epoch intr seen (at_time c y) s = wait_loop W window nap epoch intr (progress s)
        (at_time c ?y) ((yield (tw_env W) ^^ k) s)"
      "jiffies ((yield (tw_env W) ^^ k) s) = at_time c x'" "x < x'" "x' < ?y + 2 ^ 32" "?y \<le> x' + uint window" "x < ?y"
    show ?thesis
    proof (cases "N \<le> tick s")
      case True
      then show ?thesis
        using wait_loop_still [OF clk bnd still k(3,5,6), of "progress s" epoch intr] progress_still [OF still True] k(2)
        by (simp add: tick_yields)
    next
      case False
      then have "N - tick ((yield (tw_env W) ^^ k) s) < N - tick s" using k(1) by (simp add: tick_yields)
      then show ?thesis using less.hyps k by metis
    qed
  qed blast
qed

text \<open>The clock rate is one of a kernel, so that no timeout comes near the range of the clock.\<close>

definition sane_rate :: "tworld \<Rightarrow> bool" where
  "sane_rate W \<longleftrightarrow> tw_hz W \<le> 2 ^ 20"

lemma jiffies_bound: "uint (msecs_to_jiffies (tw_hz W) ms) < 2 ^ 59" if "sane_rate W"
proof -
  have "unat ms < 2 ^ LENGTH(32)" by (rule unsigned_less)
  then have "unat ms * tw_hz W \<le> 2 ^ 32 * 2 ^ 20" using that by (intro mult_mono) (simp_all add: sane_rate_def)
  then have "(unat ms * tw_hz W + 999) div 1000 < 2 ^ 59" by simp
  then have "int ((unat ms * tw_hz W + 999) div 1000) < 2 ^ 59" by (metis of_nat_less_iff of_nat_numeral of_nat_power)
  moreover have "uint (of_nat n :: u64) \<le> int n" for n by (simp add: unsigned_of_nat take_bit_int_less_eq_self_iff)
  ultimately show ?thesis unfolding msecs_to_jiffies_def by (meson le_less_trans)
qed

lemma at_least_one_bound: "0 < uint (at_least_one w)" "uint w < 2 ^ 59 \<Longrightarrow> uint (at_least_one w) < 2 ^ 59"
proof -
  show "0 < uint (at_least_one w)" using unsigned_eq_0_iff [of w, where 'a = int] by (simp add: at_least_one_def less_le)
qed (simp add: at_least_one_def)

lemma wait_done_returns:
  assumes "clock_ok (tw_env W)" "sane_rate W" "progress_ends N W"
  shows "\<exists>p. dw_edma_wait_done W epoch intr s = Some p"
proof -
  let ?w = "at_least_one (msecs_to_jiffies (tw_hz W) (tw_timeout W))"
  have j: "jiffies s = at_time (jiffies s) 0" "jiffies s + ?w = at_time (jiffies s) (uint ?w)" by (simp_all add: at_time_def)
  have b: "0 < uint ?w" "uint ?w < 2 ^ 59" using at_least_one_bound jiffies_bound [OF assms(2)] by simp_all
  have "\<exists>p. wait_loop W ?w (at_least_one (msecs_to_jiffies (tw_hz W) 50)) epoch intr (progress s) (jiffies s + ?w) s = Some p"
    unfolding j(2) by (rule wait_loop_returns [OF assms(1) b at_least_one_bound(1) assms(3) j(1)]) (use b in simp_all)
  then show ?thesis by (simp add: dw_edma_wait_done_def Let_def)
qed

lemma wait_done_positive:
  assumes "dw_edma_wait_done W epoch intr s = Some (r, t)" "0 < r"
  shows "woken t"
proof -
  have "0 < fst p \<longrightarrow> woken (snd p)" if "wait_loop W window nap epoch intr seen dl s = Some p" for window nap seen dl p
  proof (rule wait_loop.raw_induct [where P = "\<lambda>W window nap epoch intr seen dl s p. 0 < fst p \<longrightarrow> woken (snd p)", OF _ that])
    fix loop W window nap epoch intr seen deadline s y
    assume IH: "\<And>W window nap epoch intr seen deadline s y. loop W window nap epoch intr seen deadline s = Some y \<Longrightarrow> 0 < fst y \<longrightarrow> woken (snd y)"
      and "(let dl = if progress s \<noteq> seen then jiffies s + window else deadline
       in if time_after_eq (jiffies s) dl then Some (0, s)
          else case wait_woken W intr (jiffies s + min nap (at_least_one (dl - jiffies s))) s of None \<Rightarrow> None
               | Some (r, s1) \<Rightarrow>
                   if intr \<and> r = - ERESTARTSYS then Some (r, s1)
                   else if woken s1 then Some (if r \<noteq> 0 then r else 1, s1)
                   else if t_epoch s1 \<noteq> epoch then Some (0, s1) else loop W window nap epoch intr (progress s) dl s1) = Some y"
    then show "0 < fst y \<longrightarrow> woken (snd y)"
      by (auto simp: Let_def split: option.splits if_splits dest!: IH)
  qed
  then show ?thesis using assms by (fastforce simp: dw_edma_wait_done_def Let_def)
qed

lemma rewait_returns:
  assumes "clock_ok (tw_env W)" "sane_rate W"
  obtains rc t where "dw_edma_rewait_done W epoch ms intr s = Some (rc, t)"
proof -
  let ?w = "msecs_to_jiffies (tw_hz W) ms"
  have j: "jiffies s = at_time (jiffies s) 0" "jiffies s + ?w = at_time (jiffies s) (uint ?w)" by (simp_all add: at_time_def)
  have "\<exists>p. wait_woken W intr (jiffies s + ?w) s = Some p"
  proof -
    have "0 < uint ?w + 2 ^ 32" "uint ?w < 0 + 2 ^ 60" using jiffies_bound [OF assms(2), of ms] by (simp_all add: add_nonneg_pos)
    from wait_woken_returns [OF assms(1) j(1) this, of intr] show ?thesis unfolding j(2) by blast
  qed
  then show thesis using that by (auto simp: dw_edma_rewait_done_def)
qed

text \<open>After a signal the thread waits for two windows at most.\<close>

lemma drain_returns:
  assumes "clock_ok (tw_env W)" "sane_rate W" "progress_ends N W"
  shows "\<exists>p. drain_loop W epoch n s = Some p"
proof -
  have one: "\<exists>p. drain_loop W epoch (Suc k) s = Some p" for k s
  proof -
    obtain r t where "dw_edma_wait_done W epoch False s = Some (r, t)" using wait_done_returns [OF assms] by fastforce
    moreover from wait_done_positive [OF this] have "0 < r \<Longrightarrow> settled_wait epoch t" by (simp add: settled_wait_def)
    ultimately show ?thesis by (subst drain_loop.simps) auto
  qed
  obtain r t where "dw_edma_wait_done W epoch False s = Some (r, t)" using wait_done_returns [OF assms] by fastforce
  moreover from wait_done_positive [OF this] have "0 < r \<Longrightarrow> settled_wait epoch t" by (simp add: settled_wait_def)
  ultimately show ?thesis using one [of n t] by (subst drain_loop.simps) auto
qed

lemma handle_returns:
  assumes "clock_ok (tw_env W)" "sane_rate W"
  obtains rc t where "dw_edma_handle_wait_timeout W cookie epoch s = Some (rc, t)"
proof -
  note r = rewait_returns [OF assms]
  have "\<exists>p. dw_edma_try_late_callback_recovery W cookie epoch s = Some p"
    by (rule r [of epoch 100 False "on_chan (\<lambda>c. c\<lparr>x_vc := (x_vc c)\<lparr>task_scheduled := True\<rparr>\<rparr>) s"])
       (simp add: dw_edma_try_late_callback_recovery_def Let_def)
  then obtain rc1 s1 where 1: "dw_edma_try_late_callback_recovery W cookie epoch s = Some (rc1, s1)" by auto
  obtain rc2 s2 where 2: "dw_edma_grace_rewait W epoch s1 = Some (rc2, s2)"
    using r unfolding dw_edma_grace_rewait_def by blast
  have "\<exists>p. dw_edma_stuck_graceful_then_force W epoch u = Some p" for u
    by (rule r [of epoch "tw_timeout W" False "terminate_all W u"]) (simp add: dw_edma_stuck_graceful_then_force_def)
  then have "\<exists>p. dw_edma_handle_wait_timeout W cookie epoch s = Some p"
    using 1 2 by (simp add: dw_edma_handle_wait_timeout_def split: prod.splits)
  then show thesis using that by auto
qed

text \<open>
  (C21) Every transfer ends.  When the clock moves and the completions of the channel stop at some time, the thread
  returns from every state: its waits are bounded also after a signal, when it may no longer be interrupted, and also
  when the device answers nothing at all.
\<close>

theorem transfer_returns:
  assumes "clock_ok (tw_env W)" "sane_rate W" "progress_ends N W"
  shows "\<exists>r t. dw_edma_sg_process W rq s = Some (r, t)"
proof -
  have a: "\<exists>p. after_wait W rq cookie epoch ret u = Some p" for cookie epoch ret u
  proof -
    obtain p where d: "drain_loop W epoch 0 u = Some p" using drain_returns [OF assms] by blast
    obtain rc t where h: "dw_edma_handle_wait_timeout W cookie epoch u = Some (rc, t)" by (rule handle_returns [OF assms(1,2)])
    show ?thesis using d h by (auto simp: after_wait_def split: prod.splits bool.splits)
  qed
  have "\<exists>p. submit_and_wait W rq epoch sg u = Some p" for epoch sg u
    using a wait_done_returns [OF assms] by (auto simp: submit_and_wait_def Let_def split: prod.splits option.splits) (metis option.distinct(1))+
  then show ?thesis by (auto simp: dw_edma_sg_process_def Let_def)
qed

section \<open>Every transfer cleans up\<close>

text \<open>
  The log is the thread's own: nobody else writes it; and \<open>dma_map_sg\<close> never makes a list longer.
\<close>

definition own_log :: "tworld \<Rightarrow> bool" where
  "own_log W \<longleftrightarrow> (\<forall>k s. t_log (tw_env W k s) = t_log s)"

definition map_shrinks :: "tworld \<Rightarrow> bool" where
  "map_shrinks W \<longleftrightarrow> (\<forall>k sg. length (tw_map W k sg) \<le> length sg)"

lemma log_yields: "own_log W \<Longrightarrow> t_log ((yield (tw_env W) ^^ k) s) = t_log s"
  by (induction k) (simp_all add: own_log_def yield_def)

lemma log_on_chan [simp]: "t_log (on_chan f s) = t_log s"
  by (simp add: on_chan_def)

lemma log_terminate [simp]: "own_log W \<Longrightarrow> t_log (terminate_all W s) = t_log s"
  using log_yields [of W 1 s] by (simp add: terminate_all_def Let_def split: prod.split)

lemma log_finalize [simp]: "own_log W \<Longrightarrow> t_log (dw_edma_finalize_failed_transfer W err act s) = t_log s"
  by (simp add: dw_edma_finalize_failed_transfer_def split: fail_action.splits)

lemma log_flush [simp]: "own_log W \<Longrightarrow> t_log (flush_tasklet W s) = t_log s"
  using log_yields [of W 1 s] by (simp add: flush_tasklet_def Let_def)

lemma log_rewait: "own_log W \<Longrightarrow> dw_edma_rewait_done W epoch ms intr s = Some (rc, t) \<Longrightarrow> t_log t = t_log s"
  by (auto simp: dw_edma_rewait_done_def log_yields split: option.splits dest!: woken_sleep.ends)

lemma log_late:
  assumes "own_log W" "dw_edma_try_late_callback_recovery W cookie epoch s = Some (rc, t)"
  shows "t_log t = t_log s"
  using assms by (auto simp: dw_edma_try_late_callback_recovery_def Let_def split: option.splits if_splits dest!: log_rewait [OF assms(1)])

text \<open>What the middle of a transfer adds to the log: at most one report of a failed channel.\<close>

definition reports :: "thread_event list \<Rightarrow> xio \<Rightarrow> bool" where
  "reports l t \<longleftrightarrow> (\<exists>fs. t_log t = l @ map Channel_failed fs \<and> length fs \<le> 1)"

lemma reports_none: "t_log t = l \<Longrightarrow> reports l t"
  unfolding reports_def by (intro exI [of _ "[]"]) simp

lemma reports_one: "t_log t = l \<Longrightarrow> reports l (channel_failed t)"
  unfolding reports_def channel_failed_def log_event_def by (intro exI [of _ "[ch_id (x_base (t_chan t))]"]) simp

lemma reports_handle:
  assumes "own_log W" "dw_edma_handle_wait_timeout W cookie epoch s = Some (rc, t)"
  shows "reports (t_log s) t"
proof -
  have c: "if rc1 = 1 then u' = u else reports (t_log u) u'" if "dw_edma_recover_cs2_error W cs u = (rc1, u')" for cs u rc1 u'
    using that assms(1) by (auto simp: dw_edma_recover_cs2_error_def Let_def split: if_splits intro: reports_none reports_one)
  have g: "reports (t_log u) t" if "dw_edma_stuck_graceful_then_force W epoch u = Some (rc, t)" for u
    using that assms(1)
    by (auto simp: dw_edma_stuck_graceful_then_force_def split: option.splits if_splits dest!: log_rewait [OF assms(1)] intro!: reports_one) (auto intro!: reports_none)
  obtain rc1 s1 where 1: "dw_edma_try_late_callback_recovery W cookie epoch s = Some (rc1, s1)"
    using assms(2) by (auto simp: dw_edma_handle_wait_timeout_def split: option.splits)
  show ?thesis
  proof (cases "rc1 = 1")
    case True
    then obtain rc2 s2 where 2: "dw_edma_grace_rewait W epoch s1 = Some (rc2, s2)"
      using assms(2) 1 by (auto simp: dw_edma_handle_wait_timeout_def split: option.splits)
    have l: "t_log s2 = t_log s"
      using log_late [OF assms(1) 1] log_rewait [OF assms(1) 2 [unfolded dw_edma_grace_rewait_def]] by simp
    obtain rc3 s3 where 3: "dw_edma_recover_cs2_error W (t_cs s2) s2 = (rc3, s3)" by fastforce
    show ?thesis using assms(2) True 1 2 3 l c [OF 3] g [of s3]
      by (auto simp: dw_edma_handle_wait_timeout_def split: if_splits intro: reports_none)
  next
    case False
    then show ?thesis using assms(2) 1 log_late [OF assms(1) 1] by (auto simp: dw_edma_handle_wait_timeout_def intro: reports_none)
  qed
qed

text \<open>A transfer that comes to \<open>err_stats\<close> with what the middle has reported.\<close>

definition ends :: "tworld \<Rightarrow> io_cb \<Rightarrow> thread_event list \<Rightarrow> int \<times> xio \<Rightarrow> bool" where
  "ends W rq l p \<longleftrightarrow> (\<exists>b u. p = err_stats W rq b u \<and> reports l u)"

lemma endsI: "reports l u \<Longrightarrow> ends W rq l (err_stats W rq b u)"
  by (auto simp: ends_def)

lemma reports_log: "t_log u = t_log s \<Longrightarrow> reports l s \<Longrightarrow> reports l u"
  by (simp add: reports_def)

lemma checks_end: "own_log W \<Longrightarrow> reports l s \<Longrightarrow> ends W rq l (final_checks W rq cookie epoch failed s)"
  by (auto simp: final_checks_def intro!: endsI elim!: reports_log [rotated])

lemma after_wait_end:
  assumes "own_log W" "after_wait W rq cookie epoch ret s = Some p"
  shows "ends W rq (t_log s) p"
proof -
  have r: "reports (t_log s) u" if "t_log u = t_log s" for u using that by (rule reports_none)
  have d: "t_log u = t_log s" if "drain_loop W epoch n s = Some (b, u)" for n b u
    using drain_sleep.ends [OF that] log_yields [OF assms(1)] by auto
  have h: "reports (t_log s) (dw_edma_finalize_failed_transfer W rc act u)" "reports (t_log s) u"
    if "dw_edma_handle_wait_timeout W cookie epoch s = Some (rc', u)" for rc rc' act u
    using reports_handle [OF assms(1) that] by (auto intro: reports_log [rotated] simp: assms(1))
  show ?thesis
  proof (cases "t_epoch s = epoch \<and> \<not> hw_err s \<and> ret \<noteq> - ERESTARTSYS \<and> \<not> t_done s")
    case True
    then obtain rc u where u: "dw_edma_handle_wait_timeout W cookie epoch s = Some (rc, u)"
      using assms(2) by (auto simp: after_wait_def split: option.splits)
    then show ?thesis using assms True h [OF u] by (auto simp: after_wait_def split: if_splits intro!: checks_end)
  next
    case False
    then show ?thesis using assms d
      by (auto simp: after_wait_def split: if_splits option.splits bool.splits intro!: endsI checks_end r)
  qed
qed

lemma submit_end:
  assumes "own_log W" "submit_and_wait W rq epoch sg s = Some p"
  shows "ends W rq (t_log s) p"
proof -
  have w: "t_log u = t_log v" if "dw_edma_wait_done W epoch True v = Some (ret, u)" for u v ret
    using wait_sleep.ends [OF that] log_yields [OF assms(1)] by auto
  have q: "t_log u = t_log s" if "prep_descriptor W rq sg s = (x, u)" for x u
    using that by (auto simp: prep_descriptor_def Let_def split: prod.splits option.splits)
  show ?thesis using assms
    by (auto simp: submit_and_wait_def Let_def split: prod.splits option.splits if_splits intro!: endsI reports_none
        dest!: q w after_wait_end)
qed

text \<open>The end of the function, on either path.\<close>

definition cleaned :: "io_cb \<Rightarrow> thread_event list \<Rightarrow> xio \<Rightarrow> bool" where
  "cleaned rq l t \<longleftrightarrow> (\<exists>fs. t_log t = l @ map Channel_failed fs @
       (if cb_pre_mapped rq \<or> cb_sg rq = [] then [] else [Unmapped (length (cb_sg rq)) (cb_write rq)]) @ [Table_freed] \<and>
       length fs \<le> 1) \<and> \<not> t_in_use t \<and> \<not> t_wq t \<and> t_idle t"

lemma ends_cleaned:
  assumes "ends W rq l (r, t)"
  shows "cleaned rq l t"
proof -
  obtain b u fs where u: "(r, t) = err_stats W rq b u" "t_log u = l @ map Channel_failed fs" "length fs \<le> 1"
    using assms by (auto simp: ends_def reports_def)
  have t: "t = snd (err_stats W rq b u)" by (metis u(1) snd_conv)
  have "t_log t = t_log u @ (if cb_pre_mapped rq \<or> cb_sg rq = [] then [] else [Unmapped (length (cb_sg rq)) (cb_write rq)]) @ [Table_freed]"
    by (simp add: t err_stats_def err_alloc_descs_def log_event_def set_result_def Let_def)
  moreover have "\<not> t_in_use t" "\<not> t_wq t" "t_idle t" by (simp_all add: t err_stats_def err_alloc_descs_def Let_def)
  ultimately show ?thesis unfolding cleaned_def using u(2,3) by auto
qed

lemma cleaned_up:
  assumes "cleaned rq (t_log s @ (if cb_pre_mapped rq then [] else [Mapped (length (cb_sg rq)) (cb_write rq)])) t"
    and "cb_pre_mapped rq \<or> cb_sg rq \<noteq> []"
  shows "\<exists>fs ms us. t_log t = t_log s @ ms @ map Channel_failed fs @ us @ [Table_freed] \<and> length fs \<le> 1 \<and>
      (ms = [] \<and> us = [] \<or> (\<exists>n w. ms = [Mapped n w] \<and> us = [Unmapped n w]))"
proof -
  let ?ms = "if cb_pre_mapped rq then [] else [Mapped (length (cb_sg rq)) (cb_write rq)]"
  let ?us = "if cb_pre_mapped rq then [] else [Unmapped (length (cb_sg rq)) (cb_write rq)]"
  obtain fs where "t_log t = t_log s @ ?ms @ map Channel_failed fs @ ?us @ [Table_freed]" "length fs \<le> 1"
    using assms by (auto simp: cleaned_def)
  moreover have "?ms = [] \<and> ?us = [] \<or> (\<exists>n w. ?ms = [Mapped n w] \<and> ?us = [Unmapped n w])" by simp
  ultimately show ?thesis by blast
qed

lemma mapped_nonempty: "map_shrinks W \<Longrightarrow> tw_map W k sg \<noteq> [] \<Longrightarrow> sg \<noteq> []"
  by (metis map_shrinks_def le_zero_eq length_0_conv)

text \<open>
  (C22) Every transfer that returns has cleaned up: a list it mapped is unmapped, with the same number of entries and the
  same direction, after the last report and before the table is freed; the table is freed exactly once; the channel
  has an owner only if it had one before; the thread can take the next transfer and its wait queue is no longer
  published; and a failed channel is reported at most once.
\<close>

theorem transfer_cleans_up:
  assumes "own_log W" "map_shrinks W" "dw_edma_sg_process W rq s = Some (r, t)"
  shows "(t_in_use t \<longleftrightarrow> t_in_use s) \<and> \<not> t_wq t \<and> t_idle t \<and>
    (\<exists>fs ms us. t_log t = t_log s @ ms @ map Channel_failed fs @ us @ [Table_freed] \<and> length fs \<le> 1 \<and>
      (ms = [] \<and> us = [] \<or> (\<exists>n w. ms = [Mapped n w] \<and> us = [Unmapped n w])))"
  using assms(3)
proof (cases rule: sg_process_cases)
  case (busy u)
  have t: "t = snd (err_alloc_descs W False (set_result (- EBUSY) u))" by (metis busy(1) snd_conv)
  have "t_log t = t_log s @ [] @ map Channel_failed [] @ [] @ [Table_freed]" "t_in_use t = t_in_use u" "\<not> t_wq t" "t_idle t"
    using busy(2) by (simp_all add: t err_alloc_descs_def log_event_def set_result_def Let_def)
  then show ?thesis using busy(3) by (metis le0 list.size(3))
next
  case unmapped
  have t: "t = snd (err_alloc_descs W True (take_channel rq s))" by (metis unmapped(1) snd_conv)
  have "t_log t = t_log s @ [] @ map Channel_failed [] @ [] @ [Table_freed]" "\<not> t_in_use t" "\<not> t_wq t" "t_idle t"
    by (simp_all add: t err_alloc_descs_def log_event_def take_channel_def Let_def)
  then show ?thesis using unmapped(4) by (metis le0 list.size(3))
next
  case (dead u)
  have "ends W rq (t_log u) (r, t)" unfolding dead(1) by (rule endsI) (simp add: reports_none)
  note e = ends_cleaned [OF this]
  show ?thesis using cleaned_up [OF e [unfolded dead(2)]] e dead(3,4) mapped_nonempty [OF assms(2)] by (auto simp: cleaned_def)
next
  case (run sg u)
  note e = ends_cleaned [OF submit_end [OF assms(1) run(1)]]
  show ?thesis using cleaned_up [OF e [unfolded run(3)]] e run(4,5) mapped_nonempty [OF assms(2)] by (auto simp: cleaned_def)
qed

section \<open>A transfer\<close>

text \<open>A device that completes whatever is on the channel at the first scheduling point, and a request of two bytes.\<close>

definition example_device :: "nat \<Rightarrow> xio \<Rightarrow> xio" where
  "example_device k s = s\<lparr>jiffies := jiffies s + 1, t_done := True,
     t_chan := (t_chan s)\<lparr>x_vc := (x_vc (t_chan s))\<lparr>completed_cookie := chan_cookie (x_vc (t_chan s))\<rparr>\<rparr>\<rparr>"

definition example_tworld :: tworld where
  "example_tworld = \<lparr>tw_env = example_device, tw_hz = 250, tw_timeout = 5000, tw_signed = True, tw_map = (\<lambda>k sg. sg), tw_settle = id,
     tw_reset = (\<lambda>_. 0), tw_complete = (\<lambda>c done used. if c = done then DMA_COMPLETE else DMA_IN_PROGRESS), tw_prep = example_prep_env\<rparr>"

definition example_cb :: io_cb where
  "example_cb = \<lparr>cb_write = True, cb_npu_run = False, cb_ep_addr = 0x8000, cb_is_llm = False, cb_pre_mapped = False, cb_sg = [(0x1000, 2)]\<rparr>"

definition example_xio :: xio where
  "example_xio = \<lparr>bar = (\<lambda>_. 0), jiffies = 0xFFFFFFFFFFFFFFF0, tick = 0, sigpend = False, umem = (\<lambda>_. None), alloc_ok = True,
     t_chan = example_dchan\<lparr>x_mem := example_pools\<rparr>, t_src = 0, t_dst = 0, t_lie = False, t_done = False, t_idle = True, t_epoch = 0, t_live = True,
     t_isr = 0, t_replay = 0, t_seen = 0, t_cs = 3, t_in_use = False, t_wq = False, t_result = 0, t_log = []\<rparr>"

lemma example_tworld_ok:
  "clock_ok (tw_env example_tworld)" "sane_rate example_tworld" "progress_ends 0 example_tworld" "own_log example_tworld" "map_shrinks example_tworld"
  by (simp_all add: clock_ok_def sane_rate_def progress_ends_def own_log_def map_shrinks_def example_tworld_def example_device_def progress_def)

lemmas prep_eval = dw_edma_device_prep_slave_sg_def dw_edma_device_transfer_def example_edma_chan_def example_prep_env_def
  direction_ok_def dw_edma_alloc_desc_def dw_edma_alloc_desc_from_pool_def dw_edma_mem_init_def Let_def
  dw_edma_alloc_chunk_def dw_edma_alloc_chunk_for_chan_def kzalloc_def example_mem_def zero_desc_def zero_chunk_def
  dw_edma_alloc_burst_def dw_edma_alloc_burst_from_pool_def prep_bursts_def dw_edma_chan.defs edma_chan.defs
  prep_sg.simps last_chunk_def dw_edma_fill_sg_bursts_def set_last_chunk_def add_entry_def dw_edma_last_data_burst_def
  dw_edma_can_merge_sg_burst_def dw_edma_init_sg_burst_def grow_region_def

lemma example_prepared:
  "\<exists>D m c. dw_edma_device_prep_slave_sg example_prep_env
      (dw_edma_chan.extend (dw_edma_chan.truncate example_edma_chan) (edma_chan.fields True DMA_DIR_OTHER 0x1000 0x8000))
      [(0x1000, 2)] 1 DMA_MEM_TO_DEV example_pools = (Some D, m) \<and> chunk_list D = [c] \<and> burst c \<noteq> None \<and> burst_list c \<noteq> [] \<and> c_ref c \<noteq> None"
  by (simp add: prep_eval)


lemma example_wait:
  assumes "\<not> woken s" "\<not> sigpend s"
  shows "dw_edma_wait_done example_tworld epoch True s = Some (1, yield example_device s)"
proof -
  have w: "woken (yield example_device s)" by (simp add: woken_def yield_def example_device_def)
  have "wait_woken example_tworld True (jiffies s + 13) s = Some (1, yield example_device s)"
    using assms w by (subst wait_woken.simps, subst wait_woken.simps) (simp add: time_after_eq_def example_tworld_def)
  then show ?thesis using w
    by (subst dw_edma_wait_done_def, subst wait_loop.simps)
       (simp add: example_tworld_def at_least_one_def msecs_to_jiffies_def time_after_eq_def Let_def)
qed

lemma example_succeeds: "\<exists>t. dw_edma_sg_process example_tworld example_cb example_xio = Some (0, t)"
proof -
  define u where "u = configure example_cb [(0x1000, 2)] (log_event (Mapped 1 True) (take_channel example_cb example_xio))"
  obtain D m c where D: "dw_edma_device_prep_slave_sg example_prep_env
      (dw_edma_chan.extend (dw_edma_chan.truncate example_edma_chan) (edma_chan.fields True DMA_DIR_OTHER 0x1000 0x8000))
      [(0x1000, 2)] 1 DMA_MEM_TO_DEV example_pools = (Some D, m)" "chunk_list D = [c]" "burst c \<noteq> None" "burst_list c \<noteq> []" "c_ref c \<noteq> None"
    using example_prepared by blast
  note defs = example_xio_def example_dchan_def chan_init_def vchan_init_def dma_cookie_init_def
  have u: "t_epoch u = 0" "t_live u" "t_chan u = example_dchan\<lparr>x_mem := example_pools, x_conf := True, x_llm := False\<rparr>"
      "t_src u = 0x1000" "t_dst u = 0x8000" "t_result u = 0" "\<not> sigpend u" "t_done u = False"
    by (simp_all add: u_def configure_def log_event_def take_channel_def example_cb_def on_chan_def chan_device_config_def Let_def defs)
  have p: "prep_descriptor example_tworld example_cb [(0x1000, 2)] u = (Some D, u\<lparr>t_chan := (t_chan u)\<lparr>x_mem := m,
      x_desc := (x_desc (t_chan u))(d_ref D := D), x_vc := vchan_tx_prep (d_ref D) False (x_vc (t_chan u))\<rparr>\<rparr>)"
    using D(1) by (simp add: prep_descriptor_def u example_tworld_def example_cb_def Let_def defs)
  define s2 where "s2 = on_chan (\<lambda>c. c\<lparr>x_hw_err := False, x_aborted := False\<rparr>) ((u\<lparr>t_chan := (t_chan u)\<lparr>x_mem := m,
      x_desc := (x_desc (t_chan u))(d_ref D := D), x_vc := vchan_tx_prep (d_ref D) False (x_vc (t_chan u))\<rparr>\<rparr>)\<lparr>t_done := False\<rparr>)"
  define v where "v = on_chan dw_edma_device_issue_pending ((on_chan (\<lambda>c. c\<lparr>x_vc := snd (vchan_tx_submit (d_ref D) (x_vc (t_chan s2)))\<rparr>) s2)\<lparr>t_wq := True\<rparr>)"
  have k: "vchan_tx_submit (d_ref D) (x_vc (t_chan s2)) = (2, snd (vchan_tx_submit (d_ref D) (x_vc (t_chan s2))))"
    by (simp add: s2_def on_chan_def u vchan_tx_prep_def vchan_tx_submit_def dma_cookie_assign_def Let_def defs)
  have v: "\<not> woken v" "\<not> sigpend v" "t_epoch v = 0" "t_result v = 0" "\<not> hw_err v" "\<not> x_aborted (t_chan v)" "chan_cookie (x_vc (t_chan v)) = 2"
    using D(2-5) u by (simp_all add: v_def s2_def on_chan_def woken_def vchan_tx_prep_def vchan_tx_submit_def dma_cookie_assign_def unlink_def
        dw_edma_device_issue_pending_def dw_edma_start_transfer_def vchan_issue_pending_def vchan_next_desc_def Let_def defs del: not_None_eq)
  have "\<exists>t. submit_and_wait example_tworld example_cb 0 [(0x1000, 2)] u = Some (0, t)"
  proof -
    have "submit_and_wait example_tworld example_cb 0 [(0x1000, 2)] u = after_wait example_tworld example_cb 2 0 1 (yield example_device v)"
      unfolding submit_and_wait_def p prod.case option.case Let_def s2_def [symmetric]
      by (subst k) (simp add: v_def [symmetric] example_wait [OF v(1,2)])
    moreover have "fst (final_checks example_tworld example_cb 2 0 False (yield example_device v)) = 0"
      using v by (simp add: final_checks_def yield_def example_device_def tx_status_def dw_edma_device_tx_status_def dma_cookie_status_def
          example_tworld_def set_result_def Let_def)
    moreover have "after_wait example_tworld example_cb 2 0 1 (yield example_device v) = Some (final_checks example_tworld example_cb 2 0 False (yield example_device v))"
      using v by (simp add: after_wait_def yield_def example_device_def)
    ultimately show ?thesis by (metis prod.collapse)
  qed
  moreover have "dw_edma_sg_process example_tworld example_cb example_xio = submit_and_wait example_tworld example_cb 0 [(0x1000, 2)] u"
  proof -
    have "mapped_list example_tworld example_cb (take_channel example_cb example_xio) = [(0x1000, 2)]"
      by (simp add: mapped_list_def example_tworld_def example_cb_def)
    moreover have "\<not> cb_pre_mapped example_cb" "length (cb_sg example_cb) = 1" "cb_write example_cb" by (simp_all add: example_cb_def)
    moreover have "dw_edma_run_chan_lock (t_chan example_xio) \<noteq> None" "\<not> t_in_use example_xio"
      by (simp_all add: dw_edma_run_chan_lock_def defs example_edma_chan_def dw_edma_chan.defs)
    ultimately show ?thesis using u(1,2) by (simp add: dw_edma_sg_process_def Let_def u_def del: not_None_eq)
  qed
  ultimately show ?thesis by simp
qed


theorem transfer_success_sound_witness:
  "\<exists>t. dw_edma_sg_process example_tworld example_cb example_xio = Some (0, t) \<and> completed_ok example_tworld 2 0 t"
proof -
  obtain t where t: "dw_edma_sg_process example_tworld example_cb example_xio = Some (0, t)" using example_succeeds by blast
  have "fst (dma_cookie_assign (Desc 0) (x_vc (t_chan example_xio))) = 2" "t_epoch example_xio = 0" "tw_map example_tworld k sg = sg" "cb_sg example_cb \<noteq> []" for k sg
    by (simp_all add: dma_cookie_assign_def example_xio_def example_dchan_def chan_init_def vchan_init_def dma_cookie_init_def
        example_tworld_def example_cb_def Let_def)
  then show ?thesis using t transfer_success_sound [OF t, of "Desc 0"] by auto
qed

theorem transfer_cleans_up_witness:
  "\<exists>t. dw_edma_sg_process example_tworld example_cb example_xio = Some (0, t) \<and> \<not> t_in_use t \<and> t_idle t \<and> last (t_log t) = Table_freed"
proof -
  obtain t where t: "dw_edma_sg_process example_tworld example_cb example_xio = Some (0, t)" using example_succeeds by blast
  have "\<not> t_in_use example_xio" by (simp add: example_xio_def)
  then show ?thesis using t transfer_cleans_up [OF example_tworld_ok(4,5) t] by auto
qed

text \<open>A device that never answers.\<close>

theorem transfer_returns_witness:
  "\<exists>r t. dw_edma_sg_process (example_tworld\<lparr>tw_env := \<lambda>k s. s\<lparr>jiffies := jiffies s + 1\<rparr>\<rparr>) example_cb example_xio = Some (r, t)"
  by (rule transfer_returns [of _ 0])
     (simp_all add: clock_ok_def sane_rate_def progress_ends_def example_tworld_def progress_def)

section \<open>Where the thread does not do what it means to\<close>

text \<open>
  A list that cannot be mapped leaves the caller's zero in place, and the thread returns it: success, with
  nothing transferred.
\<close>

lemma map_failure_succeeds:
  assumes "\<not> t_in_use s" "ch_id (x_base (t_chan s)) < 8" "\<not> cb_pre_mapped rq" "tw_map W (tick s) (cb_sg rq) = []" "t_result s = 0"
  shows "\<exists>t. dw_edma_sg_process W rq s = Some (0, t) \<and> t_chan t = t_chan s"
  using assms by (simp add: dw_edma_sg_process_def dw_edma_run_chan_lock_def mapped_list_def take_channel_def err_alloc_descs_def
      log_event_def result_of_def Let_def)

text \<open>
  Where \<open>char\<close> is unsigned, an error comes back as a positive number, which the callers do not take for an error.
\<close>

lemma unsigned_char_hides_errors:
  "\<not> tw_signed W \<Longrightarrow> result_of W (set_result (- EIO) s) = 251 \<and> result_of W (set_result (- EBUSY) s) = 240"
  by (simp add: result_of_def)

text \<open>A channel of number four or above is refused, although a direction has up to eight.\<close>

lemma fifth_channel_refused: "dw_edma_dma_allocation request dev 4 slot = (- EINVAL, slot)"
  by (simp add: dw_edma_dma_allocation_def)

end
