(* ===== verification/Dx_EdmaReset.thy ===== *)
theory Dx_EdmaReset
  imports Dx_EdmaV0
begin

text \<open>
  Resetting the endpoint and bringing the engine back: the second half of \<^verbatim>\<open>pci_deepx/dw-edma-v0-core.c\<close>
  (message-signalled interrupts, inbound address translation, function and bus reset) and the two helpers of
  \<^verbatim>\<open>pci_deepx/dx_util.c\<close> that read and write the interrupt message in configuration space.  What the
  kernel's PCI layer says of the host, and what a read of configuration space returns at each moment, are
  parameters.  Every call that changes the endpoint is an event of the log.
\<close>

section \<open>The endpoint\<close>

record msi_msg =
  address_lo :: u32
  address_hi :: u32
  msi_data :: u32

text \<open>What configuration space holds at one moment.\<close>

record pci_cfg =
  has_msi :: bool
  msi_64bit :: bool
  cfg_lo :: u32
  cfg_hi :: u32
  cfg_data :: u16
  vendor :: u16
  bridge_ctrl :: u16

text \<open>
  The kernel's answers: the parent bridge is known by its flag \<open>NO_BUS_RESET\<close>; \<open>flr_result\<close> is what a function
  reset answers at a moment and \<open>iatu_ctl\<close> what the translation unit reads back.
\<close>

record pci_host =
  has_pdev :: bool
  is_pcie :: bool
  no_flr_flag :: bool
  devcap :: u32
  has_bus :: bool
  bridge :: "bool option"
  probe_reset_bus :: int
  allow_sbr :: int
  irq_vector :: int
  has_msi_desc :: bool
  cached_msi_msg :: msi_msg
  config :: "nat \<Rightarrow> pci_cfg"
  flr_result :: "nat \<Rightarrow> int"
  iatu_ctl :: "nat \<Rightarrow> u32"
  two_seconds :: u64
  desc_base_addr :: u64
  desc_bar_num :: u32
  user_bars :: "(u64 \<times> u32) list"

datatype pci_event = Flr | Bridge u16 | SaveState | RestoreState | SetMaster | WriteMsi msi_msg | IatuWr nat u32

record dx_iatu_inbound =
  iatu_mode :: u8
  base_addr :: u64
  tgt_addr :: u64
  inb_size :: u64
  inb_idx :: u32
  bar_no :: u8

text \<open>\<open>irq_msi\<close> are the messages of the vectors in use and \<open>chan_msi\<close> those of the channels.\<close>

record endpoint =
  engine :: edma_dev
  irq_msi :: "msi_msg list"
  chan_msi :: "chan_id \<Rightarrow> msi_msg"
  iatu_inb :: "dx_iatu_inbound list"
  plog :: "pci_event list"

type_synonym 'a pci = "(endpoint, 'a) state"

definition on_engine :: "'a edma \<Rightarrow> 'a pci" where
  "on_engine m = State (\<lambda>s. let (a, e) = run_state m (engine s) in (a, s\<lparr>engine := e\<rparr>))"

definition post :: "pci_event \<Rightarrow> unit pci" where
  "post e = State (\<lambda>s. ((), s\<lparr>plog := plog s @ [e]\<rparr>))"

text \<open>A read of something outside, after the rest of the machine has moved.\<close>

definition observe :: "edma_cfg \<Rightarrow> (nat \<Rightarrow> edma_vol \<Rightarrow> 'a) \<Rightarrow> 'a pci" where
  "observe W f = State (\<lambda>s.
     let e = engine s; v = c_env W (steps e) (vol e)
     in (f (steps e) v, s\<lparr>engine := e\<lparr>vol := v, steps := Suc (steps e)\<rparr>\<rparr>))"

definition get_reg :: "edma_cfg \<Rightarrow> nat \<Rightarrow> u32 pci" where
  "get_reg W a = observe W (\<lambda>_ v. readl (v_regs v) a)"

section \<open>The interrupt message\<close>

abbreviation (input) ENOTTY :: int where "ENOTTY \<equiv> 25"

definition dx_pcie_has_flr :: "pci_host \<Rightarrow> bool" where
  "dx_pcie_has_flr H \<longleftrightarrow> is_pcie H \<and> \<not> no_flr_flag H \<and> devcap H AND 0x10000000 \<noteq> 0"

definition dx_dma_msi_msg_valid :: "msi_msg \<Rightarrow> bool" where
  "dx_dma_msi_msg_valid m \<longleftrightarrow> address_lo m \<noteq> 0 \<or> address_hi m \<noteq> 0"

text \<open>The result and what the message variable holds afterwards.\<close>

definition dx_dma_get_kernel_cached_msi :: "pci_host \<Rightarrow> msi_msg \<Rightarrow> bool \<times> msi_msg" where
  "dx_dma_get_kernel_cached_msi H m =
     (if irq_vector H < 0 \<or> \<not> has_msi_desc H then (False, m)
      else (dx_dma_msi_msg_valid (cached_msi_msg H), cached_msi_msg H))"

text \<open>The data word is written through a 16-bit pointer, so its upper half keeps what it had.\<close>

definition dx_pci_read_msi_msg :: "edma_cfg \<Rightarrow> pci_host \<Rightarrow> msi_msg \<Rightarrow> (int \<times> msi_msg) pci" where
  "dx_pci_read_msi_msg W H m = do {
     c \<leftarrow> observe W (\<lambda>k _. config H k);
     State_Monad.return
       (if \<not> has_msi c then (- 1, m)
        else (0, m\<lparr>address_lo := cfg_lo c, address_hi := (if msi_64bit c then cfg_hi c else 0),
                   msi_data := (msi_data m AND 0xFFFF0000) OR ucast (cfg_data c)\<rparr>)) }"

definition dx_pci_write_msi_msg :: "edma_cfg \<Rightarrow> pci_host \<Rightarrow> msi_msg \<Rightarrow> int pci" where
  "dx_pci_write_msi_msg W H m = do {
     c \<leftarrow> observe W (\<lambda>k _. config H k);
     if \<not> has_msi c then State_Monad.return (- 1)
     else do { post (WriteMsi m); State_Monad.return 0 } }"

abbreviation (input) R_DONE_IMWR :: "dw_edma_dir \<Rightarrow> nat" where "R_DONE_IMWR dir \<equiv> rw dir 96 204"
abbreviation (input) R_ABORT_IMWR :: "dw_edma_dir \<Rightarrow> nat" where "R_ABORT_IMWR dir \<equiv> rw dir 104 212"

definition imwr_data :: "chan_id \<Rightarrow> nat" where
  "imwr_data c = rw (fst c) 112 220 + 4 * (snd c div 2)"

definition dw_edma_v0_core_device_config :: "edma_cfg \<Rightarrow> msi_msg \<Rightarrow> chan_id \<Rightarrow> unit edma" where
  "dw_edma_v0_core_device_config W m c = do {
     SET_32 (R_DONE_IMWR (fst c)) (address_lo m);
     SET_32 (R_DONE_IMWR (fst c) + 4) (address_hi m);
     SET_32 (R_ABORT_IMWR (fst c)) (address_lo m);
     SET_32 (R_ABORT_IMWR (fst c) + 4) (address_hi m);
     tmp \<leftarrow> (if snd c < 8 then GET_32 W (imwr_data c) else State_Monad.return 0);
     let tmp = (if odd (snd c) then (tmp AND 0xFFFF) OR (push_bit 16 (msi_data m) AND 0xFFFF0000)
                else (tmp AND 0xFFFF0000) OR (msi_data m AND 0xFFFF));
     (if snd c < 8 then SET_32 (imwr_data c) tmp else State_Monad.return ()) }"

section \<open>Inbound address translation\<close>

abbreviation (input) PCIE_ATU_ENABLE :: u32 where "PCIE_ATU_ENABLE \<equiv> 0x80000000"
abbreviation (input) PCIE_ATU_BAR_MODE_ENABLE :: u32 where "PCIE_ATU_BAR_MODE_ENABLE \<equiv> 0x40000000"
abbreviation (input) PCIE_ATU_DMA_BYPASS :: u32 where "PCIE_ATU_DMA_BYPASS \<equiv> 0x08000000"
abbreviation (input) IATU_BOUND_MAX :: u32 where "IATU_BOUND_MAX \<equiv> 4"
abbreviation (input) IATU_INB_MAX :: nat where "IATU_INB_MAX \<equiv> 4"
abbreviation (input) DW_PCIE_IATU_BAR_MATCH :: u8 where "DW_PCIE_IATU_BAR_MATCH \<equiv> 1"
abbreviation (input) DW_PCIE_IATU_ADDRESS_MATCH :: u8 where "DW_PCIE_IATU_ADDRESS_MATCH \<equiv> 2"

text \<open>The inbound half of a window follows the outbound half.\<close>

definition SET_IATU_IN32 :: "u32 \<Rightarrow> nat \<Rightarrow> u32 \<Rightarrow> unit pci" where
  "SET_IATU_IN32 idx r x = post (IatuWr (512 * unat idx + 256 + r) x)"

primrec iatu_wait :: "nat \<Rightarrow> edma_cfg \<Rightarrow> pci_host \<Rightarrow> unit pci" where
  "iatu_wait 0 W H = State_Monad.return ()"
| "iatu_wait (Suc n) W H = do {
     val \<leftarrow> observe W (\<lambda>k _. iatu_ctl H k);
     if val AND PCIE_ATU_ENABLE \<noteq> 0 then State_Monad.return ()
     else do { observe W (\<lambda>_ _. ()); iatu_wait n W H } }"

definition dx_iatu_inbound_address :: "edma_cfg \<Rightarrow> pci_host \<Rightarrow> u32 \<Rightarrow> u64 \<Rightarrow> u64 \<Rightarrow> u32 \<Rightarrow> unit pci" where
  "dx_iatu_inbound_address W H idx base tgt sz = do {
     SET_IATU_IN32 idx 0x08 (ucast base);
     SET_IATU_IN32 idx 0x0C (ucast (drop_bit 32 base));
     SET_IATU_IN32 idx 0x10 (ucast (base + ucast sz - 1));
     SET_IATU_IN32 idx 0x20 (ucast (drop_bit 32 (base + ucast sz - 1)));
     SET_IATU_IN32 idx 0x14 (ucast tgt);
     SET_IATU_IN32 idx 0x18 (ucast (drop_bit 32 tgt));
     SET_IATU_IN32 idx 0x04 (PCIE_ATU_ENABLE OR PCIE_ATU_DMA_BYPASS);
     iatu_wait 5 W H }"

definition dx_iatu_inbound_bar :: "edma_cfg \<Rightarrow> pci_host \<Rightarrow> u32 \<Rightarrow> u8 \<Rightarrow> u64 \<Rightarrow> unit pci" where
  "dx_iatu_inbound_bar W H idx bn tgt = do {
     SET_IATU_IN32 idx 0x14 (ucast tgt);
     SET_IATU_IN32 idx 0x18 (ucast (drop_bit 32 tgt));
     SET_IATU_IN32 idx 0x04 (PCIE_ATU_ENABLE OR PCIE_ATU_BAR_MODE_ENABLE OR push_bit 8 (ucast bn));
     iatu_wait 5 W H }"

definition dw_iatu_config_inbound ::
  "edma_cfg \<Rightarrow> pci_host \<Rightarrow> u8 \<Rightarrow> u64 \<Rightarrow> u64 \<Rightarrow> u32 \<Rightarrow> u32 \<Rightarrow> u8 \<Rightarrow> unit pci" where
  "dw_iatu_config_inbound W H mode base tgt sz idx bn =
     (if IATU_BOUND_MAX \<le> idx then State_Monad.return ()
      else if mode = DW_PCIE_IATU_BAR_MATCH then dx_iatu_inbound_bar W H idx bn tgt
      else if mode = DW_PCIE_IATU_ADDRESS_MATCH then dx_iatu_inbound_address W H idx base tgt sz
      else State_Monad.return ())"

definition dw_iatu_set_datas :: "nat \<Rightarrow> u8 \<Rightarrow> u64 \<Rightarrow> u64 \<Rightarrow> u64 \<Rightarrow> u32 \<Rightarrow> u8 \<Rightarrow> unit pci" where
  "dw_iatu_set_datas i mode base tgt sz idx bn = State (\<lambda>s. ((), s\<lparr>iatu_inb := (iatu_inb s)[i :=
     \<lparr>iatu_mode = mode, base_addr = base, tgt_addr = tgt, inb_size = sz, inb_idx = idx, bar_no = bn\<rparr>]\<rparr>))"

fun set_user_bars :: "nat \<Rightarrow> (u64 \<times> u32) list \<Rightarrow> unit pci" where
  "set_user_bars i [] = State_Monad.return ()"
| "set_user_bars i ((ep, num) # bs) = do {
     dw_iatu_set_datas (1 + i) DW_PCIE_IATU_BAR_MATCH 0 ep 0 (of_nat (1 + i)) (ucast num);
     set_user_bars (Suc i) bs }"

fun config_all :: "edma_cfg \<Rightarrow> pci_host \<Rightarrow> dx_iatu_inbound list \<Rightarrow> unit pci" where
  "config_all W H [] = State_Monad.return ()"
| "config_all W H (w # ws) = do {
     (if iatu_mode w \<noteq> 0
      then dw_iatu_config_inbound W H (iatu_mode w) (base_addr w) (tgt_addr w) (ucast (inb_size w)) (inb_idx w) (bar_no w)
      else State_Monad.return ());
     config_all W H ws }"

definition dw_iatu_default_config_set :: "edma_cfg \<Rightarrow> pci_host \<Rightarrow> unit pci" where
  "dw_iatu_default_config_set W H = do {
     dw_iatu_set_datas 0 DW_PCIE_IATU_BAR_MATCH 0 (desc_base_addr H) 0 0 (ucast (desc_bar_num H));
     set_user_bars 0 (user_bars H);
     s \<leftarrow> State_Monad.get;
     config_all W H (take IATU_INB_MAX (iatu_inb s)) }"

section \<open>Programming the engine anew\<close>

definition all_chans :: "edma_cfg \<Rightarrow> chan_id list" where
  "all_chans W = chans_of W EDMA_DIR_WRITE @ chans_of W EDMA_DIR_READ"

fun config_chans :: "edma_cfg \<Rightarrow> (chan_id \<Rightarrow> msi_msg) \<Rightarrow> chan_id list \<Rightarrow> unit edma" where
  "config_chans W ms [] = State_Monad.return ()"
| "config_chans W ms (c # cs) = do { dw_edma_v0_core_device_config W (ms c) c; config_chans W ms cs }"

definition enable_engines :: "edma_cfg \<Rightarrow> unit edma" where
  "enable_engines W = do {
     SET_32 (R_ENGINE_EN EDMA_DIR_WRITE) 1;
     look W (\<lambda>v. ());
     SET_32 (R_ENGINE_EN EDMA_DIR_READ) 1;
     look W (\<lambda>v. ());
     rd \<leftarrow> GET_32 W (R_ENGINE_EN EDMA_DIR_READ);
     if rd = 0 then do {
       SET_32 (R_ENGINE_EN EDMA_DIR_READ) 1;
       GET_32 W (R_ENGINE_EN EDMA_DIR_READ);
       State_Monad.return () }
     else State_Monad.return () }"

definition clear_flags :: "chan_id list \<Rightarrow> unit edma" where
  "clear_flags cs = change (\<lambda>v. v\<lparr>v_hw_err := (\<lambda>c. c \<notin> set cs \<and> v_hw_err v c),
     v_aborted := (\<lambda>c. c \<notin> set cs \<and> v_aborted v c), v_busy := (\<lambda>c. c \<notin> set cs \<and> v_busy v c)\<rparr>)"

definition edma_reprogram_hw :: "edma_cfg \<Rightarrow> pci_host \<Rightarrow> unit pci" where
  "edma_reprogram_hw W H = do {
     on_engine (do {
       SET_32 (R_INT_MASK EDMA_DIR_WRITE) (EDMA_V0_DONE_INT_MASK OR EDMA_V0_ABORT_INT_MASK);
       SET_32 (R_INT_MASK EDMA_DIR_READ) (EDMA_V0_DONE_INT_MASK OR EDMA_V0_ABORT_INT_MASK);
       SET_32 (R_INT_CLEAR EDMA_DIR_WRITE) (EDMA_V0_DONE_INT_MASK OR EDMA_V0_ABORT_INT_MASK);
       SET_32 (R_INT_CLEAR EDMA_DIR_READ) (EDMA_V0_DONE_INT_MASK OR EDMA_V0_ABORT_INT_MASK);
       set_pwr_en 1;
       enable_engines W });
     s \<leftarrow> State_Monad.get;
     on_engine (config_chans W (chan_msi s) (all_chans W));
     dw_iatu_default_config_set W H;
     on_engine (do {
       clear_flags (all_chans W);
       SET_32 (R_INT_MASK EDMA_DIR_WRITE) 0;
       SET_32 (R_INT_MASK EDMA_DIR_READ) 0 }) }"

section \<open>Restoring after a link recovery\<close>

text \<open>A \<^verbatim>\<open>do ... while\<close> poll: it ends with a good value or with the deadline; \<open>None\<close> when it does neither.\<close>

definition poll_round :: "edma_cfg \<Rightarrow> (nat \<Rightarrow> edma_vol \<Rightarrow> 'a) \<Rightarrow> ('a \<Rightarrow> bool) \<Rightarrow> u64 \<Rightarrow> ('a \<times> bool) pci" where
  "poll_round W f good timeout = do {
     x \<leftarrow> observe W f;
     if good x then State_Monad.return (x, True)
     else do {
       observe W (\<lambda>_ _. ());
       now \<leftarrow> observe W (\<lambda>_. v_jiffies);
       State_Monad.return (x, \<not> time_before now timeout) } }"

partial_function (option) poll_loop ::
  "edma_cfg \<Rightarrow> (nat \<Rightarrow> edma_vol \<Rightarrow> 'a) \<Rightarrow> ('a \<Rightarrow> bool) \<Rightarrow> u64 \<Rightarrow> endpoint \<Rightarrow> ('a \<times> endpoint) option" where
  "poll_loop W f good timeout s =
     (case run_state (poll_round W f good timeout) s of
        ((x, stop), s1) \<Rightarrow> if stop then Some (x, s1) else poll_loop W f good timeout s1)"

definition poll_for :: "edma_cfg \<Rightarrow> (nat \<Rightarrow> edma_vol \<Rightarrow> 'a) \<Rightarrow> ('a \<Rightarrow> bool) \<Rightarrow> u64 \<Rightarrow> 'a option pci" where
  "poll_for W f good span = do {
     start \<leftarrow> observe W (\<lambda>_. v_jiffies);
     State (\<lambda>s. case poll_loop W f good (start + span) s of Some (x, s1) \<Rightarrow> (Some x, s1) | None \<Rightarrow> (None, s)) }"

definition set_msi_caches :: "edma_cfg \<Rightarrow> msi_msg \<Rightarrow> unit pci" where
  "set_msi_caches W m = State (\<lambda>s. ((), s\<lparr>irq_msi := map (\<lambda>_. m) (irq_msi s),
     chan_msi := (\<lambda>c. if c \<in> set (all_chans W) then m else chan_msi s c)\<rparr>))"

text \<open>The check of the engines, with one more attempt to enable them.\<close>

definition verify_engines :: "edma_cfg \<Rightarrow> int pci" where
  "verify_engines W = do {
     wr \<leftarrow> get_reg W (R_ENGINE_EN EDMA_DIR_WRITE);
     rd \<leftarrow> get_reg W (R_ENGINE_EN EDMA_DIR_READ);
     if wr = - 1 \<or> rd = - 1 then State_Monad.return (- EIO)
     else if wr = 0 \<or> rd = 0 then do {
       observe W (\<lambda>_ _. ());
       on_engine (SET_32 (R_ENGINE_EN EDMA_DIR_WRITE) 1);
       observe W (\<lambda>_ _. ());
       on_engine (SET_32 (R_ENGINE_EN EDMA_DIR_READ) 1);
       observe W (\<lambda>_ _. ());
       wr \<leftarrow> get_reg W (R_ENGINE_EN EDMA_DIR_WRITE);
       rd \<leftarrow> get_reg W (R_ENGINE_EN EDMA_DIR_READ);
       State_Monad.return (if wr = - 1 \<or> rd = - 1 then - EIO else if wr = 0 \<or> rd = 0 then - EIO else 0) }
     else State_Monad.return 0 }"

definition restore_message :: "pci_host \<Rightarrow> msi_msg list \<Rightarrow> msi_msg" where
  "restore_message H irqs =
     (let (ok, m) = dx_dma_get_kernel_cached_msi H \<lparr>address_lo = 0, address_hi = 0, msi_data = 0\<rparr>
      in if ok then m else if irqs \<noteq> [] \<and> dx_dma_msi_msg_valid (hd irqs) then hd irqs else m)"

definition restore_engine :: "edma_cfg \<Rightarrow> pci_host \<Rightarrow> int pci" where
  "restore_engine W H = do {
     s \<leftarrow> State_Monad.get;
     let m = restore_message H (irq_msi s);
     if \<not> dx_dma_msi_msg_valid m then State_Monad.return (- EIO)
     else do {
       dx_pci_write_msi_msg W H m;
       set_msi_caches W m;
       edma_reprogram_hw W H;
       ret \<leftarrow> verify_engines W;
       if ret \<noteq> 0 then State_Monad.return ret
       else do {
         dx_pci_read_msi_msg W H \<lparr>address_lo = 0, address_hi = 0, msi_data = 0\<rparr>;
         post SaveState;
         State_Monad.return 0 } } }"

definition dw_edma_v0_core_edma_restore :: "edma_cfg \<Rightarrow> pci_host \<Rightarrow> int option pci" where
  "dw_edma_v0_core_edma_restore W H =
     (if \<not> has_pdev H then State_Monad.return (Some (- EIO))
      else do {
        post RestoreState;
        post SetMaster;
        test_val \<leftarrow> poll_for W (\<lambda>_ v. readl (v_regs v) (R_ENGINE_EN EDMA_DIR_WRITE)) (\<lambda>x. x \<noteq> - 1) (two_seconds H);
        case test_val of
          None \<Rightarrow> State_Monad.return None
        | Some x \<Rightarrow>
            if x = - 1 then State_Monad.return (Some (- EIO))
            else do { ret \<leftarrow> restore_engine W H; State_Monad.return (Some ret) } })"

section \<open>Resetting the endpoint\<close>

definition dx_edma_host_supports_sbr :: "pci_host \<Rightarrow> bool" where
  "dx_edma_host_supports_sbr H \<longleftrightarrow>
     (if \<not> has_pdev H \<or> \<not> has_bus H then False
      else case bridge H of
             None \<Rightarrow> False
           | Some no_bus_reset \<Rightarrow> if no_bus_reset then False else if probe_reset_bus H \<noteq> 0 then False else True)"

definition dx_edma_sbr_viable :: "pci_host \<Rightarrow> bool" where
  "dx_edma_sbr_viable H \<longleftrightarrow> (if allow_sbr H = 0 then False else dx_edma_host_supports_sbr H)"

definition dx_edma_select_reset_method :: "pci_host \<Rightarrow> int + bool" where
  "dx_edma_select_reset_method H =
     (if dx_pcie_has_flr H then Inr False else if dx_edma_sbr_viable H then Inr True else Inl (- ENOTTY))"

definition dx_edma_save_msi_before_reset :: "edma_cfg \<Rightarrow> pci_host \<Rightarrow> msi_msg \<Rightarrow> msi_msg pci" where
  "dx_edma_save_msi_before_reset W H msi = do {
     (r, m) \<leftarrow> dx_pci_read_msi_msg W H msi;
     s \<leftarrow> State_Monad.get;
     State_Monad.return (if r \<noteq> 0 \<and> irq_msi s \<noteq> [] then hd (irq_msi s) else m) }"

abbreviation (input) PCI_BRIDGE_CTL_BUS_RESET :: u16 where "PCI_BRIDGE_CTL_BUS_RESET \<equiv> 0x40"

definition toggle_bus_reset :: "edma_cfg \<Rightarrow> pci_host \<Rightarrow> unit pci" where
  "toggle_bus_reset W H = do {
     ctl \<leftarrow> observe W (\<lambda>k _. bridge_ctrl (config H k));
     post (Bridge (ctl OR PCI_BRIDGE_CTL_BUS_RESET));
     observe W (\<lambda>_ _. ());
     post (Bridge (ctl AND NOT PCI_BRIDGE_CTL_BUS_RESET));
     observe W (\<lambda>_ _. ()) }"

definition vendor_alive :: "u16 \<Rightarrow> bool" where
  "vendor_alive vid \<longleftrightarrow> vid \<noteq> 0xFFFF \<and> vid \<noteq> 0"

definition dx_edma_do_sbr :: "edma_cfg \<Rightarrow> pci_host \<Rightarrow> unit option pci" where
  "dx_edma_do_sbr W H = do {
     toggle_bus_reset W H;
     vid \<leftarrow> poll_for W (\<lambda>k _. vendor (config H k)) vendor_alive (two_seconds H);
     State_Monad.return (map_option (\<lambda>_. ()) vid) }"

definition choose_message :: "pci_host \<Rightarrow> msi_msg list \<Rightarrow> msi_msg \<Rightarrow> msi_msg" where
  "choose_message H irqs msi =
     (if dx_dma_msi_msg_valid msi then msi
      else
        let (ok, kernel_msi) = dx_dma_get_kernel_cached_msi H \<lparr>address_lo = 0, address_hi = 0, msi_data = 0\<rparr>;
            m = (if ok then kernel_msi else msi)
        in if \<not> dx_dma_msi_msg_valid m \<and> irqs \<noteq> [] \<and> dx_dma_msi_msg_valid (hd irqs) then hd irqs else m)"

definition dx_edma_restore_msi_after_reset :: "edma_cfg \<Rightarrow> pci_host \<Rightarrow> msi_msg \<Rightarrow> (int \<times> msi_msg) pci" where
  "dx_edma_restore_msi_after_reset W H msi = do {
     s \<leftarrow> State_Monad.get;
     let m = choose_message H (irq_msi s) msi;
     if \<not> dx_dma_msi_msg_valid m then State_Monad.return (- EIO, m)
     else do { dx_pci_write_msi_msg W H m; set_msi_caches W m; State_Monad.return (0, m) } }"

definition dx_edma_pcie_reset_diag :: "edma_cfg \<Rightarrow> pci_host \<Rightarrow> unit pci" where
  "dx_edma_pcie_reset_diag W H = do {
     get_reg W (rw EDMA_DIR_WRITE 112 220);
     get_reg W (rw EDMA_DIR_READ 112 220);
     dx_pci_read_msi_msg W H \<lparr>address_lo = 0, address_hi = 0, msi_data = 0\<rparr>;
     get_reg W (R_ENGINE_EN EDMA_DIR_WRITE);
     get_reg W (R_ENGINE_EN EDMA_DIR_READ);
     get_reg W (R_INT_MASK EDMA_DIR_WRITE);
     get_reg W (R_INT_MASK EDMA_DIR_READ);
     State_Monad.return () }"

fun stuck_loop :: "edma_cfg \<Rightarrow> chan_id list \<Rightarrow> bool edma" where
  "stuck_loop W [] = State_Monad.return False"
| "stuck_loop W (c # cs) = do {
     st \<leftarrow> dw_edma_v0_core_ch_status_raw W c;
     if st = 1 \<or> st = 2 then State_Monad.return True else stuck_loop W cs }"

definition dx_edma_flr_channels_stuck :: "edma_cfg \<Rightarrow> bool pci" where
  "dx_edma_flr_channels_stuck W = on_engine (stuck_loop W (all_chans W))"

text \<open>What follows a reset of either kind.\<close>

definition after_reset :: "edma_cfg \<Rightarrow> pci_host \<Rightarrow> msi_msg \<Rightarrow> (int \<times> msi_msg) pci" where
  "after_reset W H msi = do {
     post RestoreState;
     post SetMaster;
     (ret, m) \<leftarrow> dx_edma_restore_msi_after_reset W H msi;
     if ret \<noteq> 0 then State_Monad.return (ret, m)
     else do {
       edma_reprogram_hw W H;
       dx_edma_pcie_reset_diag W H;
       post SaveState;
       State_Monad.return (0, m) } }"

text \<open>The two sides of the label \<^verbatim>\<open>reset_again\<close>: once the bus reset is chosen it stays chosen.\<close>

definition reset_by_sbr :: "edma_cfg \<Rightarrow> pci_host \<Rightarrow> msi_msg \<Rightarrow> int option pci" where
  "reset_by_sbr W H msi = do {
     r \<leftarrow> dx_edma_do_sbr W H;
     case r of
       None \<Rightarrow> State_Monad.return None
     | Some u \<Rightarrow> do { (ret, m) \<leftarrow> after_reset W H msi; State_Monad.return (Some ret) } }"

definition reset_by_flr :: "edma_cfg \<Rightarrow> pci_host \<Rightarrow> msi_msg \<Rightarrow> int option pci" where
  "reset_by_flr W H msi = do {
     post Flr;
     flr_ret \<leftarrow> observe W (\<lambda>k _. flr_result H k);
     if flr_ret \<noteq> 0 then
       if dx_edma_sbr_viable H then reset_by_sbr W H msi
       else do { post RestoreState; State_Monad.return (Some flr_ret) }
     else do {
       (ret, m) \<leftarrow> after_reset W H msi;
       if ret \<noteq> 0 then State_Monad.return (Some ret)
       else do {
         stuck \<leftarrow> dx_edma_flr_channels_stuck W;
         if stuck then
           if dx_edma_sbr_viable H then reset_by_sbr W H m
           else State_Monad.return (Some (- EIO))
         else State_Monad.return (Some 0) } } }"

definition dw_edma_v0_core_pcie_reset :: "edma_cfg \<Rightarrow> pci_host \<Rightarrow> int option pci" where
  "dw_edma_v0_core_pcie_reset W H =
     (if \<not> has_pdev H then State_Monad.return (Some (- EIO))
      else case dx_edma_select_reset_method H of
             Inl e \<Rightarrow> State_Monad.return (Some e)
           | Inr use_sbr \<Rightarrow> do {
               msi \<leftarrow> dx_edma_save_msi_before_reset W H \<lparr>address_lo = 0, address_hi = 0, msi_data = 0\<rparr>;
               post SaveState;
               if use_sbr then reset_by_sbr W H msi else reset_by_flr W H msi })"

section \<open>What a routine leaves behind\<close>

text \<open>A routine that leaves the interrupt messages alone and logs only events of one kind.\<close>

definition leaves :: "(pci_event \<Rightarrow> bool) \<Rightarrow> endpoint \<Rightarrow> endpoint \<Rightarrow> bool" where
  "leaves P s t \<longleftrightarrow> chan_msi t = chan_msi s \<and> irq_msi t = irq_msi s \<and> (\<exists>ps. plog t = plog s @ ps \<and> list_all P ps)"

definition logs :: "(pci_event \<Rightarrow> bool) \<Rightarrow> 'a pci \<Rightarrow> bool" where
  "logs P m \<longleftrightarrow> (\<forall>s. leaves P s (snd (run_state m s)))"

named_theorems logs_intros

lemma leaves_refl: "leaves P s s"
  by (simp add: leaves_def)

lemma leaves_trans: "leaves P s t \<Longrightarrow> leaves P t u \<Longrightarrow> leaves P s u"
  by (force simp: leaves_def)

lemma logs_return [logs_intros]: "logs P (State_Monad.return x)"
  by (simp add: logs_def leaves_refl)

lemma logs_bind [logs_intros]:
  assumes "logs P m" "\<And>a. logs P (f a)"
  shows "logs P (State_Monad.bind m f)"
  using assms unfolding logs_def by (simp add: split: prod.split) (metis leaves_trans snd_conv)

lemma logs_if [logs_intros]: "(b \<Longrightarrow> logs P m) \<Longrightarrow> (\<not> b \<Longrightarrow> logs P n) \<Longrightarrow> logs P (if b then m else n)"
  by simp

lemma logs_observe [logs_intros]: "logs P (observe W f)"
  by (simp add: logs_def leaves_def observe_def Let_def)

lemma logs_get [logs_intros]: "logs P State_Monad.get"
  by (simp add: logs_def leaves_refl State_Monad.get_def)

lemma logs_engine [logs_intros]: "logs P (on_engine m)"
  by (simp add: logs_def leaves_def on_engine_def split: prod.split)

lemma logs_post [logs_intros]: "P e \<Longrightarrow> logs P (post e)"
  by (simp add: logs_def leaves_def post_def)

lemma logs_reads [logs_intros]: "logs P (get_reg W a)" "logs P (dx_pci_read_msi_msg W H m)"
  unfolding get_reg_def dx_pci_read_msi_msg_def by (intro logs_intros)+

fun is_iatu :: "pci_event \<Rightarrow> bool" where
  "is_iatu (IatuWr a x) = True"
| "is_iatu e = False"

lemma logs_iatu [logs_intros]: "logs is_iatu (SET_IATU_IN32 idx r x)"
  unfolding SET_IATU_IN32_def by (intro logs_intros) simp

lemma logs_iatu_wait [logs_intros]: "logs P (iatu_wait n W H)"
proof (induction n)
  case (Suc n)
  show ?case unfolding iatu_wait.simps by (intro logs_intros Suc.IH)
qed (simp add: logs_intros)

lemma logs_iatu_config [logs_intros]: "logs is_iatu (dw_iatu_config_inbound W H mode base tgt sz idx bn)"
  unfolding dw_iatu_config_inbound_def dx_iatu_inbound_bar_def dx_iatu_inbound_address_def by (intro logs_intros)

lemma logs_set_datas [logs_intros]: "logs P (dw_iatu_set_datas i mode base tgt sz idx bn)"
  by (simp add: logs_def leaves_def dw_iatu_set_datas_def)

lemma logs_user_bars [logs_intros]: "logs P (set_user_bars i bs)"
  by (induction i bs rule: set_user_bars.induct) (simp_all add: logs_intros)

lemma logs_config_all [logs_intros]: "logs is_iatu (config_all W H ws)"
  by (induction W H ws rule: config_all.induct) (auto intro!: logs_intros)

lemma logs_reprogram [logs_intros]: "logs is_iatu (edma_reprogram_hw W H)"
  unfolding edma_reprogram_hw_def dw_iatu_default_config_set_def by (intro logs_intros)

lemma logs_diag [logs_intros]: "logs P (dx_edma_pcie_reset_diag W H)"
  unfolding dx_edma_pcie_reset_diag_def by (intro logs_intros)

lemma logs_stuck [logs_intros]: "logs P (dx_edma_flr_channels_stuck W)"
  unfolding dx_edma_flr_channels_stuck_def by (intro logs_intros)

lemma logs_verify [logs_intros]: "logs P (verify_engines W)"
  unfolding verify_engines_def by (intro logs_intros)

lemma logs_poll_round: "logs P (poll_round W f good timeout)"
  unfolding poll_round_def by (intro logs_intros)

lemma poll_loop_leaves:
  assumes "poll_loop W f good timeout s = Some p"
  shows "leaves P s (snd p)"
proof (rule poll_loop.raw_induct [where P = "\<lambda>W f good timeout s p. leaves P s (snd p)", OF _ assms])
  fix loop and W and f :: "nat \<Rightarrow> edma_vol \<Rightarrow> 'a" and good timeout s p
  assume ih: "\<And>W f good timeout s p. loop W f good timeout s = Some p \<Longrightarrow> leaves P s (snd p)"
    and r: "(case run_state (poll_round W f good timeout) s of
        ((x, stop), s1) \<Rightarrow> if stop then Some (x, s1) else loop W f good timeout s1) = Some p"
  obtain x stop s1 where b: "run_state (poll_round W f good timeout) s = ((x, stop), s1)" by (metis surj_pair)
  then have "leaves P s s1" using logs_poll_round unfolding logs_def by (metis snd_conv)
  then show "leaves P s (snd p)" using r b ih leaves_trans by (cases stop) auto
qed

lemma logs_poll_for [logs_intros]: "logs P (poll_for W f good span)"
proof -
  have "logs P (State (\<lambda>s. case poll_loop W f good T s of Some (x, s1) \<Rightarrow> (Some x, s1) | None \<Rightarrow> (None, s)))" for T
    using poll_loop_leaves [of W f good T] by (fastforce simp: logs_def leaves_refl split: option.split)
  then show ?thesis unfolding poll_for_def by (intro logs_intros)
qed

text \<open>The poll ends when the clock runs.\<close>

definition poll_step :: "edma_cfg \<Rightarrow> (nat \<Rightarrow> edma_vol \<Rightarrow> 'a) \<Rightarrow> ('a \<Rightarrow> bool) \<Rightarrow> u64 \<Rightarrow> endpoint \<Rightarrow> endpoint" where
  "poll_step W f good timeout s = snd (run_state (poll_round W f good timeout) s)"

definition poll_verdict ::
  "edma_cfg \<Rightarrow> (nat \<Rightarrow> edma_vol \<Rightarrow> 'a) \<Rightarrow> ('a \<Rightarrow> bool) \<Rightarrow> u64 \<Rightarrow> endpoint \<Rightarrow> ('a \<times> endpoint) option" where
  "poll_verdict W f good timeout s =
     (case run_state (poll_round W f good timeout) s of ((x, stop), s1) \<Rightarrow> if stop then Some (x, s1) else None)"

definition poll_clock :: "edma_cfg \<Rightarrow> (nat \<Rightarrow> edma_vol \<Rightarrow> 'a) \<Rightarrow> ('a \<Rightarrow> bool) \<Rightarrow> u64 \<Rightarrow> endpoint \<Rightarrow> u64" where
  "poll_clock W f good timeout s = v_jiffies (vol (engine (poll_step W f good timeout s)))"

interpretation poll_wait: deadline_loop "poll_loop W f good timeout" "poll_step W f good timeout"
    "poll_verdict W f good timeout" "poll_clock W f good timeout" timeout
  for W and f :: "nat \<Rightarrow> edma_vol \<Rightarrow> 'a" and good timeout
proof
  show "poll_loop W f good timeout s = (case poll_verdict W f good timeout s of
      None \<Rightarrow> poll_loop W f good timeout (poll_step W f good timeout s) | Some r \<Rightarrow> Some r)" for s
    by (subst poll_loop.simps) (auto simp: poll_verdict_def poll_step_def split: prod.split)
next
  show "poll_verdict W f good timeout s \<noteq> None" if "time_after_eq (poll_clock W f good timeout s) timeout" for s
    using that
    by (auto simp: poll_clock_def poll_step_def poll_verdict_def poll_round_def observe_def Let_def
        time_before_def time_after_def time_after_eq_def split: if_splits)
qed

definition clock_of :: "endpoint \<Rightarrow> u64" where
  "clock_of s = v_jiffies (vol (engine s))"

lemma poll_step_clock:
  assumes "clock_runs W"
  shows "\<exists>d. 1 \<le> d \<and> d \<le> 3 * 65535 \<and> clock_of (poll_step W f good timeout s) = clock_of s + of_nat d"
proof -
  let ?e = "engine s"
  let ?v1 = "c_env W (steps ?e) (vol ?e)"
  let ?v2 = "c_env W (Suc (steps ?e)) ?v1"
  obtain d1 where d1: "1 \<le> d1" "d1 \<le> 65535" "v_jiffies ?v1 = v_jiffies (vol ?e) + of_nat d1"
    using clock_runs_step [OF assms] by blast
  obtain d2 where d2: "d2 \<le> 65535" "v_jiffies ?v2 = v_jiffies ?v1 + of_nat d2"
    using clock_runs_step [OF assms] by blast
  obtain d3 where d3: "d3 \<le> 65535" "v_jiffies (c_env W (Suc (Suc (steps ?e))) ?v2) = v_jiffies ?v2 + of_nat d3"
    using clock_runs_step [OF assms] by blast
  show ?thesis
  proof (cases "good (f (steps ?e) ?v1)")
    case True
    then show ?thesis using d1
      by (intro exI [of _ d1]) (simp add: clock_of_def poll_step_def poll_round_def observe_def Let_def)
  next
    case False
    then show ?thesis using d1 d2 d3
      by (intro exI [of _ "d1 + d2 + d3"]) (simp add: clock_of_def poll_step_def poll_round_def observe_def Let_def add.assoc)
  qed
qed

lemma poll_clock_moves:
  assumes "clock_runs W"
  shows "1 \<le> uint (poll_clock W f good timeout (poll_step W f good timeout s) - poll_clock W f good timeout s) \<and>
    uint (poll_clock W f good timeout (poll_step W f good timeout s) - poll_clock W f good timeout s) < 2 ^ 32"
proof -
  obtain d where d: "1 \<le> d" "d \<le> 3 * 65535"
      "clock_of (poll_step W f good timeout (poll_step W f good timeout s)) = clock_of (poll_step W f good timeout s) + of_nat d"
    using poll_step_clock [OF assms] by blast
  have eq: "poll_clock W f good timeout (poll_step W f good timeout s) - poll_clock W f good timeout s = of_nat d"
    using d(3) by (simp add: poll_clock_def clock_of_def)
  have "d < 2 ^ LENGTH(64)" using d(2) by simp
  then have "unat (of_nat d :: u64) = d" by (simp only: unat_of_nat mod_less)
  then have "uint (of_nat d :: u64) = int d" unfolding uint_nat by (rule arg_cong)
  then show ?thesis unfolding eq using d(1,2) by simp
qed

lemma poll_for_returns:
  assumes "clock_runs W"
  shows "\<exists>x. fst (run_state (poll_for W f good span) s) = Some x"
proof -
  have "\<exists>p. poll_loop W f good T s = Some p" for T s
    using poll_wait.terminates [where W = W and f = f and good = good and timeout = T and s = s] poll_clock_moves [OF assms] by blast
  then show ?thesis
    unfolding poll_for_def by (auto split: prod.splits option.splits) (metis option.distinct(1))
qed

section \<open>The life of the saved state and of the interrupt message\<close>

text \<open>
  The kernel's copy of configuration space: saving makes it, restoring consumes it.
  A reset is an event of the function or of the bridge.
\<close>

fun state_saved :: "bool \<Rightarrow> pci_event list \<Rightarrow> bool" where
  "state_saved b [] = b"
| "state_saved b (SaveState # es) = state_saved True es"
| "state_saved b (RestoreState # es) = state_saved False es"
| "state_saved b (e # es) = state_saved b es"

fun is_reset :: "pci_event \<Rightarrow> bool" where
  "is_reset Flr = True"
| "is_reset (Bridge x) = True"
| "is_reset e = False"

definition resets :: "pci_event list \<Rightarrow> pci_event list" where
  "resets es = filter is_reset es"

definition messages_ok :: "pci_event list \<Rightarrow> bool" where
  "messages_ok es \<longleftrightarrow> (\<forall>m. WriteMsi m \<in> set es \<longrightarrow> dx_dma_msi_msg_valid m)"

definition carries :: "edma_cfg \<Rightarrow> msi_msg \<Rightarrow> endpoint \<Rightarrow> bool" where
  "carries W m t \<longleftrightarrow> (\<forall>c \<in> set (all_chans W). chan_msi t c = m) \<and> (\<forall>x \<in> set (irq_msi t). x = m)"

lemma state_saved_append [simp]: "state_saved b (es @ fs) = state_saved (state_saved b es) fs"
  by (induction b es rule: state_saved.induct) simp_all

lemma resets_simps [simp]:
  "resets [] = []" "resets (e # es) = (if is_reset e then e # resets es else resets es)" "resets (es @ fs) = resets es @ resets fs"
  by (simp_all add: resets_def)

lemma messages_simps [simp]:
  "messages_ok []" "messages_ok (es @ fs) \<longleftrightarrow> messages_ok es \<and> messages_ok fs"
  "messages_ok (e # es) \<longleftrightarrow> (\<forall>m. e = WriteMsi m \<longrightarrow> dx_dma_msi_msg_valid m) \<and> messages_ok es"
  by (auto simp: messages_ok_def)

lemma iatu_only [simp]:
  assumes "list_all is_iatu es"
  shows "state_saved b es = b" "resets es = []" "messages_ok es"
proof -
  have "e = IatuWr a x \<Longrightarrow> state_saved b (e # fs) = state_saved b fs" for e a x fs by simp
  then show "state_saved b es = b" using assms
    by (induction es) (auto elim!: is_iatu.elims)
  show "resets es = []" using assms unfolding resets_def by (induction es) (auto elim!: is_iatu.elims)
  show "messages_ok es" using assms by (induction es) (auto elim!: is_iatu.elims)
qed

lemma logs_run:
  assumes "logs P m" "run_state m s = (a, t)"
  obtains ps where "plog t = plog s @ ps" "list_all P ps" "chan_msi t = chan_msi s" "irq_msi t = irq_msi s"
  using assms unfolding logs_def leaves_def by (metis snd_conv)

abbreviation (input) silent :: "pci_event \<Rightarrow> bool" where "silent \<equiv> (\<lambda>_. False)"

lemma silent_run:
  assumes "logs silent m" "run_state m s = (a, t)"
  shows "plog t = plog s" "chan_msi t = chan_msi s" "irq_msi t = irq_msi s"
  using assms by (auto elim!: logs_run simp: list_all_iff)

lemma run_bind:
  assumes "run_state (State_Monad.bind m f) s = (b, u)"
  obtains a t where "run_state m s = (a, t)" "run_state (f a) t = (b, u)"
  using assms by (cases "run_state m s") simp

lemma post_run [simp]: "run_state (post e) s = ((), s\<lparr>plog := plog s @ [e]\<rparr>)"
  by (simp add: post_def)

lemma caches_carry: "run_state (set_msi_caches W m) s = (u, t) \<Longrightarrow> carries W m t \<and> plog t = plog s"
  by (auto simp: set_msi_caches_def carries_def)

lemma write_msi_run:
  assumes "run_state (dx_pci_write_msi_msg W H m) s = (r, t)"
  shows "\<exists>ps. plog t = plog s @ ps \<and> (ps = [] \<or> ps = [WriteMsi m])"
  using assms by (auto simp: dx_pci_write_msi_msg_def observe_def Let_def split: if_splits)

lemma restore_msi_run:
  assumes "run_state (dx_edma_restore_msi_after_reset W H msi) s = ((ret, m), t)"
  shows "\<exists>ps. plog t = plog s @ ps \<and> messages_ok ps \<and> resets ps = [] \<and> state_saved b ps = b \<and>
    (ret = 0 \<and> dx_dma_msi_msg_valid m \<and> carries W m t \<or> ret = - EIO)"
proof (cases "dx_dma_msi_msg_valid (choose_message H (irq_msi s) msi)")
  case True
  let ?m = "choose_message H (irq_msi s) msi"
  obtain r s1 where w: "run_state (dx_pci_write_msi_msg W H ?m) s = (r, s1)" by fastforce
  obtain u where c: "run_state (set_msi_caches W ?m) s1 = (u, t)" and "ret = 0" "m = ?m"
    using assms True w by (auto simp: dx_edma_restore_msi_after_reset_def State_Monad.get_def Let_def split: prod.splits)
  moreover obtain ps where "plog s1 = plog s @ ps" "ps = [] \<or> ps = [WriteMsi ?m]" using write_msi_run [OF w] by blast
  ultimately show ?thesis using True caches_carry [OF c] by (intro exI [of _ ps]) auto
qed (use assms in \<open>auto simp: dx_edma_restore_msi_after_reset_def State_Monad.get_def Let_def\<close>)

lemma after_reset_run:
  assumes "run_state (after_reset W H msi) s = ((ret, m), t)"
  shows "\<exists>ps. plog t = plog s @ ps \<and> messages_ok ps \<and> resets ps = [] \<and>
    (if ret = 0 then state_saved b ps \<and> dx_dma_msi_msg_valid m \<and> carries W m t else ret = - EIO \<and> \<not> state_saved b ps)"
proof -
  let ?s = "s\<lparr>plog := plog s @ [RestoreState, SetMaster]\<rparr>"
  obtain r m1 s1 where r: "run_state (dx_edma_restore_msi_after_reset W H msi) ?s = ((r, m1), s1)" by (metis surj_pair)
  obtain ps where ps: "plog s1 = plog s @ [RestoreState, SetMaster] @ ps" "messages_ok ps" "resets ps = []"
      "state_saved False ps = False" "r = 0 \<and> dx_dma_msi_msg_valid m1 \<and> carries W m1 s1 \<or> r = - EIO"
    using restore_msi_run [OF r] by auto
  show ?thesis
  proof (cases "r = 0")
    case True
    obtain u s2 where p: "run_state (edma_reprogram_hw W H) s1 = (u, s2)" by (metis surj_pair)
    obtain u' s3 where d: "run_state (dx_edma_pcie_reset_diag W H) s2 = (u', s3)" by (metis surj_pair)
    have t: "ret = 0" "m = m1" "t = s3\<lparr>plog := plog s3 @ [SaveState]\<rparr>"
      using assms r True p d by (auto simp: after_reset_def)
    obtain qs where qs: "plog s2 = plog s1 @ qs" "list_all is_iatu qs" "chan_msi s2 = chan_msi s1" "irq_msi s2 = irq_msi s1"
      using logs_run [OF logs_reprogram p] by blast
    note d' = silent_run [OF logs_diag d]
    have "carries W m1 t" using ps(5) True qs(3,4) d' t(3) by (simp add: carries_def)
    then show ?thesis using t ps qs d' True by (intro exI [of _ "[RestoreState, SetMaster] @ ps @ qs @ [SaveState]"]) auto
  next
    case False
    then have "ret = r" "t = s1" using assms r by (auto simp: after_reset_def)
    then show ?thesis using ps False by (intro exI [of _ "[RestoreState, SetMaster] @ ps"]) auto
  qed
qed

text \<open>A bus reset raises the reset bit of the bridge and takes it back.\<close>

definition bus_reset :: "pci_event list \<Rightarrow> bool" where
  "bus_reset es \<longleftrightarrow> (\<exists>x y. es = [Bridge x, Bridge y] \<and> x AND PCI_BRIDGE_CTL_BUS_RESET \<noteq> 0 \<and> y AND PCI_BRIDGE_CTL_BUS_RESET = 0)"

definition good_end :: "edma_cfg \<Rightarrow> bool \<Rightarrow> pci_event list \<Rightarrow> endpoint \<Rightarrow> bool" where
  "good_end W b ps t \<longleftrightarrow> state_saved b ps \<and> (\<exists>m. dx_dma_msi_msg_valid m \<and> carries W m t)"

lemma bus_reset_bits:
  "(x :: u16) OR PCI_BRIDGE_CTL_BUS_RESET \<noteq> x AND NOT PCI_BRIDGE_CTL_BUS_RESET"
  "(x OR PCI_BRIDGE_CTL_BUS_RESET) AND PCI_BRIDGE_CTL_BUS_RESET \<noteq> 0"
  "(x AND NOT PCI_BRIDGE_CTL_BUS_RESET) AND PCI_BRIDGE_CTL_BUS_RESET = 0"
proof -
  show b: "(x OR PCI_BRIDGE_CTL_BUS_RESET) AND PCI_BRIDGE_CTL_BUS_RESET \<noteq> 0"
    by (simp add: bit.conj_disj_distrib2)
  show c: "(x AND NOT PCI_BRIDGE_CTL_BUS_RESET) AND PCI_BRIDGE_CTL_BUS_RESET = 0"
    by (simp only: and.assoc bit.conj_cancel_left) simp
  show "x OR PCI_BRIDGE_CTL_BUS_RESET \<noteq> x AND NOT PCI_BRIDGE_CTL_BUS_RESET" using b c by metis
qed

lemma do_sbr_run:
  assumes "clock_runs W" "run_state (dx_edma_do_sbr W H) s = (r, t)"
  shows "r = Some ()" "\<exists>ps. plog t = plog s @ ps \<and> bus_reset ps"
proof -
  obtain u s0 where s0: "run_state (toggle_bus_reset W H) s = (u, s0)" by (metis surj_pair)
  obtain v t' where p: "run_state (poll_for W (\<lambda>k _. vendor (config H k)) vendor_alive (two_seconds H)) s0 = (v, t')"
    by fastforce
  have "r = map_option (\<lambda>_. ()) v" "t' = t"
    using assms(2) p s0 by (auto simp: dx_edma_do_sbr_def)
  moreover obtain x where "v = Some x" using poll_for_returns [OF assms(1)] p by (metis fst_conv)
  ultimately show "r = Some ()" by simp
  have "plog t = plog s0" using silent_run [OF logs_poll_for p] \<open>t' = t\<close> by simp
  moreover have "\<exists>x. plog s0 = plog s @ [Bridge (x OR PCI_BRIDGE_CTL_BUS_RESET), Bridge (x AND NOT PCI_BRIDGE_CTL_BUS_RESET)]"
    using s0 by (auto simp: toggle_bus_reset_def observe_def Let_def)
  ultimately show "\<exists>ps. plog t = plog s @ ps \<and> bus_reset ps"
    unfolding bus_reset_def using bus_reset_bits(2,3) by metis
qed

lemma bus_reset_simps:
  assumes "bus_reset ps"
  shows "resets ps = ps" "messages_ok ps" "state_saved b ps = b"
  using assms by (auto simp: bus_reset_def)

lemma sbr_run:
  assumes "clock_runs W" "run_state (reset_by_sbr W H msi) s = (r, t)"
  shows "\<exists>ret ps. r = Some ret \<and> plog t = plog s @ ps \<and> messages_ok ps \<and> bus_reset (resets ps) \<and>
    (if ret = 0 then good_end W b ps t else \<not> state_saved b ps)"
proof -
  obtain u s1 where d: "run_state (dx_edma_do_sbr W H) s = (u, s1)" by (metis surj_pair)
  obtain ps where ps: "plog s1 = plog s @ ps" "bus_reset ps" and u: "u = Some ()"
    using do_sbr_run [OF assms(1) d] by blast
  obtain ret m s2 where a: "run_state (after_reset W H msi) s1 = ((ret, m), s2)" by (metis surj_pair)
  have "r = Some ret" "s2 = t" using assms(2) d u a by (auto simp: reset_by_sbr_def)
  moreover obtain qs where "plog s2 = plog s1 @ qs" "messages_ok qs" "resets qs = []"
      "if ret = 0 then state_saved b qs \<and> dx_dma_msi_msg_valid m \<and> carries W m s2 else ret = - EIO \<and> \<not> state_saved b qs"
    using after_reset_run [OF a, of b] by blast
  ultimately show ?thesis using ps bus_reset_simps [OF ps(2)]
    by (intro exI [of _ ret] exI [of _ "ps @ qs"]) (auto simp: good_end_def)
qed

definition legal_resets :: "pci_host \<Rightarrow> pci_event list \<Rightarrow> bool" where
  "legal_resets H es \<longleftrightarrow> (\<exists>f b. es = f @ b \<and> (f = [] \<or> f = [Flr] \<and> dx_pcie_has_flr H) \<and> (b = [] \<or> bus_reset b \<and> dx_edma_sbr_viable H))"

lemma legal_cases:
  "legal_resets H []" "dx_pcie_has_flr H \<Longrightarrow> legal_resets H [Flr]"
  "dx_edma_sbr_viable H \<Longrightarrow> bus_reset b \<Longrightarrow> legal_resets H b"
  "dx_pcie_has_flr H \<Longrightarrow> dx_edma_sbr_viable H \<Longrightarrow> bus_reset b \<Longrightarrow> legal_resets H (Flr # b)"
proof -
  show "legal_resets H []" by (simp add: legal_resets_def)
  have one: "legal_resets H (f @ b)"
    if "f = [] \<or> f = [Flr] \<and> dx_pcie_has_flr H" "b = [] \<or> bus_reset b \<and> dx_edma_sbr_viable H" for f b
    using that unfolding legal_resets_def by blast
  show "dx_pcie_has_flr H \<Longrightarrow> legal_resets H [Flr]" using one [of "[Flr]" "[]"] by simp
  show "dx_edma_sbr_viable H \<Longrightarrow> bus_reset b \<Longrightarrow> legal_resets H b" using one [of "[]" b] by simp
  show "dx_pcie_has_flr H \<Longrightarrow> dx_edma_sbr_viable H \<Longrightarrow> bus_reset b \<Longrightarrow> legal_resets H (Flr # b)"
    using one [of "[Flr]" b] by simp
qed

lemma flr_run:
  assumes "clock_runs W" "dx_pcie_has_flr H" "run_state (reset_by_flr W H msi) s = (r, t)"
  shows "\<exists>ret ps. r = Some ret \<and> plog t = plog s @ ps \<and> messages_ok ps \<and> resets ps \<noteq> [] \<and> legal_resets H (resets ps) \<and>
    (ret = 0 \<longrightarrow> good_end W b ps t)"
proof -
  obtain f s1 where f: "run_state (observe W (\<lambda>k _. flr_result H k)) (s\<lparr>plog := plog s @ [Flr]\<rparr>) = (f, s1)" by fastforce
  have s1: "plog s1 = plog s @ [Flr]" using silent_run [OF logs_observe f] by simp
  consider (down) "f \<noteq> 0" "\<not> dx_edma_sbr_viable H" | (fall) "f \<noteq> 0" "dx_edma_sbr_viable H" | (ok) "f = 0" by blast
  then show ?thesis
  proof cases
    case down
    then have "r = Some f" "plog t = plog s @ [Flr, RestoreState]" using assms(3) f s1 by (auto simp: reset_by_flr_def)
    then show ?thesis using down assms(2) by (intro exI [of _ f] exI [of _ "[Flr, RestoreState]"]) (simp add: legal_cases)
  next
    case fall
    then have "run_state (reset_by_sbr W H msi) s1 = (r, t)" using assms(3) f by (simp add: reset_by_flr_def)
    from sbr_run [OF assms(1) this] obtain ret ps where "r = Some ret" "plog t = plog s1 @ ps" "messages_ok ps"
        "bus_reset (resets ps)" "if ret = 0 then good_end W b ps t else \<not> state_saved b ps" by blast
    then show ?thesis using s1 assms(2) fall
      by (intro exI [of _ ret] exI [of _ "Flr # ps"]) (auto simp: legal_cases good_end_def)
  next
    case ok
    obtain ret m s2 where a: "run_state (after_reset W H msi) s1 = ((ret, m), s2)" by (metis surj_pair)
    obtain qs where qs: "plog s2 = plog s1 @ qs" "messages_ok qs" "resets qs = []"
        "if ret = 0 then state_saved b qs \<and> dx_dma_msi_msg_valid m \<and> carries W m s2 else ret = - EIO \<and> \<not> state_saved b qs"
      using after_reset_run [OF a, of b] by blast
    obtain st s3 where k: "run_state (dx_edma_flr_channels_stuck W) s2 = (st, s3)" by fastforce
    note k' = silent_run [OF logs_stuck k]
    have one: "legal_resets H [Flr]" using assms(2) by (rule legal_cases)
    show ?thesis
    proof (cases "ret = 0 \<and> st \<and> dx_edma_sbr_viable H")
      case True
      then have "run_state (reset_by_sbr W H m) s3 = (r, t)" using assms(3) f ok a k by (simp add: reset_by_flr_def)
      from sbr_run [OF assms(1) this] obtain ret' ps where "r = Some ret'" "plog t = plog s3 @ ps" "messages_ok ps"
          "bus_reset (resets ps)" "if ret' = 0 then good_end W True ps t else \<not> state_saved True ps" by blast
      then show ?thesis using True s1 qs k' assms(2)
        by (intro exI [of _ ret'] exI [of _ "Flr # qs @ ps"]) (auto simp: legal_cases good_end_def)
    next
      case False
      then have "\<exists>ret'. r = Some ret' \<and> (t = s2 \<and> ret' \<noteq> 0 \<or> t = s3 \<and> ret = 0)"
        using assms(3) f ok a k by (auto simp: reset_by_flr_def split: if_splits)
      then show ?thesis using s1 qs k' one
        by (auto simp: good_end_def carries_def intro!: exI [of _ "Flr # qs"])
    qed
  qed
qed

lemma restore_engine_run:
  assumes "run_state (restore_engine W H) s = (ret, t)"
  shows "\<exists>ps. plog t = plog s @ ps \<and> messages_ok ps \<and> resets ps = [] \<and>
    (if ret = 0 then good_end W b ps t else ret = - EIO \<and> state_saved b ps = b)"
proof (cases "dx_dma_msi_msg_valid (restore_message H (irq_msi s))")
  case True
  let ?m = "restore_message H (irq_msi s)" and ?z = "\<lparr>address_lo = 0, address_hi = 0, msi_data = 0\<rparr>"
  obtain r s1 where w: "run_state (dx_pci_write_msi_msg W H ?m) s = (r, s1)" by fastforce
  obtain u s2 where c: "run_state (set_msi_caches W ?m) s1 = (u, s2)" by (metis surj_pair)
  obtain u' s3 where p: "run_state (edma_reprogram_hw W H) s2 = (u', s3)" by (metis surj_pair)
  obtain v s4 where v: "run_state (verify_engines W) s3 = (v, s4)" by fastforce
  obtain x s5 where d: "run_state (dx_pci_read_msi_msg W H ?z) s4 = (x, s5)" by fastforce
  have run: "ret = v \<and> (if v = 0 then t = s5\<lparr>plog := plog s5 @ [SaveState]\<rparr> else t = s4)"
    using assms True w c p v d by (auto simp: restore_engine_def State_Monad.get_def Let_def)
  obtain ps where ps: "plog s1 = plog s @ ps" "ps = [] \<or> ps = [WriteMsi ?m]" using write_msi_run [OF w] by blast
  obtain qs where qs: "plog s3 = plog s2 @ qs" "list_all is_iatu qs" "chan_msi s3 = chan_msi s2" "irq_msi s3 = irq_msi s2"
    using logs_run [OF logs_reprogram p] by blast
  note c' = caches_carry [OF c] and v' = silent_run [OF logs_verify v] and d' = silent_run [OF logs_reads(2) d]
  have car: "carries W ?m s4" "carries W ?m s5" using c' qs(3,4) v' d' by (simp_all add: carries_def)
  have e: "v = 0 \<or> v = - EIO" using v by (auto simp: verify_engines_def split: prod.splits if_splits)
  show ?thesis
  proof (cases "v = 0")
    case zero: True
    then have "carries W ?m t" using run car(2) by (simp add: carries_def)
    then show ?thesis using zero run ps qs c' v' d' True
      by (intro exI [of _ "ps @ qs @ [SaveState]"]) (auto simp: good_end_def)
  next
    case False
    then show ?thesis using run ps qs c' v' True e by (intro exI [of _ "ps @ qs"]) auto
  qed
qed (use assms in \<open>auto simp: restore_engine_def State_Monad.get_def Let_def\<close>)

section \<open>The registers after programming\<close>

text \<open>Registers that read back what was written.\<close>

definition steady :: "edma_cfg \<Rightarrow> bool" where
  "steady W \<longleftrightarrow> (\<forall>k v. v_regs (c_env W k v) = v_regs v)"

abbreviation (input) regs :: "edma_dev \<Rightarrow> mmio" where "regs e \<equiv> v_regs (vol e)"

definition imwr_word :: "chan_id \<Rightarrow> u32 \<Rightarrow> u32 \<Rightarrow> u32" where
  "imwr_word c d x = (if odd (snd c) then (x AND 0xFFFF) OR (push_bit 16 d AND 0xFFFF0000)
     else (x AND 0xFFFF0000) OR (d AND 0xFFFF))"

definition imwr_half :: "mmio \<Rightarrow> chan_id \<Rightarrow> u16" where
  "imwr_half r c = (if odd (snd c) then ucast (drop_bit 16 (readl r (imwr_data c))) else ucast (readl r (imwr_data c)))"

definition armed :: "msi_msg \<Rightarrow> chan_id \<Rightarrow> mmio \<Rightarrow> bool" where
  "armed m c r \<longleftrightarrow>
     readl r (R_DONE_IMWR (fst c)) = address_lo m \<and> readl r (R_DONE_IMWR (fst c) + 4) = address_hi m \<and>
     readl r (R_ABORT_IMWR (fst c)) = address_lo m \<and> readl r (R_ABORT_IMWR (fst c) + 4) = address_hi m \<and>
     imwr_half r c = ucast (msi_data m)"

lemma half_masks: "(0xFFFF :: u32) = mask 16" "(0xFFFF0000 :: u32) = push_bit 16 (mask 16)"
  by (simp_all add: mask_eq_exp_minus_1 push_bit_eq_mult)

lemma imwr_word_halves:
  "odd (snd c) \<Longrightarrow> ucast (imwr_word c d x) = (ucast x :: u16)"
  "odd (snd c) \<Longrightarrow> ucast (drop_bit 16 (imwr_word c d x)) = (ucast d :: u16)"
  "even (snd c) \<Longrightarrow> ucast (imwr_word c d x) = (ucast d :: u16)"
  "even (snd c) \<Longrightarrow> ucast (drop_bit 16 (imwr_word c d x)) = (ucast (drop_bit 16 x) :: u16)"
  unfolding imwr_word_def half_masks
  by (rule bit_word_eqI, auto simp: bit_simps not_less)+

lemma device_config_regs:
  assumes "steady W" "snd c < 8"
  shows "regs (snd (run_state (dw_edma_v0_core_device_config W m c) e)) =
    (let r1 = writel (address_hi m) (R_ABORT_IMWR (fst c) + 4) (writel (address_lo m) (R_ABORT_IMWR (fst c))
           (writel (address_hi m) (R_DONE_IMWR (fst c) + 4) (writel (address_lo m) (R_DONE_IMWR (fst c)) (regs e))))
     in writel (imwr_word c (msi_data m) (readl r1 (imwr_data c))) (imwr_data c) r1)"
  using assms
  by (simp add: dw_edma_v0_core_device_config_def SET_32_def change_def emit_def GET_32_def look_def Let_def
      steady_def imwr_word_def)

lemma imwr_data_range:
  assumes "n < 8"
  shows "imwr_data (EDMA_DIR_WRITE, n) \<in> {112..124}" "imwr_data (EDMA_DIR_READ, n) \<in> {220..232}"
  using assms by (auto simp: imwr_data_def rw_def)

lemma config_arms:
  assumes "steady W" "snd c < 8"
  shows "armed m c (regs (snd (run_state (dw_edma_v0_core_device_config W m c) e)))"
proof (cases c)
  case (Pair d n)
  then have "n < 8" using assms(2) by simp
  then show ?thesis using imwr_data_range [of n] unfolding device_config_regs [OF assms]
    by (cases d) (auto simp: Pair armed_def Let_def imwr_half_def rw_def readl_writel_other imwr_word_halves)
qed

lemma config_keeps_armed:
  assumes "steady W" "snd c < 8" "snd c' < 8" "armed m c' (regs e)"
  shows "armed m c' (regs (snd (run_state (dw_edma_v0_core_device_config W m c) e)))"
proof (cases c)
  case (Pair d n)
  obtain d' n' where c': "c' = (d', n')" by fastforce
  have n: "n < 8" "n' < 8" using assms(2,3) Pair c' by simp_all
  show ?thesis
  proof (cases "d = d' \<and> n div 2 = n' div 2")
    case True
    then have "n div 2 = n' div 2" by simp
    then have "odd n \<noteq> odd n' \<or> n = n'" by presburger
    moreover have "imwr_data c = imwr_data c'" using True Pair c' by (simp add: imwr_data_def)
    ultimately show ?thesis using assms(4) imwr_data_range [OF n(1)] imwr_data_range [OF n(2)] True
      unfolding device_config_regs [OF assms(1,2)]
      by (cases d') (auto simp: Pair c' armed_def Let_def imwr_half_def rw_def readl_writel_other imwr_word_halves)
  next
    case False
    then have "imwr_data c + 4 \<le> imwr_data c' \<or> imwr_data c' + 4 \<le> imwr_data c"
      using imwr_data_range [OF n(1)] imwr_data_range [OF n(2)] Pair c' n
      by (cases d; cases d') (auto simp: imwr_data_def rw_def)
    then show ?thesis using assms(4) imwr_data_range [OF n(1)] imwr_data_range [OF n(2)]
      unfolding device_config_regs [OF assms(1,2)]
      by (cases d; cases d') (auto simp: Pair c' armed_def Let_def imwr_half_def rw_def readl_writel_other)
  qed
qed

lemma config_low:
  assumes "steady W" "snd c < 8" "a + 4 \<le> 96"
  shows "readl (regs (snd (run_state (dw_edma_v0_core_device_config W m c) e))) a = readl (regs e) a"
proof (cases c)
  case (Pair d n)
  then have "n < 8" using assms(2) by simp
  then show ?thesis using imwr_data_range [of n] assms(3) unfolding device_config_regs [OF assms(1,2)]
    by (cases d) (simp_all add: Pair Let_def rw_def readl_writel_other)
qed

lemma config_chans_armed:
  assumes "steady W" "\<forall>c \<in> set cs. snd c < 8 \<and> ms c = m"
  shows "(\<forall>c. snd c < 8 \<longrightarrow> c \<in> set cs \<or> armed m c (regs e) \<longrightarrow> armed m c (regs (snd (run_state (config_chans W ms cs) e)))) \<and>
    (\<forall>a. a + 4 \<le> 96 \<longrightarrow> readl (regs (snd (run_state (config_chans W ms cs) e))) a = readl (regs e) a)"
  using assms(2)
proof (induction cs arbitrary: e)
  case (Cons c cs)
  let ?e = "snd (run_state (dw_edma_v0_core_device_config W m c) e)"
  have c: "snd c < 8" "ms c = m" using Cons.prems by simp_all
  have run: "snd (run_state (config_chans W ms (c # cs)) e) = snd (run_state (config_chans W ms cs) ?e)"
    by (simp add: c(2) split: prod.split)
  note ih = Cons.IH [of ?e]
  show ?case unfolding run
    using ih Cons.prems config_arms [OF assms(1) c(1), of m e] config_keeps_armed [OF assms(1) c(1)] config_low [OF assms(1) c(1)]
    by auto
qed simp

text \<open>The routines that do not store to the engine.\<close>

definition untouched :: "'a pci \<Rightarrow> bool" where
  "untouched p \<longleftrightarrow> (\<forall>s. regs (engine (snd (run_state p s))) = regs (engine s))"

named_theorems untouched_intros

lemma untouched_basic [untouched_intros]:
  "untouched (State_Monad.return x)" "untouched State_Monad.get" "untouched (post e)"
  "untouched (SET_IATU_IN32 idx a y)" "untouched (dw_iatu_set_datas i mode base tgt sz idx' bn)"
  by (simp_all add: untouched_def State_Monad.get_def SET_IATU_IN32_def dw_iatu_set_datas_def)

lemma untouched_bind [untouched_intros]:
  "untouched p \<Longrightarrow> (\<And>a. untouched (f a)) \<Longrightarrow> untouched (State_Monad.bind p f)"
  by (simp add: untouched_def split: prod.split) (metis snd_conv)

lemma untouched_if [untouched_intros]: "untouched p \<Longrightarrow> untouched q \<Longrightarrow> untouched (if b then p else q)"
  by simp

lemma untouched_observe: "steady W \<Longrightarrow> untouched (observe W f)"
  by (simp add: untouched_def observe_def Let_def steady_def)

lemma untouched_iatu_wait: "steady W \<Longrightarrow> untouched (iatu_wait n W H)"
  by (induction n) (simp_all add: untouched_intros untouched_observe)

lemma untouched_iatu:
  assumes "steady W"
  shows "untouched (dw_iatu_default_config_set W H)"
proof -
  have one: "untouched (dw_iatu_config_inbound W H mode base tgt sz idx bn)" for mode base tgt sz idx bn
    unfolding dw_iatu_config_inbound_def dx_iatu_inbound_bar_def dx_iatu_inbound_address_def
    by (intro untouched_intros untouched_iatu_wait [OF assms])
  have "untouched (config_all W H ws)" for ws
    by (induction ws) (simp_all add: untouched_intros one)
  moreover have "untouched (set_user_bars i bs)" for i bs
    by (induction i bs rule: set_user_bars.induct) (simp_all add: untouched_intros)
  ultimately show ?thesis unfolding dw_iatu_default_config_set_def by (intro untouched_intros)
qed

lemma enable_engines_regs:
  assumes "steady W" "run_state (enable_engines W) e = (u, e1)"
  shows "readl (regs e1) 12 = 1" "readl (regs e1) 44 = 1"
proof -
  have "e1 = snd (run_state (enable_engines W) e)" using assms(2) by simp
  then show "readl (regs e1) 12 = 1" "readl (regs e1) 44 = 1" using assms(1)
    by (simp_all add: enable_engines_def SET_32_def change_def emit_def GET_32_def look_def Let_def steady_def rw_def readl_writel_other)
qed

section \<open>Properties\<close>

text \<open>A host that can reset the function only, and an endpoint whose message is in configuration space.\<close>

definition example_host :: pci_host where
  "example_host = \<lparr>has_pdev = True, is_pcie = True, no_flr_flag = False, devcap = 0x10000000, has_bus = True, bridge = None,
     probe_reset_bus = 0, allow_sbr = - 1, irq_vector = 40, has_msi_desc = True,
     cached_msi_msg = \<lparr>address_lo = 0xFEE00000, address_hi = 0, msi_data = 33\<rparr>,
     config = (\<lambda>_. \<lparr>has_msi = True, msi_64bit = True, cfg_lo = 0xFEE00000, cfg_hi = 0, cfg_data = 33, vendor = 0x1FF4, bridge_ctrl = 0\<rparr>),
     flr_result = (\<lambda>_. 0), iatu_ctl = (\<lambda>_. 0x80000000), two_seconds = 500, desc_base_addr = 0x40000000, desc_bar_num = 2,
     user_bars = [(0x50000000, 0)]\<rparr>"

definition example_endpoint :: endpoint where
  "example_endpoint = \<lparr>engine = example_engine, irq_msi = [\<lparr>address_lo = 0xFEE00000, address_hi = 0, msi_data = 33\<rparr>],
     chan_msi = (\<lambda>_. \<lparr>address_lo = 0xFEE00000, address_hi = 0, msi_data = 33\<rparr>), iatu_inb = [], plog = []\<rparr>"

lemma example_engine_runs: "clock_runs example_engine_cfg" "steady example_engine_cfg"
  by (simp_all add: clock_runs_def steady_def example_engine_cfg_def)

text \<open>
  (C14) The reset of the endpoint.  It returns when the clock runs; it does at most one function reset, only on
  a device that has one, followed by at most one bus reset, only on a host that can do one, and lets go of the
  bus again; it never writes an interrupt message without an address; and when it reports success
  there was a reset, the kernel holds a saved configuration for the next recovery, and every vector and channel carries
  one valid message.
\<close>

theorem pcie_reset_safe:
  assumes "clock_runs W" "run_state (dw_edma_v0_core_pcie_reset W H) s = (r, t)"
  shows "\<exists>ret ps. r = Some ret \<and> plog t = plog s @ ps \<and> messages_ok ps \<and> legal_resets H (resets ps) \<and>
    (ret = 0 \<longrightarrow> resets ps \<noteq> [] \<and> good_end W False ps t)"
proof (cases "has_pdev H \<and> (\<exists>u. dx_edma_select_reset_method H = Inr u)")
  case True
  then obtain u where u: "dx_edma_select_reset_method H = Inr u" by blast
  let ?m = "\<lparr>address_lo = 0, address_hi = 0, msi_data = 0\<rparr>"
  obtain m s1 where v: "run_state (dx_edma_save_msi_before_reset W H ?m) s = (m, s1)" by fastforce
  have "logs silent (dx_edma_save_msi_before_reset W H ?m)"
    unfolding dx_edma_save_msi_before_reset_def by (intro logs_intros) (auto split: prod.split intro!: logs_intros)
  from this and v have s1: "plog s1 = plog s" by (rule silent_run)
  let ?s = "s1\<lparr>plog := plog s @ [SaveState]\<rparr>"
  have go: "run_state (if u then reset_by_sbr W H m else reset_by_flr W H m) ?s = (r, t)"
    using assms(2) True u v s1 by (auto simp: dw_edma_v0_core_pcie_reset_def split: prod.splits)
  have "\<exists>ret ps. r = Some ret \<and> plog t = plog ?s @ ps \<and> messages_ok ps \<and> resets ps \<noteq> [] \<and> legal_resets H (resets ps) \<and>
      (ret = 0 \<longrightarrow> good_end W True ps t)"
  proof (cases u)
    case True
    then have "dx_edma_sbr_viable H" using u by (auto simp: dx_edma_select_reset_method_def split: if_splits)
    moreover have "\<not> bus_reset []" by (simp add: bus_reset_def)
    moreover have "run_state (reset_by_sbr W H m) ?s = (r, t)" using go True by simp
    ultimately show ?thesis using sbr_run [OF assms(1), of H m ?s r t True] legal_cases(3) by metis
  next
    case False
    then have "dx_pcie_has_flr H" using u by (auto simp: dx_edma_select_reset_method_def split: if_splits)
    moreover have "run_state (reset_by_flr W H m) ?s = (r, t)" using go False by simp
    ultimately show ?thesis using flr_run [OF assms(1)] by blast
  qed
  then obtain ret ps where "r = Some ret" "plog t = plog s @ SaveState # ps" "messages_ok ps" "resets ps \<noteq> []"
      "legal_resets H (resets ps)" "ret = 0 \<longrightarrow> good_end W True ps t" by auto
  then show ?thesis by (intro exI [of _ ret] exI [of _ "SaveState # ps"]) (simp add: good_end_def)
next
  case False
  have "r = Some (- EIO) \<and> t = s \<or> r = Some (- ENOTTY) \<and> t = s"
  proof (cases "has_pdev H")
    case True
    then have "dx_edma_select_reset_method H = Inl (- ENOTTY)"
      using False unfolding dx_edma_select_reset_method_def by (metis (full_types))
    then show ?thesis using assms(2) True by (simp add: dw_edma_v0_core_pcie_reset_def)
  qed (use assms(2) in \<open>simp add: dw_edma_v0_core_pcie_reset_def\<close>)
  then show ?thesis by (auto simp: legal_cases)
qed

theorem pcie_reset_safe_witness:
  "\<exists>ret ps t. run_state (dw_edma_v0_core_pcie_reset example_engine_cfg example_host) example_endpoint = (Some ret, t) \<and>
    plog t = ps \<and> messages_ok ps \<and> (resets ps = [] \<or> resets ps = [Flr])"
proof -
  obtain r t where p: "run_state (dw_edma_v0_core_pcie_reset example_engine_cfg example_host) example_endpoint = (r, t)" by fastforce
  have "\<not> dx_edma_sbr_viable example_host" by (simp add: dx_edma_sbr_viable_def dx_edma_host_supports_sbr_def example_host_def)
  then show ?thesis using pcie_reset_safe [OF example_engine_runs(1) p] p by (auto simp: legal_resets_def example_endpoint_def)
qed

text \<open>
  (C15) Programming the engine anew.  On registers that read back what was written, and with one message for
  all channels, every channel ends with the address of the message for completion and for abort and
  with its data in the channel's half of the shared word; both engines are enabled, and the interrupts are
  unmasked.
\<close>

theorem reprogram_arms_interrupts:
  assumes "steady W" "c_wr_cnt W \<le> 8" "c_rd_cnt W \<le> 8" "carries W m s"
    and "r = v_regs (vol (engine (snd (run_state (edma_reprogram_hw W H) s))))"
  shows "(\<forall>c \<in> set (all_chans W). armed m c r) \<and> readl r 12 = 1 \<and> readl r 44 = 1 \<and> readl r 84 = 0 \<and> readl r 168 = 0"
proof -
  let ?init = "do {
       SET_32 (R_INT_MASK EDMA_DIR_WRITE) (EDMA_V0_DONE_INT_MASK OR EDMA_V0_ABORT_INT_MASK);
       SET_32 (R_INT_MASK EDMA_DIR_READ) (EDMA_V0_DONE_INT_MASK OR EDMA_V0_ABORT_INT_MASK);
       SET_32 (R_INT_CLEAR EDMA_DIR_WRITE) (EDMA_V0_DONE_INT_MASK OR EDMA_V0_ABORT_INT_MASK);
       SET_32 (R_INT_CLEAR EDMA_DIR_READ) (EDMA_V0_DONE_INT_MASK OR EDMA_V0_ABORT_INT_MASK);
       set_pwr_en 1;
       enable_engines W }"
  obtain u e1 where i: "run_state ?init (engine s) = (u, e1)" by (metis surj_pair)
  obtain u' e2 where c: "run_state (config_chans W (chan_msi s) (all_chans W)) e1 = (u', e2)" by (metis surj_pair)
  obtain u'' s3 where d: "run_state (dw_iatu_default_config_set W H) (s\<lparr>engine := e2\<rparr>) = (u'', s3)" by (metis surj_pair)
  have en: "readl (regs e1) 12 = 1" "readl (regs e1) 44 = 1"
    using i by (auto split: prod.splits dest: enable_engines_regs [OF assms(1)])
  have "\<forall>c \<in> set (all_chans W). snd c < 8 \<and> chan_msi s c = m"
    using assms(2-4) by (auto simp: all_chans_def chans_of_def carries_def)
  then have e2: "\<forall>c \<in> set (all_chans W). snd c < 8 \<and> armed m c (regs e2)" "readl (regs e2) 12 = 1" "readl (regs e2) 44 = 1"
    using config_chans_armed [OF assms(1), of "all_chans W" "chan_msi s" m e1] c en by (auto simp del: split_paired_All)
  have s3: "regs (engine s3) = regs e2" using untouched_iatu [OF assms(1), of H] d unfolding untouched_def
    by (metis endpoint.select_convs(1) endpoint.surjective endpoint.update_convs(1) snd_conv)
  have "r = writel 0 168 (writel 0 84 (regs e2))"
    using assms(5) i c d s3
    by (simp add: edma_reprogram_hw_def on_engine_def State_Monad.get_def clear_flags_def SET_32_def change_def emit_def rw_def)
  moreover have "armed m c (writel 0 168 (writel 0 84 (regs e2)))" if "snd c < 8" "armed m c (regs e2)" for c
    using that imwr_data_range [of "snd c"] by (cases c; cases "fst c") (auto simp: armed_def imwr_half_def rw_def readl_writel_other)
  ultimately show ?thesis using e2 by (auto simp: readl_writel_other)
qed

theorem reprogram_arms_interrupts_witness:
  "armed \<lparr>address_lo = 0xFEE00000, address_hi = 0, msi_data = 33\<rparr> (EDMA_DIR_READ, 3)
     (v_regs (vol (engine (snd (run_state (edma_reprogram_hw example_engine_cfg example_host) example_endpoint)))))"
proof -
  have "c_wr_cnt example_engine_cfg \<le> 8" "c_rd_cnt example_engine_cfg \<le> 8" by (simp_all add: example_engine_cfg_def)
  moreover have "carries example_engine_cfg \<lparr>address_lo = 0xFEE00000, address_hi = 0, msi_data = 33\<rparr> example_endpoint"
    by (simp add: carries_def example_endpoint_def)
  moreover have "(EDMA_DIR_READ, 3) \<in> set (all_chans example_engine_cfg)"
    by (simp add: all_chans_def chans_of_def example_engine_cfg_def)
  ultimately show ?thesis using reprogram_arms_interrupts [OF example_engine_runs(2) _ _ _ refl] by blast
qed

text \<open>
  (C16) Restoring the engine after a link recovery.  It returns when the clock runs, resets nothing and never writes a message without an
  address; on success the configuration is saved again and every vector and channel carries one
  valid message.  Every failure is reported as an input/output error, and leaves the kernel without a saved
  configuration: the next restore then finds nothing to restore.
\<close>

theorem edma_restore_outcome:
  assumes "clock_runs W" "has_pdev H" "run_state (dw_edma_v0_core_edma_restore W H) s = (r, t)"
  shows "\<exists>ret ps. r = Some ret \<and> plog t = plog s @ ps \<and> messages_ok ps \<and> resets ps = [] \<and>
    (if ret = 0 then good_end W b ps t else ret = - EIO \<and> \<not> state_saved b ps)"
proof -
  let ?s = "s\<lparr>plog := plog s @ [RestoreState, SetMaster]\<rparr>"
  obtain v s1 where p: "run_state (poll_for W (\<lambda>_ v. readl (v_regs v) (R_ENGINE_EN EDMA_DIR_WRITE)) (\<lambda>x. x \<noteq> - 1) (two_seconds H)) ?s = (v, s1)"
    by fastforce
  obtain x where x: "v = Some x" using poll_for_returns [OF assms(1)] p by (metis fst_conv)
  have s1: "plog s1 = plog s @ [RestoreState, SetMaster]" using silent_run [OF logs_poll_for p] by simp
  show ?thesis
  proof (cases "x = - 1")
    case True
    then have "r = Some (- EIO)" "t = s1" using assms(2,3) p x by (auto simp: dw_edma_v0_core_edma_restore_def)
    then show ?thesis using s1 by (intro exI [of _ "- EIO"] exI [of _ "[RestoreState, SetMaster]"]) simp
  next
    case False
    obtain ret s2 where e: "run_state (restore_engine W H) s1 = (ret, s2)" by fastforce
    then have "r = Some ret" "t = s2" using assms(2,3) p x False by (auto simp: dw_edma_v0_core_edma_restore_def)
    moreover obtain ps where "plog s2 = plog s1 @ ps" "messages_ok ps" "resets ps = []"
        "if ret = 0 then good_end W False ps s2 else ret = - EIO \<and> state_saved False ps = False"
      using restore_engine_run [OF e] by blast
    ultimately show ?thesis using s1
      by (intro exI [of _ ret] exI [of _ "[RestoreState, SetMaster] @ ps"]) (auto simp: good_end_def)
  qed
qed

theorem edma_restore_outcome_witness:
  "\<exists>ret ps t. run_state (dw_edma_v0_core_edma_restore example_engine_cfg example_host) example_endpoint = (Some ret, t) \<and>
    plog t = ps \<and> messages_ok ps \<and> (ret = 0 \<or> \<not> state_saved True ps)"
proof -
  obtain r t where p: "run_state (dw_edma_v0_core_edma_restore example_engine_cfg example_host) example_endpoint = (r, t)" by fastforce
  have "has_pdev example_host" "plog example_endpoint = []" by (simp_all add: example_host_def example_endpoint_def)
  then show ?thesis using edma_restore_outcome [OF example_engine_runs(1) _ p, of True] p by (auto split: if_splits)
qed

end
