(* ===== verification/Dx_Sgdma.thy ===== *)
theory Dx_Sgdma
  imports Dx_EdmaThread Dx_EdmaReset Dx_LinkHealth
begin

text \<open>
  The front end of the DMA engine: \<^verbatim>\<open>pci_deepx/dx_sgdma.c\<close>.  A buffer of a client is pinned and turned into a scatter
  list, the list is handed to the thread of \<^verbatim>\<open>Dx_EdmaThread\<close>, and the pages are let go; a recovery stops and cleans
  every channel; the first user of a device takes its channels and the last one gives them back.
\<close>

section \<open>The pages of a buffer\<close>

text \<open>
  The memory that a transfer takes and gives back: the table, the array of pages, and the pages themselves, each put
  with or without being marked dirty.  A page is its frame number; \<open>um_pages\<close> is \<open>cb->pages\<close>, as far as it is filled.
\<close>

datatype mem_event = Table_made | Table_dropped | Pages_made | Pages_dropped | Page_put u64 bool

record umap =
  um_pages :: "u64 list option"
  um_nr :: u32
  um_log :: "mem_event list"

text \<open>The kernel: whether the table and the array can be had, and what \<open>get_user_pages_fast\<close> answers and pins.\<close>

record uworld =
  uw_table :: bool
  uw_array :: bool
  uw_pin :: "u64 \<Rightarrow> u32 \<Rightarrow> bool \<Rightarrow> int \<times> u64 list"

abbreviation (input) PAGE_SIZE :: nat where "PAGE_SIZE \<equiv> 4096"

definition note_mem :: "mem_event list \<Rightarrow> umap \<Rightarrow> umap" where
  "note_mem es m = m\<lparr>um_log := um_log m @ es\<rparr>"

definition char_sgdma_unmap_user_buf :: "bool \<Rightarrow> umap \<Rightarrow> umap" where
  "char_sgdma_unmap_user_buf write m =
     (case um_pages m of
        None \<Rightarrow> m
      | Some ps \<Rightarrow>
          if um_nr m = 0 then m
          else note_mem (map (\<lambda>p. Page_put p (\<not> write)) (takeWhile (\<lambda>p. p \<noteq> 0) (take (unat (um_nr m)) ps)) @ [Pages_dropped])
            (m\<lparr>um_pages := None\<rparr>))"

definition pages_nr :: "u64 \<Rightarrow> u64 \<Rightarrow> u32" where
  "pages_nr buf len = ucast (drop_bit 12 ((buf + len + 4095) - (buf AND NOT 4095)))"

fun duplicate_pages :: "u64 list \<Rightarrow> bool" where
  "duplicate_pages (p # q # ps) \<longleftrightarrow> p = q \<or> duplicate_pages (q # ps)"
| "duplicate_pages _ \<longleftrightarrow> False"

text \<open>The list: an entry for each page, and how much of the length is left.\<close>

fun fill_list :: "u64 list \<Rightarrow> u64 \<Rightarrow> u64 \<Rightarrow> sg_list \<times> u64" where
  "fill_list [] buf len = ([], len)"
| "fill_list (p # ps) buf len =
     (let offset = buf AND 4095;
          nbytes = min (4096 - ucast offset) (ucast len :: u32);
          (es, rest) = fill_list ps (buf + ucast nbytes) (len - ucast nbytes)
      in ((p * 4096 + offset, nbytes) # es, rest))"

definition err_out :: "bool \<Rightarrow> int \<Rightarrow> umap \<Rightarrow> int \<times> sg_list \<times> umap" where
  "err_out write rv m = (rv, [], char_sgdma_unmap_user_buf write (note_mem [Table_dropped] m))"

definition char_sgdma_map_user_buf_to_sgl :: "uworld \<Rightarrow> u64 \<Rightarrow> u64 \<Rightarrow> bool \<Rightarrow> umap \<Rightarrow> int \<times> sg_list \<times> umap" where
  "char_sgdma_map_user_buf_to_sgl U buf len write m =
     (let nr = pages_nr buf len in
      if nr = 0 then (- EINVAL, [], m)
      else if \<not> uw_table U then (- ENOMEM, [], m)
      else if \<not> uw_array U then err_out write (- ENOMEM) (note_mem [Table_made] m)
      else
        let (rv, ps) = uw_pin U buf nr (\<not> write);
            m1 = note_mem [Table_made, Pages_made] (m\<lparr>um_pages := Some ps\<rparr>)
        in if rv < 0 then err_out write rv m1
           else if rv \<noteq> uint nr then err_out write (- EFAULT) (m1\<lparr>um_nr := word_of_int rv\<rparr>)
           else if duplicate_pages ps then err_out write (- EFAULT) (m1\<lparr>um_nr := nr\<rparr>)
           else case fill_list ps buf len of (es, rest) \<Rightarrow>
             if rest \<noteq> 0 then err_out write (- EINVAL) (m1\<lparr>um_nr := nr\<rparr>)
             else (0, es, m1\<lparr>um_nr := nr\<rparr>))"

section \<open>Transfers\<close>

text \<open>A fresh request block, and what a result of the thread means to the caller.\<close>

definition fresh_umap :: umap where
  "fresh_umap = \<lparr>um_pages = None, um_nr = 0, um_log = []\<rparr>"

definition transfer_ret :: "u64 \<Rightarrow> int \<Rightarrow> xio \<Rightarrow> int" where
  "transfer_ret cnt rv t = (if rv = 0 then if t_result t \<noteq> 0 then - ERESTARTSYS else sint cnt else rv)"

text \<open>
  The transfers of a client's buffer, in either direction; \<open>chan\<close> tells whether the channel has been taken, \<open>dev\<close> is
  the number of the device.
\<close>

definition user_transfer ::
  "tworld \<Rightarrow> uworld \<Rightarrow> io_cb \<Rightarrow> bool \<Rightarrow> int \<Rightarrow> u64 \<Rightarrow> u64 \<Rightarrow> xio \<Rightarrow> (int \<times> umap \<times> xio) option" where
  "user_transfer W U rq chan dev buf cnt s =
     (case char_sgdma_map_user_buf_to_sgl U buf cnt (cb_write rq) fresh_umap of (rv, sg, m) \<Rightarrow>
        if rv < 0 then Some (rv, m, s)
        else if \<not> chan then Some (- ENODEV, char_sgdma_unmap_user_buf (cb_write rq) m, s)
        else case dw_edma_run W (rq\<lparr>cb_sg := sg\<rparr>) True dev (s\<lparr>t_result := 0\<rparr>) of
          None \<Rightarrow> None
        | Some (r, t) \<Rightarrow> Some (transfer_ret cnt r t, char_sgdma_unmap_user_buf (cb_write rq) m, t))"

definition dx_sgdma_write_user ::
  "tworld \<Rightarrow> uworld \<Rightarrow> bool \<Rightarrow> int \<Rightarrow> u64 \<Rightarrow> u64 \<Rightarrow> u64 \<Rightarrow> int \<Rightarrow> bool \<Rightarrow> xio \<Rightarrow> (int \<times> umap \<times> xio) option" where
  "dx_sgdma_write_user W U chan dev buf pos cnt npu_id npu_run s =
     (if npu_id < 0 \<or> 2 \<le> npu_id then Some (- EINVAL, fresh_umap, s)
      else user_transfer W U \<lparr>cb_write = True, cb_npu_run = npu_run, cb_ep_addr = pos, cb_is_llm = True, cb_pre_mapped = False, cb_sg = []\<rparr>
        chan dev buf cnt s)"

definition dx_sgdma_read_user ::
  "tworld \<Rightarrow> uworld \<Rightarrow> nat \<Rightarrow> bool \<Rightarrow> int \<Rightarrow> u64 \<Rightarrow> u64 \<Rightarrow> u64 \<Rightarrow> int \<Rightarrow> xio \<Rightarrow> (int \<times> umap \<times> xio) option" where
  "dx_sgdma_read_user W U wr_ch_cnt chan dev buf pos cnt npu_id s =
     (if npu_id < 0 \<or> int wr_ch_cnt \<le> npu_id then Some (- EINVAL, fresh_umap, s)
      else user_transfer W U \<lparr>cb_write = False, cb_npu_run = False, cb_ep_addr = pos, cb_is_llm = True, cb_pre_mapped = False, cb_sg = []\<rparr>
        chan dev buf cnt s)"

text \<open>
  The buffer of the kernel is mapped already.  The result of the allocation of the table is not looked at: without a
  table the thread follows a null pointer, which is the result \<open>None\<close> of the transfer.
\<close>

definition char_sgdma_map_kernel_buf_to_sgl :: "bool \<Rightarrow> u64 \<Rightarrow> u64 \<Rightarrow> int \<times> sg_list option" where
  "char_sgdma_map_kernel_buf_to_sgl table dma_addr sz = (if table then (0, Some [(dma_addr, ucast sz)]) else (- ENOMEM, None))"

definition reaches_list :: "int \<Rightarrow> xio \<Rightarrow> bool" where
  "reaches_list dev s \<longleftrightarrow> 0 \<le> dev \<and> dev < 64 \<and> t_idle s \<and> dw_edma_run_chan_lock (t_chan s) \<noteq> None \<and> \<not> t_in_use s"

definition dx_sgdma_write_kernel ::
  "tworld \<Rightarrow> bool \<Rightarrow> bool \<Rightarrow> int \<Rightarrow> u64 \<Rightarrow> u64 \<Rightarrow> u64 \<Rightarrow> int \<Rightarrow> bool \<Rightarrow> xio \<Rightarrow> (int option \<times> xio) option" where
  "dx_sgdma_write_kernel W table chan dev pos dma_addr cnt npu_id npu_run s =
     (if npu_id < 0 \<or> 2 \<le> npu_id then Some (Some (- EINVAL), s)
      else
        let sg = snd (char_sgdma_map_kernel_buf_to_sgl table dma_addr cnt);
            rq = \<lparr>cb_write = True, cb_npu_run = npu_run, cb_ep_addr = pos, cb_is_llm = False, cb_pre_mapped = True, cb_sg = (case sg of Some es \<Rightarrow> es | None \<Rightarrow> [])\<rparr>
        in if \<not> chan then Some (Some (- ENODEV), s)
           else if sg = None \<and> reaches_list dev s then Some (None, s)
           else case dw_edma_run W rq True dev (s\<lparr>t_result := 0\<rparr>) of
             None \<Rightarrow> None
           | Some (r, t) \<Rightarrow> Some (Some (transfer_ret cnt r t), t))"

datatype mem_type = USER_SPACE_BUF | KERNEL_SPACE_BUF | OTHER_BUF

text \<open>The entry points; \<open>found\<close> tells whether the device is listed.  An unknown type is answered \<open>0\<close> without a transfer.\<close>

definition dx_sgdma_write ::
  "tworld \<Rightarrow> uworld \<Rightarrow> bool \<Rightarrow> mem_type \<Rightarrow> bool \<Rightarrow> bool \<Rightarrow> int \<Rightarrow> u64 \<Rightarrow> u64 \<Rightarrow> u64 \<Rightarrow> u64 \<Rightarrow> int \<Rightarrow> bool \<Rightarrow> xio \<Rightarrow> (int option \<times> xio) option" where
  "dx_sgdma_write W U found type table chan dev dest src dma_addr cnt dma_ch npu_run s =
     (if \<not> found then Some (Some (- ENODEV), s)
      else case type of
        USER_SPACE_BUF \<Rightarrow> map_option (\<lambda>(r, m, t). (Some r, t)) (dx_sgdma_write_user W U chan dev dest src cnt dma_ch npu_run s)
      | KERNEL_SPACE_BUF \<Rightarrow> dx_sgdma_write_kernel W table chan dev src dma_addr cnt dma_ch npu_run s
      | OTHER_BUF \<Rightarrow> Some (Some 0, s))"

definition dx_sgdma_read ::
  "tworld \<Rightarrow> uworld \<Rightarrow> bool \<Rightarrow> mem_type \<Rightarrow> nat \<Rightarrow> bool \<Rightarrow> int \<Rightarrow> u64 \<Rightarrow> u64 \<Rightarrow> u64 \<Rightarrow> int \<Rightarrow> xio \<Rightarrow> (int \<times> xio) option" where
  "dx_sgdma_read W U found type wr_ch_cnt chan dev src dest cnt dma_ch s =
     (if \<not> found then Some (- ENODEV, s)
      else case type of
        USER_SPACE_BUF \<Rightarrow> map_option (\<lambda>(r, m, t). (r, t)) (dx_sgdma_read_user W U wr_ch_cnt chan dev src dest cnt dma_ch s)
      | _ \<Rightarrow> Some (0, s))"

section \<open>The channels of a device\<close>

text \<open>
  \<open>g_wr\<close> and \<open>g_rd\<close> are \<open>wr_dma_chan\<close> and \<open>rd_dma_chan\<close>: the channel of the engine that has been taken, as its place in
  \<open>g_chan\<close>, the array \<open>chan\<close>; \<open>g_wr_use\<close>, \<open>g_rd_use\<close> the ownership of the transfers; \<open>g_end\<close> the device itself.
\<close>

record sgdev =
  g_state :: dx_dev_state
  g_link :: dx_link_state
  g_paused :: bool
  g_ref :: int
  g_epoch :: u32
  g_wr :: "nat \<Rightarrow> nat option"
  g_rd :: "nat \<Rightarrow> nat option"
  g_chan :: "nat \<Rightarrow> dchan"
  g_wr_use :: "nat \<Rightarrow> bool"
  g_rd_use :: "nat \<Rightarrow> bool"
  g_end :: endpoint

text \<open>
  The surroundings of a recovery: the others while the lock is waited for and while the threads are given time, what a
  channel reads as and how its reset ends, by the number of the call, and how workers end.
\<close>

record rworld =
  rw_cfg :: edma_cfg
  rw_host :: pci_host
  rw_wait :: "sgdev \<Rightarrow> sgdev"
  rw_sleep :: "sgdev \<Rightarrow> sgdev"
  rw_cs :: "nat \<Rightarrow> nat \<Rightarrow> u32"
  rw_reset :: "nat \<Rightarrow> nat \<Rightarrow> int"
  rw_settle :: "dw_edma_desc \<times> edma_mem \<Rightarrow> dw_edma_desc \<times> edma_mem"

abbreviation (input) wr_ch_cnt :: "rworld \<Rightarrow> nat" where "wr_ch_cnt R \<equiv> c_wr_cnt (rw_cfg R)"
abbreviation (input) rd_ch_cnt :: "rworld \<Rightarrow> nat" where "rd_ch_cnt R \<equiv> c_rd_cnt (rw_cfg R)"
abbreviation (input) ch_cnt :: "rworld \<Rightarrow> nat" where "ch_cnt R \<equiv> wr_ch_cnt R + rd_ch_cnt R"

section \<open>Recovery\<close>

definition transport_owns :: "sgdev \<Rightarrow> bool" where
  "transport_owns s \<longleftrightarrow> g_link s = LINK_DOWN \<or> g_state s = DEV_AER_RESET \<or> g_paused s"

text \<open>A look at every channel.\<close>

fun scan_chans :: "edma_cfg \<Rightarrow> chan_id list \<Rightarrow> bool edma" where
  "scan_chans W [] = State_Monad.return False"
| "scan_chans W (c # cs) = do {
     st \<leftarrow> dw_edma_v0_core_ch_status_raw W c;
     more \<leftarrow> scan_chans W cs;
     State_Monad.return (st = 1 \<or> st = 2 \<or> more) }"

definition any_stuck :: "rworld \<Rightarrow> sgdev \<Rightarrow> bool \<times> sgdev" where
  "any_stuck R s = (let (b, e) = run_state (on_engine (scan_chans (rw_cfg R) (all_chans (rw_cfg R)))) (g_end s) in (b, s\<lparr>g_end := e\<rparr>))"

definition on_nth :: "nat \<Rightarrow> (dchan \<Rightarrow> dchan) \<Rightarrow> sgdev \<Rightarrow> sgdev" where
  "on_nth i f s = s\<lparr>g_chan := (g_chan s)(i := f (g_chan s i))\<rparr>"

definition flag_error :: "nat \<Rightarrow> sgdev \<Rightarrow> sgdev" where
  "flag_error i = on_nth i (\<lambda>c. c\<lparr>x_hw_err := True\<rparr>)"

text \<open>The two calls for a channel that has been taken; the call itself answers \<open>0\<close> in every case.\<close>

definition terminate_nth :: "rworld \<Rightarrow> nat \<Rightarrow> nat option \<Rightarrow> sgdev \<Rightarrow> int \<times> sgdev" where
  "terminate_nth R call slot s =
     (case slot of
        None \<Rightarrow> (0, s)
      | Some i \<Rightarrow>
          let s1 = on_nth i (\<lambda>c. snd (dw_edma_device_terminate_all (rw_settle R) (rw_cs R call i) (rw_reset R call i) c)) s;
              (ret, c) = dw_edma_device_terminate_all (rw_settle R) (rw_cs R (Suc call) i) (rw_reset R (Suc call) i) (g_chan s1 i)
          in (ret, on_nth i (\<lambda>_. c) s1))"

fun terminate_each :: "rworld \<Rightarrow> nat \<Rightarrow> nat option list \<Rightarrow> int \<Rightarrow> sgdev \<Rightarrow> int \<times> sgdev" where
  "terminate_each R call [] err s = (err, s)"
| "terminate_each R call (x # xs) err s =
     (case terminate_nth R call x s of (ret, s1) \<Rightarrow>
        terminate_each R (call + 2) xs (if ret \<noteq> 0 \<and> err = 0 then ret else err) s1)"

definition safety_drain :: "rworld \<Rightarrow> nat \<Rightarrow> sgdev \<Rightarrow> sgdev" where
  "safety_drain R i = on_nth i (\<lambda>c.
     let c1 = run_tasklet (rw_settle R) c; c2 = c1\<lparr>x_vc := vchan_synchronize (x_vc c1)\<rparr>
     in drain_all (rw_settle R) [] (c2\<lparr>x_req := EDMA_REQ_NONE, x_stat := EDMA_ST_IDLE, x_conf := False\<rparr>))"

text \<open>The endpoint is reset when a channel is still stuck; a reset that worked is the answer \<open>1\<close>.\<close>

definition reset_stuck :: "rworld \<Rightarrow> int \<Rightarrow> sgdev \<Rightarrow> (int \<times> sgdev) option" where
  "reset_stuck R err s =
     (case any_stuck R s of
        (False, s1) \<Rightarrow> Some (err, s1)
      | (True, s1) \<Rightarrow>
          (case run_state (dw_edma_v0_core_pcie_reset (rw_cfg R) (rw_host R)) (g_end s1) of
             (None, _) \<Rightarrow> None
           | (Some ret, e) \<Rightarrow> Some (if ret \<noteq> 0 then if err = 0 then ret else err else 1, s1\<lparr>g_end := e\<rparr>)))"

definition reset_locked :: "rworld \<Rightarrow> sgdev \<Rightarrow> (int \<times> sgdev) option" where
  "reset_locked R s =
     (let s1 = rw_sleep R (fold flag_error [0..<ch_cnt R] (s\<lparr>g_epoch := g_epoch s + 1, g_state := DEV_RECOVERING\<rparr>));
          (err, s2) = terminate_each R 0 (map (g_wr s1) [0..<wr_ch_cnt R] @ map (g_rd s1) [0..<rd_ch_cnt R]) 0 s1;
          s3 = fold (safety_drain R) [0..<ch_cnt R] s2
      in case reset_stuck R err s3 of
           None \<Rightarrow> None
         | Some (err2, s4) \<Rightarrow>
             Some (err2, s4\<lparr>g_rd_use := (\<lambda>i. i \<ge> rd_ch_cnt R \<and> g_rd_use s4 i), g_wr_use := (\<lambda>i. i \<ge> wr_ch_cnt R \<and> g_wr_use s4 i), g_state := DEV_LIVE\<rparr>))"

definition dx_pcie_reset_dma_channels :: "rworld \<Rightarrow> sgdev \<Rightarrow> (int \<times> sgdev) option" where
  "dx_pcie_reset_dma_channels R s =
     (if g_state s = DEV_REMOVING then Some (- ENODEV, s)
      else if transport_owns s then Some (- EAGAIN, s)
      else
        let s1 = rw_wait R s in
        if transport_owns s1 then Some (- EAGAIN, s1)
        else if g_ref s1 = 0
          then (case any_stuck R s1 of (False, s2) \<Rightarrow> Some (0, s2) | (True, s2) \<Rightarrow> reset_locked R s2)
          else reset_locked R s1)"

section \<open>Taking and giving back the channels\<close>

definition dx_sgdma_ready_for_channel_alloc :: "sgdev \<Rightarrow> int" where
  "dx_sgdma_ready_for_channel_alloc s =
     (if g_state s = DEV_REMOVING then - ENODEV
      else if g_state s \<noteq> DEV_LIVE \<or> g_link s \<noteq> LINK_UP \<or> g_paused s then - EAGAIN
      else 0)"

text \<open>\<open>clients\<close> is \<open>client_count\<close> of the channels.\<close>

definition dw_edma_dma_deallocation :: "(nat \<Rightarrow> nat) \<Rightarrow> nat option \<Rightarrow> nat option" where
  "dw_edma_dma_deallocation clients slot = (case slot of None \<Rightarrow> None | Some c \<Rightarrow> if 0 < clients c then None else slot)"

text \<open>The allocation of a row of channels: the result, the row, and the places that were empty and are taken now.\<close>

fun alloc_row ::
  "((int \<times> string \<Rightarrow> bool) \<Rightarrow> nat option) \<Rightarrow> int \<Rightarrow> nat list \<Rightarrow> (nat \<Rightarrow> nat option) \<Rightarrow> nat list \<Rightarrow> int \<times> (nat \<Rightarrow> nat option) \<times> nat list" where
  "alloc_row request dev [] row got = (0, row, got)"
| "alloc_row request dev (i # is) row got =
     (case dw_edma_dma_allocation request dev (int i) (row i) of (ret, slot) \<Rightarrow>
        let row1 = row(i := slot) in
        if ret \<noteq> 0 \<or> slot = None then (if ret \<noteq> 0 then ret else - ENODEV, row1, got)
        else alloc_row request dev is row1 (if row i = None then got @ [i] else got))"

definition dealloc_row :: "(nat \<Rightarrow> nat) \<Rightarrow> nat list \<Rightarrow> (nat \<Rightarrow> nat option) \<Rightarrow> nat \<Rightarrow> nat option" where
  "dealloc_row clients is row = (\<lambda>i. if i \<in> set is then dw_edma_dma_deallocation clients (row i) else row i)"

text \<open>\<open>ids\<close> are \<open>rd_dma_id\<close> and \<open>wr_dma_id\<close>.\<close>

definition dx_sgdma_init ::
  "rworld \<Rightarrow> ((int \<times> string \<Rightarrow> bool) \<Rightarrow> nat option) \<Rightarrow> (nat \<Rightarrow> nat) \<Rightarrow> int \<times> int \<Rightarrow> sgdev \<Rightarrow> int \<times> sgdev" where
  "dx_sgdma_init R request clients ids s =
     (let ret = dx_sgdma_ready_for_channel_alloc s in
      if ret \<noteq> 0 then (ret, s)
      else
        let s1 = rw_wait R s; ret1 = dx_sgdma_ready_for_channel_alloc s1 in
        if ret1 \<noteq> 0 then (ret1, s1)
        else if wr_ch_cnt R > 8 \<or> rd_ch_cnt R > 8 then (- EINVAL, s1)
        else if g_ref s1 \<noteq> 0 then (0, s1\<lparr>g_ref := g_ref s1 + 1\<rparr>)
        else case alloc_row request (fst ids) [0..<wr_ch_cnt R] (g_wr s1) [] of (ret2, wr, wr_got) \<Rightarrow>
          if ret2 \<noteq> 0 then (ret2, s1\<lparr>g_wr := dealloc_row clients wr_got wr\<rparr>)
          else case alloc_row request (snd ids) [0..<min (rd_ch_cnt R) 2] (g_rd s1) [] of (ret3, rd, rd_got) \<Rightarrow>
            if ret3 \<noteq> 0 then (ret3, s1\<lparr>g_wr := dealloc_row clients wr_got wr, g_rd := dealloc_row clients rd_got rd\<rparr>)
            else (0, s1\<lparr>g_wr := wr, g_rd := rd, g_ref := g_ref s1 + 1\<rparr>))"

definition dx_sgdma_deinit :: "rworld \<Rightarrow> (nat \<Rightarrow> nat) \<Rightarrow> sgdev \<Rightarrow> sgdev" where
  "dx_sgdma_deinit R clients s =
     (if g_state s = DEV_REMOVING then s
      else
        let s1 = rw_wait R s in
        if g_ref s1 \<le> 0 then s1
        else if g_ref s1 = 1
          then s1\<lparr>g_wr := dealloc_row clients [0..<wr_ch_cnt R] (g_wr s1), g_rd := dealloc_row clients [0..<rd_ch_cnt R] (g_rd s1), g_ref := 0\<rparr>
          else s1\<lparr>g_ref := g_ref s1 - 1\<rparr>)"

section \<open>The list is the buffer\<close>

text \<open>The bytes of a list, and the byte \<open>j\<close> of a buffer that starts at \<open>buf\<close> in the first of the pages.\<close>

definition list_bytes :: "sg_list \<Rightarrow> u64 list" where
  "list_bytes es = concat (map (\<lambda>(a, n). map (\<lambda>k. a + of_nat k) [0..<unat n]) es)"

definition user_byte :: "u64 list \<Rightarrow> u64 \<Rightarrow> nat \<Rightarrow> u64" where
  "user_byte ps buf j =
     (let i = unat (buf AND 4095) + j in ps ! (i div PAGE_SIZE) * 4096 + of_nat (i mod PAGE_SIZE))"

lemma page_offset: "buf AND 4095 = (buf :: u64) mod 4096" "unat (buf AND 4095) = unat buf mod 4096" "unat (buf AND 4095) < 4096"
proof -
  have "buf AND 4095 = take_bit 12 buf" by (simp add: take_bit_eq_mask mask_eq_exp_minus_1)
  then show "buf AND 4095 = buf mod 4096" "unat (buf AND 4095) = unat buf mod 4096" by (simp_all add: take_bit_eq_mod unat_mod)
  then show "unat (buf AND 4095) < 4096" by simp
qed

text \<open>A length of 4 GiB or more is never used up: its upper half does not change.\<close>

lemma unat_widen: "unat (ucast (n :: u32) :: u64) = unat n"
  using unsigned_less [of n, where 'a = nat] by (simp add: unsigned_ucast_eq take_bit_nat_eq_self)

definition chunk_len :: "u64 \<Rightarrow> u64 \<Rightarrow> u32" where
  "chunk_len buf len = min (4096 - ucast (buf AND 4095)) (ucast len)"

lemma chunk_len_nat: "unat (chunk_len buf len) = min (4096 - unat (buf AND 4095)) (unat len mod 2 ^ 32)"
proof -
  have o: "unat (ucast (buf AND 4095) :: u32) = unat (buf AND 4095)"
    using page_offset(3) [of buf] by (simp add: unsigned_ucast_eq take_bit_eq_mod)
  have "(ucast (buf AND 4095) :: u32) \<le> 4096" using o page_offset(3) [of buf] by (simp add: word_le_nat_alt)
  then have "unat (4096 - ucast (buf AND 4095) :: u32) = 4096 - unat (buf AND 4095)" using o by (simp add: unat_sub)
  moreover have "unat (ucast len :: u32) = unat len mod 2 ^ 32" by (simp add: unsigned_ucast_eq take_bit_eq_mod)
  ultimately show ?thesis by (simp add: chunk_len_def min_def word_le_nat_alt)
qed

lemma chunk_len_rest:
  "unat (len - ucast (chunk_len buf len)) = unat len - unat (chunk_len buf len)" "unat (chunk_len buf len) \<le> unat len mod 2 ^ 32"
proof -
  show n: "unat (chunk_len buf len) \<le> unat len mod 2 ^ 32" by (simp add: chunk_len_nat)
  have u: "unat (ucast (chunk_len buf len) :: u64) = unat (chunk_len buf len)" by (rule unat_widen)
  then have "(ucast (chunk_len buf len) :: u64) \<le> len"
    using n mod_less_eq_dividend [of "unat len" "2 ^ 32"] by (simp add: word_le_nat_alt)
  then show "unat (len - ucast (chunk_len buf len)) = unat len - unat (chunk_len buf len)" using u by (simp add: unat_sub)
qed

lemma fill_list_Cons:
  "fill_list (p # ps) buf len = (es, rest) \<longleftrightarrow>
     (\<exists>es'. fill_list ps (buf + ucast (chunk_len buf len)) (len - ucast (chunk_len buf len)) = (es', rest) \<and>
        es = (p * 4096 + (buf AND 4095), chunk_len buf len) # es')"
  by (auto simp: chunk_len_def Let_def split: prod.splits)

lemma fill_list_high: "fill_list ps buf len = (es, rest) \<Longrightarrow> unat rest div 2 ^ 32 = unat len div 2 ^ 32"
proof (induction ps arbitrary: buf len es)
  case (Cons p ps)
  let ?n = "chunk_len buf len"
  have "(unat len - unat ?n) div 2 ^ 32 = unat len div 2 ^ 32"
  proof -
    have "unat len - unat ?n = 2 ^ 32 * (unat len div 2 ^ 32) + (unat len mod 2 ^ 32 - unat ?n)"
      using chunk_len_rest(2) [of buf len] mult_div_mod_eq [of "2 ^ 32" "unat len"] by linarith
    moreover have "unat len mod 2 ^ 32 - unat ?n < 2 ^ 32" by (meson diff_le_self le_less_trans mod_less_divisor zero_less_numeral zero_less_power)
    ultimately show ?thesis by simp
  qed
  then show ?case using Cons chunk_len_rest(1) [of len buf] by (auto simp: fill_list_Cons simp del: fill_list.simps)
qed simp

lemma map_shift: "map (\<lambda>j. f (n + j)) [0..<k] = map f [n..<n + k]"
  by (rule nth_equalityI) simp_all

lemma fill_list_exact:
  "fill_list ps buf len = (es, 0) \<Longrightarrow> list_bytes es = map (user_byte ps buf) [0..<unat len]"
proof (induction ps arbitrary: buf len es)
  case (Cons p ps)
  let ?n = "chunk_len buf len" and ?o = "unat (buf AND 4095)"
  obtain es' where f: "fill_list ps (buf + ucast ?n) (len - ucast ?n) = (es', 0)" "es = (p * 4096 + (buf AND 4095), ?n) # es'"
    using Cons.prems by (auto simp: fill_list_Cons simp del: fill_list.simps)
  have small: "unat len < 2 ^ 32" using fill_list_high [OF Cons.prems] by (simp add: div_eq_0_iff)
  then have n: "unat ?n = min (4096 - ?o) (unat len)" by (simp add: chunk_len_nat)
  have ih: "list_bytes es' = map (user_byte ps (buf + ucast ?n)) [0..<unat len - unat ?n]"
    using Cons.IH [OF f(1)] chunk_len_rest(1) [of len buf] by simp
  have here: "p * 4096 + (buf AND 4095) + of_nat k = user_byte (p # ps) buf k" if "k < unat ?n" for k
  proof -
    have "?o + k < 4096" using that n page_offset(3) [of buf] by linarith
    then show ?thesis by (simp add: user_byte_def Let_def)
  qed
  have there: "user_byte ps (buf + ucast ?n) j = user_byte (p # ps) buf (unat ?n + j)" if "j < unat len - unat ?n" for j
  proof -
    have e: "unat ?n = 4096 - ?o" using that n by linarith
    have "unat (ucast ?n :: u64) = unat ?n" by (rule unat_widen)
    then have "unat (buf + ucast ?n) mod 4096 = (unat buf + (4096 - unat buf mod 4096)) mod 4096"
      using e by (simp add: unat_word_ariths page_offset(2) mod_mod_cancel)
    also have "\<dots> = 0" by (metis add.commute le_add_diff_inverse2 mod_add_left_eq mod_less_divisor mod_self nat_less_le zero_less_numeral)
    finally have z: "unat ((buf + ucast ?n) AND 4095) = 0" by (simp add: page_offset(2))
    have o: "?o + (unat ?n + j) = 4096 + j" using e page_offset(3) [of buf] by linarith
    have "(4096 + j) div 4096 = Suc (j div 4096)" by (metis Suc_eq_plus1 div_add_self1 zero_neq_numeral)
    then show ?thesis unfolding user_byte_def Let_def z o by simp
  qed
  have "list_bytes es = map (user_byte (p # ps) buf) [0..<unat ?n] @ map (\<lambda>j. user_byte (p # ps) buf (unat ?n + j)) [0..<unat len - unat ?n]"
    using ih here there by (simp add: f(2) list_bytes_def)
  also have "\<dots> = map (user_byte (p # ps) buf) ([0..<unat ?n] @ [unat ?n..<unat ?n + (unat len - unat ?n)])"
    by (simp add: map_shift)
  also have "\<dots> = map (user_byte (p # ps) buf) [0..<unat len]"
    using upt_add_eq_append [of 0 "unat ?n" "unat len - unat ?n"] n by simp
  finally show ?case .
qed (simp add: list_bytes_def)

text \<open>What \<open>get_user_pages_fast\<close> promises: as many pages as it says, all of them real.\<close>

definition pins_pages :: "uworld \<Rightarrow> bool" where
  "pins_pages U \<longleftrightarrow> (\<forall>buf nr w. case uw_pin U buf nr w of (rv, ps) \<Rightarrow>
     rv \<le> uint nr \<and> (if rv < 0 then ps = [] else int (length ps) = rv) \<and> 0 \<notin> set ps)"

lemma entry_in_page: "unat ((p * 4096 + (buf AND 4095)) AND 4095) + unat (chunk_len buf len) \<le> 4096" for p :: u64
proof -
  have "unat ((p * 4096 + (buf AND 4095)) AND 4095) = unat (buf AND 4095)"
  proof -
    have "(unat p * 4096 mod 18446744073709551616 + unat buf) mod 4096 = unat buf mod 4096"
      using mod_add_left_eq [of "unat p * 4096 mod 18446744073709551616" 4096 "unat buf"] by (simp add: mod_mod_cancel)
    then show ?thesis by (simp add: page_offset(2) unat_word_ariths mod_mod_cancel mod_simps)
  qed
  then show ?thesis using page_offset(3) [of buf] by (simp add: chunk_len_nat)
qed

lemma fill_list_in_pages: "fill_list ps buf len = (es, rest) \<Longrightarrow> \<forall>(a, n) \<in> set es. unat (a AND 4095) + unat n \<le> PAGE_SIZE"
  by (induction ps arbitrary: buf len es) (auto simp: fill_list_Cons entry_in_page simp del: fill_list.simps(2), fastforce)

text \<open>
  (C23) The list that is made of a client's buffer is the buffer: byte \<open>j\<close> of the list is byte \<open>j\<close> of the buffer, in the
  page that holds it, for every byte and nothing else, and no entry crosses a page.  A buffer of 4 GiB or more is
  never taken.
\<close>

theorem user_list_exact:
  assumes "char_sgdma_map_user_buf_to_sgl U buf len write m = (0, es, m1)"
  shows "\<exists>ps. uw_pin U buf (pages_nr buf len) (\<not> write) = (uint (pages_nr buf len), ps) \<and>
    list_bytes es = map (user_byte ps buf) [0..<unat len] \<and> (\<forall>(a, n) \<in> set es. unat (a AND 4095) + unat n \<le> PAGE_SIZE) \<and>
    unat len < 2 ^ 32"
proof -
  obtain rv ps where p: "uw_pin U buf (pages_nr buf len) (\<not> write) = (rv, ps)" by fastforce
  have f: "rv = uint (pages_nr buf len)" "fill_list ps buf len = (es, 0)"
    using assms p by (auto simp: char_sgdma_map_user_buf_to_sgl_def err_out_def Let_def split: if_splits prod.splits)
  from fill_list_high [OF f(2)] have "unat len < 2 ^ 32" by (simp add: div_eq_0_iff)
  then show ?thesis using p f fill_list_exact fill_list_in_pages by blast
qed

text \<open>Letting go of the pages, when all of them are real.\<close>

lemma unmap_all:
  assumes "um_pages m = Some ps" "0 \<notin> set ps" "unat (um_nr m) = length ps" "um_nr m \<noteq> 0"
  shows "char_sgdma_unmap_user_buf write m =
    m\<lparr>um_pages := None, um_log := um_log m @ map (\<lambda>p. Page_put p (\<not> write)) ps @ [Pages_dropped]\<rparr>"
proof -
  have tw: "takeWhile (\<lambda>p. p \<noteq> 0) ps = ps" using assms(2) by (auto simp: takeWhile_eq_all_conv)
  show ?thesis using assms by (simp add: char_sgdma_unmap_user_buf_def note_mem_def tw)
qed

text \<open>The two ways a mapping ends when pages were pinned.\<close>

lemma map_pins:
  assumes "pins_pages U" "uw_table U" "uw_array U" "uw_pin U buf (pages_nr buf len) (\<not> write) = (rv, ps)" "0 < rv"
    and "char_sgdma_map_user_buf_to_sgl U buf len write fresh_umap = (r, es, m)"
  obtains (mapped) "r = 0" "um_pages m = Some ps" "0 \<notin> set ps" "unat (um_nr m) = length ps" "um_nr m \<noteq> 0" "um_log m = [Table_made, Pages_made]"
  | (failed) "r < 0" "um_pages m = None"
      "um_log m = [Table_made, Pages_made, Table_dropped] @ map (\<lambda>p. Page_put p (\<not> write)) ps @ [Pages_dropped]"
proof -
  have u: "rv \<le> uint (pages_nr buf len)" "int (length ps) = rv" "0 \<notin> set ps"
    using assms(1,4,5) unfolding pins_pages_def by (auto dest!: spec [of _ buf] spec [of _ "pages_nr buf len"] spec [of _ "\<not> write"])
  define m1 where "m1 = note_mem [Table_made, Pages_made] (fresh_umap\<lparr>um_pages := Some ps\<rparr>)"
  have nr: "pages_nr buf len \<noteq> 0" using u assms(5) by auto
  have small: "rv < 2 ^ 32" using u(1) unsigned_less [of "pages_nr buf len", where 'a = int] by simp
  have e: "char_sgdma_map_user_buf_to_sgl U buf len write fresh_umap =
      (if rv \<noteq> uint (pages_nr buf len) then err_out write (- EFAULT) (m1\<lparr>um_nr := word_of_int rv\<rparr>)
       else if duplicate_pages ps then err_out write (- EFAULT) (m1\<lparr>um_nr := pages_nr buf len\<rparr>)
       else case fill_list ps buf len of (es, rest) \<Rightarrow>
         if rest \<noteq> 0 then err_out write (- EINVAL) (m1\<lparr>um_nr := pages_nr buf len\<rparr>) else (0, es, m1\<lparr>um_nr := pages_nr buf len\<rparr>))"
    using assms(2-5) nr by (simp add: char_sgdma_map_user_buf_to_sgl_def m1_def Let_def split: prod.split)
  have w: "word_of_int rv = pages_nr buf len \<or> rv \<noteq> uint (pages_nr buf len)" by auto
  have n: "unat (word_of_int rv :: u32) = length ps" "(word_of_int rv :: u32) \<noteq> 0"
  proof -
    have "uint (word_of_int rv :: u32) = rv" using small assms(5) by (simp add: uint_word_of_int)
    then show "unat (word_of_int rv :: u32) = length ps" "(word_of_int rv :: u32) \<noteq> 0" using u(2) assms(5) by (metis nat_int nat_uint_eq, auto)
  qed
  have x: "err_out write er (m1\<lparr>um_nr := word_of_int rv\<rparr>) = (er, [], (m1\<lparr>um_nr := word_of_int rv\<rparr>)\<lparr>um_pages := None,
      um_log := [Table_made, Pages_made, Table_dropped] @ map (\<lambda>p. Page_put p (\<not> write)) ps @ [Pages_dropped]\<rparr>)" for er
    unfolding err_out_def using u(3) n
    by (subst unmap_all [of _ ps]) (simp_all add: note_mem_def m1_def fresh_umap_def)
  show thesis
  proof (cases "r < 0")
    case True
    show thesis
    proof (rule failed [OF True])
      show "um_pages m = None" "um_log m = [Table_made, Pages_made, Table_dropped] @ map (\<lambda>p. Page_put p (\<not> write)) ps @ [Pages_dropped]"
        using assms(6) True x w unfolding e by (auto split: if_splits prod.splits)
    qed
  next
    case False
    then have "r = 0" "m = m1\<lparr>um_nr := word_of_int rv\<rparr>" using assms(6) x w unfolding e by (auto split: if_splits prod.splits)
    then show thesis using mapped u n by (simp add: m1_def note_mem_def fresh_umap_def)
  qed
qed


section \<open>What a transfer forgets\<close>

text \<open>When no page is pinned the array stays behind.\<close>

lemma pages_array_leaks:
  assumes "uw_table U" "uw_array U" "uw_pin U buf (pages_nr buf len) (\<not> cb_write rq) = (- EFAULT, [])" "pages_nr buf len \<noteq> 0"
  shows "user_transfer W U rq chan dev buf len s =
    Some (- EFAULT, \<lparr>um_pages = Some [], um_nr = 0, um_log = [Table_made, Pages_made, Table_dropped]\<rparr>, s)"
  using assms by (simp add: user_transfer_def char_sgdma_map_user_buf_to_sgl_def err_out_def note_mem_def
      char_sgdma_unmap_user_buf_def fresh_umap_def Let_def)

text \<open>Without a channel, and when the thread is busy, the table stays behind.\<close>

lemma table_leaks:
  assumes "pins_pages U" "uw_table U" "uw_array U" "uw_pin U buf (pages_nr buf len) (\<not> cb_write rq) = (rv, ps)" "0 < rv"
    and "fst (char_sgdma_map_user_buf_to_sgl U buf len (cb_write rq) fresh_umap) = 0" "\<not> chan \<or> \<not> t_idle s" "0 \<le> dev" "dev < 64"
  shows "\<exists>r m. user_transfer W U rq chan dev buf len s = Some (r, m, s\<lparr>t_result := (if chan then 0 else t_result s)\<rparr>) \<and>
    (r = - ENODEV \<or> r = - EBUSY) \<and> Table_dropped \<notin> set (um_log m)"
proof -
  obtain r1 es m1 where p: "char_sgdma_map_user_buf_to_sgl U buf len (cb_write rq) fresh_umap = (r1, es, m1)" by (metis prod_cases3)
  show ?thesis
  proof (cases rule: map_pins [OF assms(1-5) p])
    case 1
    then show ?thesis using assms(7-9) p unmap_all [OF 1(2-5)] by (auto simp: user_transfer_def dw_edma_run_def transfer_ret_def)
  next
    case 2
    then show ?thesis using assms(6) p by simp
  qed
qed

text \<open>A kernel buffer whose table could not be had is followed all the same.\<close>

lemma kernel_table_missing:
  "0 \<le> npu_id \<Longrightarrow> npu_id < 2 \<Longrightarrow> reaches_list dev s \<Longrightarrow> dx_sgdma_write_kernel W False True dev pos dma_addr cnt npu_id npu_run s = Some (None, s)"
  by (simp add: dx_sgdma_write_kernel_def char_sgdma_map_kernel_buf_to_sgl_def Let_def)

text \<open>A buffer of an unknown kind, and a kernel buffer to be read into, are answered with a zero.\<close>

lemma unknown_buffer_no_error:
  "dx_sgdma_write W U True OTHER_BUF table chan dev dest src dma_addr cnt dma_ch npu_run s = Some (Some 0, s)"
  "dx_sgdma_read W U True KERNEL_SPACE_BUF n chan dev src dest cnt dma_ch s = Some (0, s)"
  by (simp_all add: dx_sgdma_write_def dx_sgdma_read_def)

section \<open>A recovery leaves clean channels\<close>

text \<open>Nothing on any list, no callback to come, no request and no configuration.\<close>

definition cleared :: "dchan \<Rightarrow> bool" where
  "cleared c \<longleftrightarrow> x_req c = EDMA_REQ_NONE \<and> x_stat c = EDMA_ST_IDLE \<and> \<not> x_conf c \<and> all_descs (x_vc c) = [] \<and> \<not> task_scheduled (x_vc c)"

definition no_reuse :: "'d vchan \<Rightarrow> bool" where
  "no_reuse v \<longleftrightarrow> (\<forall>d. \<not> tx_reuse v d)"

lemma fini_list:
  "no_reuse v \<Longrightarrow> fold vchan_vdesc_fini ds v = v\<lparr>freed := freed v @ ds\<rparr>"
  by (induction ds arbitrary: v) (simp_all add: vchan_vdesc_fini_def no_reuse_def)

lemma complete_list:
  "no_reuse v \<Longrightarrow> fold complete_one ds v = v\<lparr>freed := freed v @ ds, called := called v @ ds\<rparr>"
  by (induction ds arbitrary: v) (simp_all add: complete_one_def vchan_vdesc_fini_def no_reuse_def)

lemma complete_clean: "no_reuse v \<Longrightarrow> no_reuse (vchan_complete v) \<and> \<not> task_scheduled (vchan_complete v)"
  by (simp add: vchan_complete_def complete_take_def complete_list no_reuse_def Let_def)

lemma synchronize_clean: "no_reuse v \<Longrightarrow> no_reuse (vchan_synchronize v) \<and> \<not> task_scheduled (vchan_synchronize v)"
  using complete_clean [of v] by (simp add: vchan_synchronize_def vchan_dma_desc_free_list_def fini_list no_reuse_def Let_def)

lemma release_keeps [simp]:
  "x_vc (release_desc f d c) = x_vc c" "x_req (release_desc f d c) = x_req c" "x_stat (release_desc f d c) = x_stat c"
  "x_conf (release_desc f d c) = x_conf c"
  by (simp_all add: release_desc_def)

lemma release_list_keeps [simp]:
  "x_vc (fold (release_desc f) ds c) = x_vc c" "x_req (fold (release_desc f) ds c) = x_req c"
  "x_stat (fold (release_desc f) ds c) = x_stat c" "x_conf (fold (release_desc f) ds c) = x_conf c"
  by (induction ds arbitrary: c) simp_all

lemma drain_clears:
  assumes "no_reuse (x_vc c)" "\<not> task_scheduled (x_vc c)" "x_req c = EDMA_REQ_NONE" "x_stat c = EDMA_ST_IDLE" "\<not> x_conf c"
  shows "cleared (drain_all f ds c)" "no_reuse (x_vc (drain_all f ds c))"
  using assms by (simp_all add: drain_all_def vchan_get_all_descriptors_def vchan_dma_desc_free_list_def fini_list no_reuse_def
      cleared_def all_descs_def Let_def)

lemma tasklet_no_reuse: "no_reuse (x_vc c) \<Longrightarrow> no_reuse (x_vc (run_tasklet f c))"
  using complete_clean [of "x_vc c"] by (simp add: run_tasklet_def)

lemma safety_drain_clears: "no_reuse (x_vc (g_chan s i)) \<Longrightarrow> cleared (g_chan (safety_drain R i s) i)"
  using synchronize_clean [OF tasklet_no_reuse [of "g_chan s i" "rw_settle R"]]
  by (simp add: safety_drain_def on_nth_def Let_def drain_clears)

lemma safety_drain_other: "i \<noteq> j \<Longrightarrow> g_chan (safety_drain R i s) j = g_chan s j"
  by (simp add: safety_drain_def on_nth_def)

lemma drain_each:
  "\<forall>i \<in> set is. no_reuse (x_vc (g_chan s i)) \<Longrightarrow> distinct is \<Longrightarrow> \<forall>i \<in> set is. cleared (g_chan (fold (safety_drain R) is s) i)"
proof -
  have other: "j \<notin> set is \<Longrightarrow> g_chan (fold (safety_drain R) is s) j = g_chan s j" for j "is" and s :: sgdev
    by (induction "is" arbitrary: s) (auto simp: safety_drain_other)
  show "\<forall>i \<in> set is. no_reuse (x_vc (g_chan s i)) \<Longrightarrow> distinct is \<Longrightarrow> \<forall>i \<in> set is. cleared (g_chan (fold (safety_drain R) is s) i)"
  proof (induction "is" arbitrary: s)
    case (Cons i "is")
    have "\<forall>k \<in> set is. no_reuse (x_vc (g_chan (safety_drain R i s) k))"
      using Cons.prems safety_drain_other [of i _ R s] by (metis distinct.simps(2) list.set_intros(2))
    then have "\<forall>k \<in> set is. cleared (g_chan (fold (safety_drain R) is (safety_drain R i s)) k)"
      using Cons.IH Cons.prems(2) by simp
    then show ?case using Cons.prems other [of i "is" "safety_drain R i s"] safety_drain_clears [of s i R] by simp
  qed simp
qed

lemma locked_no_reuse: "no_reuse (x_vc c) \<Longrightarrow> no_reuse (x_vc (snd (snd (terminate_locked cs rst c))))"
  by (simp add: terminate_locked_def no_reuse_def Let_def)

lemma drain_no_reuse: "no_reuse (x_vc c) \<Longrightarrow> no_reuse (x_vc (drain_all f ds c))"
  by (simp add: drain_all_def vchan_get_all_descriptors_def vchan_dma_desc_free_list_def fini_list no_reuse_def Let_def)

lemma terminate_no_reuse: "no_reuse (x_vc c) \<Longrightarrow> no_reuse (x_vc (snd (dw_edma_device_terminate_all f cs rst c)))"
  using locked_no_reuse [of c cs rst] synchronize_clean [OF tasklet_no_reuse]
  by (auto simp: dw_edma_device_terminate_all_def Let_def intro!: drain_no_reuse split: prod.splits bool.splits)

lemma terminate_zero: "fst (dw_edma_device_terminate_all f cs rst c) = 0"
  by (simp add: dw_edma_device_terminate_all_def Let_def split: prod.splits bool.splits)

text \<open>All that a call on one channel leaves alone.\<close>

definition same_but_chans :: "sgdev \<Rightarrow> sgdev \<Rightarrow> bool" where
  "same_but_chans s t \<longleftrightarrow> t\<lparr>g_chan := g_chan s\<rparr> = s"

lemma same_chans_trans: "same_but_chans s t \<Longrightarrow> same_but_chans t u \<Longrightarrow> same_but_chans s u"
  by (cases s; cases t; cases u) (simp add: same_but_chans_def)

lemma same_on_nth: "same_but_chans s (on_nth i f s)"
  by (cases s) (simp add: same_but_chans_def on_nth_def)

lemma terminate_nth_frame:
  assumes "terminate_nth R call slot s = (ret, t)"
  shows "ret = 0" "same_but_chans s t" "(\<forall>i. no_reuse (x_vc (g_chan s i))) \<Longrightarrow> \<forall>i. no_reuse (x_vc (g_chan t i))"
proof -
  show "ret = 0"
    using assms terminate_zero by (auto simp: terminate_nth_def Let_def split: option.splits prod.splits) (metis fst_conv)
  show "same_but_chans s t"
    using assms same_chans_trans [OF same_on_nth same_on_nth]
    by (auto simp: terminate_nth_def Let_def same_but_chans_def split: option.splits prod.splits)
  show "\<forall>i. no_reuse (x_vc (g_chan t i))" if n: "\<forall>i. no_reuse (x_vc (g_chan s i))"
  proof (cases slot)
    case None
    then show ?thesis using assms n by (simp add: terminate_nth_def)
  next
    case (Some j)
    let ?f = "\<lambda>k c. dw_edma_device_terminate_all (rw_settle R) (rw_cs R k j) (rw_reset R k j) c"
    have "g_chan t = (g_chan s)(j := snd (?f (Suc call) (snd (?f call (g_chan s j)))))"
      using assms Some by (auto simp: terminate_nth_def on_nth_def Let_def split: prod.splits)
    then show ?thesis using n terminate_no_reuse by simp
  qed
qed

lemma terminate_each_frame:
  "terminate_each R call xs err s = (ret, t) \<Longrightarrow> ret = err \<and> same_but_chans s t \<and>
    ((\<forall>i. no_reuse (x_vc (g_chan s i))) \<longrightarrow> (\<forall>i. no_reuse (x_vc (g_chan t i))))"
proof (induction xs arbitrary: call s err)
  case Nil
  then show ?case by (simp add: same_but_chans_def)
next
  case (Cons x xs)
  obtain r1 s1 where 1: "terminate_nth R call x s = (r1, s1)" by fastforce
  note f = terminate_nth_frame [OF 1]
  have "terminate_each R (call + 2) xs err s1 = (ret, t)" using Cons.prems 1 f(1) by simp
  then show ?case using Cons.IH f same_chans_trans by blast
qed

lemma drain_frame: "same_but_chans s (fold (safety_drain R) is s)"
proof (induction "is" arbitrary: s)
  case (Cons i "is")
  then show ?case using same_chans_trans [of s "safety_drain R i s"] same_on_nth by (simp add: safety_drain_def)
qed (simp add: same_but_chans_def)

lemma reset_stuck_frame:
  assumes "reset_stuck R err s = Some (r, t)"
  shows "t = s\<lparr>g_end := g_end t\<rparr>"
proof -
  have "snd (any_stuck R s) = s\<lparr>g_end := g_end (snd (any_stuck R s))\<rparr>"
    by (simp add: any_stuck_def Let_def split: prod.split)
  then show ?thesis using assms
    by (auto simp: reset_stuck_def split: prod.splits bool.splits option.splits) (metis sgdev.surjective sgdev.update_convs(11) snd_conv)+
qed

text \<open>
  The others, while the threads are given time, do not start another recovery, which needs the lock, and prepare no
  descriptor that is to be used again.
\<close>

definition once_only :: "sgdev \<Rightarrow> bool" where
  "once_only s \<longleftrightarrow> (\<forall>i. no_reuse (x_vc (g_chan s i)))"

definition fair_sleep :: "rworld \<Rightarrow> bool" where
  "fair_sleep R \<longleftrightarrow> (\<forall>s. g_epoch (rw_sleep R s) = g_epoch s \<and> (once_only s \<longrightarrow> once_only (rw_sleep R s)))"

lemma reset_locked_clean:
  assumes "fair_sleep R" "once_only s" "reset_locked R s = Some (r, t)"
  shows "g_state t = DEV_LIVE \<and> g_epoch t = g_epoch s + 1 \<and> (\<forall>i < ch_cnt R. cleared (g_chan t i)) \<and>
    (\<forall>i < wr_ch_cnt R. \<not> g_wr_use t i) \<and> (\<forall>i < rd_ch_cnt R. \<not> g_rd_use t i)"
proof -
  define s0 where "s0 = fold flag_error [0..<ch_cnt R] (s\<lparr>g_epoch := g_epoch s + 1, g_state := DEV_RECOVERING\<rparr>)"
  define s1 where "s1 = rw_sleep R s0"
  obtain err s2 where t: "terminate_each R 0 (map (g_wr s1) [0..<wr_ch_cnt R] @ map (g_rd s1) [0..<rd_ch_cnt R]) 0 s1 = (err, s2)" by fastforce
  define s3 where "s3 = fold (safety_drain R) [0..<ch_cnt R] s2"
  obtain err2 s4 where s4: "reset_stuck R err s3 = Some (err2, s4)"
      "t = s4\<lparr>g_rd_use := (\<lambda>i. i \<ge> rd_ch_cnt R \<and> g_rd_use s4 i), g_wr_use := (\<lambda>i. i \<ge> wr_ch_cnt R \<and> g_wr_use s4 i), g_state := DEV_LIVE\<rparr>"
    using assms(3) t unfolding reset_locked_def Let_def s0_def [symmetric] s1_def [symmetric]
    by (auto simp: s3_def split: option.splits)
  have flags: "g_epoch (fold flag_error is u) = g_epoch u \<and> (once_only u \<longrightarrow> once_only (fold flag_error is u))" for "is" u
  proof (induction "is" arbitrary: u)
    case (Cons i "is")
    have "once_only u \<longrightarrow> once_only (flag_error i u)" by (simp add: flag_error_def on_nth_def once_only_def)
    then show ?case using Cons [of "flag_error i u"] by (simp add: flag_error_def on_nth_def)
  qed simp
  have "once_only s0" using flags assms(2) by (simp add: s0_def once_only_def)
  have e1: "g_epoch s1 = g_epoch s + 1" using assms(1) flags by (simp add: fair_sleep_def s1_def s0_def)
  have "\<forall>i. no_reuse (x_vc (g_chan s1 i))" using assms(1) \<open>once_only s0\<close> unfolding fair_sleep_def once_only_def s1_def by blast
  then have 2: "same_but_chans s1 s2" "\<forall>i. no_reuse (x_vc (g_chan s2 i))" using terminate_each_frame [OF t] by auto
  have 3: "same_but_chans s2 s3" "\<forall>i < ch_cnt R. cleared (g_chan s3 i)"
    using drain_frame [of s2 R] drain_each [of "[0..<ch_cnt R]" s2 R] 2 by (simp_all add: s3_def)
  have "g_epoch s3 = g_epoch s1" using same_chans_trans [OF 2(1) 3(1)] by (cases s1; cases s3) (simp add: same_but_chans_def)
  moreover have "g_chan s4 = g_chan s3" "g_epoch s4 = g_epoch s3"
    using reset_stuck_frame [OF s4(1)] by (metis sgdev.select_convs(5,8) sgdev.surjective sgdev.update_convs(11))+
  ultimately show ?thesis using e1 3(2) by (simp add: s4(2))
qed

text \<open>
  (C24) A recovery that goes through leaves every channel clean: no request, no configuration, nothing on any list and no
  callback to come, so that nothing of an old transfer reaches a new one; nobody owns a channel, the epoch has moved on, so
  that every thread that was waiting takes its transfer for failed, and the device admits transfers again.
\<close>

theorem reset_cleans_channels:
  assumes "fair_sleep R" "g_state s \<noteq> DEV_REMOVING" "\<not> transport_owns s" "\<not> transport_owns (rw_wait R s)" "g_ref (rw_wait R s) \<noteq> 0"
    and "once_only (rw_wait R s)" "dx_pcie_reset_dma_channels R s = Some (r, t)"
  shows "g_state t = DEV_LIVE \<and> g_epoch t = g_epoch (rw_wait R s) + 1 \<and> (\<forall>i < wr_ch_cnt R + rd_ch_cnt R. cleared (g_chan t i)) \<and>
    (\<forall>i < wr_ch_cnt R. \<not> g_wr_use t i) \<and> (\<forall>i < rd_ch_cnt R. \<not> g_rd_use t i)"
proof -
  have "reset_locked R (rw_wait R s) = Some (r, t)" using assms(2-5,7) by (simp add: dx_pcie_reset_dma_channels_def Let_def)
  from reset_locked_clean [OF assms(1,6) this] show ?thesis .
qed

section \<open>Users of a device\<close>

lemma alloc_slot:
  "dw_edma_dma_allocation request dev i slot = (ret, slot') \<Longrightarrow> if ret = 0 then (slot \<noteq> None \<longrightarrow> slot' = slot) else slot' = slot"
  by (auto simp: dw_edma_dma_allocation_def split: if_splits option.splits)

text \<open>A row after an allocation: what was there stays, only places that are noted have been taken, and on success none is empty.\<close>

lemma alloc_row_spec:
  assumes "alloc_row request dev is row got = (r, row', got')" "distinct is"
  shows "set got \<subseteq> set got'" "\<forall>j. j \<notin> set got' \<longrightarrow> row' j = row j" "\<forall>j \<in> set got'. j \<in> set got \<or> row j = None"
    "\<forall>j. row j \<noteq> None \<longrightarrow> row' j = row j" "\<forall>j. j \<notin> set is \<longrightarrow> row' j = row j" "r = 0 \<longrightarrow> (\<forall>j \<in> set is. row' j \<noteq> None)"
proof -
  have "set got \<subseteq> set got' \<and> (\<forall>j. j \<notin> set got' \<longrightarrow> row' j = row j) \<and> (\<forall>j \<in> set got'. j \<in> set got \<or> row j = None) \<and>
    (\<forall>j. row j \<noteq> None \<longrightarrow> row' j = row j) \<and> (\<forall>j. j \<notin> set is \<longrightarrow> row' j = row j) \<and> (r = 0 \<longrightarrow> (\<forall>j \<in> set is. row' j \<noteq> None))"
    using assms
  proof (induction "is" arbitrary: row got)
    case (Cons i "is")
    obtain ret slot where a: "dw_edma_dma_allocation request dev (int i) (row i) = (ret, slot)" by fastforce
    note sl = alloc_slot [OF a]
    show ?case
    proof (cases "ret \<noteq> 0 \<or> slot = None")
      case True
      then have "row' = row(i := slot)" "got' = got" "r \<noteq> 0" "slot = row i"
        using Cons.prems(1) a sl by (auto simp: Let_def split: if_splits)
      then show ?thesis by simp
    next
      case False
      let ?got = "if row i = None then got @ [i] else got"
      have "alloc_row request dev is (row(i := slot)) ?got = (r, row', got')" using Cons.prems(1) a False by (simp add: Let_def del: not_None_eq)
      note h = Cons.IH [OF this] and d = Cons.prems(2)
      have "row' i = slot" using h d by simp
      then show ?thesis using h d False sl by (auto split: if_splits)
    qed
  qed simp
  note h = this
  show "set got \<subseteq> set got'" by (rule h [THEN conjunct1])
  note h = h [THEN conjunct2]
  show "\<forall>j. j \<notin> set got' \<longrightarrow> row' j = row j" by (rule h [THEN conjunct1])
  note h = h [THEN conjunct2]
  show "\<forall>j \<in> set got'. j \<in> set got \<or> row j = None" by (rule h [THEN conjunct1])
  note h = h [THEN conjunct2]
  show "\<forall>j. row j \<noteq> None \<longrightarrow> row' j = row j" by (rule h [THEN conjunct1])
  note h = h [THEN conjunct2]
  show "\<forall>j. j \<notin> set is \<longrightarrow> row' j = row j" by (rule h [THEN conjunct1])
  show "r = 0 \<longrightarrow> (\<forall>j \<in> set is. row' j \<noteq> None)" by (rule h [THEN conjunct2])
qed

lemma dealloc_undoes:
  assumes "alloc_row request dev is row [] = (r, row', got)" "distinct is" "\<forall>c. 0 < clients c"
  shows "dealloc_row clients got row' = row"
  using alloc_row_spec [OF assms(1,2)] assms(3)
  by (auto simp: dealloc_row_def dw_edma_dma_deallocation_def fun_eq_iff split: option.splits)

text \<open>The channels that a user needs are taken while there are users, and none is otherwise.\<close>

definition users_ok :: "rworld \<Rightarrow> sgdev \<Rightarrow> bool" where
  "users_ok R s \<longleftrightarrow> 0 \<le> g_ref s \<and>
     (if 0 < g_ref s then (\<forall>i < wr_ch_cnt R. g_wr s i \<noteq> None) \<and> (\<forall>i < min (rd_ch_cnt R) 2. g_rd s i \<noteq> None)
      else (\<forall>i < wr_ch_cnt R. g_wr s i = None) \<and> (\<forall>i < rd_ch_cnt R. g_rd s i = None))"

text \<open>Who waits for the lock may find the users changed, but not the rule.\<close>

definition fair_lock :: "rworld \<Rightarrow> bool" where
  "fair_lock R \<longleftrightarrow> (\<forall>s. users_ok R s \<longrightarrow> users_ok R (rw_wait R s))"

text \<open>
  Taking the channels of a device is all or nothing: on failure the channels and the count are as they were when the lock
  was got, whatever was taken before the failure.
\<close>

lemma init_outcome:
  assumes "fair_lock R" "users_ok R s" "\<forall>c. 0 < clients c" "dx_sgdma_init R request clients ids s = (r, t)"
  shows "if r = 0
    then g_ref t = g_ref (rw_wait R s) + 1 \<and> 0 < g_ref t \<and> (\<forall>i < wr_ch_cnt R. g_wr t i \<noteq> None) \<and> (\<forall>i < min (rd_ch_cnt R) 2. g_rd t i \<noteq> None)
    else t = s \<or> t = rw_wait R s"
proof (cases "dx_sgdma_ready_for_channel_alloc s = 0 \<and> dx_sgdma_ready_for_channel_alloc (rw_wait R s) = 0 \<and> \<not> (wr_ch_cnt R > 8 \<or> rd_ch_cnt R > 8)")
  case False
  then show ?thesis using assms(4) by (auto simp: dx_sgdma_init_def Let_def split: if_splits)
next
  case True
  let ?s = "rw_wait R s"
  have ok: "users_ok R ?s" using assms(1,2) by (simp add: fair_lock_def)
  show ?thesis
  proof (cases "g_ref ?s = 0")
    case f: False
    then have "r = 0" "t = ?s\<lparr>g_ref := g_ref ?s + 1\<rparr>" using assms(4) True by (auto simp: dx_sgdma_init_def Let_def)
    then show ?thesis using ok f by (auto simp: users_ok_def)
  next
    case z: True
    obtain r2 wr wg where a: "alloc_row request (fst ids) [0..<wr_ch_cnt R] (g_wr ?s) [] = (r2, wr, wg)" by (metis prod_cases3)
    obtain r3 rd rg where b: "alloc_row request (snd ids) [0..<min (rd_ch_cnt R) 2] (g_rd ?s) [] = (r3, rd, rg)" by (metis prod_cases3)
    have u: "dealloc_row clients wg wr = g_wr ?s" "dealloc_row clients rg rd = g_rd ?s"
      using dealloc_undoes [OF a _ assms(3)] dealloc_undoes [OF b _ assms(3)] by simp_all
    have e: "(r, t) = (if r2 \<noteq> 0 then (r2, ?s) else if r3 \<noteq> 0 then (r3, ?s) else (0, ?s\<lparr>g_wr := wr, g_rd := rd, g_ref := g_ref ?s + 1\<rparr>))"
    proof -
      have "?s\<lparr>g_wr := g_wr ?s\<rparr> = ?s" "?s\<lparr>g_wr := g_wr ?s, g_rd := g_rd ?s\<rparr> = ?s" by simp_all
      then show ?thesis using assms(4) True z a b u by (auto simp: dx_sgdma_init_def Let_def split: if_splits)
    qed
    show ?thesis using e z alloc_row_spec(6) [OF a] alloc_row_spec(6) [OF b] by (auto split: if_splits)
  qed
qed

text \<open>A device with more than four channels in a direction can not be used at all.\<close>

lemma alloc_row_small: "fst (alloc_row request dev is row got) = 0 \<Longrightarrow> \<forall>i \<in> set is. i < 4"
proof (induction "is" arbitrary: row got)
  case (Cons i "is")
  then show ?case by (cases "i < 4") (auto simp: dw_edma_dma_allocation_def Let_def split: prod.splits if_splits)
qed simp

lemma fifth_channel_blocks:
  assumes "4 < wr_ch_cnt R" "g_ref (rw_wait R s) = 0"
  shows "fst (dx_sgdma_init R request clients ids s) \<noteq> 0"
proof -
  have "fst (alloc_row request (fst ids) [0..<wr_ch_cnt R] row []) \<noteq> 0" for row
    using alloc_row_small [of request "fst ids" "[0..<wr_ch_cnt R]" row "[]"] assms(1) by force
  then show ?thesis using assms(2) by (auto simp: dx_sgdma_init_def Let_def split: prod.split) (metis fst_conv)
qed

text \<open>The calls on a device, in any order; whatever else happens leaves users and channels alone.\<close>

inductive sg_reach :: "rworld \<Rightarrow> (nat \<Rightarrow> nat) \<Rightarrow> sgdev \<Rightarrow> bool" for R clients where
  start: "g_ref s = 0 \<Longrightarrow> \<forall>i. g_wr s i = None \<and> g_rd s i = None \<Longrightarrow> sg_reach R clients s"
| init: "sg_reach R clients s \<Longrightarrow> sg_reach R clients (snd (dx_sgdma_init R request clients ids s))"
| deinit: "sg_reach R clients s \<Longrightarrow> sg_reach R clients (dx_sgdma_deinit R clients s)"
| reset: "sg_reach R clients s \<Longrightarrow> dx_pcie_reset_dma_channels R s = Some (r, t) \<Longrightarrow> sg_reach R clients t"
| other: "sg_reach R clients s \<Longrightarrow> g_ref t = g_ref s \<Longrightarrow> g_wr t = g_wr s \<Longrightarrow> g_rd t = g_rd s \<Longrightarrow> sg_reach R clients t"

lemma users_ok_cong: "g_ref t = g_ref s \<Longrightarrow> g_wr t = g_wr s \<Longrightarrow> g_rd t = g_rd s \<Longrightarrow> users_ok R t = users_ok R s"
  by (simp add: users_ok_def)

lemma init_users:
  assumes "fair_lock R" "users_ok R s" "\<forall>c. 0 < clients c"
  shows "users_ok R (snd (dx_sgdma_init R request clients ids s))"
proof -
  obtain r t where i: "dx_sgdma_init R request clients ids s = (r, t)" by fastforce
  have "users_ok R (rw_wait R s)" using assms(1,2) by (simp add: fair_lock_def)
  then show ?thesis using init_outcome [OF assms(1-3) i] assms(2) i by (auto simp: users_ok_def split: if_splits)
qed

lemma deinit_users:
  assumes "fair_lock R" "users_ok R s" "\<forall>c. 0 < clients c"
  shows "users_ok R (dx_sgdma_deinit R clients s)"
proof -
  have "users_ok R (rw_wait R s)" using assms(1,2) by (simp add: fair_lock_def)
  moreover have "dw_edma_dma_deallocation clients x = None" for x using assms(3) by (simp add: dw_edma_dma_deallocation_def split: option.split)
  ultimately show ?thesis using assms(2) by (auto simp: dx_sgdma_deinit_def users_ok_def dealloc_row_def Let_def)
qed

definition fair_users :: "rworld \<Rightarrow> bool" where
  "fair_users R \<longleftrightarrow> (\<forall>s. users_ok R s \<longrightarrow> users_ok R (rw_sleep R s))"

lemma same_users: "same_but_chans s t \<Longrightarrow> users_ok R t = users_ok R s"
  by (cases s; cases t) (simp add: same_but_chans_def users_ok_def)

lemma stuck_users: "users_ok R (snd (any_stuck R s)) = users_ok R s"
  by (simp add: any_stuck_def users_ok_def Let_def split: prod.split)

lemma reset_locked_users:
  assumes "fair_users R" "users_ok R s" "reset_locked R s = Some (r, t)"
  shows "users_ok R t"
proof -
  define s0 where "s0 = fold flag_error [0..<ch_cnt R] (s\<lparr>g_epoch := g_epoch s + 1, g_state := DEV_RECOVERING\<rparr>)"
  define s1 where "s1 = rw_sleep R s0"
  obtain err s2 where t: "terminate_each R 0 (map (g_wr s1) [0..<wr_ch_cnt R] @ map (g_rd s1) [0..<rd_ch_cnt R]) 0 s1 = (err, s2)" by fastforce
  define s3 where "s3 = fold (safety_drain R) [0..<ch_cnt R] s2"
  obtain err2 s4 where s4: "reset_stuck R err s3 = Some (err2, s4)" "g_ref t = g_ref s4" "g_wr t = g_wr s4" "g_rd t = g_rd s4"
    using assms(3) t unfolding reset_locked_def Let_def s0_def [symmetric] s1_def [symmetric]
    by (auto simp: s3_def split: option.splits)
  have flags: "same_but_chans u (fold flag_error is u)" for "is" u
  proof (induction "is" arbitrary: u)
    case (Cons i "is")
    then show ?case using same_chans_trans [of u "flag_error i u"] same_on_nth by (simp add: flag_error_def)
  qed (simp add: same_but_chans_def)
  have "users_ok R s0"
    using same_users [OF flags [of "s\<lparr>g_epoch := g_epoch s + 1, g_state := DEV_RECOVERING\<rparr>"]] assms(2) by (simp add: s0_def users_ok_def)
  then have "users_ok R s1" using assms(1) by (simp add: fair_users_def s1_def)
  then have "users_ok R s3" using same_users [of s1 s2 R] same_users [OF drain_frame [of s2 R "[0..<ch_cnt R]"], of R] terminate_each_frame [OF t] by (simp add: s3_def)
  moreover have "users_ok R s4 = users_ok R s3" using reset_stuck_frame [OF s4(1)] by (metis users_ok_cong sgdev.select_convs(4,6,7) sgdev.surjective sgdev.update_convs(11))
  ultimately show ?thesis using users_ok_cong [OF s4(2-4)] by simp
qed


section \<open>A buffer and a device\<close>

text \<open>Four bytes over a page boundary, in the frames 1 and 2.\<close>

definition example_user :: uworld where
  "example_user = \<lparr>uw_table = True, uw_array = True, uw_pin = (\<lambda>buf nr w. if nr = 2 then (2, [1, 2]) else (- EFAULT, []))\<rparr>"

lemma example_user_pins: "pins_pages example_user"
  using order_trans [of "- 14" 0 "uint _"] by (auto simp: pins_pages_def example_user_def)

lemma example_pages: "pages_nr 0x1FFE 4 = 2"
  by (simp add: pages_nr_def)

lemma example_pinned: "uw_pin example_user 0x1FFE 2 w = (2, [1, 2])"
  by (simp add: example_user_def)

lemma example_list:
  "char_sgdma_map_user_buf_to_sgl example_user 0x1FFE 4 write fresh_umap =
    (0, [(0x1FFE, 2), (0x2000, 2)], \<lparr>um_pages = Some [1, 2], um_nr = 2, um_log = [Table_made, Pages_made]\<rparr>)"
proof -
  have "fill_list [1, 2] 0x1FFE 4 = ([(0x1FFE, 2), (0x2000, 2)], 0)" by (simp add: Let_def min_def)
  moreover have "uw_table example_user" "uw_array example_user" by (simp_all add: example_user_def)
  ultimately show ?thesis using example_pages example_pinned
    by (simp add: char_sgdma_map_user_buf_to_sgl_def note_mem_def fresh_umap_def Let_def del: fill_list.simps)
qed

theorem user_list_exact_witness:
  "\<exists>es m. char_sgdma_map_user_buf_to_sgl example_user 0x1FFE 4 False fresh_umap = (0, es, m) \<and>
    list_bytes es = map (user_byte [1, 2] 0x1FFE) [0..<4]"
  using user_list_exact [OF example_list [of False]] example_list [of False] example_pages example_pinned by auto


text \<open>A device with two channels in use, on which nothing is stuck.\<close>

definition example_rworld :: rworld where
  "example_rworld = \<lparr>rw_cfg = example_engine_cfg, rw_host = example_host, rw_wait = id, rw_sleep = id, rw_cs = (\<lambda>_ _. 3), rw_reset = (\<lambda>_ _. 0), rw_settle = id\<rparr>"

definition example_sgdev :: sgdev where
  "example_sgdev = \<lparr>g_state = DEV_LIVE, g_link = LINK_UP, g_paused = False, g_ref = 1, g_epoch = 0, g_wr = Some, g_rd = (\<lambda>i. Some (4 + i)),
     g_chan = (\<lambda>_. example_transfer), g_wr_use = (\<lambda>_. True), g_rd_use = (\<lambda>_. True), g_end = example_endpoint\<rparr>"

lemma scan_idle:
  "v_regs (vol e) = (\<lambda>_. 0) \<Longrightarrow> \<exists>e'. run_state (scan_chans example_engine_cfg cs) e = (False, e')"
proof (induction cs arbitrary: e)
  case (Cons c cs)
  have r: "ch_cs (readl (\<lambda>_. 0) a) = 0" for a by (simp add: readl_def le32_def ch_cs_def)
  obtain e1 where e1: "run_state (dw_edma_v0_core_ch_status_raw example_engine_cfg c) e = (0, e1)" "v_regs (vol e1) = (\<lambda>_. 0)"
    using Cons.prems r by (simp add: dw_edma_v0_core_ch_status_raw_def GET_CH_32_def GET_32_def look_def example_engine_cfg_def Let_def)
  obtain e2 where "run_state (scan_chans example_engine_cfg cs) e1 = (False, e2)" using Cons.IH [OF e1(2)] by blast
  then show ?case using e1(1) by simp
qed simp

lemma example_not_stuck: "g_end s = example_endpoint \<Longrightarrow> \<exists>t. any_stuck example_rworld s = (False, t)"
proof -
  assume g: "g_end s = example_endpoint"
  obtain e where "run_state (scan_chans example_engine_cfg (all_chans example_engine_cfg)) example_engine = (False, e)"
    using scan_idle [of example_engine "all_chans example_engine_cfg"] by (auto simp: example_engine_def)
  then show ?thesis using g by (simp add: any_stuck_def on_engine_def example_rworld_def example_endpoint_def)
qed

lemma example_reset: "\<exists>r t. dx_pcie_reset_dma_channels example_rworld example_sgdev = Some (r, t)"
proof -
  let ?R = example_rworld
  define s1 where "s1 = fold flag_error [0..<8] (example_sgdev\<lparr>g_epoch := 1, g_state := DEV_RECOVERING\<rparr>)"
  obtain err s2 where t: "terminate_each ?R 0 (map (g_wr s1) [0..<4] @ map (g_rd s1) [0..<4]) 0 s1 = (err, s2)" by fastforce
  have flags: "g_end (fold flag_error is u) = g_end u" for "is" u by (induction "is" arbitrary: u) (simp_all add: flag_error_def on_nth_def)
  have same: "g_end v = g_end u" if "same_but_chans u v" for u v using that by (cases u; cases v) (simp add: same_but_chans_def)
  have "g_end (fold (safety_drain ?R) [0..<8] s2) = example_endpoint"
    using same [OF drain_frame [of s2 ?R "[0..<8]"]] same [of s1 s2] terminate_each_frame [OF t] flags by (simp add: s1_def example_sgdev_def)
  then obtain u where "any_stuck ?R (fold (safety_drain ?R) [0..<8] s2) = (False, u)" using example_not_stuck by blast
  then have "reset_stuck ?R err (fold (safety_drain ?R) [0..<8] s2) = Some (err, u)" by (simp add: reset_stuck_def)
  moreover have c: "rw_wait ?R = id" "rw_sleep ?R = id" "wr_ch_cnt ?R = 4" "rd_ch_cnt ?R = 4" by (simp_all add: example_rworld_def example_engine_cfg_def)
  moreover have "g_state example_sgdev = DEV_LIVE" "\<not> transport_owns example_sgdev" "g_ref example_sgdev = 1" "g_epoch example_sgdev + 1 = 1"
    by (simp_all add: example_sgdev_def transport_owns_def)
  ultimately have "\<exists>p. dx_pcie_reset_dma_channels ?R example_sgdev = Some p"
    using t by (simp add: dx_pcie_reset_dma_channels_def reset_locked_def s1_def [symmetric] Let_def)
  then show ?thesis by auto
qed

theorem reset_cleans_channels_witness:
  "\<exists>r t. dx_pcie_reset_dma_channels example_rworld example_sgdev = Some (r, t) \<and> g_state t = DEV_LIVE \<and> g_epoch t = 1 \<and>
    cleared (g_chan t 7) \<and> \<not> g_rd_use t 3"
proof -
  obtain r t where p: "dx_pcie_reset_dma_channels example_rworld example_sgdev = Some (r, t)" using example_reset by blast
  have "fair_sleep example_rworld" "g_state example_sgdev \<noteq> DEV_REMOVING" "\<not> transport_owns example_sgdev"
    "\<not> transport_owns (rw_wait example_rworld example_sgdev)" "g_ref (rw_wait example_rworld example_sgdev) \<noteq> 0"
    "once_only (rw_wait example_rworld example_sgdev)"
    by (simp_all add: fair_sleep_def example_rworld_def example_sgdev_def transport_owns_def once_only_def no_reuse_def example_transfer_def
        example_dchan_def chan_init_def vchan_init_def dma_cookie_init_def)
  from reset_cleans_channels [OF this p] p show ?thesis
    by (simp add: example_rworld_def example_engine_cfg_def example_sgdev_def)
qed

text \<open>A kernel with two DMA devices of four channels each, and a device that nobody uses yet.\<close>

definition example_request :: "(int \<times> string \<Rightarrow> bool) \<Rightarrow> nat option" where
  "example_request f = find (\<lambda>k. f (int (k div 4), ''dma'' @ decimal (k div 4) @ ''chan'' @ decimal (k mod 4))) [0..<8]"

lemma example_alloc:
  assumes "dev \<le> 1" "i < 4"
  shows "\<exists>c. dw_edma_dma_allocation example_request (int dev) (int i) slot = (0, Some c)"
proof -
  have "4 * dev + i \<in> set [0..<8]" "(4 * dev + i) div 4 = dev" "(4 * dev + i) mod 4 = i" using assms by auto
  then have "example_request (dw_edma_ch_filter_optimized (int dev) (''dma'' @ decimal dev @ ''chan'' @ decimal i)) \<noteq> None"
    unfolding example_request_def find_None_iff dw_edma_ch_filter_optimized_def by force
  then show ?thesis using assms by (auto simp: dw_edma_dma_allocation_def)
qed

lemma alloc_row_succeeds:
  "\<forall>i \<in> set is. \<forall>slot. \<exists>c. dw_edma_dma_allocation request dev (int i) slot = (0, Some c) \<Longrightarrow> fst (alloc_row request dev is row got) = 0"
proof (induction "is" arbitrary: row got)
  case (Cons i "is")
  obtain c where "dw_edma_dma_allocation request dev (int i) (row i) = (0, Some c)"
    using Cons.prems by (meson list.set_intros(1))
  then show ?case using Cons by (simp add: Let_def)
qed simp


end
