(* ===== verification/Spec2Isabelle.thy ===== *)
theory Spec2Isabelle
  imports Dx_System Dx_Sgdma
begin

text \<open>
  Verification of the DEEPX NPU Linux driver (\<^verbatim>\<open>src/modules\<close>).

  \<^bold>\<open>The program.\<close>  Two kernel modules serve an NPU behind PCIe.  The PCIe module
  (\<^verbatim>\<open>pci_deepx\<close>) owns the device: its DMA engine, the message RAM that it shares with the firmware, the
  interrupts and the watch over the link.  The runtime module (\<^verbatim>\<open>rt\<close>) is what a client opens: one
  character device per NPU whose ioctl carries a message to one of 32 command handlers.  The two
  meet in the functions of \<^verbatim>\<open>include/dx_message.h\<close>: areas of message RAM, response and event queues,
  doorbells, and three callbacks by which the PCIe module reports a response, an event and a
  change of the link.  A lost link or a rebooted firmware starts a recovery, at the end of which a
  worker asks the firmware whether it is alive and admits the clients again.

  \<^bold>\<open>How it is modelled.\<close>  A thread's call is a function from the state of the device to a result and a
  new state, \<open>None\<close> for a call that does not come back.  The state is one record that grows along the
  theories: \<open>io\<close> (the mapped region as bytes, the clock, user memory), \<open>pcie\<close> (the PCIe module's
  message layer), \<open>linkh\<close> (the watch over the link), \<open>dxdev\<close> (the runtime device).  Pointers into the
  mapped region are byte offsets, \<open>None\<close> for NULL.  Everything that runs beside a call (firmware,
  interrupts, other threads, the clock) is an environment function that \<open>yield\<close> applies at each point
  where the code sleeps, polls or takes a mutex; it is arbitrary, so a theorem about a call holds for every
  interleaving at these points.  \<open>world\<close> collects the environment with the module parameters and the
  functions of parts that are not modelled.  Machine words keep their width.

  \<^bold>\<open>The theories.\<close>
  \<^item> \<open>Dx_Prelude\<close>: results, errno, iteration lemmas, the locales \<open>trans_inv\<close> (invariants of a step
    relation) and \<open>sleeping_loop\<close> (a loop that tests and sleeps), and the shared word lemmas.
  \<^item> \<open>Dx_Mmio\<close>: \<^verbatim>\<open>dx_mmio_compat.h\<close>; the accesses of the copy helpers and the memory they leave.
  \<^item> \<open>Dx_Fifo\<close>: the contract of a bounded queue, as a locale; \<open>Dx_Rings\<close> shows that the event queue and
    the response pools of \<^verbatim>\<open>dx_message.c\<close> keep it.
  \<^item> \<open>Dx_Queue\<close>: \<^verbatim>\<open>dxrt_drv_queue.c\<close>; the request ring in message RAM refines appending to a list.
  \<^item> \<open>Dx_Sched\<close>: \<^verbatim>\<open>dxrt_sched.c\<close>; the reference-counted bindings.
  \<^item> \<open>Dx_Dlmsg\<close>: \<^verbatim>\<open>dxrt_drv_dl.c\<close>; the download area and its readiness contract.
  \<^item> \<open>Dx_Pcie\<close>: \<^verbatim>\<open>dx_message.c\<close>, \<^verbatim>\<open>dx_cdev_events.c\<close> and parts of \<^verbatim>\<open>dx_util.c\<close>; areas, queues, doorbells and
    interrupt waits.
  \<^item> \<open>Dx_LinkHealth\<close>: \<^verbatim>\<open>dx_link_health.c\<close>; sampling, quiescing and rate-limited recovery of the link.
  \<^item> \<open>Dx_Device\<close>: \<^verbatim>\<open>dxrt_drv.h\<close> and the first part of \<^verbatim>\<open>dxrt_drv_message.c\<close>; the device object, the copies
    through the bounce buffer, the acknowledgement poll and the gate on the state.
  \<^item> \<open>Dx_Recovery\<close>: \<^verbatim>\<open>dxrt_drv_recovery.c\<close>; the recovery state machine and the readiness worker.
  \<^item> \<open>Dx_Command\<close>, \<open>Dx_Memory\<close>, \<open>Dx_Inference\<close>, \<open>Dx_Firmware\<close>, \<open>Dx_Events\<close>: the handlers of
    \<^verbatim>\<open>dxrt_drv_message.c\<close>, in this order: mailbox exchange, identify and schedule; direct memory access;
    submission and responses; firmware images and log; events and driver information.
  \<^item> \<open>Dx_Dispatch\<close>: the recovery command, the command table and the gate in front of it.
  \<^item> \<open>Dx_Cdev\<close>: \<^verbatim>\<open>dxrt_drv_cdev.c\<close>; file operations, loading and unloading.
  \<^item> \<open>Dx_System\<close>: the invariant of the device object, that every entry point keeps it, and the step
    relation of the whole.  This theory adds the properties that need all of it.

  \<^bold>\<open>What is shown.\<close>  The ring, the event queue and the response pools behave as bounded queues; the copy
  helpers are byte exact; the wait loops end when the clock runs, and their results say what was last
  seen; a worker that has been overtaken changes nothing; each new recovery overtakes the running
  one; failures become permanent at the configured count; a firmware that answers brings the device
  back; a command that finds the device not ready is refused without a trace; transfers stay in the
  memory window as long as the addresses do not wrap; the device invariant holds in every reachable
  state.  Where the code falls short of this, a theorem shows it by an instance.

  \<^bold>\<open>Choices.\<close>  The model follows the accelerator build (\<^verbatim>\<open>IS_ACCELERATOR\<close> 1, \<^verbatim>\<open>IS_STANDALONE\<close> 0); branches
  for a standalone device are the parameter \<open>w_std\<close>.  Loops that wait for a condition are
  \<open>partial_function (option)\<close>, so a wait that never ends is \<open>None\<close>; polls with a counter recurse on it
  and need no fuel.  The unlocked read of \<open>dev->msg\<close> happens once at the start of a handler.  Locks held for
  a straight piece of code are not represented: the piece is one step.  A string that the driver
  copies with \<open>strscpy\<close> keeps the bytes after its end.

  \<^bold>\<open>Not modelled.\<close>  The DMA engine below \<open>dx_sgdma\<close> (\<^verbatim>\<open>dw-edma-*.c\<close>, \<^verbatim>\<open>dx_sgdma.c\<close>, \<^verbatim>\<open>virt-dma.c\<close>): transfers are
  parameters of \<open>world\<close>.  Probing, BAR mapping, sysfs, debugfs and control nodes of the PCIe module; the
  standalone NPU (\<^verbatim>\<open>dxrt_drv_npu*.c\<close>, \<^verbatim>\<open>dxrt_drv_thread.c\<close>); generated register headers; scripts and tools.
\<close>

section \<open>Properties that span the components\<close>

text \<open>
  (C2) Clients are shut out during a recovery.  In every state that an interleaving of calls, work
  items, interrupts and link events reaches from a well-formed one, a device that is recovering
  answers every command other than the event, information and termination commands with
  \<open>ENODATA\<close> and is not touched by it.
\<close>

theorem recovering_blocks_commands:
  assumes "world_ok W" "dev_ok s" "(dev_step W)\<^sup>*\<^sup>* s t"
    and "recovering t" "dtype t \<noteq> 1" "m_cmd u \<in> {0..<32} - {17, 18, 19, 28, 31}"
  shows "message_handler_general W u t = Some (- 61, t)"
proof -
  have "dev_ok t" using system.run_inv [OF assms(3)] assms(1,2) by blast
  then have i: "in_transition t" using assms(4) by (simp add: dev_ok_def)
  then have "dev_state t \<noteq> STATE_READY" "state_errno (dev_state t) = - 61" by (auto simp: in_transition_def)
  then show ?thesis using not_ready_gate [OF assms(5) _ assms(6)] i by auto
qed

theorem recovering_blocks_commands_witness:
  "message_handler_general example_world \<lparr>m_cmd = 22, m_sub_cmd = 0, m_data = 0, m_size = 0\<rparr>
     (dx_pcie_notify_link_event dxrt_link_event_notify False (example_dev\<lparr>link_event_callback := True\<rparr>)) =
   Some (- 61, dx_pcie_notify_link_event dxrt_link_event_notify False (example_dev\<lparr>link_event_callback := True\<rparr>))"
proof -
  let ?s = "example_dev\<lparr>link_event_callback := True\<rparr>" and ?u = "\<lparr>m_cmd = 22, m_sub_cmd = 0, m_data = 0, m_size = 0\<rparr>"
  let ?t = "dx_pcie_notify_link_event dxrt_link_event_notify False ?s"
  have "dtype ?s \<noteq> 1" "dev_state ?s \<noteq> STATE_PERM_FAIL" "idx ?s < 64" by (simp_all add: example_defs)
  then have "recovering ?t" "dtype ?t \<noteq> 1"
    by (simp_all add: dx_pcie_notify_link_event_def link_down_begin recovery_begin_queues)
  moreover have "dev_ok ?s" using example_ok(2) by (simp add: dev_ok_def in_transition_def)
  moreover have "(dev_step example_world)\<^sup>*\<^sup>* ?s ?t" by (rule r_into_rtranclp, rule link_event)
  ultimately show ?thesis
    using recovering_blocks_commands [of example_world ?s ?t ?u] example_ok(1) by simp
qed

lemma link_flap_state:
  assumes "dtype s \<noteq> 1" "dev_state s \<noteq> STATE_PERM_FAIL"
  shows "dev_state (dxrt_link_event_notify True (recovery_begin 1 s)) = STATE_TRANSPORT_OK"
    "ready_work (dxrt_link_event_notify True (recovery_begin 1 s))"
    "recovery_epoch (dxrt_link_event_notify True (recovery_begin 1 s)) = recovery_epoch s + 1"
    "last_recovery_reason (dxrt_link_event_notify True (recovery_begin 1 s)) = 1"
  using assms
  by (simp_all add: dxrt_link_event_notify_def dxrt_bind_pcie_resources_def Let_def recovery_begin_queues
      dx_pcie_set_init_completed_def)

text \<open>
  (C3) A link that flaps comes back.  The loss empties the schedule and starts a recovery; the return
  queues the worker; when the firmware publishes its mailbox, or has no download area, and answers
  the probe, the worker ends with the device ready, the clients admitted and the recovery of this
  very loss still the current one.
\<close>

theorem link_flap_recovers:
  assumes "dtype s \<noteq> 1" "dev_state s \<noteq> STATE_PERM_FAIL" "dx_dev_list_get s"
    and "d = dxrt_link_event_notify False s" "u = dxrt_link_event_notify True d"
    and "dl u = None \<or> dx_dlmsg_mailbox_ready (dl u) (bar u)"
    and "fw_ping_probe W (w_ping_timeout_ms W) (recovery_epoch u) (u\<lparr>ready_work := False\<rparr>) = Some (0, p)"
  shows "recovering d \<and> flushed d \<and> superseded (recovery_epoch s) d \<and> ready_work u \<and>
    (\<exists>v. dxrt_recovery_ready_work_fn W (u\<lparr>ready_work := False\<rparr>) = Some v \<and> dev_state v = STATE_READY \<and>
       dxrt_dev_state_errno v = 0 \<and> \<not> recovering v \<and> recovery_epoch v = recovery_epoch s + 1)"
proof -
  have d: "d = recovery_begin 1 s" using assms(1,2,4) link_down_begin by simp
  note u = link_flap_state [OF assms(1,2), folded d assms(5)]
  have "\<exists>v. dxrt_recovery_ready_work_fn W (u\<lparr>ready_work := False\<rparr>) = Some v \<and> dev_state v = STATE_READY \<and>
      dxrt_dev_state_errno v = 0 \<and> \<not> recovering v \<and> recovery_count v = recovery_count p + 1 \<and>
      recovery_epoch v = recovery_epoch (u\<lparr>ready_work := False\<rparr>)"
    using assms(6,7) u by (intro answering_worker) simp_all
  then show ?thesis using u recovery_begin_flushed [OF assms(3)] by (auto simp: d superseded_def)
qed

definition flap_dev :: dxdev where
  "flap_dev = example_dev\<lparr>bar := ready_ram, ep_ram_info := (ep_ram_info example_dev)\<lparr>base_offs := 0x7000, dl_offs := 0xFFC0\<rparr>\<rparr>"

theorem link_flap_recovers_witness:
  "\<exists>v. dxrt_recovery_ready_work_fn pong_world ((dxrt_link_event_notify True
       (dxrt_link_event_notify False flap_dev))\<lparr>ready_work := False\<rparr>) = Some v \<and>
     dev_state v = STATE_READY"
proof -
  let ?s = flap_dev
  define d where "d = dxrt_link_event_notify False ?s"
  define u where "u = dxrt_link_event_notify True d"
  have s: "dtype ?s \<noteq> 1" "dev_state ?s \<noteq> STATE_PERM_FAIL" "dx_dev_list_get ?s" "ping_seq_gen ?s = 0" "dx_ver ?s = 3"
      "base_offs (ep_ram_info ?s) = 28672" "dl_offs (ep_ram_info ?s) = 65472"
      "bar ?s = ready_ram"
    unfolding flap_dev_def by (simp_all add: example_defs dx_dev_list_get_def)
  then have d: "d = recovery_begin 1 ?s" by (simp add: d_def link_down_begin)
  have u: "msg u = Some 28672" "dl u = Some 65472" "bar u = ready_ram" "ping_seq_gen u = 0" "dx_dev_list_get u" "dx_ver u = 3"
    using s unfolding u_def d
    by (simp_all add: dxrt_link_event_notify_def dxrt_bind_pcie_resources_def Let_def recovery_begin_queues
        dx_pcie_set_init_completed_def dx_dev_list_get_def dx_pcie_get_message_area_def dx_pcie_get_dl_area_def)
  note f = link_flap_state [OF s(1,2), folded d u_def]
  obtain t where "fw_ping_probe pong_world 500 (recovery_epoch u) (u\<lparr>ready_work := False\<rparr>) = Some (0, t)"
    using pong_answers [of "u\<lparr>ready_work := False\<rparr>" "recovery_epoch u"] u f
    by (auto simp: superseded_def dx_dev_list_get_def)
  moreover have "w_ping_timeout_ms pong_world = 500" by (simp add: example_world_def)
  ultimately show ?thesis
    using link_flap_recovers [OF s(1-3) d_def u_def, of pong_world t] u ready_ram_ready
    unfolding d_def u_def by auto
qed

end
